(* ===== verification/Prelude.thy ===== *)
theory Prelude
  imports Complex_Main "HOL-Library.Word" "HOL-Library.Finite_Map"
begin

text \<open>
  What every component of the development shares: results that carry the failed check,
  the C++ integer types at their width, and the key/row tables of the contracts with the
  sums over their rows that the conservation properties are about.
\<close>

named_theorems res_simps "decomposition of successful results"
named_theorems tab_simps "sums over table rows"

section \<open>Results\<close>

text \<open>
  An action that fails aborts the transaction. The error says why: a failed
  \<open>check\<close> with its message, a missing authorization, or a trap of the virtual machine
  (division by zero, a conversion out of range, an end iterator dereferenced).
\<close>

datatype error = Check string | Missing_authority | Trap string

type_synonym 'a res = "error + 'a"

definition bindE :: "'a res \<Rightarrow> ('a \<Rightarrow> 'b res) \<Rightarrow> 'b res" where
  "bindE m f = (case m of Inl e \<Rightarrow> Inl e | Inr x \<Rightarrow> f x)"

definition check :: "bool \<Rightarrow> string \<Rightarrow> unit res" where
  "check c msg = (if c then Inr () else Inl (Check msg))"

definition trap_unless :: "bool \<Rightarrow> string \<Rightarrow> unit res" where
  "trap_unless c msg = (if c then Inr () else Inl (Trap msg))"

definition some_or :: "error \<Rightarrow> 'a option \<Rightarrow> 'a res" where
  "some_or e x = (case x of None \<Rightarrow> Inl e | Some y \<Rightarrow> Inr y)"

lemma bindE_simps [simp]:
  "bindE (Inl e) f = Inl e"
  "bindE (Inr x) f = f x"
  by (simp_all add: bindE_def)

lemma bindE_eq_Inr [simp, res_simps]: "bindE m f = Inr y \<longleftrightarrow> (\<exists>x. m = Inr x \<and> f x = Inr y)"
  by (cases m) simp_all

lemma bindE_eq_Inl [res_simps]:
  "bindE m f = Inl e \<longleftrightarrow> m = Inl e \<or> (\<exists>x. m = Inr x \<and> f x = Inl e)"
  by (cases m) simp_all

lemma check_eq_Inr [simp, res_simps]: "check c msg = Inr u \<longleftrightarrow> c"
  by (simp add: check_def)

lemma check_eq_Inl [simp]: "check c msg = Inl e \<longleftrightarrow> \<not> c \<and> e = Check msg"
  by (auto simp: check_def)

lemma trap_unless_eq_Inr [simp, res_simps]: "trap_unless c msg = Inr u \<longleftrightarrow> c"
  by (simp add: trap_unless_def)

lemma some_or_eq_Inr [simp, res_simps]: "some_or e x = Inr y \<longleftrightarrow> x = Some y"
  by (simp add: some_or_def split: option.split)

lemma check_True [simp]: "check True msg = Inr ()"
  by (simp add: check_def)

lemma check_False [simp]: "check False msg = Inl (Check msg)"
  by (simp add: check_def)

lemma trap_unless_True [simp]: "trap_unless True msg = Inr ()"
  by (simp add: trap_unless_def)

lemma trap_unless_False [simp]: "trap_unless False msg = Inl (Trap msg)"
  by (simp add: trap_unless_def)

lemma some_or_simps [simp]: "some_or e (Some y) = Inr y" "some_or e None = Inl e"
  by (simp_all add: some_or_def)

lemma bindE_cong [fundef_cong]:
  assumes "m = m'" and "\<And>x. m' = Inr x \<Longrightarrow> f x = g x"
  shows "bindE m f = bindE m' g"
  using assms by (cases m') simp_all

section \<open>Machine integers\<close>

text \<open>
  Integers of the C++ code are mathematical integers brought back to their width after
  each operation that can leave it: \<open>i64\<close> is the two's complement value the WebAssembly
  machine computes for \<open>int64_t\<close>, \<open>u16\<close>, \<open>u32\<close>, \<open>u64\<close> and \<open>u128\<close> the unsigned
  ones. Division truncates towards zero.
\<close>

definition i64 :: "int \<Rightarrow> int" where
  "i64 x = (x + 2 ^ 63) mod 2 ^ 64 - 2 ^ 63"

definition u16 :: "int \<Rightarrow> int" where
  "u16 x = x mod 2 ^ 16"

definition u32 :: "int \<Rightarrow> int" where
  "u32 x = x mod 2 ^ 32"

definition u64 :: "int \<Rightarrow> int" where
  "u64 x = x mod 2 ^ 64"

definition u128 :: "int \<Rightarrow> int" where
  "u128 x = x mod 2 ^ 128"

definition is_i64 :: "int \<Rightarrow> bool" where
  "is_i64 x \<longleftrightarrow> - (2 ^ 63) \<le> x \<and> x < 2 ^ 63"

definition tdiv :: "int \<Rightarrow> int \<Rightarrow> int" where
  "tdiv a b = sgn a * sgn b * (\<bar>a\<bar> div \<bar>b\<bar>)"

text \<open>\<open>int64_t((uint128_t(a) * b) / c)\<close>, trapping when the divisor is zero.\<close>

definition muldiv128 :: "int \<Rightarrow> int \<Rightarrow> int \<Rightarrow> int res" where
  "muldiv128 a b c =
     (if u128 c = 0 then Inl (Trap ''integer divide by zero'')
      else Inr (i64 (u128 (u128 a * u128 b) div u128 c)))"

lemma i64_id: "is_i64 x \<Longrightarrow> i64 x = x"
  by (simp add: i64_def is_i64_def)

lemma i64_range: "is_i64 (i64 x)"
proof -
  have "0 \<le> (x + 2 ^ 63) mod 2 ^ 64" "(x + 2 ^ 63) mod 2 ^ 64 < (2::int) ^ 64"
    by (simp_all del: power_numeral)
  then show ?thesis
    by (simp add: i64_def is_i64_def)
qed

lemma is_i64_nonneg: "0 \<le> x \<Longrightarrow> x < 2 ^ 63 \<Longrightarrow> is_i64 x"
  by (simp add: is_i64_def)

lemma u64_id: "0 \<le> x \<Longrightarrow> x < 2 ^ 64 \<Longrightarrow> u64 x = x"
  by (simp add: u64_def)

lemma u128_id: "0 \<le> x \<Longrightarrow> x < 2 ^ 128 \<Longrightarrow> u128 x = x"
  by (simp add: u128_def)

lemma u32_id: "0 \<le> x \<Longrightarrow> x < 2 ^ 32 \<Longrightarrow> u32 x = x"
  by (simp add: u32_def)

lemma tdiv_nonneg: "0 \<le> a \<Longrightarrow> 0 < b \<Longrightarrow> tdiv a b = a div b"
  by (cases "a = 0") (simp_all add: tdiv_def)

text \<open>
  On non-negative \<open>int64_t\<close> operands the 128-bit product cannot overflow: the operation is
  exact up to the final narrowing.
\<close>

lemma muldiv128_exact:
  assumes "0 \<le> a" "a < 2 ^ 63" "0 \<le> b" "b < 2 ^ 63" "0 < c" "c < 2 ^ 63"
  shows "muldiv128 a b c = Inr (i64 (a * b div c))"
proof -
  have "a * b < 2 ^ 63 * 2 ^ 63"
    using assms by (intro mult_strict_mono') auto
  then have "a * b < 2 ^ 128" by simp
  then show ?thesis
    using assms by (simp add: muldiv128_def u128_id)
qed

section \<open>Tables\<close>

text \<open>
  A \<open>multi_index\<close> table is a finite map from primary keys to rows. Its primary index
  iterates in ascending key order; a secondary index iterates in ascending order of its
  key function and, among equal keys, of the primary key.
\<close>

type_synonym ('k, 'v) table = "('k, 'v) fmap"

definition rows :: "('k::linorder, 'v) table \<Rightarrow> 'v list" where
  "rows t = map snd (sorted_list_of_fmap t)"

definition index_by :: "('v \<Rightarrow> 'i::linorder) \<Rightarrow> ('k::linorder, 'v) table \<Rightarrow> 'v list" where
  "index_by f t = sort_key f (rows t)"

definition first_of :: "'v list \<Rightarrow> 'v option" where
  "first_of xs = (case xs of [] \<Rightarrow> None | x # _ \<Rightarrow> Some x)"

definition emplace :: "'k \<Rightarrow> 'v \<Rightarrow> ('k, 'v) table \<Rightarrow> ('k, 'v) table res" where
  "emplace k v t =
     (case fmlookup t k of
        None \<Rightarrow> Inr (fmupd k v t)
      | Some _ \<Rightarrow> Inl (Trap ''could not insert object, most likely a uniqueness constraint was violated''))"

definition tsum :: "('v \<Rightarrow> int) \<Rightarrow> ('k, 'v) table \<Rightarrow> int" where
  "tsum f t = (\<Sum>k\<in>fset (fmdom t). f (the (fmlookup t k)))"

definition tval :: "('v \<Rightarrow> int) \<Rightarrow> ('k, 'v) table \<Rightarrow> 'k \<Rightarrow> int" where
  "tval f t k = (case fmlookup t k of None \<Rightarrow> 0 | Some v \<Rightarrow> f v)"

lemma first_of_simps [simp]: "first_of [] = None" "first_of (x # xs) = Some x"
  by (simp_all add: first_of_def)

lemma emplace_eq_Inr [simp]: "emplace k v t = Inr t' \<longleftrightarrow> fmlookup t k = None \<and> t' = fmupd k v t"
  by (auto simp: emplace_def split: option.splits)

lemma emplace_new [simp]: "fmlookup t k = None \<Longrightarrow> emplace k v t = Inr (fmupd k v t)"
  by simp

lemma set_rows: "set (rows t) = {v. \<exists>k. fmlookup t k = Some v}"
proof -
  have "set (rows t) = (\<lambda>k. the (fmlookup t k)) ` fset (fmdom t)"
    by (simp add: rows_def sorted_list_of_fmap_def image_image)
  also have "\<dots> = {v. \<exists>k. fmlookup t k = Some v}"
    by (force simp: fmlookup_dom_iff image_iff)
  finally show ?thesis .
qed

lemma set_index_by [simp]: "set (index_by f t) = {v. \<exists>k. fmlookup t k = Some v}"
  by (simp add: index_by_def set_rows)

lemma first_of_index_by:
  "first_of (index_by f t) = Some v \<Longrightarrow> \<exists>k. fmlookup t k = Some v"
proof -
  assume "first_of (index_by f t) = Some v"
  then have "v \<in> set (index_by f t)"
    by (cases "index_by f t") simp_all
  then show ?thesis by simp
qed

lemma first_of_index_by_least:
  assumes "first_of (index_by f t) = Some v" and "fmlookup t k = Some w"
  shows "f v \<le> f w"
proof -
  obtain vs where vs: "index_by f t = v # vs"
    using assms(1) by (cases "index_by f t") simp_all
  have "sorted (map f (v # vs))"
    unfolding vs [symmetric] by (simp add: index_by_def)
  moreover have "w \<in> set (v # vs)"
    unfolding vs [symmetric] using assms(2) by auto
  ultimately show ?thesis by auto
qed

text \<open>Rows that carry their key occur once in an index.\<close>

lemma distinct_index_by:
  assumes "\<And>k v. fmlookup t k = Some v \<Longrightarrow> g v = k"
  shows "distinct (map g (index_by f t))"
proof -
  have "map g (rows t) = map fst (sorted_list_of_fmap t)"
    using assms by (auto simp: rows_def sorted_list_of_fmap_def fmlookup_dom_iff)
  then have d: "distinct (map g (rows t))"
    by (simp add: sorted_list_of_fmap_def o_def sorted_list_of_fset.rep_eq)
  then show ?thesis by (simp add: index_by_def distinct_map)
qed

lemma tval_simps [simp, tab_simps]:
  "fmlookup t k = None \<Longrightarrow> tval f t k = 0"
  "fmlookup t k = Some v \<Longrightarrow> tval f t k = f v"
  by (simp_all add: tval_def)

lemma tval_empty [simp, tab_simps]: "tval f fmempty k = 0"
  by (simp add: tval_def)

lemma tval_upd [simp, tab_simps]: "tval f (fmupd k v t) k' = (if k' = k then f v else tval f t k')"
  by (simp add: tval_def)

lemma tval_drop [simp, tab_simps]: "tval f (fmdrop k t) k' = (if k' = k then 0 else tval f t k')"
  by (simp add: tval_def)

lemma tsum_empty [simp, tab_simps]: "tsum f fmempty = 0"
  by (simp add: tsum_def)

lemma tsum_drop [simp, tab_simps]: "tsum f (fmdrop k t) = tsum f t - tval f t k"
proof (cases "fmlookup t k")
  case None
  then have "k |\<notin>| fmdom t" by (simp add: fmdom_notI)
  then have "fset (fmdom t) - {k} = fset (fmdom t)" by auto
  moreover have "(\<Sum>j\<in>fset (fmdom t) - {k}. f (the (fmlookup (fmdrop k t) j)))
      = (\<Sum>j\<in>fset (fmdom t) - {k}. f (the (fmlookup t j)))"
    by (rule sum.cong) auto
  ultimately show ?thesis
    using None by (simp add: tsum_def)
next
  case (Some v)
  then have k: "k \<in> fset (fmdom t)" by (simp add: fmdomI)
  have "(\<Sum>j\<in>fset (fmdom t) - {k}. f (the (fmlookup (fmdrop k t) j)))
      = (\<Sum>j\<in>fset (fmdom t) - {k}. f (the (fmlookup t j)))"
    by (rule sum.cong) auto
  then show ?thesis
    using Some k by (simp add: tsum_def sum.remove [OF _ k])
qed

lemma tsum_upd [simp, tab_simps]: "tsum f (fmupd k v t) = tsum f t - tval f t k + f v"
proof -
  have "tsum f (fmupd k v t) = f v + (\<Sum>j\<in>fset (fmdom t) - {k}. f (the (fmlookup (fmupd k v t) j)))"
    by (simp add: tsum_def sum.insert_remove)
  also have "(\<Sum>j\<in>fset (fmdom t) - {k}. f (the (fmlookup (fmupd k v t) j)))
      = tsum f (fmdrop k t)"
    unfolding tsum_def by (rule sum.cong) auto
  finally show ?thesis by simp
qed

lemma tsum_nonneg: "(\<And>k v. fmlookup t k = Some v \<Longrightarrow> 0 \<le> f v) \<Longrightarrow> 0 \<le> tsum f t"
  unfolding tsum_def by (rule sum_nonneg) (auto simp: fmlookup_dom_iff)

lemma tval_le_tsum:
  assumes "\<And>k v. fmlookup t k = Some v \<Longrightarrow> 0 \<le> f v"
  shows "tval f t k \<le> tsum f t"
proof -
  have "0 \<le> tsum f (fmdrop k t)"
    by (rule tsum_nonneg) (auto split: if_splits dest: assms)
  then show ?thesis by simp
qed

lemma tsum_cong:
  "(\<And>k v. fmlookup t k = Some v \<Longrightarrow> f v = g v) \<Longrightarrow> tsum f t = tsum g t"
  unfolding tsum_def by (rule sum.cong) (auto simp: fmlookup_dom_iff)

lemma tsum_add: "tsum (\<lambda>v. f v + g v) t = tsum f t + tsum g t"
  by (simp add: tsum_def sum.distrib)

end
