(* ===== verification/Double.thy ===== *)
theory Double
  imports Prelude "HOL-Library.Log_Nat"
begin

text \<open>
  The binary64 arithmetic the market and voting code computes with. A finite double is a
  rational number; every operation of the code is the exact operation followed by one
  rounding to 53 significant bits, to nearest with ties to even. The values of this code are
  products and quotients of 64-bit integers and stakes scaled by less than \<open>2 ^ 1000\<close>, so the
  exponent range (overflow to infinity, subnormal numbers) is not modelled; a division by
  zero and a conversion out of range, which the chain turns into an abort, are.
\<close>

type_synonym double = rat

section \<open>Rounding\<close>

text \<open>The exponent of the leading bit of a positive rational.\<close>

definition lead_exp :: "rat \<Rightarrow> int" where
  "lead_exp x =
     (let (n, d) = quotient_of x; e = bitlen n - bitlen d
      in if 2 powi e \<le> x then e else e - 1)"

definition round_half_even :: "rat \<Rightarrow> int" where
  "round_half_even x =
     (let f = \<lfloor>x\<rfloor>; r = x - of_int f
      in if r < 1 / 2 then f else if 1 / 2 < r then f + 1
         else if even f then f else f + 1)"

definition rnd :: "rat \<Rightarrow> double" where
  "rnd x =
     (if x = 0 then 0
      else let ulp = 2 powi (lead_exp \<bar>x\<bar> - 52)
           in of_int (round_half_even (x / ulp)) * ulp)"

definition dbl :: "int \<Rightarrow> double" where
  "dbl n = rnd (of_int n)"

definition dadd :: "double \<Rightarrow> double \<Rightarrow> double" where
  "dadd x y = rnd (x + y)"

definition dsub :: "double \<Rightarrow> double \<Rightarrow> double" where
  "dsub x y = rnd (x - y)"

definition dmul :: "double \<Rightarrow> double \<Rightarrow> double" where
  "dmul x y = rnd (x * y)"

definition ddiv :: "double \<Rightarrow> double \<Rightarrow> double" where
  "ddiv x y = rnd (x / y)"

text \<open>Conversion to \<open>int64_t\<close>: towards zero, aborting when the result has no \<open>int64_t\<close>.\<close>

definition truncate_rat :: "rat \<Rightarrow> int" where
  "truncate_rat x = (if 0 \<le> x then \<lfloor>x\<rfloor> else - \<lfloor>- x\<rfloor>)"

definition dbl_to_i64 :: "double \<Rightarrow> int res" where
  "dbl_to_i64 x =
     (let n = truncate_rat x in
      if is_i64 n then Inr n else Inl (Trap ''conversion to int64 out of range''))"

lemma lead_exp_bounds:
  assumes "0 < x"
  shows "2 powi lead_exp x \<le> x" and "x < 2 powi (lead_exp x + 1)"
proof -
  obtain n d where q: "quotient_of x = (n, d)" by (cases "quotient_of x")
  have d: "0 < d" using quotient_of_denom_pos [OF q] .
  have x: "x = of_int n / of_int d" using quotient_of_div [OF q] .
  have n: "0 < n" using assms x d by (simp add: zero_less_divide_iff)
  have bn: "2 ^ nat (bitlen n - 1) \<le> n" "n < 2 ^ nat (bitlen n)"
    using bitlen_bounds [OF n] by simp_all
  have bd: "2 ^ nat (bitlen d - 1) \<le> d" "d < 2 ^ nat (bitlen d)"
    using bitlen_bounds [OF d] by simp_all
  have pn: "0 < bitlen n" and pd: "0 < bitlen d"
    using n d bitlen_nonneg by (metis bitlen_eq_zero_iff less_le not_le)+
  let ?e = "bitlen n - bitlen d"
  have N: "(2::rat) powi (bitlen n - 1) \<le> of_int n" "of_int n < (2::rat) powi bitlen n"
    using bn pn of_int_le_iff [of "2 ^ nat (bitlen n - 1)" n, where 'a = rat]
      of_int_less_iff [of n "2 ^ nat (bitlen n)", where 'a = rat]
    by (simp_all add: power_int_def)
  have D: "(2::rat) powi (bitlen d - 1) \<le> of_int d" "of_int d < (2::rat) powi bitlen d"
    using bd pd of_int_le_iff [of "2 ^ nat (bitlen d - 1)" d, where 'a = rat]
      of_int_less_iff [of d "2 ^ nat (bitlen d)", where 'a = rat]
    by (simp_all add: power_int_def)
  have "2 powi (?e - 1) = (2::rat) powi (bitlen n - 1) / 2 powi bitlen d"
    by (simp add: power_int_diff)
  also have "\<dots> \<le> x"
    unfolding x using N D d n by (intro frac_le) auto
  finally have lo: "2 powi (?e - 1) \<le> x" .
  have "x < (2::rat) powi bitlen n / 2 powi (bitlen d - 1)"
    unfolding x using N D d n by (intro frac_less) auto
  also have "\<dots> = 2 powi (?e + 1)"
    by (simp add: power_int_diff power_int_add)
  finally have hi: "x < 2 powi (?e + 1)" .
  have L: "lead_exp x = (if 2 powi ?e \<le> x then ?e else ?e - 1)"
    by (simp add: lead_exp_def q)
  show "2 powi lead_exp x \<le> x" using lo by (simp add: L)
  show "x < 2 powi (lead_exp x + 1)" using hi by (simp add: L)
qed

lemma round_half_even_err: "\<bar>of_int (round_half_even x) - x\<bar> \<le> 1 / 2"
proof -
  have "of_int \<lfloor>x\<rfloor> \<le> x" "x < of_int \<lfloor>x\<rfloor> + 1" by linarith+
  then show ?thesis
    unfolding round_half_even_def Let_def by (auto simp: abs_le_iff)
qed

lemma round_half_even_int [simp]: "round_half_even (of_int n) = n"
  by (simp add: round_half_even_def)

lemma rnd_0 [simp]: "rnd 0 = 0"
  by (simp add: rnd_def)

text \<open>The relative error of one rounding is at most half a unit in the last place.\<close>

lemma rnd_err: "\<bar>rnd x - x\<bar> \<le> \<bar>x\<bar> / 2 ^ 53"
proof (cases "x = 0")
  case False
  define u :: rat where "u = 2 powi (lead_exp \<bar>x\<bar> - 52)"
  have u: "0 < u" by (simp add: u_def)
  have "u / 2 = 2 powi (lead_exp \<bar>x\<bar>) / 2 ^ 53"
    by (simp add: u_def power_int_diff)
  also have "\<dots> \<le> \<bar>x\<bar> / 2 ^ 53"
    using lead_exp_bounds(1) [of "\<bar>x\<bar>"] False by (intro divide_right_mono) auto
  finally have half: "u / 2 \<le> \<bar>x\<bar> / 2 ^ 53" .
  have "rnd x - x = (of_int (round_half_even (x / u)) - x / u) * u"
    using False u by (simp add: rnd_def u_def [symmetric] Let_def algebra_simps)
  then have "\<bar>rnd x - x\<bar> = \<bar>of_int (round_half_even (x / u)) - x / u\<bar> * u"
    using u by (simp add: abs_mult)
  also have "\<dots> \<le> 1 / 2 * u"
    using u by (intro mult_right_mono round_half_even_err) auto
  also have "\<dots> \<le> \<bar>x\<bar> / 2 ^ 53"
    using half by simp
  finally show ?thesis .
qed simp

text \<open>Integers of at most 53 bits are represented exactly.\<close>

lemma rnd_of_int:
  assumes "\<bar>n\<bar> < 2 ^ 53"
  shows "rnd (of_int n) = of_int n"
proof (cases "n = 0")
  case False
  define x :: rat where "x = of_int n"
  have x: "x \<noteq> 0" "0 < \<bar>x\<bar>" using False by (simp_all add: x_def)
  have lt: "\<bar>x\<bar> < 2 powi 53"
    using assms of_int_less_iff [of "\<bar>n\<bar>" "2 ^ 53", where 'a = rat] by (simp add: x_def)
  have "\<not> 53 \<le> lead_exp \<bar>x\<bar>"
  proof
    assume "53 \<le> lead_exp \<bar>x\<bar>"
    then have "(2::rat) powi 53 \<le> 2 powi lead_exp \<bar>x\<bar>"
      by (intro power_int_increasing) auto
    then show False
      using lead_exp_bounds(1) [OF x(2)] lt by linarith
  qed
  then obtain k :: nat where k: "52 - lead_exp \<bar>x\<bar> = int k"
    using zero_le_imp_eq_int [of "52 - lead_exp \<bar>x\<bar>"] by auto
  have u: "(2::rat) powi (lead_exp \<bar>x\<bar> - 52) = 1 / 2 ^ k"
  proof -
    have e: "lead_exp \<bar>x\<bar> - 52 = - int k" using k by simp
    show ?thesis unfolding e by (simp add: power_int_minus divide_inverse)
  qed
  have "x / (1 / 2 ^ k) = of_int (n * 2 ^ k)"
    by (simp add: x_def)
  then have "round_half_even (x / (1 / 2 ^ k)) = n * 2 ^ k"
    by (simp only: round_half_even_int)
  then have "rnd x = of_int (n * 2 ^ k) * (1 / 2 ^ k)"
    using x(1) by (simp add: rnd_def u Let_def)
  then show ?thesis by (simp add: x_def)
qed simp

lemma dbl_exact: "\<bar>n\<bar> < 2 ^ 53 \<Longrightarrow> dbl n = of_int n"
  by (simp add: dbl_def rnd_of_int)

section \<open>The contract of a rounding\<close>

text \<open>
  All the market formulas need of a rounding is that its relative error is bounded and that
  it keeps small integers. The locale states that contract; \<open>b64\<close> interprets it on the
  rounding above.
\<close>

locale rounding =
  fixes round :: "rat \<Rightarrow> rat" and eps :: rat
  assumes round_error: "\<bar>round x - x\<bar> \<le> \<bar>x\<bar> * eps"
    and eps_bounds: "0 \<le> eps" "eps \<le> 1 / 2 ^ 53"
begin

lemma round_zero: "round 0 = 0"
  using round_error [of 0] by simp

lemma round_up: "0 \<le> x \<Longrightarrow> round x \<le> x * (1 + eps)"
  using round_error [of x] by (auto simp: abs_le_iff algebra_simps)

lemma round_down: "0 \<le> x \<Longrightarrow> x * (1 - eps) \<le> round x"
  using round_error [of x] by (auto simp: abs_le_iff algebra_simps)

lemma round_nonneg: "0 \<le> x \<Longrightarrow> 0 \<le> round x"
proof -
  assume x: "0 \<le> x"
  have "eps \<le> 1" using eps_bounds(2) by simp
  then have "0 \<le> x * (1 - eps)" using x by simp
  also have "\<dots> \<le> round x" using round_down [OF x] .
  finally show ?thesis .
qed

lemma round_pos: "0 < x \<Longrightarrow> 0 < round x"
proof -
  assume x: "0 < x"
  have "eps < 1" using eps_bounds(2) by simp
  then have "0 < x * (1 - eps)" using x by simp
  also have "\<dots> \<le> round x" using round_down x by simp
  finally show ?thesis .
qed

text \<open>
  The quotient of a rounded product by a rounded sum, the shape of the Bancor formula:
  three roundings cost at most a factor \<open>1 \<plusminus> 4 \<cdot> 2^-53\<close>.
\<close>

lemma eps_small: "(1 + eps) * (1 + eps) \<le> (1 + 4 * eps) * (1 - eps)"
proof -
  have "eps * (5 * eps) \<le> eps * 1"
    using eps_bounds by (intro mult_left_mono) auto
  then show ?thesis
    by (simp add: algebra_simps)
qed

lemma quotient_nonneg: "0 \<le> a \<Longrightarrow> 0 < b \<Longrightarrow> 0 \<le> round a / round b"
  using round_nonneg [of a] round_pos [of b] by simp

lemma quotient_upper:
  assumes "0 \<le> a" "0 < b"
  shows "round (round a / round b) \<le> a / b * (1 + 4 * eps)"
proof -
  have rb: "0 < b * (1 - eps)" using assms eps_bounds by simp
  have "round a / round b \<le> a * (1 + eps) / (b * (1 - eps))"
    using assms rb round_down [of b] round_up [of a] round_nonneg [of a] eps_bounds
    by (intro frac_le) auto
  then have "round a / round b * (1 + eps) \<le> a * (1 + eps) / (b * (1 - eps)) * (1 + eps)"
    using eps_bounds by (intro mult_right_mono) auto
  then have "round (round a / round b) \<le> a * (1 + eps) / (b * (1 - eps)) * (1 + eps)"
    using round_up [of "round a / round b"] quotient_nonneg [OF assms] by linarith
  also have "\<dots> = a / b * ((1 + eps) * (1 + eps) / (1 - eps))"
    by (simp add: field_simps)
  also have "\<dots> \<le> a / b * (1 + 4 * eps)"
    using assms rb eps_small eps_bounds by (intro mult_left_mono) (auto simp: divide_le_eq)
  finally show ?thesis .
qed

lemma quotient_lower:
  assumes "0 \<le> a" "0 < b"
  shows "a / b * (1 - 4 * eps) \<le> round (round a / round b)"
proof -
  have rb: "0 < b * (1 + eps)" using assms eps_bounds by simp
  have "a * (1 - eps) / (b * (1 + eps)) \<le> round a / round b"
    using assms rb round_up [of b] round_down [of a] round_nonneg [of a] round_pos [of b] eps_bounds
    by (intro frac_le) auto
  then have "a * (1 - eps) / (b * (1 + eps)) * (1 - eps) \<le> round a / round b * (1 - eps)"
    using eps_bounds by (intro mult_right_mono) auto
  then have "a * (1 - eps) / (b * (1 + eps)) * (1 - eps) \<le> round (round a / round b)"
    using round_down [of "round a / round b"] quotient_nonneg [OF assms] by linarith
  moreover have "a / b * (1 - 4 * eps) \<le> a / b * ((1 - eps) * (1 - eps) / (1 + eps))"
  proof (intro mult_left_mono)
    have "(1 - 4 * eps) * (1 + eps) \<le> (1 - eps) * (1 - eps)"
      using eps_bounds by (simp add: algebra_simps)
    then show "1 - 4 * eps \<le> (1 - eps) * (1 - eps) / (1 + eps)"
      using eps_bounds by (simp add: le_divide_eq)
  qed (use assms in auto)
  moreover have "a * (1 - eps) / (b * (1 + eps)) * (1 - eps) = a / b * ((1 - eps) * (1 - eps) / (1 + eps))"
    by (simp add: field_simps)
  ultimately show ?thesis by linarith
qed

end

interpretation b64: rounding rnd "1 / 2 ^ 53"
  using rnd_err by unfold_locales auto

end
