(* ===== verification/Chain.thy ===== *)
theory Chain
  imports Double
begin

text \<open>
  The vocabulary of the contracts and their environment: account names, symbols and assets;
  the record \<open>env\<close> of everything an action reads that is not contract code (block time,
  authorizations, the library functions of the contract development toolkit); the effects an
  action hands to the chain. What the code relies on of the toolkit's assets is the named
  hypothesis \<open>lib_ok\<close>.
\<close>

section \<open>Names, symbols, assets\<close>

text \<open>An account name is its 64-bit value; the empty name is 0.\<close>

type_synonym name = "64 word"
type_synonym symbol_code = "64 word"

record symbol =
  sym_code :: symbol_code
  sym_precision :: nat

record asset =
  amount :: int
  symbol :: symbol

record permission_level =
  actor :: name
  permission :: name

text \<open>Times are microseconds since the epoch, block slots are half seconds.\<close>

type_synonym time_point = int
type_synonym time_point_sec = int
type_synonym slot = int
type_synonym bytes = "8 word list"

definition asset_max :: int where
  "asset_max = 2 ^ 62 - 1"

definition in_range :: "int \<Rightarrow> bool" where
  "in_range x \<longleftrightarrow> \<bar>x\<bar> \<le> asset_max"

lemma in_range_is_i64: "in_range x \<Longrightarrow> is_i64 x"
  by (simp add: in_range_def asset_max_def is_i64_def abs_le_iff)

lemma in_range_bounds: "in_range x \<Longrightarrow> x < 2 ^ 62" "in_range x \<Longrightarrow> - (2 ^ 62) < x"
  by (simp_all add: in_range_def asset_max_def abs_le_iff)

lemma in_range_0 [simp]: "in_range 0"
  by (simp add: in_range_def asset_max_def)

section \<open>The environment of an action\<close>

text \<open>
  \<open>has_perm\<close> is the authorization the action was pushed with, \<open>is_account\<close> and
  \<open>limits_of\<close> are chain state the contracts read. The remaining fields are library
  functions: \<open>None\<close> where the library aborts.
\<close>

record env =
  get_self :: name
  now :: time_point
  block_slot :: slot
  has_perm :: "permission_level \<Rightarrow> bool"
  has_auth :: "name \<Rightarrow> bool"
  is_account :: "name \<Rightarrow> bool"
  set_proposed_producers :: "(name \<times> bytes) list \<Rightarrow> int"
  asset_new :: "int \<Rightarrow> symbol \<Rightarrow> asset option"
  asset_add :: "asset \<Rightarrow> asset \<Rightarrow> asset option"
  asset_sub :: "asset \<Rightarrow> asset \<Rightarrow> asset option"
  asset_neg :: "asset \<Rightarrow> asset"
  asset_less :: "asset \<Rightarrow> asset \<Rightarrow> bool option"
  asset_is_valid :: "asset \<Rightarrow> bool"
  sym_is_valid :: "symbol \<Rightarrow> bool"
  name_suffix :: "name \<Rightarrow> name"
  name_to_string :: "name \<Rightarrow> string"
  default_key :: bytes
  std_pow :: "double \<Rightarrow> double \<Rightarrow> double"
  sha256 :: "bytes \<Rightarrow> bytes"

text \<open>
  The documented behaviour of the toolkit's \<open>asset\<close>: construction checks the magnitude and
  the symbol, addition and subtraction need equal symbols and a result of magnitude below
  \<open>2 ^ 62\<close>, comparison needs equal symbols. Nothing is assumed of an addition whose exact
  result does not fit \<open>int64_t\<close>.
\<close>

definition lib_ok :: "env \<Rightarrow> bool" where
  "lib_ok E \<longleftrightarrow>
     (\<forall>a s. asset_new E a s =
        (if in_range a \<and> sym_is_valid E s then Some \<lparr>amount = a, symbol = s\<rparr> else None)) \<and>
     (\<forall>a b. is_i64 (amount a + amount b) \<longrightarrow> asset_add E a b =
        (if symbol a = symbol b \<and> in_range (amount a + amount b)
         then Some \<lparr>amount = amount a + amount b, symbol = symbol a\<rparr> else None)) \<and>
     (\<forall>a b. is_i64 (amount a - amount b) \<longrightarrow> asset_sub E a b =
        (if symbol a = symbol b \<and> in_range (amount a - amount b)
         then Some \<lparr>amount = amount a - amount b, symbol = symbol a\<rparr> else None)) \<and>
     (\<forall>a. is_i64 (- amount a) \<longrightarrow> asset_neg E a = \<lparr>amount = - amount a, symbol = symbol a\<rparr>) \<and>
     (\<forall>a b. asset_less E a b =
        (if symbol a = symbol b then Some (amount a < amount b) else None)) \<and>
     (\<forall>a. asset_is_valid E a \<longleftrightarrow> in_range (amount a) \<and> sym_is_valid E (symbol a))"

section \<open>Library calls as results\<close>

definition require_auth :: "env \<Rightarrow> name \<Rightarrow> unit res" where
  "require_auth E a = (if has_auth E a then Inr () else Inl Missing_authority)"

definition require_auth_level :: "env \<Rightarrow> permission_level \<Rightarrow> unit res" where
  "require_auth_level E l = (if has_perm E l then Inr () else Inl Missing_authority)"

definition new_asset :: "env \<Rightarrow> int \<Rightarrow> symbol \<Rightarrow> asset res" where
  "new_asset E a s = some_or (Trap ''invalid asset'') (asset_new E a s)"

definition add_asset :: "env \<Rightarrow> asset \<Rightarrow> asset \<Rightarrow> asset res" where
  "add_asset E a b = some_or (Trap ''asset addition'') (asset_add E a b)"

definition sub_asset :: "env \<Rightarrow> asset \<Rightarrow> asset \<Rightarrow> asset res" where
  "sub_asset E a b = some_or (Trap ''asset subtraction'') (asset_sub E a b)"

definition less_asset :: "env \<Rightarrow> asset \<Rightarrow> asset \<Rightarrow> bool res" where
  "less_asset E a b = some_or (Trap ''comparison of assets'') (asset_less E a b)"

text \<open>\<open>a <= b\<close> is \<open>!(b < a)\<close>, \<open>a >= b\<close> is \<open>!(a < b)\<close>.\<close>

definition le_asset :: "env \<Rightarrow> asset \<Rightarrow> asset \<Rightarrow> bool res" where
  "le_asset E a b = bindE (less_asset E b a) (\<lambda>r. Inr (\<not> r))"

definition now_sec :: "env \<Rightarrow> time_point_sec" where
  "now_sec E = u32 (now E div 1000000)"

lemma require_auth_eq_Inr [simp]: "require_auth E a = Inr u \<longleftrightarrow> has_auth E a"
  by (simp add: require_auth_def)

lemma require_auth_has [simp]: "has_auth E a \<Longrightarrow> require_auth E a = Inr ()"
  by simp

lemma require_auth_level_eq_Inr [simp]: "require_auth_level E l = Inr u \<longleftrightarrow> has_perm E l"
  by (simp add: require_auth_level_def)

lemma new_asset_lib:
  "lib_ok E \<Longrightarrow> new_asset E a s = Inr c \<longleftrightarrow>
     in_range a \<and> sym_is_valid E s \<and> c = \<lparr>amount = a, symbol = s\<rparr>"
  by (auto simp: lib_ok_def new_asset_def)

lemma add_asset_lib:
  "lib_ok E \<Longrightarrow> is_i64 (amount a + amount b) \<Longrightarrow> add_asset E a b = Inr c \<longleftrightarrow>
     symbol a = symbol b \<and> in_range (amount a + amount b) \<and>
     c = \<lparr>amount = amount a + amount b, symbol = symbol a\<rparr>"
  by (auto simp: lib_ok_def add_asset_def)

lemma sub_asset_lib:
  "lib_ok E \<Longrightarrow> is_i64 (amount a - amount b) \<Longrightarrow> sub_asset E a b = Inr c \<longleftrightarrow>
     symbol a = symbol b \<and> in_range (amount a - amount b) \<and>
     c = \<lparr>amount = amount a - amount b, symbol = symbol a\<rparr>"
  by (auto simp: lib_ok_def sub_asset_def)

lemma neg_asset_lib:
  "lib_ok E \<Longrightarrow> is_i64 (- amount a) \<Longrightarrow>
     asset_neg E a = \<lparr>amount = - amount a, symbol = symbol a\<rparr>"
  by (simp add: lib_ok_def)

lemma less_asset_lib:
  "lib_ok E \<Longrightarrow> less_asset E a b = Inr r \<longleftrightarrow> symbol a = symbol b \<and> r = (amount a < amount b)"
  by (auto simp: lib_ok_def less_asset_def)

lemma le_asset_lib:
  "lib_ok E \<Longrightarrow> le_asset E a b = Inr r \<longleftrightarrow> symbol a = symbol b \<and> r = (amount a \<le> amount b)"
  by (auto simp: le_asset_def less_asset_lib not_less)

lemma valid_asset_lib:
  "lib_ok E \<Longrightarrow> asset_is_valid E a \<longleftrightarrow> in_range (amount a) \<and> sym_is_valid E (symbol a)"
  by (simp add: lib_ok_def)

lemmas lib_simps = new_asset_lib less_asset_lib le_asset_lib valid_asset_lib

text \<open>
  \<open>a.amount += d\<close> and \<open>a.amount = n\<close> on the raw amount, which bypass the checks of the
  asset operators.
\<close>

definition inc_amt :: "int \<Rightarrow> asset \<Rightarrow> asset" where
  "inc_amt d a = a\<lparr>amount := i64 (amount a + d)\<rparr>"

definition set_amt :: "int \<Rightarrow> asset \<Rightarrow> asset" where
  "set_amt n a = a\<lparr>amount := n\<rparr>"

lemma inc_amt_simps [simp]:
  "amount (inc_amt d a) = i64 (amount a + d)" "symbol (inc_amt d a) = symbol a"
  by (simp_all add: inc_amt_def)

lemma set_amt_simps [simp]: "amount (set_amt n a) = n" "symbol (set_amt n a) = symbol a"
  by (simp_all add: set_amt_def)

section \<open>Well-known accounts and permissions\<close>

definition active_permission :: name where "active_permission = 0x3232eda800000000"
definition token_account :: name where "token_account = 0x5530ea033482a600"
definition ram_account :: name where "ram_account = 0x5530ea02e6900000"
definition ramfee_account :: name where "ramfee_account = 0x5530ea02e692d4a0"
definition stake_account :: name where "stake_account = 0x5530ea0319341400"
definition bpay_account :: name where "bpay_account = 0x5530ea00f5378000"
definition vpay_account :: name where "vpay_account = 0x5530ea0375378000"
definition names_account :: name where "names_account = 0x5530ea026692b000"
definition saving_account :: name where "saving_account = 0x5530ea0306dba6c0"
definition rex_account :: name where "rex_account = 0x5530ea02eae80000"
definition null_account :: name where "null_account = 0x5530ea027a8c4000"
definition eosio_account :: name where "eosio_account = 0x5530ea0000000000"
definition b1_account :: name where "b1_account = 0x3840000000000000"

definition ramcore_symbol :: symbol where
  "ramcore_symbol = \<lparr>sym_code = 0x45524f434d4152, sym_precision = 4\<rparr>"

definition ram_symbol :: symbol where
  "ram_symbol = \<lparr>sym_code = 0x4d4152, sym_precision = 0\<rparr>"

definition rex_symbol :: symbol where
  "rex_symbol = \<lparr>sym_code = 0x584552, sym_precision = 4\<rparr>"

lemmas account_defs =
  token_account_def ram_account_def ramfee_account_def stake_account_def bpay_account_def
  vpay_account_def names_account_def saving_account_def rex_account_def null_account_def
  eosio_account_def b1_account_def

lemmas symbol_defs = ramcore_symbol_def ram_symbol_def rex_symbol_def

definition active_of :: "name \<Rightarrow> permission_level" where
  "active_of a = \<lparr>actor = a, permission = active_permission\<rparr>"

section \<open>Effects\<close>

text \<open>
  What an action hands to the chain, in order: inline actions of the token contract (with the
  permissions they are sent with), the dummy actions that show results in traces, deferred
  transactions and privileged calls. Inline actions run after the action that sent them.
\<close>

datatype deferred_trx =
    Trx_bidrefund name name
  | Trx_refund name
  | Trx_packed bytes

text \<open>A deferred transaction is sent with its id, payer, delay and whether it may replace another of that id.\<close>

datatype effect =
    Token_transfer "permission_level list" name name asset string
  | Token_issue "permission_level list" name asset string
  | Token_open "permission_level list" name symbol name
  | Rex_buyresult asset
  | Rex_sellresult asset
  | Rex_orderresult name asset
  | Rex_rentresult asset
  | Cancel_deferred int
  | Send_deferred int name int deferred_trx bool
  | Set_privileged name int
  | Set_blockchain_parameters "int list"
  | Preactivate_feature bytes
  | Set_proposed_producers "(name \<times> bytes) list"
  | Require_recipient name

text \<open>\<open>(uint128_t(hi) << 64) | lo\<close>, the identifier of a deferred transaction.\<close>

definition deferred_id :: "name \<Rightarrow> int \<Rightarrow> int" where
  "deferred_id hi lo = uint hi * 2 ^ 64 + u64 lo"

section \<open>A concrete environment\<close>

text \<open>
  An environment on which the documented behaviour of the library is a theorem; the witnesses
  evaluate on it. Everybody is an account and has signed.
\<close>

definition ref_env :: env where
  "ref_env =
     \<lparr>get_self = eosio_account, now = 1600000000000000, block_slot = 1306630400,
      has_perm = (\<lambda>_. True), has_auth = (\<lambda>_. True), is_account = (\<lambda>_. True),
      set_proposed_producers = (\<lambda>_. 0),
      asset_new = (\<lambda>a s. if in_range a then Some \<lparr>amount = a, symbol = s\<rparr> else None),
      asset_add = (\<lambda>a b. if symbol a = symbol b \<and> in_range (amount a + amount b)
        then Some \<lparr>amount = amount a + amount b, symbol = symbol a\<rparr> else None),
      asset_sub = (\<lambda>a b. if symbol a = symbol b \<and> in_range (amount a - amount b)
        then Some \<lparr>amount = amount a - amount b, symbol = symbol a\<rparr> else None),
      asset_neg = (\<lambda>a. \<lparr>amount = - amount a, symbol = symbol a\<rparr>),
      asset_less = (\<lambda>a b. if symbol a = symbol b then Some (amount a < amount b) else None),
      asset_is_valid = (\<lambda>a. in_range (amount a)), sym_is_valid = (\<lambda>_. True),
      name_suffix = (\<lambda>n. n), name_to_string = (\<lambda>_. ''name''),
      default_key = [], std_pow = (\<lambda>x y. 1), sha256 = (\<lambda>b. b)\<rparr>"

lemma ref_env_ok [simp]: "lib_ok ref_env"
  by (simp add: lib_ok_def ref_env_def)

definition eos :: symbol where
  "eos = \<lparr>sym_code = 0x534f45, sym_precision = 4\<rparr>"

end
