(* ===== verification/Exchange.thy ===== *)
theory Exchange
  imports Chain
begin

text \<open>
  The Bancor relay of the memory market (\<open>exchange_state\<close>): its price formulas and the
  direct conversion the contract uses, in the double arithmetic of the code. (The two-step
  conversion over the smart token is in theory \<open>Relay\<close>.) The
  properties bound what rounding can do: a conversion never pays out more than the exact
  formula by a whole unit, and never empties a reserve.
\<close>

record connector =
  c_balance :: asset
  weight :: double

record exchange_state =
  es_supply :: asset
  base :: connector
  quote :: connector

definition get_bancor_output :: "int \<Rightarrow> int \<Rightarrow> int \<Rightarrow> int res" where
  "get_bancor_output inp_reserve out_reserve inp =
     (let ib = dbl inp_reserve; ob = dbl out_reserve; inn = dbl inp; d = dadd ib inn in
      bindE (trap_unless (d \<noteq> 0) ''conversion of a quotient by zero'') (\<lambda>_.
      bindE (dbl_to_i64 (ddiv (dmul inn ob) d)) (\<lambda>out.
      Inr (if out < 0 then 0 else out))))"

text \<open>The third argument is an integer in the code, converted to double where it is used.\<close>

definition get_bancor_input :: "int \<Rightarrow> int \<Rightarrow> int \<Rightarrow> int res" where
  "get_bancor_input out_reserve inp_reserve out =
     (let ob = dbl out_reserve; ib = dbl inp_reserve; d = dsub ob (dbl out) in
      bindE (trap_unless (d \<noteq> 0) ''conversion of a quotient by zero'') (\<lambda>_.
      bindE (dbl_to_i64 (ddiv (dmul ib (dbl out)) d)) (\<lambda>inp.
      Inr (if inp < 0 then 0 else inp))))"

definition direct_convert ::
    "env \<Rightarrow> asset \<Rightarrow> symbol \<Rightarrow> exchange_state \<Rightarrow> (asset \<times> exchange_state) res" where
  "direct_convert E from to X =
     (let sell_symbol = symbol from; base_symbol = symbol (c_balance (base X));
          quote_symbol = symbol (c_balance (quote X)) in
      bindE (check (sell_symbol \<noteq> to) ''cannot convert to the same symbol'') (\<lambda>_.
      bindE (new_asset E 0 to) (\<lambda>out.
      if sell_symbol = base_symbol \<and> to = quote_symbol then
        bindE (get_bancor_output (amount (c_balance (base X))) (amount (c_balance (quote X))) (amount from)) (\<lambda>n.
        let out = out\<lparr>amount := n\<rparr> in
        bindE (add_asset E (c_balance (base X)) from) (\<lambda>b.
        bindE (sub_asset E (c_balance (quote X)) out) (\<lambda>q.
        Inr (out, X\<lparr>base := (base X)\<lparr>c_balance := b\<rparr>, quote := (quote X)\<lparr>c_balance := q\<rparr>\<rparr>))))
      else if sell_symbol = quote_symbol \<and> to = base_symbol then
        bindE (get_bancor_output (amount (c_balance (quote X))) (amount (c_balance (base X))) (amount from)) (\<lambda>n.
        let out = out\<lparr>amount := n\<rparr> in
        bindE (add_asset E (c_balance (quote X)) from) (\<lambda>q.
        bindE (sub_asset E (c_balance (base X)) out) (\<lambda>b.
        Inr (out, X\<lparr>base := (base X)\<lparr>c_balance := b\<rparr>, quote := (quote X)\<lparr>c_balance := q\<rparr>\<rparr>))))
      else Inl (Check ''invalid conversion''))))"

section \<open>The rounded formula against the exact one\<close>

lemma dbl_to_i64_nonneg:
  "0 \<le> x \<Longrightarrow> x < 2 ^ 63 \<Longrightarrow> dbl_to_i64 x = Inr \<lfloor>x\<rfloor>"
proof -
  assume x: "0 \<le> x" "x < 2 ^ 63"
  then have "0 \<le> \<lfloor>x\<rfloor>" "\<lfloor>x\<rfloor> < 2 ^ 63" by (simp_all add: floor_less_iff)
  with x(1) show ?thesis by (simp add: dbl_to_i64_def truncate_rat_def is_i64_def)
qed

text \<open>
  For reserves and amounts below \<open>2 ^ 50\<close>, ten times the supply of \<open>10 ^ 14\<close> units the code is
  written for, the result of the code is the floor of a value within \<open>1/2\<close> of the exact one.
\<close>

definition market_max :: int where
  "market_max = 2 ^ 50"

lemma near_scaled:
  fixes x y e c :: rat
  shows "y \<le> x * (1 + e) \<Longrightarrow> x * (1 - e) \<le> y \<Longrightarrow> x * e \<le> c \<Longrightarrow> \<bar>y - x\<bar> \<le> c"
  by (simp add: abs_le_iff algebra_simps)

lemma bancor_floor:
  assumes "0 \<le> i" "i < market_max" "0 \<le> r" "r < market_max" "0 \<le> s" "s < market_max" "0 < r + i"
  obtains y :: rat where "get_bancor_output r s i = Inr \<lfloor>y\<rfloor>" "0 \<le> y"
    "\<bar>y - of_int (i * s) / of_int (r + i)\<bar> \<le> 1 / 2" "of_int (i * s) / of_int (r + i) \<le> (of_int s :: rat)"
proof -
  let ?eps = "1 / 2 ^ 53 :: rat"
  define a b :: rat where "a = of_int (i * s)" and "b = of_int (r + i)"
  define y where "y = rnd (rnd a / rnd b)"
  have ab: "0 \<le> a" "0 < b" using assms by (simp_all add: a_def b_def del: of_int_mult of_int_add)
  have le: "a / b \<le> of_int s"
  proof -
    have "i * s \<le> s * (r + i)" using assms by (simp add: algebra_simps)
    then have "a \<le> of_int s * b" unfolding a_def b_def by (simp only: of_int_mult [symmetric] of_int_le_iff)
    with ab show ?thesis by (simp add: divide_le_eq)
  qed
  have smax: "of_int s < (2::rat) ^ 50"
    using assms(6) of_int_less_iff [of s "2 ^ 50", where 'a = rat] by (simp add: market_max_def)
  have q0: "0 \<le> a / b" using ab by simp
  have up: "y \<le> a / b * (1 + 4 * ?eps)" and lo: "a / b * (1 - 4 * ?eps) \<le> y"
    unfolding y_def using b64.quotient_upper [OF ab] b64.quotient_lower [OF ab] by simp_all
  have small: "a / b * (4 * ?eps) \<le> 1 / 2"
  proof -
    have "a / b * (4 * ?eps) \<le> 2 ^ 50 * (4 * ?eps)"
      using le smax by (intro mult_right_mono) auto
    then show ?thesis by simp
  qed
  have err: "\<bar>y - a / b\<bar> \<le> 1 / 2"
    using up lo small by (rule near_scaled)
  have y0: "0 \<le> y"
    unfolding y_def using b64.quotient_nonneg [OF ab] by (rule b64.round_nonneg)
  have "(2::rat) ^ 50 + 1 < 2 ^ 63" by simp
  with err le smax have ylt: "y < 2 ^ 63" by linarith
  have D: "dbl i = of_int i" "dbl r = of_int r" "dbl s = of_int s"
    using assms by (simp_all add: dbl_exact market_max_def)
  have "rnd b \<noteq> 0" using b64.round_pos [OF ab(2)] by simp
  then have "get_bancor_output r s i = bindE (dbl_to_i64 y) (\<lambda>out. Inr (if out < 0 then 0 else out))"
    by (simp add: get_bancor_output_def D dadd_def dmul_def ddiv_def y_def a_def b_def Let_def)
  also have "\<dots> = Inr \<lfloor>y\<rfloor>"
    using dbl_to_i64_nonneg [OF y0 ylt] y0 by simp
  finally show thesis
    using y0 err [unfolded a_def b_def] le [unfolded a_def b_def] by (rule that)
qed

text \<open>
  Whatever the input reserve, a payout does not exceed the output reserve. Only the input and
  the output reserve need the bound.
\<close>

lemma bancor_payout:
  assumes "0 \<le> i" "i < market_max" "0 \<le> r" "0 \<le> s" "s < market_max"
    and "get_bancor_output r s i = Inr out"
  shows "0 \<le> out \<and> out \<le> s"
proof (cases "i = 0")
  case True
  with assms(6) show ?thesis
    using assms(4) by (auto simp: get_bancor_output_def dbl_def dadd_def dmul_def ddiv_def dbl_to_i64_def
        truncate_rat_def Let_def split: if_splits)
next
  case False
  let ?eps = "1 / 2 ^ 53 :: rat"
  define a b :: rat where "a = of_int (i * s)" and "b = of_int i + dbl r"
  define y where "y = rnd (rnd a / rnd b)"
  have i: "0 < (of_int i :: rat)" using False assms(1) by simp
  have "0 \<le> dbl r" using assms(3) by (simp add: dbl_def b64.round_nonneg)
  then have b: "of_int i \<le> b" "0 < b" using i by (simp_all add: b_def)
  have a: "0 \<le> a" using assms by (simp add: a_def del: of_int_mult)
  have D: "dbl i = of_int i" "dbl s = of_int s"
    using assms by (simp_all add: dbl_exact market_max_def)
  have smax: "of_int s < (2::rat) ^ 50"
    using assms(5) of_int_less_iff [of s "2 ^ 50", where 'a = rat] by (simp add: market_max_def)
  have s0: "0 \<le> (of_int s :: rat)" using assms(4) by simp
  have "of_int s * of_int i \<le> of_int s * b" using s0 b by (intro mult_left_mono) auto
  then have le: "a / b \<le> of_int s" using b(2) by (simp add: a_def divide_le_eq mult.commute)
  have "y \<le> a / b * (1 + 4 * ?eps)"
    unfolding y_def using b64.quotient_upper [OF a b(2)] by simp
  also have "\<dots> \<le> of_int s * (1 + 4 * ?eps)" using le by (intro mult_right_mono) auto
  also have "\<dots> < of_int s + 1" using smax by (simp add: algebra_simps)
  finally have up: "y < of_int s + 1" .
  have y0: "0 \<le> y"
    unfolding y_def using b64.quotient_nonneg [OF a b(2)] by (rule b64.round_nonneg)
  have "(2::rat) ^ 50 + 1 < 2 ^ 63" by simp
  with up smax have ylt: "y < 2 ^ 63" by linarith
  have "rnd b \<noteq> 0" using b64.round_pos [OF b(2)] by simp
  then have "get_bancor_output r s i = bindE (dbl_to_i64 y) (\<lambda>out. Inr (if out < 0 then 0 else out))"
    by (simp add: get_bancor_output_def D dadd_def dmul_def ddiv_def y_def a_def b_def Let_def add.commute)
  also have "\<dots> = Inr \<lfloor>y\<rfloor>"
    using dbl_to_i64_nonneg [OF y0 ylt] y0 by simp
  finally have "out = \<lfloor>y\<rfloor>" using assms(6) by simp
  moreover have "\<lfloor>y\<rfloor> < s + 1" using up by (simp only: floor_less_iff of_int_add of_int_1)
  ultimately show ?thesis using y0 by simp
qed

lemma floor_near:
  fixes x y :: rat
  assumes "\<bar>y - x\<bar> \<le> 1 / 2"
  shows "\<bar>\<lfloor>y\<rfloor> - \<lfloor>x\<rfloor>\<bar> \<le> 1"
proof -
  have "of_int \<lfloor>y\<rfloor> \<le> y" "y < of_int \<lfloor>y\<rfloor> + 1" "of_int \<lfloor>x\<rfloor> \<le> x" "x < of_int \<lfloor>x\<rfloor> + 1"
    by linarith+
  with assms have "of_int \<lfloor>y\<rfloor> < (of_int (\<lfloor>x\<rfloor> + 2) :: rat)" "of_int \<lfloor>x\<rfloor> < (of_int (\<lfloor>y\<rfloor> + 2) :: rat)"
    unfolding of_int_add of_int_numeral by linarith+
  then have "\<lfloor>y\<rfloor> < \<lfloor>x\<rfloor> + 2" "\<lfloor>x\<rfloor> < \<lfloor>y\<rfloor> + 2"
    by (simp_all only: of_int_less_iff)
  then show ?thesis by (simp add: abs_le_iff)
qed

text \<open>
  C20: The double-precision price formula is the exact one up to one unit: for reserves and
  inputs below \<open>2 ^ 50\<close> the amount paid out differs from the floor of
  \<open>inp * out_reserve / (inp_reserve + inp)\<close> by at most one.
\<close>

theorem bancor_output_near_exact:
  assumes "0 \<le> inp" "inp < market_max" "0 \<le> inp_reserve" "inp_reserve < market_max"
    and "0 \<le> out_reserve" "out_reserve < market_max" "0 < inp_reserve + inp"
  shows "\<exists>out. get_bancor_output inp_reserve out_reserve inp = Inr out \<and>
    \<bar>out - inp * out_reserve div (inp_reserve + inp)\<bar> \<le> 1"
proof (rule bancor_floor [OF assms])
  fix y :: rat
  assume y: "get_bancor_output inp_reserve out_reserve inp = Inr \<lfloor>y\<rfloor>"
    and err: "\<bar>y - of_int (inp * out_reserve) / of_int (inp_reserve + inp)\<bar> \<le> 1 / 2"
  have "inp * out_reserve div (inp_reserve + inp)
      = \<lfloor>of_int (inp * out_reserve) / (of_int (inp_reserve + inp) :: rat)\<rfloor>"
    by (rule floor_divide_of_int_eq [symmetric])
  with floor_near [OF err] y show ?thesis by simp
qed

lemma demo_bancor: "get_bancor_output 1000000 5000000 30000 = Inr 145631"
  by code_simp

theorem bancor_output_near_exact_witness:
  "\<exists>out. get_bancor_output 1000000 5000000 30000 = Inr out \<and> \<bar>out - 145631\<bar> \<le> 1"
  using bancor_output_near_exact [of 30000 1000000 5000000] by (simp add: market_max_def)

end
