(* ===== verification/System_State.thy ===== *)
theory System_State
  imports Exchange
begin

text \<open>
  The tables of the system contract (\<open>eosio.system.hpp\<close>, \<open>native.hpp\<close>) as records and their
  groups: what voting reads and writes, the REX, account resources, name auctions. Row fields
  that no code reads (\<open>version\<close>, \<open>reserved2\<close>, \<open>reserved3\<close>) are left out; where one field name
  is used by several structs the record's initials are put before it.
\<close>

unbundle bit_operations_syntax

section \<open>Constants\<close>

definition seconds_per_year :: int where "seconds_per_year = 52 * 7 * 24 * 3600"
definition seconds_per_day :: int where "seconds_per_day = 24 * 3600"
definition useconds_per_year :: int where "useconds_per_year = seconds_per_year * 1000000"
definition useconds_per_day :: int where "useconds_per_day = seconds_per_day * 1000000"
definition blocks_per_day :: int where "blocks_per_day = 2 * seconds_per_day"
definition min_activated_stake :: int where "min_activated_stake = 1500000000000"
definition ram_gift_bytes :: int where "ram_gift_bytes = 1400"
definition min_pervote_daily_pay :: int where "min_pervote_daily_pay = 1000000"
definition continuous_rate :: double where "continuous_rate = rnd (4879 / 100000)"
definition inflation_pay_factor :: int where "inflation_pay_factor = 5"
definition votepay_factor :: int where "votepay_factor = 4"
definition refund_delay_sec :: int where "refund_delay_sec = 3 * seconds_per_day"

lemmas time_constants =
  seconds_per_year_def seconds_per_day_def useconds_per_year_def useconds_per_day_def
  blocks_per_day_def refund_delay_sec_def

section \<open>Flags\<close>

datatype flags1_fields = ram_managed | net_managed | cpu_managed

fun flag_bits :: "flags1_fields \<Rightarrow> 32 word" where
  "flag_bits ram_managed = 1"
| "flag_bits net_managed = 2"
| "flag_bits cpu_managed = 4"

definition has_field :: "32 word \<Rightarrow> flags1_fields \<Rightarrow> bool" where
  "has_field flags field \<longleftrightarrow> flags AND flag_bits field \<noteq> 0"

definition set_field :: "32 word \<Rightarrow> flags1_fields \<Rightarrow> bool \<Rightarrow> 32 word" where
  "set_field flags field val =
     (if val then flags OR flag_bits field else flags AND NOT (flag_bits field))"

section \<open>Global state, producers, voters\<close>

record blockchain_parameters =
  max_authority_depth :: int
  other_parameters :: "int list"

record eosio_global_state =
  parameters :: blockchain_parameters
  max_ram_size :: int
  total_ram_bytes_reserved :: int
  total_ram_stake :: int
  last_producer_schedule_update :: slot
  last_pervote_bucket_fill :: time_point
  pervote_bucket :: int
  perblock_bucket :: int
  total_unpaid_blocks :: int
  total_activated_stake :: int
  thresh_activated_stake_time :: time_point
  last_producer_schedule_size :: int
  total_producer_vote_weight :: double
  last_name_close :: slot

definition free_ram :: "eosio_global_state \<Rightarrow> int" where
  "free_ram g = u64 (max_ram_size g - total_ram_bytes_reserved g)"

record eosio_global_state2 =
  new_ram_per_block :: int
  last_ram_increase :: slot
  last_block_num :: slot
  total_producer_votepay_share :: double
  revision :: int

record eosio_global_state3 =
  last_vpay_state_update :: time_point
  total_vpay_share_change_rate :: double

record producer_info =
  p_owner :: name
  total_votes :: double
  producer_key :: bytes
  is_active :: bool
  url :: string
  unpaid_blocks :: int
  last_claim_time :: time_point
  location :: int

definition by_votes :: "producer_info \<Rightarrow> double" where
  "by_votes p = (if is_active p then - total_votes p else total_votes p)"

definition deactivate :: "env \<Rightarrow> producer_info \<Rightarrow> producer_info" where
  "deactivate E p = p\<lparr>producer_key := default_key E, is_active := False\<rparr>"

record producer_info2 =
  p2_owner :: name
  votepay_share :: double
  last_votepay_share_update :: time_point

record voter_info =
  v_owner :: name
  proxy :: name
  v_producers :: "name list"
  staked :: int
  last_vote_weight :: double
  proxied_vote_weight :: double
  is_proxy :: bool
  flags1 :: "32 word"

text \<open>A row as \<open>emplace\<close> makes it before the constructor function runs.\<close>

definition new_voter :: "name \<Rightarrow> voter_info" where
  "new_voter owner = \<lparr>v_owner = owner, proxy = 0, v_producers = [], staked = 0,
     last_vote_weight = 0, proxied_vote_weight = 0, is_proxy = False, flags1 = 0\<rparr>"

record voting_state =
  voters :: "(name, voter_info) table"
  producers :: "(name, producer_info) table"
  producers2 :: "(name, producer_info2) table"
  gstate :: eosio_global_state
  gstate2 :: eosio_global_state2
  gstate3 :: eosio_global_state3

section \<open>Account resources\<close>

record user_resources =
  ur_owner :: name
  ur_net_weight :: asset
  ur_cpu_weight :: asset
  ram_bytes :: int

record delegated_bandwidth =
  db_from :: name
  db_to :: name
  db_net_weight :: asset
  db_cpu_weight :: asset

record refund_request =
  rr_owner :: name
  request_time :: time_point_sec
  net_amount :: asset
  cpu_amount :: asset

definition ur_is_empty :: "user_resources \<Rightarrow> bool" where
  "ur_is_empty r \<longleftrightarrow> amount (ur_net_weight r) = 0 \<and> amount (ur_cpu_weight r) = 0 \<and> ram_bytes r = 0"

definition db_is_empty :: "delegated_bandwidth \<Rightarrow> bool" where
  "db_is_empty d \<longleftrightarrow> amount (db_net_weight d) = 0 \<and> amount (db_cpu_weight d) = 0"

definition rr_is_empty :: "refund_request \<Rightarrow> bool" where
  "rr_is_empty r \<longleftrightarrow> amount (net_amount r) = 0 \<and> amount (cpu_amount r) = 0"

text \<open>
  \<open>delband\<close> is scoped by the delegating account and keyed by the receiver. \<open>limits\<close> is the
  chain's record of account limits (bytes of memory, network weight, processor weight), which
  the contract reads and writes through privileged calls.
\<close>

record resource_state =
  userres :: "(name, user_resources) table"
  delband :: "(name \<times> name, delegated_bandwidth) table"
  refunds :: "(name, refund_request) table"
  limits :: "(name, int \<times> int \<times> int) table"

definition get_resource_limits :: "name \<Rightarrow> resource_state \<Rightarrow> (int \<times> int \<times> int) res" where
  "get_resource_limits a R = some_or (Trap ''unknown account'') (fmlookup (limits R) a)"

definition set_resource_limits :: "name \<Rightarrow> int \<Rightarrow> int \<Rightarrow> int \<Rightarrow> resource_state \<Rightarrow> resource_state" where
  "set_resource_limits a ram net cpu R = R\<lparr>limits := fmupd a (ram, net, cpu) (limits R)\<rparr>"

section \<open>REX\<close>

record rex_pool =
  total_lent :: asset
  total_unlent :: asset
  total_rent :: asset
  total_lendable :: asset
  total_rex :: asset
  namebid_proceeds :: asset
  rp_loan_num :: int

record rex_fund =
  rf_owner :: name
  rf_balance :: asset

record rex_balance =
  rb_owner :: name
  vote_stake :: asset
  rb_rex_balance :: asset
  matured_rex :: int
  rex_maturities :: "(time_point_sec \<times> int) list"

record rex_loan =
  l_from :: name
  l_receiver :: name
  l_payment :: asset
  l_balance :: asset
  total_staked :: asset
  l_loan_num :: int
  expiration :: time_point

record rex_order =
  o_owner :: name
  rex_requested :: asset
  proceeds :: asset
  stake_change :: asset
  order_time :: time_point
  is_open :: bool

definition by_expr :: "rex_loan \<Rightarrow> int" where
  "by_expr l = u64 (expiration l)"

definition by_time :: "rex_order \<Rightarrow> int" where
  "by_time r = (if is_open r then u64 (order_time r) else 2 ^ 64 - 1)"

definition close_order :: "rex_order \<Rightarrow> rex_order" where
  "close_order r = r\<lparr>is_open := False\<rparr>"

record rex_order_outcome =
  success :: bool
  oo_proceeds :: asset
  oo_stake_change :: asset

text \<open>The pool table has one row, with primary key 0.\<close>

record rex_state =
  rexpool :: "rex_pool option"
  rexfunds :: "(name, rex_fund) table"
  rexbalance :: "(name, rex_balance) table"
  rexorders :: "(name, rex_order) table"
  cpu_loans :: "(int, rex_loan) table"
  net_loans :: "(int, rex_loan) table"

definition rex_system_initialized :: "rex_state \<Rightarrow> bool" where
  "rex_system_initialized X \<longleftrightarrow> rexpool X \<noteq> None"

definition rex_available :: "rex_state \<Rightarrow> bool" where
  "rex_available X \<longleftrightarrow> (case rexpool X of None \<Rightarrow> False | Some p \<Rightarrow> 0 < amount (total_rex p))"

section \<open>Name auctions\<close>

record name_bid =
  nb_newname :: name
  high_bidder :: name
  high_bid :: int
  last_bid_time :: time_point

record bid_refund =
  br_bidder :: name
  br_amount :: asset

definition by_high_bid :: "name_bid \<Rightarrow> int" where
  "by_high_bid b = u64 (- high_bid b)"

text \<open>\<open>bidrefunds\<close> is scoped by the name bid on and keyed by the bidder.\<close>

record names_state =
  namebids :: "(name, name_bid) table"
  bidrefunds :: "(name \<times> name, bid_refund) table"

section \<open>The contract\<close>

record abi_hash =
  ah_owner :: name
  ah_hash :: bytes

text \<open>The market table has one row, keyed by the smart token's symbol.\<close>

record system_state =
  vs :: voting_state
  rs :: resource_state
  rx :: rex_state
  ns :: names_state
  rammarket :: "exchange_state option"
  abihash :: "(name, abi_hash) table"
  effects :: "effect list"

definition core_symbol :: "system_state \<Rightarrow> symbol res" where
  "core_symbol S =
     (case rammarket S of
        None \<Rightarrow> Inl (Check ''system contract must first be initialized'')
      | Some m \<Rightarrow> Inr (symbol (c_balance (quote m))))"

definition emit :: "effect list \<Rightarrow> system_state \<Rightarrow> system_state" where
  "emit es S = S\<lparr>effects := effects S @ es\<rparr>"

lemma emit_simps [simp]:
  "vs (emit es S) = vs S" "rs (emit es S) = rs S" "rx (emit es S) = rx S" "ns (emit es S) = ns S"
  "rammarket (emit es S) = rammarket S" "abihash (emit es S) = abihash S"
  "effects (emit es S) = effects S @ es"
  by (simp_all add: emit_def)

lemma set_resource_limits_simps [simp]:
  "userres (set_resource_limits a r n c R) = userres R"
  "delband (set_resource_limits a r n c R) = delband R"
  "refunds (set_resource_limits a r n c R) = refunds R"
  "limits (set_resource_limits a r n c R) = fmupd a (r, n, c) (limits R)"
  by (simp_all add: set_resource_limits_def)

section \<open>Laws of the flags\<close>

lemma word_or_mask: "((w::32 word) OR a) AND a = a"
  by (rule bit_eqI) (auto simp: bit_simps)

lemma word_clear_mask: "((w::32 word) AND NOT a) AND a = 0"
  by (rule bit_eqI) (auto simp: bit_simps)

lemma word_or_other: "a AND b = 0 \<Longrightarrow> ((w::32 word) OR a) AND b = w AND b"
  by (simp add: bit.conj_disj_distrib2)

lemma word_clear_other:
  assumes "a AND b = 0"
  shows "((w::32 word) AND NOT a) AND b = w AND b"
proof (rule bit_eqI)
  fix n
  have "bit (a AND b) n = bit (0 :: 32 word) n" by (simp only: assms)
  then show "bit ((w AND NOT a) AND b) n = bit (w AND b) n"
    by (auto simp: bit_simps dest: bit_imp_le_length)
qed

lemma flag_bits_disjoint: "f \<noteq> g \<Longrightarrow> flag_bits f AND flag_bits g = 0"
  by (cases f; cases g) simp_all

lemma flag_bits_nonzero: "flag_bits f \<noteq> 0"
  by (cases f) simp_all

text \<open>Setting or clearing one flag is read back and leaves the other two alone.\<close>

lemma has_set_field: "has_field (set_field w f b) g \<longleftrightarrow> (if f = g then b else has_field w g)"
  by (cases "f = g") (simp_all add: has_field_def set_field_def word_or_mask word_clear_mask
      flag_bits_nonzero word_or_other word_clear_other flag_bits_disjoint)

end
