(* ===== verification/Rex_Core.thy ===== *)
theory Rex_Core
  imports System_State
begin

text \<open>
  The REX below its actions (\<open>rex.cpp\<close>): the funds of users, the pool of lendable tokens, the
  REX balances with their maturity buckets, and the filling of sell orders. The functions work
  on the group \<open>rex_state\<close> or on one row of it; \<open>core\<close> is the outcome of \<open>core_symbol()\<close>,
  which is asked for where the code asks for it.
\<close>

section \<open>Funds\<close>

definition transfer_from_fund ::
    "env \<Rightarrow> symbol res \<Rightarrow> name \<Rightarrow> asset \<Rightarrow> rex_state \<Rightarrow> rex_state res" where
  "transfer_from_fund E core owner amt X =
     bindE core (\<lambda>cs.
     bindE (check (0 < amount amt \<and> symbol amt = cs) ''must transfer positive amount from REX fund'') (\<lambda>_.
     bindE (some_or (Check ''must deposit to REX fund first'') (fmlookup (rexfunds X) owner)) (\<lambda>fund.
     bindE (le_asset E amt (rf_balance fund)) (\<lambda>enough.
     bindE (check enough ''insufficient funds'') (\<lambda>_.
     Inr (X\<lparr>rexfunds := fmupd owner (fund\<lparr>rf_balance := inc_amt (- amount amt) (rf_balance fund)\<rparr>)
       (rexfunds X)\<rparr>))))))"

definition transfer_to_fund :: "symbol res \<Rightarrow> name \<Rightarrow> asset \<Rightarrow> rex_state \<Rightarrow> rex_state res" where
  "transfer_to_fund core owner amt X =
     bindE core (\<lambda>cs.
     bindE (check (0 < amount amt \<and> symbol amt = cs) ''must transfer positive amount to REX fund'') (\<lambda>_.
     Inr (case fmlookup (rexfunds X) owner of
        None \<Rightarrow> X\<lparr>rexfunds := fmupd owner \<lparr>rf_owner = owner, rf_balance = amt\<rparr> (rexfunds X)\<rparr>
      | Some fund \<Rightarrow>
          X\<lparr>rexfunds := fmupd owner (fund\<lparr>rf_balance := inc_amt (amount amt) (rf_balance fund)\<rparr>)
            (rexfunds X)\<rparr>)))"

section \<open>Availability of loans\<close>

definition rex_loans_available :: "rex_state \<Rightarrow> bool" where
  "rex_loans_available X \<longleftrightarrow>
     rex_available X \<and>
     (case first_of (index_by by_time (rexorders X)) of None \<Rightarrow> True | Some r \<Rightarrow> \<not> is_open r)"

section \<open>The pool\<close>

definition the_pool :: "rex_state \<Rightarrow> rex_pool res" where
  "the_pool X = some_or (Trap ''cannot use end iterator of rexpool'') (rexpool X)"

definition add_loan_to_rex_pool :: "asset \<Rightarrow> int \<Rightarrow> bool \<Rightarrow> rex_pool \<Rightarrow> rex_pool" where
  "add_loan_to_rex_pool payment rented_tokens new_loan rt =
     (let rt = rt\<lparr>total_rent := inc_amt (amount payment) (total_rent rt)\<rparr>;
          rt = rt\<lparr>total_unlent := inc_amt (- rented_tokens) (total_unlent rt)\<rparr>;
          rt = rt\<lparr>total_lent := inc_amt rented_tokens (total_lent rt)\<rparr>;
          rt = rt\<lparr>total_unlent := inc_amt (amount payment) (total_unlent rt)\<rparr>;
          rt = rt\<lparr>total_lendable := set_amt (i64 (amount (total_unlent rt) + amount (total_lent rt)))
            (total_lendable rt)\<rparr>
      in if new_loan then rt\<lparr>rp_loan_num := u64 (rp_loan_num rt + 1)\<rparr> else rt)"

definition remove_loan_from_rex_pool :: "rex_loan \<Rightarrow> rex_pool \<Rightarrow> rex_pool res" where
  "remove_loan_from_rex_pool loan rt =
     bindE (get_bancor_output (amount (total_unlent rt)) (amount (total_rent rt)) (amount (total_staked loan)))
       (\<lambda>delta_total_rent.
     let rt = rt\<lparr>total_rent := inc_amt (- delta_total_rent) (total_rent rt)\<rparr>;
         rt = rt\<lparr>total_unlent := inc_amt (amount (total_staked loan)) (total_unlent rt)\<rparr>;
         rt = rt\<lparr>total_lent := inc_amt (- amount (total_staked loan)) (total_lent rt)\<rparr>
     in Inr (rt\<lparr>total_lendable := set_amt (i64 (amount (total_unlent rt) + amount (total_lent rt)))
          (total_lendable rt)\<rparr>))"

definition update_renewed_loan :: "int \<Rightarrow> rex_loan \<Rightarrow> rex_loan \<times> int" where
  "update_renewed_loan rented_tokens loan =
     (loan\<lparr>total_staked := set_amt rented_tokens (total_staked loan),
           expiration := i64 (expiration loan + 30 * useconds_per_day),
           l_balance := inc_amt (- amount (l_payment loan)) (l_balance loan)\<rparr>,
      i64 (rented_tokens - amount (total_staked loan)))"

definition rex_ratio :: int where
  "rex_ratio = 10000"

definition add_to_rex_pool :: "env \<Rightarrow> symbol res \<Rightarrow> asset \<Rightarrow> rex_state \<Rightarrow> (asset \<times> rex_state) res" where
  "add_to_rex_pool E core payment X =
     bindE core (\<lambda>cs.
     bindE (new_asset E 200000000 cs) (\<lambda>init_total_rent.
     bindE (new_asset E 0 rex_symbol) (\<lambda>rex_received.
     bindE (new_asset E 0 cs) (\<lambda>zero.
     (case rexpool X of
        None \<Rightarrow>
          let rex_received = set_amt (i64 (amount payment * rex_ratio)) rex_received in
          bindE (sub_asset E payment zero) (\<lambda>unlent.
          Inr (rex_received, X\<lparr>rexpool := Some \<lparr>total_lent = zero, total_unlent = unlent,
            total_rent = init_total_rent, total_lendable = payment, total_rex = rex_received,
            namebid_proceeds = zero, rp_loan_num = 0\<rparr>\<rparr>))
      | Some rp \<Rightarrow>
          if \<not> rex_available X then
            let rex_received = set_amt (i64 (amount payment * rex_ratio)) rex_received in
            Inr (rex_received, X\<lparr>rexpool := Some (rp\<lparr>
              total_lendable := set_amt (amount payment) (total_lendable rp),
              total_lent := set_amt 0 (total_lent rp),
              total_unlent := set_amt (amount payment) (total_unlent rp),
              total_rent := set_amt (amount init_total_rent) (total_rent rp),
              total_rex := set_amt (amount rex_received) (total_rex rp)\<rparr>)\<rparr>)
          else
            bindE (check (0 < amount (total_lendable rp)) ''lendable REX pool is empty'') (\<lambda>_.
            let S0 = amount (total_lendable rp);
                S1 = i64 (S0 + amount payment);
                R0 = amount (total_rex rp) in
            bindE (muldiv128 S1 R0 S0) (\<lambda>R1.
            let rex_received = set_amt (i64 (R1 - R0)) rex_received;
                unlent = i64 (S1 - amount (total_lent rp)) in
            bindE (check (0 \<le> unlent) ''programmer error, this should never go negative'') (\<lambda>_.
            Inr (rex_received, X\<lparr>rexpool := Some (rp\<lparr>
              total_lendable := set_amt S1 (total_lendable rp),
              total_rex := set_amt R1 (total_rex rp),
              total_unlent := set_amt unlent (total_unlent rp)\<rparr>)\<rparr>)))))))))"

section \<open>Maturity buckets\<close>

text \<open>\<open>time_point_sec::maximum()\<close>, the maturity of the savings bucket.\<close>

definition end_of_days :: time_point_sec where
  "end_of_days = 2 ^ 32 - 1"

definition get_rex_maturity :: "env \<Rightarrow> time_point_sec" where
  "get_rex_maturity E =
     (let n = now_sec E; r = n mod seconds_per_day in u32 (n - r + 5 * seconds_per_day))"

fun mature :: "time_point_sec \<Rightarrow> (time_point_sec \<times> int) list \<Rightarrow> int \<Rightarrow> int \<times> (time_point_sec \<times> int) list" where
  "mature n ((t, q) # bs) m = (if t \<le> n then mature n bs (i64 (m + q)) else (m, (t, q) # bs))"
| "mature n [] m = (m, [])"

definition process_rex_maturities :: "env \<Rightarrow> rex_balance \<Rightarrow> rex_balance" where
  "process_rex_maturities E rb =
     (let (m, bs) = mature (now_sec E) (rex_maturities rb) (matured_rex rb)
      in rb\<lparr>matured_rex := m, rex_maturities := bs\<rparr>)"

text \<open>Adding to the last bucket when it has the maturity wanted, to a new one otherwise.\<close>

definition add_bucket :: "time_point_sec \<Rightarrow> int \<Rightarrow> (time_point_sec \<times> int) list \<Rightarrow> (time_point_sec \<times> int) list" where
  "add_bucket t q bs =
     (if bs \<noteq> [] \<and> fst (last bs) = t then butlast bs @ [(t, i64 (snd (last bs) + q))]
      else bs @ [(t, q)])"

definition read_rex_savings :: "rex_balance \<Rightarrow> rex_balance \<times> int" where
  "read_rex_savings rb =
     (let bs = rex_maturities rb in
      if bs \<noteq> [] \<and> fst (last bs) = end_of_days
      then (rb\<lparr>rex_maturities := butlast bs\<rparr>, snd (last bs)) else (rb, 0))"

definition put_rex_savings :: "int \<Rightarrow> rex_balance \<Rightarrow> rex_balance" where
  "put_rex_savings rex rb =
     (if rex = 0 then rb
      else rb\<lparr>rex_maturities := add_bucket end_of_days rex (rex_maturities rb)\<rparr>)"

fun add_all :: "(time_point_sec \<times> int) list \<Rightarrow> int \<Rightarrow> int" where
  "add_all [] acc = acc"
| "add_all (b # bs) acc = add_all bs (i64 (acc + snd b))"

definition consolidate_rex_balance :: "env \<Rightarrow> asset \<Rightarrow> rex_balance \<Rightarrow> rex_balance" where
  "consolidate_rex_balance E rex_in_sell_order rb =
     (let (rb, rex_in_savings) = read_rex_savings rb;
          acc = add_all (rex_maturities rb) (i64 (matured_rex rb - amount rex_in_sell_order));
          rb = rb\<lparr>matured_rex := amount rex_in_sell_order,
                  rex_maturities := (if 0 < acc then [(get_rex_maturity E, acc)] else [])\<rparr>
      in put_rex_savings rex_in_savings rb)"

section \<open>Balances\<close>

definition set_rexbal :: "name \<Rightarrow> rex_balance \<Rightarrow> rex_state \<Rightarrow> rex_state" where
  "set_rexbal owner rb X = X\<lparr>rexbalance := fmupd owner rb (rexbalance X)\<rparr>"

definition add_to_rex_balance ::
    "env \<Rightarrow> symbol res \<Rightarrow> name \<Rightarrow> asset \<Rightarrow> asset \<Rightarrow> rex_state \<Rightarrow> (asset \<times> rex_state) res" where
  "add_to_rex_balance E core owner payment rex_received X =
     bindE core (\<lambda>cs.
     bindE (new_asset E 0 cs) (\<lambda>zero.
     bindE
       (case fmlookup (rexbalance X) owner of
          None \<Rightarrow>
            Inr (\<lparr>rb_owner = owner, vote_stake = payment, rb_rex_balance = rex_received,
                  matured_rex = 0, rex_maturities = []\<rparr>, zero, set_amt (amount payment) zero)
        | Some rb \<Rightarrow>
            let init_rex_stake = set_amt (amount (vote_stake rb)) zero;
                rb = rb\<lparr>rb_rex_balance := inc_amt (amount rex_received) (rb_rex_balance rb)\<rparr> in
            bindE (the_pool X) (\<lambda>rp.
            bindE (muldiv128 (amount (rb_rex_balance rb)) (amount (total_lendable rp)) (amount (total_rex rp))) (\<lambda>v.
            let rb = rb\<lparr>vote_stake := set_amt v (vote_stake rb)\<rparr> in
            Inr (rb, init_rex_stake, set_amt v zero))))
       (\<lambda>(rb, init_rex_stake, current_rex_stake).
     let (rb, rex_in_savings) = read_rex_savings rb;
         rb = process_rex_maturities E rb;
         rb = rb\<lparr>rex_maturities := add_bucket (get_rex_maturity E) (amount rex_received) (rex_maturities rb)\<rparr>;
         rb = put_rex_savings rex_in_savings rb in
     bindE (sub_asset E current_rex_stake init_rex_stake) (\<lambda>delta.
     Inr (delta, set_rexbal owner rb X)))))"

text \<open>
  The current value of the REX of a voter as vote stake, and the change to apply to the
  voter's stake (\<open>update_rex_stake\<close>).
\<close>

definition refresh_rex_stake ::
    "env \<Rightarrow> symbol res \<Rightarrow> name \<Rightarrow> rex_state \<Rightarrow> (int \<times> rex_state) res" where
  "refresh_rex_stake E core voter X =
     (case fmlookup (rexbalance X) voter of
        Some rb \<Rightarrow>
          if rex_available X then
            bindE core (\<lambda>cs.
            bindE (new_asset E 0 cs) (\<lambda>_.
            bindE (the_pool X) (\<lambda>rp.
            bindE (muldiv128 (amount (rb_rex_balance rb)) (amount (total_lendable rp)) (amount (total_rex rp))) (\<lambda>v.
            Inr (i64 (v - amount (vote_stake rb)),
              set_rexbal voter (rb\<lparr>vote_stake := set_amt v (vote_stake rb)\<rparr>) X)))))
          else Inr (0, X)
      | None \<Rightarrow> Inr (0, X))"

section \<open>Sell orders\<close>

definition fill_rex_order ::
    "env \<Rightarrow> symbol res \<Rightarrow> name \<Rightarrow> asset \<Rightarrow> rex_state \<Rightarrow> (rex_order_outcome \<times> rex_state) res" where
  "fill_rex_order E core owner rex X =
     bindE (some_or (Trap ''end iterator of rexbal'') (fmlookup (rexbalance X) owner)) (\<lambda>rb.
     bindE (the_pool X) (\<lambda>rt.
     let S0 = amount (total_lendable rt); R0 = amount (total_rex rt) in
     bindE (muldiv128 (amount rex) S0 R0) (\<lambda>p.
     let R1 = i64 (R0 - amount rex); S1 = i64 (S0 - p) in
     bindE core (\<lambda>cs.
     bindE (new_asset E p cs) (\<lambda>proceeds.
     bindE (new_asset E 0 cs) (\<lambda>stake_change.
     bindE (muldiv128 2 (amount (total_lent rt)) 10) (\<lambda>unlent_lower_bound.
     let available_unlent = i64 (amount (total_unlent rt) - unlent_lower_bound) in
     if amount proceeds \<le> available_unlent then
       bindE (muldiv128 (amount (rb_rex_balance rb)) S0 R0) (\<lambda>current_stake_value.
       let rt = rt\<lparr>total_rex := set_amt R1 (total_rex rt),
                   total_lendable := set_amt S1 (total_lendable rt),
                   total_unlent := set_amt (i64 (S1 - amount (total_lent rt))) (total_unlent rt)\<rparr>;
           stake = i64 (current_stake_value - amount proceeds);
           rb' = rb\<lparr>vote_stake := set_amt stake (vote_stake rb),
                    rb_rex_balance := inc_amt (- amount rex) (rb_rex_balance rb),
                    matured_rex := i64 (matured_rex rb - amount rex)\<rparr> in
       Inr (\<lparr>success = True, oo_proceeds = proceeds,
             oo_stake_change = set_amt (i64 (stake - amount (vote_stake rb))) stake_change\<rparr>,
            set_rexbal owner rb' (X\<lparr>rexpool := Some rt\<rparr>)))
     else
       Inr (\<lparr>success = False, oo_proceeds = set_amt 0 proceeds, oo_stake_change = stake_change\<rparr>, X))))))))"

text \<open>
  Queueing an order that could not be filled (\<open>sellrex\<close>): the REX requested is added to the
  account's order. The result is the amount now requested.
\<close>

definition enqueue_order ::
    "env \<Rightarrow> symbol res \<Rightarrow> name \<Rightarrow> asset \<Rightarrow> rex_state \<Rightarrow> (int \<times> rex_state) res" where
  "enqueue_order E core from rex X =
     (case fmlookup (rexorders X) from of
        None \<Rightarrow>
          bindE core (\<lambda>cs.
          bindE (new_asset E 0 cs) (\<lambda>zero.
          Inr (amount rex, X\<lparr>rexorders := fmupd from \<lparr>o_owner = from, rex_requested = rex, proceeds = zero,
            stake_change = zero, order_time = now E, is_open = True\<rparr> (rexorders X)\<rparr>)))
      | Some r \<Rightarrow>
          let r = r\<lparr>rex_requested := inc_amt (amount rex) (rex_requested r)\<rparr> in
          Inr (amount (rex_requested r), X\<lparr>rexorders := fmupd from r (rexorders X)\<rparr>))"

end
