(* ===== verification/Rex_Run.thy ===== *)
theory Rex_Run
  imports Rex_Core
begin

text \<open>
  The REX maintenance that other actions start (\<open>runrex\<close>): expired loans are renewed or
  closed, queued sell orders are filled; and the loans themselves. These functions work on the
  whole contract state because they also move account limits and send token transfers.
\<close>

section \<open>Account limits\<close>

definition managed_flag :: "voting_state \<Rightarrow> name \<Rightarrow> flags1_fields \<Rightarrow> bool" where
  "managed_flag V a f = (case fmlookup (voters V) a of None \<Rightarrow> False | Some v \<Rightarrow> has_field (flags1 v) f)"

definition update_resource_limits ::
    "env \<Rightarrow> name \<Rightarrow> int \<Rightarrow> int \<Rightarrow> system_state \<Rightarrow> system_state res" where
  "update_resource_limits E receiver delta_net delta_cpu S =
     (if delta_cpu = 0 \<and> delta_net = 0 then Inr S
      else
        let R = rs S in
        bindE
          (case fmlookup (userres R) receiver of
             None \<Rightarrow>
               bindE (check (0 \<le> delta_net \<and> 0 \<le> delta_cpu) ''logic error, should not occur'') (\<lambda>_.
               bindE (core_symbol S) (\<lambda>cs.
               bindE (new_asset E delta_net cs) (\<lambda>net.
               bindE (new_asset E delta_cpu cs) (\<lambda>cpu.
               Inr \<lparr>ur_owner = receiver, ur_net_weight = net, ur_cpu_weight = cpu, ram_bytes = 0\<rparr>))))
           | Some tot \<Rightarrow>
               Inr (tot\<lparr>ur_net_weight := inc_amt delta_net (ur_net_weight tot),
                        ur_cpu_weight := inc_amt delta_cpu (ur_cpu_weight tot)\<rparr>)) (\<lambda>tot.
        bindE (check (0 \<le> amount (ur_net_weight tot)) ''insufficient staked total net bandwidth'') (\<lambda>_.
        bindE (check (0 \<le> amount (ur_cpu_weight tot)) ''insufficient staked total cpu bandwidth'') (\<lambda>_.
        let nm = managed_flag (vs S) receiver net_managed; cm = managed_flag (vs S) receiver cpu_managed in
        bindE
          (if \<not> (nm \<and> cm) then
             bindE (get_resource_limits receiver R) (\<lambda>(ram, net, cpu).
             Inr (set_resource_limits receiver ram
               (if nm then net else amount (ur_net_weight tot))
               (if cm then cpu else amount (ur_cpu_weight tot)) R))
           else Inr R) (\<lambda>R.
        Inr (S\<lparr>rs := R\<lparr>userres :=
          (if ur_is_empty tot then fmdrop receiver (userres R) else fmupd receiver tot (userres R))\<rparr>\<rparr>))))))"

section \<open>Fees channelled to the pool\<close>

text \<open>\<open>CHANNEL_RAM_AND_NAMEBID_FEES_TO_REX\<close> is defined.\<close>

definition channel_to_rex :: "env \<Rightarrow> name \<Rightarrow> asset \<Rightarrow> system_state \<Rightarrow> system_state res" where
  "channel_to_rex E from amt S =
     (case rexpool (rx S) of
        None \<Rightarrow> Inr S
      | Some rp \<Rightarrow>
          if rex_available (rx S) then
            Inr (emit [Token_transfer [active_of from] from rex_account amt
                (''transfer from '' @ name_to_string E from @ '' to eosio.rex'')]
              (S\<lparr>rx := (rx S)\<lparr>rexpool := Some (rp\<lparr>
                total_unlent := inc_amt (amount amt) (total_unlent rp),
                total_lendable := inc_amt (amount amt) (total_lendable rp)\<rparr>)\<rparr>\<rparr>))
          else Inr S)"

definition channel_namebid_to_rex :: "int \<Rightarrow> rex_state \<Rightarrow> rex_state" where
  "channel_namebid_to_rex highest_bid X =
     (case rexpool X of
        None \<Rightarrow> X
      | Some rp \<Rightarrow>
          if rex_available X
          then X\<lparr>rexpool := Some (rp\<lparr>namebid_proceeds := inc_amt highest_bid (namebid_proceeds rp)\<rparr>)\<rparr>
          else X)"

section \<open>Expired loans\<close>

text \<open>
  The result is the loan as it now is, or \<open>None\<close> when it is to be deleted, and the change to
  the stake of its receiver.
\<close>

definition process_expired_loan ::
    "env \<Rightarrow> symbol res \<Rightarrow> rex_loan \<Rightarrow> rex_state \<Rightarrow> (rex_loan option \<times> int \<times> rex_state) res" where
  "process_expired_loan E core loan X =
     bindE (the_pool X) (\<lambda>pool.
     bindE (remove_loan_from_rex_pool loan pool) (\<lambda>pool.
     let X = X\<lparr>rexpool := Some pool\<rparr> in
     bindE (get_bancor_output (amount (total_rent pool)) (amount (total_unlent pool)) (amount (l_payment loan)))
       (\<lambda>rented_tokens.
     bindE (le_asset E (l_payment loan) (l_balance loan)) (\<lambda>funded.
     if funded \<and> amount (l_payment loan) < rented_tokens \<and> rex_loans_available X then
       let pool = add_loan_to_rex_pool (l_payment loan) rented_tokens False pool;
           (loan', delta_stake) = update_renewed_loan rented_tokens loan in
       Inr (Some loan', delta_stake, X\<lparr>rexpool := Some pool\<rparr>)
     else
       bindE (if 0 < amount (l_balance loan) then transfer_to_fund core (l_from loan) (l_balance loan) X
              else Inr X) (\<lambda>X.
       Inr (None, i64 (- amount (total_staked loan)), X))))))"

datatype loan_kind = Cpu_loan | Net_loan

definition loans :: "loan_kind \<Rightarrow> rex_state \<Rightarrow> (int, rex_loan) table" where
  "loans k X = (case k of Cpu_loan \<Rightarrow> cpu_loans X | Net_loan \<Rightarrow> net_loans X)"

definition set_loans :: "loan_kind \<Rightarrow> (int, rex_loan) table \<Rightarrow> rex_state \<Rightarrow> rex_state" where
  "set_loans k t X = (case k of Cpu_loan \<Rightarrow> X\<lparr>cpu_loans := t\<rparr> | Net_loan \<Rightarrow> X\<lparr>net_loans := t\<rparr>)"

definition limits_for ::
    "env \<Rightarrow> loan_kind \<Rightarrow> name \<Rightarrow> int \<Rightarrow> system_state \<Rightarrow> system_state res" where
  "limits_for E k receiver delta S =
     (case k of
        Cpu_loan \<Rightarrow> update_resource_limits E receiver 0 delta S
      | Net_loan \<Rightarrow> update_resource_limits E receiver delta 0 S)"

text \<open>One pass of the loop over the loans that have expired, oldest first, at most \<open>n\<close>.\<close>

fun run_loans :: "env \<Rightarrow> loan_kind \<Rightarrow> nat \<Rightarrow> system_state \<Rightarrow> system_state res" where
  "run_loans E k 0 S = Inr S"
| "run_loans E k (Suc n) S =
     (case first_of (index_by by_expr (loans k (rx S))) of
        None \<Rightarrow> Inr S
      | Some loan \<Rightarrow>
          if now E < expiration loan then Inr S
          else
            bindE (process_expired_loan E (core_symbol S) loan (rx S)) (\<lambda>(renewed, delta_stake, X).
            let tab = (case renewed of None \<Rightarrow> fmdrop (l_loan_num loan) (loans k X)
                     | Some loan' \<Rightarrow> fmupd (l_loan_num loan) loan' (loans k X)) in
            bindE (limits_for E k (l_receiver loan) delta_stake (S\<lparr>rx := set_loans k tab X\<rparr>)) (\<lambda>S.
            run_loans E k n S)))"

section \<open>Queued orders\<close>

text \<open>
  The loop walks the time index, stepping to the next order before the current one is closed
  (which moves it to the end of the index). The list is the orders by time when the loop
  starts; only the current order changes while it runs.
\<close>

fun run_orders ::
    "env \<Rightarrow> symbol res \<Rightarrow> nat \<Rightarrow> rex_order list \<Rightarrow> rex_state \<Rightarrow> (effect list \<times> rex_state) res" where
  "run_orders E core 0 orders X = Inr ([], X)"
| "run_orders E core n [] X = Inr ([], X)"
| "run_orders E core (Suc n) (order # rest) X =
     (if \<not> is_open order then Inr ([], X)
      else if fmlookup (rexbalance X) (o_owner order) = None then run_orders E core n rest X
      else
        bindE (fill_rex_order E core (o_owner order) (rex_requested order) X) (\<lambda>(result, X).
        if success result then
          let order' = close_order (order\<lparr>proceeds := set_amt (amount (oo_proceeds result)) (proceeds order),
                stake_change := set_amt (amount (oo_stake_change result)) (stake_change order)\<rparr>);
              X = X\<lparr>rexorders := fmupd (o_owner order) order' (rexorders X)\<rparr> in
          bindE (run_orders E core n rest X) (\<lambda>(es, X).
          Inr (Rex_orderresult (o_owner order) (oo_proceeds result) # es, X))
        else run_orders E core n rest X))"

definition runrex :: "env \<Rightarrow> nat \<Rightarrow> system_state \<Rightarrow> system_state res" where
  "runrex E most S =
     bindE (check (rex_system_initialized (rx S)) ''rex system not initialized yet'') (\<lambda>_.
     bindE (the_pool (rx S)) (\<lambda>pool.
     bindE
       (if 0 < amount (namebid_proceeds pool) then
          bindE (channel_to_rex E names_account (namebid_proceeds pool) S) (\<lambda>S.
          bindE (the_pool (rx S)) (\<lambda>rt.
          Inr (S\<lparr>rx := (rx S)\<lparr>rexpool :=
            Some (rt\<lparr>namebid_proceeds := set_amt 0 (namebid_proceeds rt)\<rparr>)\<rparr>\<rparr>)))
        else Inr S) (\<lambda>S.
     bindE (run_loans E Cpu_loan most S) (\<lambda>S.
     bindE (run_loans E Net_loan most S) (\<lambda>S.
     bindE (run_orders E (core_symbol S) most (index_by by_time (rexorders (rx S))) (rx S)) (\<lambda>(es, X).
     Inr (emit es (S\<lparr>rx := X\<rparr>))))))))"

section \<open>Loans\<close>

definition rent_rex ::
    "env \<Rightarrow> loan_kind \<Rightarrow> name \<Rightarrow> name \<Rightarrow> asset \<Rightarrow> asset \<Rightarrow> system_state \<Rightarrow> (int \<times> system_state) res" where
  "rent_rex E k from receiver payment fund S =
     bindE (runrex E 2 S) (\<lambda>S.
     bindE (check (rex_loans_available (rx S)) ''rex loans are currently not available'') (\<lambda>_.
     bindE (core_symbol S) (\<lambda>cs.
     bindE (check (symbol payment = cs \<and> symbol fund = cs) ''must use core token'') (\<lambda>_.
     bindE (check (0 < amount payment \<and> 0 \<le> amount fund) ''must use positive asset amount'') (\<lambda>_.
     bindE (add_asset E payment fund) (\<lambda>both.
     bindE (transfer_from_fund E (core_symbol S) from both (rx S)) (\<lambda>X.
     bindE (the_pool X) (\<lambda>pool.
     bindE (get_bancor_output (amount (total_rent pool)) (amount (total_unlent pool)) (amount payment))
       (\<lambda>rented_tokens.
     bindE (check (amount payment < rented_tokens) ''loan price does not favor renting'') (\<lambda>_.
     let pool = add_loan_to_rex_pool payment rented_tokens True pool;
         X = X\<lparr>rexpool := Some pool\<rparr> in
     bindE (new_asset E rented_tokens cs) (\<lambda>staked.
     bindE (emplace (rp_loan_num pool)
       \<lparr>l_from = from, l_receiver = receiver, l_payment = payment, l_balance = fund, total_staked = staked,
        l_loan_num = rp_loan_num pool, expiration = i64 (now E + 30 * useconds_per_day)\<rparr> (loans k X)) (\<lambda>tab.
     Inr (rented_tokens, emit [Rex_rentresult staked] (S\<lparr>rx := set_loans k tab X\<rparr>))))))))))))))"

definition fund_rex_loan ::
    "env \<Rightarrow> symbol res \<Rightarrow> loan_kind \<Rightarrow> name \<Rightarrow> int \<Rightarrow> asset \<Rightarrow> rex_state \<Rightarrow> rex_state res" where
  "fund_rex_loan E core k from loan_num payment X =
     bindE core (\<lambda>cs.
     bindE (check (symbol payment = cs) ''must use core token'') (\<lambda>_.
     bindE (transfer_from_fund E core from payment X) (\<lambda>X.
     bindE (some_or (Check ''loan not found'') (fmlookup (loans k X) loan_num)) (\<lambda>loan.
     bindE (check (l_from loan = from) ''user must be loan creator'') (\<lambda>_.
     bindE (check (now E < expiration loan) ''loan has already expired'') (\<lambda>_.
     Inr (set_loans k (fmupd loan_num (loan\<lparr>l_balance := inc_amt (amount payment) (l_balance loan)\<rparr>)
       (loans k X)) X)))))))"

definition defund_rex_loan ::
    "env \<Rightarrow> symbol res \<Rightarrow> loan_kind \<Rightarrow> name \<Rightarrow> int \<Rightarrow> asset \<Rightarrow> rex_state \<Rightarrow> rex_state res" where
  "defund_rex_loan E core k from loan_num amt X =
     bindE core (\<lambda>cs.
     bindE (check (symbol amt = cs) ''must use core token'') (\<lambda>_.
     bindE (some_or (Check ''loan not found'') (fmlookup (loans k X) loan_num)) (\<lambda>loan.
     bindE (check (l_from loan = from) ''user must be loan creator'') (\<lambda>_.
     bindE (check (now E < expiration loan) ''loan has already expired'') (\<lambda>_.
     bindE (le_asset E amt (l_balance loan)) (\<lambda>enough.
     bindE (check enough ''insufficent loan balance'') (\<lambda>_.
     transfer_to_fund core from amt
       (set_loans k (fmupd loan_num (loan\<lparr>l_balance := inc_amt (- amount amt) (l_balance loan)\<rparr>)
         (loans k X)) X))))))))"

section \<open>The vote stake of REX holders\<close>

definition update_rex_stake :: "env \<Rightarrow> name \<Rightarrow> system_state \<Rightarrow> system_state res" where
  "update_rex_stake E voter S =
     bindE (refresh_rex_stake E (core_symbol S) voter (rx S)) (\<lambda>(delta_stake, X).
     let S = S\<lparr>rx := X\<rparr> in
     Inr (if delta_stake \<noteq> 0 then
            (case fmlookup (voters (vs S)) voter of
               None \<Rightarrow> S
             | Some v \<Rightarrow> S\<lparr>vs := (vs S)\<lparr>voters := fmupd voter (v\<lparr>staked := i64 (staked v + delta_stake)\<rparr>)
                 (voters (vs S))\<rparr>\<rparr>)
          else S))"

text \<open>
  The functions registered with a hook are called in order with the same arguments
  (\<open>registration::for_each\<close>); the hook run before a vote or a change of stakes has one.
\<close>

fun for_each :: "('a \<Rightarrow> 's \<Rightarrow> 's res) \<Rightarrow> ('a \<Rightarrow> 's \<Rightarrow> 's res) list \<Rightarrow> 'a \<Rightarrow> 's \<Rightarrow> 's res" where
  "for_each P [] args this_contract = P args this_contract"
| "for_each P (Q # Qs) args this_contract = bindE (P args this_contract) (for_each Q Qs args)"

definition vote_stake_updater :: "env \<Rightarrow> name \<Rightarrow> system_state \<Rightarrow> system_state res" where
  "vote_stake_updater E = for_each (update_rex_stake E) []"

lemma vote_stake_updater_eq [simp]: "vote_stake_updater E = update_rex_stake E"
  by (rule ext)+ (simp add: vote_stake_updater_def)

end
