(* ===== verification/Voting.thy ===== *)
theory Voting
  imports System_State
begin

text \<open>
  Voting (\<open>voting.cpp\<close>): producer and proxy registration, the vote weights and their
  propagation along proxies, the shares producers are paid by, and the election of the
  schedule. Vote weights are doubles; \<open>std::pow\<close> is a parameter of the environment.

  \<open>propagate_weight_change\<close> calls itself on the proxy of a voter. Its model takes the depth
  it may use; callers give one more than the number of voters, which is enough as long as
  proxies form no cycle, and running out aborts as the chain's call-depth limit does.
\<close>

section \<open>Producers\<close>

definition update_total_votepay_share ::
    "time_point \<Rightarrow> double \<Rightarrow> double \<Rightarrow> voting_state \<Rightarrow> voting_state \<times> double" where
  "update_total_votepay_share ct additional_shares_delta shares_rate_delta V =
     (let g2 = gstate2 V; g3 = gstate3 V;
          delta = (if last_vpay_state_update g3 < ct
            then dmul (total_vpay_share_change_rate g3) (ddiv (dbl (ct - last_vpay_state_update g3)) 1000000)
            else 0);
          delta = dadd delta additional_shares_delta;
          share = (if delta < 0 \<and> total_producer_votepay_share g2 < - delta then 0
            else dadd (total_producer_votepay_share g2) delta);
          rate = (if shares_rate_delta < 0 \<and> total_vpay_share_change_rate g3 < - shares_rate_delta then 0
            else dadd (total_vpay_share_change_rate g3) shares_rate_delta)
      in (V\<lparr>gstate2 := g2\<lparr>total_producer_votepay_share := share\<rparr>,
            gstate3 := g3\<lparr>total_vpay_share_change_rate := rate, last_vpay_state_update := ct\<rparr>\<rparr>,
          share))"

definition update_producer_votepay_share ::
    "producer_info2 \<Rightarrow> time_point \<Rightarrow> double \<Rightarrow> bool \<Rightarrow> voting_state \<Rightarrow> voting_state \<times> double" where
  "update_producer_votepay_share prow2 ct shares_rate reset_to_zero V =
     (let delta = (if 0 < shares_rate \<and> last_votepay_share_update prow2 < ct
            then dmul shares_rate (ddiv (dbl (ct - last_votepay_share_update prow2)) 1000000)
            else 0);
          new_share = dadd (votepay_share prow2) delta
      in (V\<lparr>producers2 := fmupd (p2_owner prow2)
            (prow2\<lparr>votepay_share := (if reset_to_zero then 0 else new_share),
                   last_votepay_share_update := ct\<rparr>) (producers2 V)\<rparr>,
          new_share))"

definition regproducer ::
    "env \<Rightarrow> name \<Rightarrow> bytes \<Rightarrow> string \<Rightarrow> int \<Rightarrow> voting_state \<Rightarrow> voting_state res" where
  "regproducer E producer key u loc V =
     bindE (check (length u < 512) ''url too long'') (\<lambda>_.
     bindE (check (key \<noteq> default_key E) ''public key should not be the default value'') (\<lambda>_.
     bindE (require_auth E producer) (\<lambda>_.
     let ct = now E in
     (case fmlookup (producers V) producer of
        Some prow \<Rightarrow>
          let prow = prow\<lparr>producer_key := key, is_active := True, url := u, location := loc,
                last_claim_time := (if last_claim_time prow = 0 then ct else last_claim_time prow)\<rparr>;
              V = V\<lparr>producers := fmupd producer prow (producers V)\<rparr> in
          (case fmlookup (producers2 V) producer of
             None \<Rightarrow>
               let V = V\<lparr>producers2 := fmupd producer
                     \<lparr>p2_owner = producer, votepay_share = 0, last_votepay_share_update = ct\<rparr>
                     (producers2 V)\<rparr> in
               Inr (fst (update_total_votepay_share ct 0 (total_votes prow) V))
           | Some _ \<Rightarrow> Inr V)
      | None \<Rightarrow>
          let V = V\<lparr>producers := fmupd producer
                \<lparr>p_owner = producer, total_votes = 0, producer_key = key, is_active = True, url = u,
                 unpaid_blocks = 0, last_claim_time = ct, location = loc\<rparr> (producers V)\<rparr> in
          bindE (emplace producer
            \<lparr>p2_owner = producer, votepay_share = 0, last_votepay_share_update = ct\<rparr> (producers2 V)) (\<lambda>t2.
          Inr (V\<lparr>producers2 := t2\<rparr>))))))"

definition unregprod :: "env \<Rightarrow> name \<Rightarrow> voting_state \<Rightarrow> voting_state res" where
  "unregprod E producer V =
     bindE (require_auth E producer) (\<lambda>_.
     bindE (some_or (Check ''producer not found'') (fmlookup (producers V) producer)) (\<lambda>prow.
     Inr (V\<lparr>producers := fmupd producer (deactivate E prow) (producers V)\<rparr>)))"

definition rmvproducer :: "env \<Rightarrow> name \<Rightarrow> voting_state \<Rightarrow> voting_state res" where
  "rmvproducer E producer V =
     bindE (require_auth E (get_self E)) (\<lambda>_.
     bindE (some_or (Check ''producer not found'') (fmlookup (producers V) producer)) (\<lambda>prow.
     Inr (V\<lparr>producers := fmupd producer (deactivate E prow) (producers V)\<rparr>)))"

text \<open>The first 21 of the vote index as long as they are active and have votes.\<close>

definition top_producers :: "voting_state \<Rightarrow> producer_info list" where
  "top_producers V =
     take 21 (takeWhile (\<lambda>p. 0 < total_votes p \<and> is_active p) (index_by by_votes (producers V)))"

text \<open>The schedule proposed is sorted by producer name.\<close>

definition update_elected_producers :: "env \<Rightarrow> slot \<Rightarrow> voting_state \<Rightarrow> voting_state \<times> effect list" where
  "update_elected_producers E block_time V =
     (let V = V\<lparr>gstate := (gstate V)\<lparr>last_producer_schedule_update := block_time\<rparr>\<rparr>;
          top = top_producers V in
      if top = [] \<or> int (length top) < last_producer_schedule_size (gstate V) then (V, [])
      else
        let schedule = map (\<lambda>p. (p_owner p, producer_key p)) (sort_key p_owner top);
            V' = (if 0 \<le> set_proposed_producers E schedule
              then V\<lparr>gstate := (gstate V)\<lparr>last_producer_schedule_size := u16 (int (length top))\<rparr>\<rparr>
              else V)
        in (V', [Set_proposed_producers schedule]))"

section \<open>Vote weights\<close>

definition stake2vote :: "env \<Rightarrow> int \<Rightarrow> double" where
  "stake2vote E stake =
     (let weight = ddiv (dbl (tdiv (now_sec E - 946684800) (seconds_per_day * 7))) 52
      in dmul (dbl stake) (std_pow E 2 weight))"

definition modify_voter :: "name \<Rightarrow> (voter_info \<Rightarrow> voter_info) \<Rightarrow> voting_state \<Rightarrow> voting_state res" where
  "modify_voter a f V =
     bindE (some_or (Trap ''cannot pass end iterator to modify'') (fmlookup (voters V) a)) (\<lambda>v.
     Inr (V\<lparr>voters := fmupd a (f v) (voters V)\<rparr>))"

text \<open>
  What a change \<open>delta\<close> of a producer's votes does to its pay shares: the producer's own row
  and the contributions to the global rate and to the shares that lapse.
\<close>

definition account_share_change ::
    "time_point \<Rightarrow> name \<Rightarrow> time_point \<Rightarrow> double \<Rightarrow> double \<Rightarrow> voting_state \<times> double \<times> double \<Rightarrow>
     voting_state \<times> double \<times> double" where
  "account_share_change ct acnt last_claim init_total_votes delta acc =
     (case acc of (V, delta_change_rate, total_inactive_vpay_share) \<Rightarrow>
      (case fmlookup (producers2 V) acnt of
         None \<Rightarrow> acc
       | Some prow2 \<Rightarrow>
           let last_claim_plus_3days = i64 (last_claim + 3 * useconds_per_day);
               crossed_threshold = (last_claim_plus_3days \<le> ct);
               updated_after_threshold = (last_claim_plus_3days \<le> last_votepay_share_update prow2);
               (V, new_votepay_share) = update_producer_votepay_share prow2 ct
                 (if updated_after_threshold then 0 else init_total_votes)
                 (crossed_threshold \<and> \<not> updated_after_threshold) V
           in if \<not> crossed_threshold
              then (V, dadd delta_change_rate delta, total_inactive_vpay_share)
              else if \<not> updated_after_threshold
              then (V, dsub delta_change_rate init_total_votes,
                    dadd total_inactive_vpay_share new_votepay_share)
              else (V, delta_change_rate, total_inactive_vpay_share)))"

fun add_to_producers ::
    "time_point \<Rightarrow> double \<Rightarrow> name list \<Rightarrow> voting_state \<times> double \<times> double \<Rightarrow>
     (voting_state \<times> double \<times> double) res" where
  "add_to_producers ct delta [] acc = Inr acc"
| "add_to_producers ct delta (acnt # rest) (V, dcr, inactive) =
     bindE (some_or (Check ''producer not found'') (fmlookup (producers V) acnt)) (\<lambda>prow.
     let V = V\<lparr>producers := fmupd acnt (prow\<lparr>total_votes := dadd (total_votes prow) delta\<rparr>) (producers V),
               gstate := (gstate V)\<lparr>total_producer_vote_weight :=
                 dadd (total_producer_vote_weight (gstate V)) delta\<rparr>\<rparr> in
     add_to_producers ct delta rest
       (account_share_change ct acnt (last_claim_time prow) (total_votes prow) delta (V, dcr, inactive)))"

fun propagate_weight_change :: "env \<Rightarrow> nat \<Rightarrow> name \<Rightarrow> voting_state \<Rightarrow> voting_state res" where
  "propagate_weight_change E 0 a V = Inl (Trap ''call depth exceeded'')"
| "propagate_weight_change E (Suc depth) a V =
     bindE (some_or (Trap ''voter row missing'') (fmlookup (voters V) a)) (\<lambda>voter.
     bindE (check (proxy voter = 0 \<or> \<not> is_proxy voter)
       ''account registered as a proxy is not allowed to use a proxy'') (\<lambda>_.
     let new_weight = stake2vote E (staked voter);
         new_weight = (if is_proxy voter then dadd new_weight (proxied_vote_weight voter) else new_weight)
     in
     bindE
       (if 1 < \<bar>dsub new_weight (last_vote_weight voter)\<bar> then
          if proxy voter \<noteq> 0 then
            bindE (some_or (Check ''proxy not found'') (fmlookup (voters V) (proxy voter))) (\<lambda>p.
            let p = p\<lparr>proxied_vote_weight :=
                  dadd (proxied_vote_weight p) (dsub new_weight (last_vote_weight voter))\<rparr> in
            propagate_weight_change E depth (proxy voter)
              (V\<lparr>voters := fmupd (proxy voter) p (voters V)\<rparr>))
          else
            bindE (add_to_producers (now E) (dsub new_weight (last_vote_weight voter))
              (v_producers voter) (V, 0, 0)) (\<lambda>(V, delta_change_rate, total_inactive_vpay_share).
            Inr (fst (update_total_votepay_share (now E) (- total_inactive_vpay_share) delta_change_rate V)))
        else Inr V) (\<lambda>V.
     modify_voter a (\<lambda>v. v\<lparr>last_vote_weight := new_weight\<rparr>) V)))"

text \<open>One more than the number of voters.\<close>

definition proxy_depth :: "voting_state \<Rightarrow> nat" where
  "proxy_depth V = Suc (fcard (fmdom (voters V)))"

definition propagate :: "env \<Rightarrow> name \<Rightarrow> voting_state \<Rightarrow> voting_state res" where
  "propagate E a V = propagate_weight_change E (proxy_depth V) a V"

definition regproxy :: "env \<Rightarrow> name \<Rightarrow> bool \<Rightarrow> voting_state \<Rightarrow> voting_state res" where
  "regproxy E prox isproxy V =
     bindE (require_auth E prox) (\<lambda>_.
     (case fmlookup (voters V) prox of
        Some pitr \<Rightarrow>
          bindE (check (isproxy \<noteq> is_proxy pitr) ''action has no effect'') (\<lambda>_.
          bindE (check (\<not> isproxy \<or> proxy pitr = 0)
            ''account that uses a proxy is not allowed to become a proxy'') (\<lambda>_.
          propagate E prox (V\<lparr>voters := fmupd prox (pitr\<lparr>is_proxy := isproxy\<rparr>) (voters V)\<rparr>)))
      | None \<Rightarrow>
          Inr (V\<lparr>voters := fmupd prox ((new_voter prox)\<lparr>is_proxy := isproxy\<rparr>) (voters V)\<rparr>)))"

section \<open>Votes\<close>

text \<open>
  The votes taken back from the old producers and given to the new ones, by producer, with
  whether the producer is in the new set (\<open>producer_deltas\<close>).
\<close>

type_synonym vote_deltas = "(name, double \<times> bool) fmap"

definition delta_of :: "vote_deltas \<Rightarrow> name \<Rightarrow> double" where
  "delta_of D p = (case fmlookup D p of None \<Rightarrow> 0 | Some d \<Rightarrow> fst d)"

fun take_back :: "double \<Rightarrow> name list \<Rightarrow> vote_deltas \<Rightarrow> vote_deltas" where
  "take_back w [] D = D"
| "take_back w (p # ps) D = take_back w ps (fmupd p (dsub (delta_of D p) w, False) D)"

fun hand_out :: "double \<Rightarrow> name list \<Rightarrow> vote_deltas \<Rightarrow> vote_deltas" where
  "hand_out w [] D = D"
| "hand_out w (p # ps) D = hand_out w ps (fmupd p (dadd (delta_of D p) w, True) D)"

fun apply_deltas ::
    "env \<Rightarrow> bool \<Rightarrow> (name \<times> double \<times> bool) list \<Rightarrow> voting_state \<times> double \<times> double \<Rightarrow>
     (voting_state \<times> double \<times> double) res" where
  "apply_deltas E voting [] acc = Inr acc"
| "apply_deltas E voting ((pname, delta, new) # rest) (V, dcr, inactive) =
     (case fmlookup (producers V) pname of
        Some pitr \<Rightarrow>
          bindE (check (\<not> (voting \<and> \<not> is_active pitr \<and> new))
            (''producer '' @ name_to_string E (p_owner pitr) @ '' is not currently registered'')) (\<lambda>_.
          let votes = dadd (total_votes pitr) delta;
              V = V\<lparr>producers := fmupd pname (pitr\<lparr>total_votes := (if votes < 0 then 0 else votes)\<rparr>) (producers V),
                    gstate := (gstate V)\<lparr>total_producer_vote_weight :=
                      dadd (total_producer_vote_weight (gstate V)) delta\<rparr>\<rparr> in
          apply_deltas E voting rest
            (account_share_change (now E) pname (last_claim_time pitr) (total_votes pitr) delta
              (V, dcr, inactive)))
      | None \<Rightarrow>
          bindE (check (\<not> new) (''producer '' @ name_to_string E pname @ '' is not registered'')) (\<lambda>_.
          apply_deltas E voting rest (V, dcr, inactive)))"

fun strictly_ascending :: "name list \<Rightarrow> bool" where
  "strictly_ascending (a # b # rest) \<longleftrightarrow> a < b \<and> strictly_ascending (b # rest)"
| "strictly_ascending _ \<longleftrightarrow> True"

definition validate_votes :: "name \<Rightarrow> name \<Rightarrow> name list \<Rightarrow> unit res" where
  "validate_votes voter_name prox prods =
     (if prox \<noteq> 0 then
        bindE (check (prods = []) ''cannot vote for producers and proxy at same time'') (\<lambda>_.
        check (voter_name \<noteq> prox) ''cannot proxy to self'')
      else
        bindE (check (length prods \<le> 30) ''attempt to vote for too many producers'') (\<lambda>_.
        check (strictly_ascending prods) ''producer votes must be unique and sorted''))"

text \<open>The first vote of an account activates its stake.\<close>

definition activate_stake :: "env \<Rightarrow> voter_info \<Rightarrow> voting_state \<Rightarrow> voting_state" where
  "activate_stake E voter V =
     (if last_vote_weight voter \<le> 0 then
        let g = (gstate V)\<lparr>total_activated_stake := i64 (total_activated_stake (gstate V) + staked voter)\<rparr>;
            g = (if min_activated_stake \<le> total_activated_stake g \<and> thresh_activated_stake_time g = 0
                 then g\<lparr>thresh_activated_stake_time := now E\<rparr> else g)
        in V\<lparr>gstate := g\<rparr>
      else V)"

definition withdraw_old_votes ::
    "env \<Rightarrow> voter_info \<Rightarrow> voting_state \<Rightarrow> (voting_state \<times> vote_deltas) res" where
  "withdraw_old_votes E voter V =
     (if 0 < last_vote_weight voter then
        if proxy voter \<noteq> 0 then
          bindE (some_or (Check ''old proxy not found'') (fmlookup (voters V) (proxy voter))) (\<lambda>op.
          let op = op\<lparr>proxied_vote_weight := dsub (proxied_vote_weight op) (last_vote_weight voter)\<rparr> in
          bindE (propagate E (proxy voter) (V\<lparr>voters := fmupd (proxy voter) op (voters V)\<rparr>)) (\<lambda>V.
          Inr (V, fmempty)))
        else Inr (V, take_back (last_vote_weight voter) (v_producers voter) fmempty)
      else Inr (V, fmempty))"

definition cast_new_votes ::
    "env \<Rightarrow> name \<Rightarrow> name list \<Rightarrow> bool \<Rightarrow> double \<Rightarrow> voting_state \<times> vote_deltas \<Rightarrow>
     (voting_state \<times> vote_deltas) res" where
  "cast_new_votes E prox prods voting new_vote_weight VD =
     (case VD of (V, D) \<Rightarrow>
      if prox \<noteq> 0 then
        bindE (some_or (Check ''invalid proxy specified'') (fmlookup (voters V) prox)) (\<lambda>np.
        bindE (check (\<not> voting \<or> is_proxy np) ''proxy not found'') (\<lambda>_.
        if 0 \<le> new_vote_weight then
          let np = np\<lparr>proxied_vote_weight := dadd (proxied_vote_weight np) new_vote_weight\<rparr> in
          bindE (propagate E prox (V\<lparr>voters := fmupd prox np (voters V)\<rparr>)) (\<lambda>V.
          Inr (V, D))
        else Inr (V, D)))
      else if 0 \<le> new_vote_weight then Inr (V, hand_out new_vote_weight prods D)
      else Inr (V, D))"

definition update_votes ::
    "env \<Rightarrow> name \<Rightarrow> name \<Rightarrow> name list \<Rightarrow> bool \<Rightarrow> voting_state \<Rightarrow> voting_state res" where
  "update_votes E voter_name prox prods voting V =
     bindE (validate_votes voter_name prox prods) (\<lambda>_.
     bindE (some_or (Check ''user must stake before they can vote'') (fmlookup (voters V) voter_name)) (\<lambda>voter.
     bindE (check (prox = 0 \<or> \<not> is_proxy voter)
       ''account registered as a proxy is not allowed to use a proxy'') (\<lambda>_.
     let V = activate_stake E voter V;
         new_vote_weight = stake2vote E (staked voter);
         new_vote_weight = (if is_proxy voter then dadd new_vote_weight (proxied_vote_weight voter)
           else new_vote_weight) in
     bindE (withdraw_old_votes E voter V) (\<lambda>VD.
     bindE (cast_new_votes E prox prods voting new_vote_weight VD) (\<lambda>(V, D).
     bindE (apply_deltas E voting (sorted_list_of_fmap D) (V, 0, 0))
       (\<lambda>(V, delta_change_rate, total_inactive_vpay_share).
     let V = fst (update_total_votepay_share (now E) (- total_inactive_vpay_share) delta_change_rate V) in
     modify_voter voter_name
       (\<lambda>av. av\<lparr>last_vote_weight := new_vote_weight, v_producers := prods, proxy := prox\<rparr>) V))))))"

end
