(* ===== verification/Delegate.thy ===== *)
theory Delegate
  imports Rex_Run Voting
begin

text \<open>
  Staking (\<open>delegate_bandwidth.cpp\<close>): tokens delegated for network and processor time, the
  limits of the receiver, the refund of what is withdrawn, and the voting power of the owner.
  \<open>changebw\<close> is composed of its four blocks.
\<close>

section \<open>Voting power\<close>

definition validate_b1_vesting :: "env \<Rightarrow> int \<Rightarrow> unit res" where
  "validate_b1_vesting E stake =
     (let base_time = 1527811200; max_claimable = 1000000000000 in
      bindE (dbl_to_i64 (ddiv (dmul (dbl max_claimable) (dbl (now_sec E - base_time))) (dbl (10 * seconds_per_year))))
        (\<lambda>claimable.
      check (i64 (max_claimable - claimable) \<le> stake) ''b1 can only claim their tokens over 10 years''))"

definition update_voting_power :: "env \<Rightarrow> name \<Rightarrow> asset \<Rightarrow> voting_state \<Rightarrow> voting_state res" where
  "update_voting_power E voter total_update V =
     (let v = (case fmlookup (voters V) voter of
            None \<Rightarrow> (new_voter voter)\<lparr>staked := amount total_update\<rparr>
          | Some v \<Rightarrow> v\<lparr>staked := i64 (staked v + amount total_update)\<rparr>);
          V = V\<lparr>voters := fmupd voter v (voters V)\<rparr> in
      bindE (check (0 \<le> staked v) ''stake for voting cannot be negative'') (\<lambda>_.
      bindE (if voter = b1_account then validate_b1_vesting E (staked v) else Inr ()) (\<lambda>_.
      if v_producers v \<noteq> [] \<or> proxy v \<noteq> 0 then update_votes E voter (proxy v) (v_producers v) False V
      else Inr V)))"

definition on_vs :: "(voting_state \<Rightarrow> voting_state res) \<Rightarrow> system_state \<Rightarrow> system_state res" where
  "on_vs f S = bindE (f (vs S)) (\<lambda>V. Inr (S\<lparr>vs := V\<rparr>))"

definition on_rx :: "(rex_state \<Rightarrow> rex_state res) \<Rightarrow> system_state \<Rightarrow> system_state res" where
  "on_rx f S = bindE (f (rx S)) (\<lambda>X. Inr (S\<lparr>rx := X\<rparr>))"

section \<open>Changing a stake\<close>

definition change_delband ::
    "env \<Rightarrow> name \<Rightarrow> name \<Rightarrow> asset \<Rightarrow> asset \<Rightarrow> resource_state \<Rightarrow> resource_state res" where
  "change_delband E from receiver dnet dcpu R =
     bindE
       (case fmlookup (delband R) (from, receiver) of
          None \<Rightarrow> Inr \<lparr>db_from = from, db_to = receiver, db_net_weight = dnet, db_cpu_weight = dcpu\<rparr>
        | Some dbo \<Rightarrow>
            bindE (add_asset E (db_net_weight dbo) dnet) (\<lambda>net.
            bindE (add_asset E (db_cpu_weight dbo) dcpu) (\<lambda>cpu.
            Inr (dbo\<lparr>db_net_weight := net, db_cpu_weight := cpu\<rparr>)))) (\<lambda>dbo.
     bindE (check (0 \<le> amount (db_net_weight dbo)) ''insufficient staked net bandwidth'') (\<lambda>_.
     bindE (check (0 \<le> amount (db_cpu_weight dbo)) ''insufficient staked cpu bandwidth'') (\<lambda>_.
     Inr (R\<lparr>delband := (if db_is_empty dbo then fmdrop (from, receiver) (delband R)
       else fmupd (from, receiver) dbo (delband R))\<rparr>))))"

definition change_totals ::
    "env \<Rightarrow> name \<Rightarrow> asset \<Rightarrow> asset \<Rightarrow> voting_state \<Rightarrow> resource_state \<Rightarrow> resource_state res" where
  "change_totals E receiver dnet dcpu V R =
     bindE
       (case fmlookup (userres R) receiver of
          None \<Rightarrow> Inr \<lparr>ur_owner = receiver, ur_net_weight = dnet, ur_cpu_weight = dcpu, ram_bytes = 0\<rparr>
        | Some tot \<Rightarrow>
            bindE (add_asset E (ur_net_weight tot) dnet) (\<lambda>net.
            bindE (add_asset E (ur_cpu_weight tot) dcpu) (\<lambda>cpu.
            Inr (tot\<lparr>ur_net_weight := net, ur_cpu_weight := cpu\<rparr>)))) (\<lambda>tot.
     bindE (check (0 \<le> amount (ur_net_weight tot)) ''insufficient staked total net bandwidth'') (\<lambda>_.
     bindE (check (0 \<le> amount (ur_cpu_weight tot)) ''insufficient staked total cpu bandwidth'') (\<lambda>_.
     let rm = managed_flag V receiver ram_managed; nm = managed_flag V receiver net_managed;
         cm = managed_flag V receiver cpu_managed in
     bindE
       (if \<not> (nm \<and> cm) then
          bindE (get_resource_limits receiver R) (\<lambda>(ram, net, cpu).
          Inr (set_resource_limits receiver
            (if rm then ram else max (i64 (ram_bytes tot + ram_gift_bytes)) ram)
            (if nm then net else amount (ur_net_weight tot))
            (if cm then cpu else amount (ur_cpu_weight tot)) R))
        else Inr R) (\<lambda>R.
     Inr (R\<lparr>userres := (if ur_is_empty tot then fmdrop receiver (userres R)
       else fmupd receiver tot (userres R))\<rparr>)))))"

text \<open>
  One side of an existing refund against one side of the change: what is left of the refund,
  and what is still to be moved from the owner's balance.
\<close>

definition offset_refund :: "env \<Rightarrow> asset \<Rightarrow> asset \<Rightarrow> (asset \<times> asset) res" where
  "offset_refund E refund delta =
     bindE (sub_asset E refund delta) (\<lambda>r.
     Inr (if amount r < 0 then (set_amt 0 r, asset_neg E r) else (r, set_amt 0 delta)))"

text \<open>The same when there is no refund yet: a withdrawal starts one.\<close>

definition start_refund :: "env \<Rightarrow> symbol res \<Rightarrow> asset \<Rightarrow> (asset \<times> asset) res" where
  "start_refund E core delta =
     (if amount delta < 0 then Inr (asset_neg E delta, set_amt 0 delta)
      else bindE core (\<lambda>cs. bindE (new_asset E 0 cs) (\<lambda>zero. Inr (zero, delta))))"

text \<open>
  The refund of \<open>from\<close>. The result is what is still to be paid for each side, whether a
  deferred refund is to be scheduled, and the table.
\<close>

definition change_refund ::
    "env \<Rightarrow> symbol res \<Rightarrow> name \<Rightarrow> bool \<Rightarrow> asset \<Rightarrow> asset \<Rightarrow> (name, refund_request) table \<Rightarrow>
     (asset \<times> asset \<times> bool \<times> (name, refund_request) table) res" where
  "change_refund E core from is_delegating_to_self dnet dcpu T =
     (let is_undelegating = (i64 (amount dnet + amount dcpu) < 0) in
      if is_delegating_to_self \<or> is_undelegating then
        (case fmlookup T from of
           Some req \<Rightarrow>
             let t = (if amount dnet < 0 \<or> amount dcpu < 0 then now_sec E else request_time req) in
             bindE (offset_refund E (net_amount req) dnet) (\<lambda>(rnet, net).
             bindE (offset_refund E (cpu_amount req) dcpu) (\<lambda>(rcpu, cpu).
             let req = req\<lparr>request_time := t, net_amount := rnet, cpu_amount := rcpu\<rparr> in
             bindE (check (0 \<le> amount rnet) ''negative net refund amount'') (\<lambda>_.
             bindE (check (0 \<le> amount rcpu) ''negative cpu refund amount'') (\<lambda>_.
             if rr_is_empty req then Inr (net, cpu, False, fmdrop from T)
             else Inr (net, cpu, True, fmupd from req T)))))
         | None \<Rightarrow>
             if amount dnet < 0 \<or> amount dcpu < 0 then
               bindE (start_refund E core dnet) (\<lambda>(rnet, net).
               bindE (start_refund E core dcpu) (\<lambda>(rcpu, cpu).
               Inr (net, cpu, True, fmupd from \<lparr>rr_owner = from, request_time = now_sec E,
                 net_amount = rnet, cpu_amount = rcpu\<rparr> T)))
             else Inr (dnet, dcpu, False, T))
      else Inr (dnet, dcpu, False, T))"

text \<open>The deferred refund replaces the one pending, if any; then the payment is collected.\<close>

definition settle_stake ::
    "env \<Rightarrow> name \<Rightarrow> name \<Rightarrow> asset \<Rightarrow> asset \<Rightarrow> bool \<Rightarrow> effect list res" where
  "settle_stake E source from net cpu need_deferred_trx =
     bindE (add_asset E net cpu) (\<lambda>transfer_amount.
     Inr ([Cancel_deferred (uint from)] @
       (if need_deferred_trx then [Send_deferred (uint from) from refund_delay_sec (Trx_refund from) True] else []) @
       (if 0 < amount transfer_amount
        then [Token_transfer [active_of source] source stake_account transfer_amount ''stake bandwidth'']
        else [])))"

definition changebw ::
    "env \<Rightarrow> name \<Rightarrow> name \<Rightarrow> asset \<Rightarrow> asset \<Rightarrow> bool \<Rightarrow> system_state \<Rightarrow> system_state res" where
  "changebw E from receiver dnet dcpu transfer S =
     bindE (require_auth E from) (\<lambda>_.
     bindE (check (amount dnet \<noteq> 0 \<or> amount dcpu \<noteq> 0) ''should stake non-zero amount'') (\<lambda>_.
     bindE (add_asset E dnet dcpu) (\<lambda>both.
     bindE (check (max (i64 \<bar>amount dnet\<bar>) (i64 \<bar>amount dcpu\<bar>) \<le> i64 \<bar>amount both\<bar>)
       ''net and cpu deltas cannot be opposite signs'') (\<lambda>_.
     let source = from; from = (if transfer then receiver else from) in
     bindE (change_delband E from receiver dnet dcpu (rs S)) (\<lambda>R.
     bindE (change_totals E receiver dnet dcpu (vs S) R) (\<lambda>R.
     bindE
       (if stake_account \<noteq> source then
          bindE (change_refund E (core_symbol S) from (\<not> transfer \<and> from = receiver) dnet dcpu (refunds R))
            (\<lambda>(net, cpu, need_deferred_trx, T).
          bindE (settle_stake E source from net cpu need_deferred_trx) (\<lambda>es.
          Inr (emit es (S\<lparr>rs := R\<lparr>refunds := T\<rparr>\<rparr>))))
        else Inr (S\<lparr>rs := R\<rparr>)) (\<lambda>S.
     bindE (vote_stake_updater E from S) (\<lambda>S.
     on_vs (update_voting_power E from both) S))))))))"

text \<open>A successful change, taken apart into its steps.\<close>

lemmas changebw_steps = changebw_def vote_stake_updater_eq Let_def bindE_eq_Inr check_eq_Inr

section \<open>Actions\<close>

definition delegatebw ::
    "env \<Rightarrow> name \<Rightarrow> name \<Rightarrow> asset \<Rightarrow> asset \<Rightarrow> bool \<Rightarrow> system_state \<Rightarrow> system_state res" where
  "delegatebw E from receiver net cpu transfer S =
     bindE (core_symbol S) (\<lambda>cs.
     bindE (new_asset E 0 cs) (\<lambda>zero_asset.
     bindE (le_asset E zero_asset cpu) (\<lambda>c.
     bindE (check c ''must stake a positive amount'') (\<lambda>_.
     bindE (le_asset E zero_asset net) (\<lambda>n.
     bindE (check n ''must stake a positive amount'') (\<lambda>_.
     bindE (check (0 < i64 (amount net + amount cpu)) ''must stake a positive amount'') (\<lambda>_.
     bindE (check (\<not> transfer \<or> from \<noteq> receiver) ''cannot use transfer flag if delegating to self'') (\<lambda>_.
     changebw E from receiver net cpu transfer S))))))))"

definition undelegatebw ::
    "env \<Rightarrow> name \<Rightarrow> name \<Rightarrow> asset \<Rightarrow> asset \<Rightarrow> system_state \<Rightarrow> system_state res" where
  "undelegatebw E from receiver net cpu S =
     bindE (core_symbol S) (\<lambda>cs.
     bindE (new_asset E 0 cs) (\<lambda>zero_asset.
     bindE (le_asset E zero_asset cpu) (\<lambda>c.
     bindE (check c ''must unstake a positive amount'') (\<lambda>_.
     bindE (le_asset E zero_asset net) (\<lambda>n.
     bindE (check n ''must unstake a positive amount'') (\<lambda>_.
     bindE (check (0 < i64 (amount cpu + amount net)) ''must unstake a positive amount'') (\<lambda>_.
     bindE (check (min_activated_stake \<le> total_activated_stake (gstate (vs S)))
       ''cannot undelegate bandwidth until the chain is activated (at least 15% of all tokens participate in voting)'') (\<lambda>_.
     changebw E from receiver (asset_neg E net) (asset_neg E cpu) False S))))))))"

definition refund :: "env \<Rightarrow> name \<Rightarrow> system_state \<Rightarrow> system_state res" where
  "refund E owner S =
     bindE (require_auth E owner) (\<lambda>_.
     bindE (some_or (Check ''refund request not found'') (fmlookup (refunds (rs S)) owner)) (\<lambda>req.
     bindE (check (i64 (request_time req * 1000000 + refund_delay_sec * 1000000) \<le> now E)
       ''refund is not available yet'') (\<lambda>_.
     bindE (add_asset E (net_amount req) (cpu_amount req)) (\<lambda>q.
     Inr (emit [Token_transfer [active_of stake_account, active_of (rr_owner req)] stake_account (rr_owner req) q
         ''unstake'']
       (S\<lparr>rs := (rs S)\<lparr>refunds := fmdrop owner (refunds (rs S))\<rparr>\<rparr>))))))"

end
