(* ===== verification/Rex_Actions.thy ===== *)
theory Rex_Actions
  imports Delegate
begin

text \<open>
  The actions of the REX (\<open>rex.cpp\<close>) and the vote action, which checks the voting requirement
  of REX holders. Each is the whole handler with its guards in the order of the code.
\<close>

definition check_voting_requirement :: "name \<Rightarrow> string \<Rightarrow> voting_state \<Rightarrow> unit res" where
  "check_voting_requirement owner error_msg V =
     check (case fmlookup (voters V) owner of None \<Rightarrow> False
       | Some v \<Rightarrow> proxy v \<noteq> 0 \<or> 21 \<le> length (v_producers v)) error_msg"

definition voting_requirement_msg :: string where
  "voting_requirement_msg = ''must vote for at least 21 producers or for a proxy before buying REX''"

definition zero_core :: "env \<Rightarrow> system_state \<Rightarrow> asset res" where
  "zero_core E S = bindE (core_symbol S) (\<lambda>cs. new_asset E 0 cs)"

text \<open>\<open>update_rex_account\<close>: the result is the REX of the order the account has open.\<close>

definition update_rex_account ::
    "env \<Rightarrow> name \<Rightarrow> asset \<Rightarrow> asset \<Rightarrow> bool \<Rightarrow> system_state \<Rightarrow> (asset \<times> system_state) res" where
  "update_rex_account E owner proceeds0 delta_stake force_vote_update S =
     bindE (new_asset E 0 rex_symbol) (\<lambda>zero_rex.
     let X = rx S;
         (to_fund, to_stake, rex_in_sell_order, X) =
           (case fmlookup (rexorders X) owner of
              None \<Rightarrow> (proceeds0, delta_stake, zero_rex, X)
            | Some itr \<Rightarrow>
                if is_open itr
                then (proceeds0, delta_stake, set_amt (amount (rex_requested itr)) zero_rex, X)
                else (inc_amt (amount (proceeds itr)) proceeds0,
                      inc_amt (amount (stake_change itr)) delta_stake, zero_rex,
                      X\<lparr>rexorders := fmdrop owner (rexorders X)\<rparr>)) in
     bindE (if 0 < amount to_fund then transfer_to_fund (core_symbol S) owner to_fund X else Inr X) (\<lambda>X.
     bindE
       (if force_vote_update \<or> amount to_stake \<noteq> 0
        then on_vs (update_voting_power E owner to_stake) (S\<lparr>rx := X\<rparr>)
        else Inr (S\<lparr>rx := X\<rparr>)) (\<lambda>S.
     Inr (rex_in_sell_order, S))))"

text \<open>A row of \<open>rexbal\<close> that an action holds an iterator to.\<close>

definition rexbal_of :: "name \<Rightarrow> string \<Rightarrow> system_state \<Rightarrow> rex_balance res" where
  "rexbal_of owner msg S = some_or (Check msg) (fmlookup (rexbalance (rx S)) owner)"

definition put_rexbal :: "name \<Rightarrow> rex_balance \<Rightarrow> system_state \<Rightarrow> system_state" where
  "put_rexbal owner rb S = S\<lparr>rx := set_rexbal owner rb (rx S)\<rparr>"

section \<open>Funds\<close>

definition deposit :: "env \<Rightarrow> name \<Rightarrow> asset \<Rightarrow> system_state \<Rightarrow> system_state res" where
  "deposit E owner amt S =
     bindE (require_auth E owner) (\<lambda>_.
     bindE (core_symbol S) (\<lambda>cs.
     bindE (check (symbol amt = cs) ''must deposit core token'') (\<lambda>_.
     bindE (check (0 < amount amt) ''must deposit a positive amount'') (\<lambda>_.
     on_rx (transfer_to_fund (core_symbol S) owner amt)
       (emit [Token_transfer [active_of owner] owner rex_account amt ''deposit to REX fund''] S)))))"

definition withdraw :: "env \<Rightarrow> name \<Rightarrow> asset \<Rightarrow> system_state \<Rightarrow> system_state res" where
  "withdraw E owner amt S =
     bindE (require_auth E owner) (\<lambda>_.
     bindE (core_symbol S) (\<lambda>cs.
     bindE (check (symbol amt = cs) ''must withdraw core token'') (\<lambda>_.
     bindE (check (0 < amount amt) ''must withdraw a positive amount'') (\<lambda>_.
     bindE (zero_core E S) (\<lambda>zero.
     bindE (update_rex_account E owner zero zero False S) (\<lambda>(_, S).
     bindE (on_rx (transfer_from_fund E (core_symbol S) owner amt) S) (\<lambda>S.
     Inr (emit [Token_transfer [active_of rex_account] rex_account owner amt ''withdraw from REX fund''] S))))))))"

section \<open>Buying\<close>

definition buyrex :: "env \<Rightarrow> name \<Rightarrow> asset \<Rightarrow> system_state \<Rightarrow> system_state res" where
  "buyrex E from amt S =
     bindE (require_auth E from) (\<lambda>_.
     bindE (core_symbol S) (\<lambda>cs.
     bindE (check (symbol amt = cs) ''asset must be core token'') (\<lambda>_.
     bindE (check (0 < amount amt) ''must use positive amount'') (\<lambda>_.
     bindE (check_voting_requirement from voting_requirement_msg (vs S)) (\<lambda>_.
     bindE (transfer_from_fund E (core_symbol S) from amt (rx S)) (\<lambda>X.
     bindE (add_to_rex_pool E (core_symbol S) amt X) (\<lambda>(rex_received, X).
     bindE (add_to_rex_balance E (core_symbol S) from amt rex_received X) (\<lambda>(delta_rex_stake, X).
     bindE (runrex E 2 (S\<lparr>rx := X\<rparr>)) (\<lambda>S.
     bindE (zero_core E S) (\<lambda>zero.
     bindE (update_rex_account E from zero delta_rex_stake False S) (\<lambda>(_, S).
     Inr (emit [Rex_buyresult rex_received] S))))))))))))"

definition take_delband :: "name \<Rightarrow> name \<Rightarrow> asset \<Rightarrow> asset \<Rightarrow> resource_state \<Rightarrow> resource_state res" where
  "take_delband owner receiver from_net from_cpu R =
     bindE (some_or (Check ''delegated bandwidth record does not exist'')
       (fmlookup (delband R) (owner, receiver))) (\<lambda>dbw.
     bindE (check (amount from_net \<le> amount (db_net_weight dbw)) ''amount exceeds tokens staked for net'') (\<lambda>_.
     bindE (check (amount from_cpu \<le> amount (db_cpu_weight dbw)) ''amount exceeds tokens staked for cpu'') (\<lambda>_.
     let dbw = dbw\<lparr>db_net_weight := inc_amt (- amount from_net) (db_net_weight dbw),
                   db_cpu_weight := inc_amt (- amount from_cpu) (db_cpu_weight dbw)\<rparr> in
     Inr (R\<lparr>delband := (if db_is_empty dbw then fmdrop (owner, receiver) (delband R)
       else fmupd (owner, receiver) dbw (delband R))\<rparr>))))"

definition unstaketorex :: "env \<Rightarrow> name \<Rightarrow> name \<Rightarrow> asset \<Rightarrow> asset \<Rightarrow> system_state \<Rightarrow> system_state res" where
  "unstaketorex E owner receiver from_net from_cpu S =
     bindE (require_auth E owner) (\<lambda>_.
     bindE (core_symbol S) (\<lambda>cs.
     bindE (check (symbol from_net = cs \<and> symbol from_cpu = cs) ''asset must be core token'') (\<lambda>_.
     bindE (check (0 \<le> amount from_net \<and> 0 \<le> amount from_cpu \<and> (0 < amount from_net \<or> 0 < amount from_cpu))
       ''must unstake a positive amount to buy rex'') (\<lambda>_.
     bindE (check_voting_requirement owner voting_requirement_msg (vs S)) (\<lambda>_.
     bindE (take_delband owner receiver from_net from_cpu (rs S)) (\<lambda>R.
     bindE (update_resource_limits E receiver (i64 (- amount from_net)) (i64 (- amount from_cpu)) (S\<lparr>rs := R\<rparr>)) (\<lambda>S.
     bindE (add_asset E from_net from_cpu) (\<lambda>payment.
     let S = emit [Token_transfer [active_of stake_account] stake_account rex_account payment
           ''buy REX with staked tokens''] S in
     bindE (add_to_rex_pool E (core_symbol S) payment (rx S)) (\<lambda>(rex_received, X).
     bindE (add_to_rex_balance E (core_symbol S) owner payment rex_received X) (\<lambda>(_, X).
     bindE (runrex E 2 (S\<lparr>rx := X\<rparr>)) (\<lambda>S.
     bindE (zero_core E S) (\<lambda>zero.
     bindE (update_rex_account E owner zero zero True S) (\<lambda>(_, S).
     Inr (emit [Rex_buyresult rex_received] S))))))))))))))"

section \<open>Selling\<close>

definition sellrex :: "env \<Rightarrow> name \<Rightarrow> asset \<Rightarrow> system_state \<Rightarrow> system_state res" where
  "sellrex E from rex S =
     bindE (require_auth E from) (\<lambda>_.
     bindE (runrex E 2 S) (\<lambda>S.
     bindE (rexbal_of from ''user must first buyrex'' S) (\<lambda>rb.
     bindE (check (0 < amount rex \<and> symbol rex = symbol (rb_rex_balance rb))
       ''asset must be a positive amount of (REX, 4)'') (\<lambda>_.
     let rb = process_rex_maturities E rb; S = put_rexbal from rb S in
     bindE (check (amount rex \<le> matured_rex rb) ''insufficient available rex'') (\<lambda>_.
     bindE (fill_rex_order E (core_symbol S) from rex (rx S)) (\<lambda>(current_order, X).
     bindE (check (\<not> (success current_order \<and> amount (oo_proceeds current_order) = 0))
       ''proceeds are negligible'') (\<lambda>_.
     bindE (update_rex_account E from (oo_proceeds current_order) (oo_stake_change current_order) False
       (S\<lparr>rx := X\<rparr>)) (\<lambda>(pending_sell_order, S).
     bindE
       (if \<not> success current_order then
          bindE (check (from \<noteq> b1_account) ''b1 sellrex orders should not be queued'') (\<lambda>_.
          enqueue_order E (core_symbol S) from rex (rx S))
        else Inr (amount pending_sell_order, rx S)) (\<lambda>(pending, X).
     bindE (rexbal_of from '''' (S\<lparr>rx := X\<rparr>)) (\<lambda>rb.
     bindE (check (pending \<le> matured_rex rb) ''insufficient funds for current and scheduled orders'') (\<lambda>_.
     Inr (emit (if success current_order then [Rex_sellresult (oo_proceeds current_order)] else [])
       (S\<lparr>rx := X\<rparr>)))))))))))))"

definition cnclrexorder :: "env \<Rightarrow> name \<Rightarrow> rex_state \<Rightarrow> rex_state res" where
  "cnclrexorder E owner X =
     bindE (require_auth E owner) (\<lambda>_.
     bindE (some_or (Check ''no sellrex order is scheduled'') (fmlookup (rexorders X) owner)) (\<lambda>itr.
     bindE (check (is_open itr) ''sellrex order has been filled and cannot be canceled'') (\<lambda>_.
     Inr (X\<lparr>rexorders := fmdrop owner (rexorders X)\<rparr>))))"

section \<open>Loans\<close>

definition rent_loan ::
    "env \<Rightarrow> loan_kind \<Rightarrow> name \<Rightarrow> name \<Rightarrow> asset \<Rightarrow> asset \<Rightarrow> system_state \<Rightarrow> system_state res" where
  "rent_loan E k from receiver loan_payment loan_fund S =
     bindE (require_auth E from) (\<lambda>_.
     bindE (rent_rex E k from receiver loan_payment loan_fund S) (\<lambda>(rented_tokens, S).
     limits_for E k receiver rented_tokens S))"

definition rentcpu :: "env \<Rightarrow> name \<Rightarrow> name \<Rightarrow> asset \<Rightarrow> asset \<Rightarrow> system_state \<Rightarrow> system_state res" where
  "rentcpu E = rent_loan E Cpu_loan"
definition rentnet :: "env \<Rightarrow> name \<Rightarrow> name \<Rightarrow> asset \<Rightarrow> asset \<Rightarrow> system_state \<Rightarrow> system_state res" where
  "rentnet E = rent_loan E Net_loan"

definition fund_loan :: "env \<Rightarrow> loan_kind \<Rightarrow> name \<Rightarrow> int \<Rightarrow> asset \<Rightarrow> system_state \<Rightarrow> system_state res" where
  "fund_loan E k from loan_num payment S =
     bindE (require_auth E from) (\<lambda>_. on_rx (fund_rex_loan E (core_symbol S) k from loan_num payment) S)"

definition fundcpuloan :: "env \<Rightarrow> name \<Rightarrow> int \<Rightarrow> asset \<Rightarrow> system_state \<Rightarrow> system_state res" where
  "fundcpuloan E = fund_loan E Cpu_loan"
definition fundnetloan :: "env \<Rightarrow> name \<Rightarrow> int \<Rightarrow> asset \<Rightarrow> system_state \<Rightarrow> system_state res" where
  "fundnetloan E = fund_loan E Net_loan"

definition defund_loan :: "env \<Rightarrow> loan_kind \<Rightarrow> name \<Rightarrow> int \<Rightarrow> asset \<Rightarrow> system_state \<Rightarrow> system_state res" where
  "defund_loan E k from loan_num amt S =
     bindE (require_auth E from) (\<lambda>_. on_rx (defund_rex_loan E (core_symbol S) k from loan_num amt) S)"

definition defcpuloan :: "env \<Rightarrow> name \<Rightarrow> int \<Rightarrow> asset \<Rightarrow> system_state \<Rightarrow> system_state res" where
  "defcpuloan E = defund_loan E Cpu_loan"
definition defnetloan :: "env \<Rightarrow> name \<Rightarrow> int \<Rightarrow> asset \<Rightarrow> system_state \<Rightarrow> system_state res" where
  "defnetloan E = defund_loan E Net_loan"

section \<open>Maintenance\<close>

definition updaterex :: "env \<Rightarrow> name \<Rightarrow> system_state \<Rightarrow> system_state res" where
  "updaterex E owner S =
     bindE (require_auth E owner) (\<lambda>_.
     bindE (runrex E 2 S) (\<lambda>S.
     bindE (rexbal_of owner ''account has no REX balance'' S) (\<lambda>rb.
     bindE (the_pool (rx S)) (\<lambda>rp.
     bindE (zero_core E S) (\<lambda>zero.
     bindE (if 0 < amount (total_rex rp)
            then muldiv128 (amount (rb_rex_balance rb)) (amount (total_lendable rp)) (amount (total_rex rp))
            else Inr 0) (\<lambda>v.
     let current_stake = set_amt v zero;
         S = put_rexbal owner (rb\<lparr>vote_stake := current_stake\<rparr>) S in
     bindE (sub_asset E current_stake (vote_stake rb)) (\<lambda>delta.
     bindE (update_rex_account E owner zero delta True S) (\<lambda>(_, S).
     bindE (rexbal_of owner '''' S) (\<lambda>rb.
     Inr (put_rexbal owner (process_rex_maturities E rb) S))))))))))"

definition setrex :: "env \<Rightarrow> asset \<Rightarrow> system_state \<Rightarrow> system_state res" where
  "setrex E bal S =
     bindE (require_auth E eosio_account) (\<lambda>_.
     bindE (check (0 < amount bal) ''balance must be set to have a positive amount'') (\<lambda>_.
     bindE (core_symbol S) (\<lambda>cs.
     bindE (check (symbol bal = cs) ''balance symbol must be core symbol'') (\<lambda>_.
     bindE (check (rex_system_initialized (rx S)) ''rex system is not initialized'') (\<lambda>_.
     bindE (the_pool (rx S)) (\<lambda>pool.
     Inr (S\<lparr>rx := (rx S)\<lparr>rexpool := Some (pool\<lparr>total_rent := bal\<rparr>)\<rparr>\<rparr>)))))))"

definition rexexec :: "env \<Rightarrow> name \<Rightarrow> nat \<Rightarrow> system_state \<Rightarrow> system_state res" where
  "rexexec E user most S = bindE (require_auth E user) (\<lambda>_. runrex E most S)"

definition consolidate :: "env \<Rightarrow> name \<Rightarrow> system_state \<Rightarrow> system_state res" where
  "consolidate E owner S =
     bindE (require_auth E owner) (\<lambda>_.
     bindE (runrex E 2 S) (\<lambda>S.
     bindE (rexbal_of owner ''account has no REX balance'' S) (\<lambda>_.
     bindE (zero_core E S) (\<lambda>zero.
     bindE (update_rex_account E owner zero zero False S) (\<lambda>(rex_in_sell_order, S).
     bindE (rexbal_of owner '''' S) (\<lambda>rb.
     Inr (put_rexbal owner (consolidate_rex_balance E rex_in_sell_order rb) S)))))))"

text \<open>
  The loop of \<open>mvtosavings\<close>: REX is taken from the latest bucket backwards, so the buckets come
  in reversed order. The result is what is left of them and how much is still to be moved. A
  bucket that is not emptied held more than was needed, so the loop ends with it.
\<close>

fun take_latest :: "(time_point_sec \<times> int) list \<Rightarrow> int \<Rightarrow> (time_point_sec \<times> int) list \<times> int" where
  "take_latest [] need = ([], need)"
| "take_latest ((t, q) # bs) need =
     (if 0 < need then
        let drex = min need q; q' = i64 (q - drex); need' = i64 (need - drex) in
        if q' = 0 then take_latest bs need' else ((t, q') # bs, need')
      else ((t, q) # bs, need))"

definition move_to_savings :: "int \<Rightarrow> asset \<Rightarrow> rex_balance \<Rightarrow> rex_balance res" where
  "move_to_savings rex rex_in_sell_order rb =
     (let (bs, need) = take_latest (rev (rex_maturities rb)) rex;
          rb = rb\<lparr>rex_maturities := rev bs\<rparr> in
      if 0 < need then
        let rb = rb\<lparr>matured_rex := i64 (matured_rex rb - need)\<rparr> in
        bindE (check (amount rex_in_sell_order \<le> matured_rex rb) ''logic error in mvtosavings'') (\<lambda>_. Inr rb)
      else bindE (check (need = 0) ''programmer error in mvtosavings'') (\<lambda>_. Inr rb))"

definition mvtosavings :: "env \<Rightarrow> name \<Rightarrow> asset \<Rightarrow> system_state \<Rightarrow> system_state res" where
  "mvtosavings E owner rex S =
     bindE (require_auth E owner) (\<lambda>_.
     bindE (runrex E 2 S) (\<lambda>S.
     bindE (rexbal_of owner ''account has no REX balance'' S) (\<lambda>rb.
     bindE (check (0 < amount rex \<and> symbol rex = symbol (rb_rex_balance rb))
       ''asset must be a positive amount of (REX, 4)'') (\<lambda>_.
     bindE (zero_core E S) (\<lambda>zero.
     bindE (update_rex_account E owner zero zero False S) (\<lambda>(rex_in_sell_order, S).
     bindE (rexbal_of owner '''' S) (\<lambda>rb.
     let (rb, rex_in_savings) = read_rex_savings rb in
     bindE (check (i64 (i64 (amount rex + amount rex_in_sell_order) + rex_in_savings) \<le> amount (rb_rex_balance rb))
       ''insufficient REX balance'') (\<lambda>_.
     bindE (move_to_savings (amount rex) rex_in_sell_order (process_rex_maturities E rb)) (\<lambda>rb.
     Inr (put_rexbal owner (put_rex_savings (i64 (rex_in_savings + amount rex)) rb) S))))))))))"

definition mvfrsavings :: "env \<Rightarrow> name \<Rightarrow> asset \<Rightarrow> system_state \<Rightarrow> system_state res" where
  "mvfrsavings E owner rex S =
     bindE (require_auth E owner) (\<lambda>_.
     bindE (runrex E 2 S) (\<lambda>S.
     bindE (rexbal_of owner ''account has no REX balance'' S) (\<lambda>rb.
     bindE (check (0 < amount rex \<and> symbol rex = symbol (rb_rex_balance rb))
       ''asset must be a positive amount of (REX, 4)'') (\<lambda>_.
     let (rb, rex_in_savings) = read_rex_savings rb in
     bindE (check (amount rex \<le> rex_in_savings) ''insufficient REX in savings'') (\<lambda>_.
     let rb = process_rex_maturities E rb;
         rb = rb\<lparr>rex_maturities := add_bucket (get_rex_maturity E) (amount rex) (rex_maturities rb)\<rparr>;
         rb = put_rex_savings (i64 (rex_in_savings - amount rex)) rb;
         S = put_rexbal owner rb S in
     bindE (zero_core E S) (\<lambda>zero.
     bindE (update_rex_account E owner zero zero False S) (\<lambda>(_, S).
     Inr S)))))))"

definition no_loans :: "loan_kind \<Rightarrow> name \<Rightarrow> rex_state \<Rightarrow> bool" where
  "no_loans k owner X \<longleftrightarrow> list_all (\<lambda>l. l_from l \<noteq> owner) (rows (loans k X))"

definition drop_fund :: "name \<Rightarrow> rex_state \<Rightarrow> rex_state" where
  "drop_fund owner X =
     (case fmlookup (rexfunds X) owner of
        None \<Rightarrow> X
      | Some fund \<Rightarrow>
          if no_loans Cpu_loan owner X \<and> no_loans Net_loan owner X \<and> amount (rf_balance fund) = 0
          then X\<lparr>rexfunds := fmdrop owner (rexfunds X)\<rparr> else X)"

definition drop_balance :: "name \<Rightarrow> rex_state \<Rightarrow> rex_state res" where
  "drop_balance owner X =
     (case fmlookup (rexbalance X) owner of
        None \<Rightarrow> Inr X
      | Some rb \<Rightarrow>
          bindE (check (amount (rb_rex_balance rb) = 0) ''account has remaining REX balance, must sell first'') (\<lambda>_.
          Inr (X\<lparr>rexbalance := fmdrop owner (rexbalance X)\<rparr>)))"

definition closerex :: "env \<Rightarrow> name \<Rightarrow> system_state \<Rightarrow> system_state res" where
  "closerex E owner S =
     bindE (require_auth E owner) (\<lambda>_.
     bindE (if rex_system_initialized (rx S) then runrex E 2 S else Inr S) (\<lambda>S.
     bindE (zero_core E S) (\<lambda>zero.
     bindE (update_rex_account E owner zero zero False S) (\<lambda>(_, S).
     on_rx (drop_balance owner) (S\<lparr>rx := drop_fund owner (rx S)\<rparr>)))))"

section \<open>Voting\<close>

definition voteproducer :: "env \<Rightarrow> name \<Rightarrow> name \<Rightarrow> name list \<Rightarrow> system_state \<Rightarrow> system_state res" where
  "voteproducer E voter_name prox prods S =
     bindE (require_auth E voter_name) (\<lambda>_.
     bindE (vote_stake_updater E voter_name S) (\<lambda>S.
     bindE (on_vs (update_votes E voter_name prox prods True) S) (\<lambda>S.
     case fmlookup (rexbalance (rx S)) voter_name of
       None \<Rightarrow> Inr S
     | Some rb \<Rightarrow>
         if 0 < amount (rb_rex_balance rb) then
           bindE (check_voting_requirement voter_name
             ''voter holding REX tokens must vote for at least 21 producers or for a proxy'' (vs S)) (\<lambda>_. Inr S)
         else Inr S)))"

end
