(* ===== verification/Rex_Buckets.thy ===== *)
theory Rex_Buckets
  imports Rex_Actions
begin

text \<open>
  The maturity buckets of a REX balance. Maturing, consolidating and moving REX to and from
  savings reorder the buckets and never create or lose REX: matured REX and buckets always add
  up to the balance (\<open>bal_ok\<close>).
\<close>

definition bucket_sum :: "(time_point_sec \<times> int) list \<Rightarrow> int" where
  "bucket_sum bs = sum_list (map snd bs)"

definition buckets_ok :: "(time_point_sec \<times> int) list \<Rightarrow> bool" where
  "buckets_ok bs \<longleftrightarrow> (\<forall>b\<in>set bs. 0 \<le> snd b)"

definition rex_held :: "rex_balance \<Rightarrow> int" where
  "rex_held rb = matured_rex rb + bucket_sum (rex_maturities rb)"

text \<open>A row whose parts are non-negative and below \<open>2 ^ 62\<close> together.\<close>

definition row_ok :: "rex_balance \<Rightarrow> bool" where
  "row_ok rb \<longleftrightarrow> 0 \<le> matured_rex rb \<and> buckets_ok (rex_maturities rb) \<and> rex_held rb < 2 ^ 62"

definition bal_ok :: "rex_balance \<Rightarrow> bool" where
  "bal_ok rb \<longleftrightarrow> row_ok rb \<and> rex_held rb = amount (rb_rex_balance rb)"

lemma bucket_simps [simp]:
  "bucket_sum [] = 0" "bucket_sum (b # bs) = snd b + bucket_sum bs"
  "bucket_sum (bs @ cs) = bucket_sum bs + bucket_sum cs" "bucket_sum (rev bs) = bucket_sum bs"
  "buckets_ok []" "buckets_ok (b # bs) \<longleftrightarrow> 0 \<le> snd b \<and> buckets_ok bs"
  "buckets_ok (bs @ cs) \<longleftrightarrow> buckets_ok bs \<and> buckets_ok cs" "buckets_ok (rev bs) = buckets_ok bs"
  by (auto simp: bucket_sum_def buckets_ok_def rev_map [symmetric])

lemma bucket_sum_nonneg: "buckets_ok bs \<Longrightarrow> 0 \<le> bucket_sum bs"
  by (induction bs) simp_all

lemma i64_lt: "- (2 ^ 62) \<le> x \<Longrightarrow> x < 2 ^ 63 \<Longrightarrow> i64 x = x"
  by (rule i64_id) (simp add: is_i64_def)

section \<open>One step each\<close>

lemma mature_law:
  assumes "0 \<le> m" "buckets_ok bs" "m + bucket_sum bs < 2 ^ 62"
  shows "fst (mature n bs m) + bucket_sum (snd (mature n bs m)) = m + bucket_sum bs \<and>
    m \<le> fst (mature n bs m) \<and> buckets_ok (snd (mature n bs m))"
  using assms
proof (induction n bs m rule: mature.induct)
  case (1 n t q bs m)
  then show ?case
    using bucket_sum_nonneg [of bs] by (auto simp: i64_lt)
qed simp

lemma process_law:
  assumes "row_ok rb"
  shows "row_ok (process_rex_maturities E rb)" "rex_held (process_rex_maturities E rb) = rex_held rb"
    "matured_rex rb \<le> matured_rex (process_rex_maturities E rb)"
    "rb_rex_balance (process_rex_maturities E rb) = rb_rex_balance rb"
  using assms mature_law [of "matured_rex rb" "rex_maturities rb" "now_sec E"]
  by (auto simp: process_rex_maturities_def row_ok_def rex_held_def split: prod.split)

lemma add_bucket_law:
  assumes "buckets_ok bs" "0 \<le> q" "bucket_sum bs + q < 2 ^ 62"
  shows "bucket_sum (add_bucket t q bs) = bucket_sum bs + q \<and> buckets_ok (add_bucket t q bs)"
proof (cases bs rule: rev_cases)
  case (snoc cs c)
  have "i64 (snd c + q) = snd c + q"
    using assms bucket_sum_nonneg [of cs] snoc by (intro i64_lt) auto
  then show ?thesis using assms snoc by (auto simp: add_bucket_def)
qed (use assms in \<open>simp add: add_bucket_def\<close>)

lemma savings_split:
  "bucket_sum (rex_maturities (fst (read_rex_savings rb))) + snd (read_rex_savings rb) = bucket_sum (rex_maturities rb)"
  "buckets_ok (rex_maturities rb) \<Longrightarrow>
     buckets_ok (rex_maturities (fst (read_rex_savings rb))) \<and> 0 \<le> snd (read_rex_savings rb)"
  "matured_rex (fst (read_rex_savings rb)) = matured_rex rb"
  "rb_rex_balance (fst (read_rex_savings rb)) = rb_rex_balance rb"
  by (cases "rex_maturities rb" rule: rev_cases; simp add: read_rex_savings_def Let_def)+

lemma read_savings_law:
  assumes "row_ok rb" "read_rex_savings rb = (rb', s)"
  shows "row_ok rb'" "rex_held rb' + s = rex_held rb" "0 \<le> s" "matured_rex rb' = matured_rex rb"
    "rb_rex_balance rb' = rb_rex_balance rb"
  using savings_split [of rb] assms by (auto simp: row_ok_def rex_held_def)

lemma put_savings_law:
  assumes "row_ok rb" "0 \<le> s" "rex_held rb + s < 2 ^ 62"
  shows "row_ok (put_rex_savings s rb)" "rex_held (put_rex_savings s rb) = rex_held rb + s"
    "matured_rex (put_rex_savings s rb) = matured_rex rb" "rb_rex_balance (put_rex_savings s rb) = rb_rex_balance rb"
  using assms add_bucket_law [of "rex_maturities rb" s end_of_days]
  by (auto simp: put_rex_savings_def row_ok_def rex_held_def)

lemma bucket_added_law:
  assumes "row_ok rb" "0 \<le> q" "rex_held rb + q < 2 ^ 62"
  shows "row_ok (rb\<lparr>rex_maturities := add_bucket t q (rex_maturities rb)\<rparr>)"
    "rex_held (rb\<lparr>rex_maturities := add_bucket t q (rex_maturities rb)\<rparr>) = rex_held rb + q"
  using assms add_bucket_law [of "rex_maturities rb" q t] by (auto simp: row_ok_def rex_held_def)

section \<open>Consolidation\<close>

lemma add_all_law:
  "0 \<le> a \<Longrightarrow> buckets_ok bs \<Longrightarrow> a + bucket_sum bs < 2 ^ 62 \<Longrightarrow> add_all bs a = a + bucket_sum bs"
proof (induction bs arbitrary: a)
  case (Cons b bs)
  then show ?case using bucket_sum_nonneg [of bs] by (auto simp: i64_lt)
qed simp

lemma consolidate_law:
  assumes "row_ok rb" "0 \<le> amount q" "amount q \<le> matured_rex rb"
  shows "row_ok (consolidate_rex_balance E q rb)" "rex_held (consolidate_rex_balance E q rb) = rex_held rb"
    "matured_rex (consolidate_rex_balance E q rb) = amount q"
    "rb_rex_balance (consolidate_rex_balance E q rb) = rb_rex_balance rb"
proof -
  obtain r s where rs: "read_rex_savings rb = (r, s)" by fastforce
  note R = read_savings_law [OF assms(1) rs]
  let ?t = "matured_rex r - amount q + bucket_sum (rex_maturities r)"
  let ?r = "r\<lparr>matured_rex := amount q,
      rex_maturities := (if 0 < ?t then [(get_rex_maturity E, ?t)] else [])\<rparr>"
  have ok: "buckets_ok (rex_maturities r)" "rex_held r < 2 ^ 62" "0 \<le> matured_rex r - amount q"
    "0 \<le> bucket_sum (rex_maturities r)"
    using R assms bucket_sum_nonneg by (auto simp: row_ok_def)
  then have t: "0 \<le> ?t" "?t < 2 ^ 62" "?t = rex_held r - amount q" using assms(2) by (auto simp: rex_held_def)
  have "add_all (rex_maturities r) (i64 (matured_rex r - amount q)) = ?t"
    using ok t by (subst i64_lt) (auto intro!: add_all_law)
  then have C: "consolidate_rex_balance E q rb = put_rex_savings s ?r"
    by (simp add: consolidate_rex_balance_def rs Let_def)
  have r: "row_ok ?r" "rex_held ?r = rex_held r" "matured_rex ?r = amount q" "rb_rex_balance ?r = rb_rex_balance rb"
    using t ok assms R by (auto simp: row_ok_def rex_held_def)
  have "rex_held ?r + s < 2 ^ 62" using r R assms(1) by (simp add: row_ok_def)
  from put_savings_law [OF r(1) R(3) this] r R
  show "row_ok (consolidate_rex_balance E q rb)" "rex_held (consolidate_rex_balance E q rb) = rex_held rb"
    "matured_rex (consolidate_rex_balance E q rb) = amount q"
    "rb_rex_balance (consolidate_rex_balance E q rb) = rb_rex_balance rb"
    unfolding C by simp_all
qed

section \<open>Savings\<close>

lemma take_latest_law:
  assumes "buckets_ok bs" "0 \<le> need" "need < 2 ^ 63" "bucket_sum bs < 2 ^ 62"
  shows "bucket_sum (fst (take_latest bs need)) + need = bucket_sum bs + snd (take_latest bs need) \<and>
    buckets_ok (fst (take_latest bs need)) \<and> 0 \<le> snd (take_latest bs need) \<and>
    snd (take_latest bs need) \<le> need \<and>
    (0 < snd (take_latest bs need) \<longrightarrow> fst (take_latest bs need) = [])"
  using assms
proof (induction bs need rule: take_latest.induct)
  case (2 t q bs need)
  let ?d = "min need q"
  have b: "0 \<le> q" "buckets_ok bs" "0 \<le> bucket_sum bs" "q + bucket_sum bs < 2 ^ 62"
    using 2 bucket_sum_nonneg [of bs] by auto
  show ?case
  proof (cases "0 < need")
    case True
    have w: "i64 (q - ?d) = q - ?d" "i64 (need - ?d) = need - ?d" using b 2 True by (auto intro!: i64_lt)
    show ?thesis
    proof (cases "q - ?d = 0")
      case z: True
      have "0 \<le> need - ?d" "need - ?d < 2 ^ 63" "bucket_sum bs < 2 ^ 62" using b 2 True by auto
      then show ?thesis using 2(1) [OF True refl refl refl] True w z b by (auto simp: Let_def)
    next
      case False
      then have "?d = need" by auto
      then show ?thesis using True w False b by (auto simp: Let_def)
    qed
  next
    case False
    then show ?thesis using 2 b by auto
  qed
qed auto

lemma move_to_savings_law:
  assumes "row_ok rb" "0 < rex" "rex < 2 ^ 63" "0 \<le> amount q" "amount q \<le> matured_rex rb"
    and "move_to_savings rex q rb = Inr rb'"
  shows "row_ok rb'" "rex_held rb' = rex_held rb - rex" "amount q \<le> matured_rex rb'"
    "rb_rex_balance rb' = rb_rex_balance rb"
proof -
  obtain bs need where tl: "take_latest (rev (rex_maturities rb)) rex = (bs, need)" by fastforce
  have ok: "buckets_ok (rex_maturities rb)" "0 \<le> matured_rex rb" "rex_held rb < 2 ^ 62"
    using assms(1) by (simp_all add: row_ok_def)
  then have "bucket_sum (rex_maturities rb) < 2 ^ 62" by (simp add: rex_held_def)
  then have T: "bucket_sum bs + rex = bucket_sum (rex_maturities rb) + need" "buckets_ok bs" "0 \<le> need"
    "need \<le> rex" "0 < need \<longrightarrow> bs = []"
    using take_latest_law [of "rev (rex_maturities rb)" rex] ok assms(2,3) tl by auto
  have m: "matured_rex rb < 2 ^ 62" using ok bucket_sum_nonneg [OF ok(1)] by (simp add: rex_held_def)
  have w: "i64 (matured_rex rb - need) = matured_rex rb - need"
    using m ok(2) T(3,4) assms(3) by (intro i64_id) (simp add: is_i64_def)
  have rb': "rb' = rb\<lparr>rex_maturities := rev bs, matured_rex := matured_rex rb - need\<rparr> \<and>
      amount q \<le> matured_rex rb'"
    using assms(5,6) T(3) w by (cases "0 < need") (auto simp: move_to_savings_def tl Let_def)
  show "row_ok rb'" "rex_held rb' = rex_held rb - rex" "amount q \<le> matured_rex rb'"
    "rb_rex_balance rb' = rb_rex_balance rb"
    using rb' T ok assms by (auto simp: row_ok_def rex_held_def)
qed

end
