(* ===== verification/Ledger.thy ===== *)
theory Ledger
  imports System_State
begin

text \<open>
  What the effects of an action move between token accounts. An action is \<open>balanced\<close> for an
  account when what the contract owes out of that account (a function of its tables) changes
  by exactly what the effects the action sent will move into the account.
\<close>

named_theorems frame_simps "what an operation leaves alone"

fun moved1 :: "name \<Rightarrow> effect \<Rightarrow> int" where
  "moved1 a (Token_transfer perms from to q memo) =
     (if to = a then amount q else 0) - (if from = a then amount q else 0)"
| "moved1 a (Token_issue perms to q memo) = (if to = a then amount q else 0)"
| "moved1 a _ = 0"

definition moved :: "name \<Rightarrow> effect list \<Rightarrow> int" where
  "moved a es = sum_list (map (moved1 a) es)"

lemma moved_simps [simp]:
  "moved a [] = 0" "moved a (e # es) = moved1 a e + moved a es" "moved a (es @ fs) = moved a es + moved a fs"
  by (simp_all add: moved_def)

definition balanced :: "name \<Rightarrow> (system_state \<Rightarrow> int) \<Rightarrow> system_state \<Rightarrow> system_state \<Rightarrow> bool" where
  "balanced a owed S S' \<longleftrightarrow>
     (\<exists>es. effects S' = effects S @ es \<and> owed S' = owed S + moved a es)"

lemma balancedI: "effects S' = effects S @ es \<Longrightarrow> owed S' = owed S + moved a es \<Longrightarrow> balanced a owed S S'"
  unfolding balanced_def by blast

lemma balanced_refl [simp]: "balanced a owed S S"
  by (rule balancedI [of _ _ "[]"]) simp_all

lemma balanced_trans [trans]:
  assumes "balanced a owed S S1" and "balanced a owed S1 S2"
  shows "balanced a owed S S2"
proof -
  from assms obtain es fs where "effects S1 = effects S @ es" "owed S1 = owed S + moved a es"
    "effects S2 = effects S1 @ fs" "owed S2 = owed S1 + moved a fs"
    unfolding balanced_def by blast
  then show ?thesis by (intro balancedI [of _ _ "es @ fs"]) simp_all
qed

lemma balanced_quiet: "effects S' = effects S \<Longrightarrow> owed S' = owed S \<Longrightarrow> balanced a owed S S'"
  by (rule balancedI [of _ _ "[]"]) simp_all

lemma balanced_emit:
  "owed S' = owed S \<Longrightarrow> effects S' = effects S @ es \<Longrightarrow> moved a es = 0 \<Longrightarrow> balanced a owed S S'"
  by (rule balancedI) simp_all

text \<open>Distinct escrow accounts.\<close>

lemma escrow_accounts_distinct [simp]:
  "rex_account \<noteq> names_account" "names_account \<noteq> rex_account"
  "rex_account \<noteq> ramfee_account" "ramfee_account \<noteq> rex_account"
  "rex_account \<noteq> stake_account" "stake_account \<noteq> rex_account"
  "rex_account \<noteq> ram_account" "ram_account \<noteq> rex_account"
  "ram_account \<noteq> ramfee_account" "ramfee_account \<noteq> ram_account"
  "ram_account \<noteq> names_account" "names_account \<noteq> ram_account"
  "ram_account \<noteq> stake_account" "stake_account \<noteq> ram_account"
  "names_account \<noteq> stake_account" "stake_account \<noteq> names_account"
  "names_account \<noteq> ramfee_account" "ramfee_account \<noteq> names_account"
  "stake_account \<noteq> ramfee_account" "ramfee_account \<noteq> stake_account"
  by (simp_all add: account_defs)

end
