(* ===== verification/Rex_Laws.thy ===== *)
theory Rex_Laws
  imports Rex_Buckets Ledger
begin

text \<open>
  The conservation laws of the REX: what it owes (funds, the lendable pool, the balances of
  loans, the proceeds of filled orders) changes only by tokens that move into or out of
  \<open>eosio.rex\<close>. The invariant \<open>rex_ok\<close> ties the pool to the loans.
\<close>

section \<open>What is owed\<close>

definition order_owed :: "rex_order \<Rightarrow> int" where
  "order_owed r = (if is_open r then 0 else amount (proceeds r))"

definition funds_sum :: "rex_state \<Rightarrow> int" where
  "funds_sum X = tsum (\<lambda>f. amount (rf_balance f)) (rexfunds X)"

definition balances_sum :: "(int, rex_loan) table \<Rightarrow> int" where
  "balances_sum t = tsum (\<lambda>l. amount (l_balance l)) t"

definition staked_sum :: "(int, rex_loan) table \<Rightarrow> int" where
  "staked_sum t = tsum (\<lambda>l. amount (total_staked l)) t"

definition orders_sum :: "rex_state \<Rightarrow> int" where
  "orders_sum X = tsum order_owed (rexorders X)"

definition pool_field :: "(rex_pool \<Rightarrow> asset) \<Rightarrow> rex_state \<Rightarrow> int" where
  "pool_field f X = (case rexpool X of None \<Rightarrow> 0 | Some p \<Rightarrow> amount (f p))"

definition rex_owed :: "rex_state \<Rightarrow> int" where
  "rex_owed X = funds_sum X + pool_field total_lendable X + balances_sum (cpu_loans X) +
     balances_sum (net_loans X) + orders_sum X"

section \<open>The invariant\<close>

definition funds_ok :: "rex_state \<Rightarrow> bool" where
  "funds_ok X \<longleftrightarrow> (\<forall>w f. fmlookup (rexfunds X) w = Some f \<longrightarrow> 0 \<le> amount (rf_balance f))"

definition loans_ok :: "(int, rex_loan) table \<Rightarrow> bool" where
  "loans_ok t \<longleftrightarrow> (\<forall>n l. fmlookup t n = Some l \<longrightarrow>
     l_loan_num l = n \<and> 0 < amount (l_payment l) \<and> 0 \<le> amount (l_balance l) \<and> 0 \<le> amount (total_staked l))"

definition orders_ok :: "rex_state \<Rightarrow> bool" where
  "orders_ok X \<longleftrightarrow> (\<forall>w r. fmlookup (rexorders X) w = Some r \<longrightarrow> o_owner r = w \<and> 0 \<le> order_owed r)"

definition pool_ok :: "int \<Rightarrow> rex_pool \<Rightarrow> bool" where
  "pool_ok out p \<longleftrightarrow> amount (total_lent p) = out \<and> 0 \<le> out \<and> 0 \<le> amount (total_unlent p) \<and>
     0 \<le> amount (total_rent p) \<and> amount (total_lendable p) = amount (total_lent p) + amount (total_unlent p) \<and>
     0 \<le> amount (namebid_proceeds p)"

definition rex_ok :: "rex_state \<Rightarrow> bool" where
  "rex_ok X \<longleftrightarrow> funds_ok X \<and> loans_ok (cpu_loans X) \<and> loans_ok (net_loans X) \<and> orders_ok X \<and>
     (\<forall>p. rexpool X = Some p \<longrightarrow> pool_ok (staked_sum (cpu_loans X) + staked_sum (net_loans X)) p) \<and>
     (rexpool X = None \<longrightarrow> staked_sum (cpu_loans X) + staked_sum (net_loans X) = 0)"

lemmas sum_defs = funds_sum_def balances_sum_def staked_sum_def orders_sum_def pool_field_def

lemma funds_okD: "funds_ok X \<Longrightarrow> fmlookup (rexfunds X) w = Some f \<Longrightarrow> 0 \<le> amount (rf_balance f)"
  by (simp add: funds_ok_def)

lemma loans_okD:
  assumes "loans_ok t" "fmlookup t n = Some l"
  shows "l_loan_num l = n" "0 < amount (l_payment l)" "0 \<le> amount (l_balance l)" "0 \<le> amount (total_staked l)"
  using assms unfolding loans_ok_def by blast+

lemma orders_okD:
  assumes "orders_ok X" "fmlookup (rexorders X) w = Some r"
  shows "o_owner r = w" "0 \<le> order_owed r"
  using assms unfolding orders_ok_def by blast+

lemma rex_okD:
  assumes "rex_ok X"
  shows "funds_ok X" "loans_ok (cpu_loans X)" "loans_ok (net_loans X)" "orders_ok X"
    "\<And>p. rexpool X = Some p \<Longrightarrow> pool_ok (staked_sum (cpu_loans X) + staked_sum (net_loans X)) p"
    "rexpool X = None \<Longrightarrow> staked_sum (cpu_loans X) + staked_sum (net_loans X) = 0"
  using assms unfolding rex_ok_def by auto

lemma sums_nonneg:
  "funds_ok X \<Longrightarrow> 0 \<le> funds_sum X"
  "loans_ok t \<Longrightarrow> 0 \<le> balances_sum t"
  "loans_ok t \<Longrightarrow> 0 \<le> staked_sum t"
  "orders_ok X \<Longrightarrow> 0 \<le> orders_sum X"
  by (auto simp: sum_defs intro!: tsum_nonneg dest: funds_okD loans_okD orders_okD)

lemma rows_le_sums:
  "funds_ok X \<Longrightarrow> fmlookup (rexfunds X) w = Some f \<Longrightarrow> amount (rf_balance f) \<le> funds_sum X"
  "loans_ok t \<Longrightarrow> fmlookup t n = Some l \<Longrightarrow> amount (l_balance l) \<le> balances_sum t"
  "loans_ok t \<Longrightarrow> fmlookup t n = Some l \<Longrightarrow> amount (total_staked l) \<le> staked_sum t"
proof -
  assume "funds_ok X" "fmlookup (rexfunds X) w = Some f"
  then show "amount (rf_balance f) \<le> funds_sum X"
    using tval_le_tsum [of "rexfunds X" "\<lambda>f. amount (rf_balance f)" w]
    by (simp add: sum_defs funds_ok_def)
next
  assume l: "loans_ok t" "fmlookup t n = Some l"
  show "amount (l_balance l) \<le> balances_sum t"
    using tval_le_tsum [of t "\<lambda>l. amount (l_balance l)" n] l by (simp add: sum_defs loans_ok_def)
  show "amount (total_staked l) \<le> staked_sum t"
    using tval_le_tsum [of t "\<lambda>l. amount (total_staked l)" n] l by (simp add: sum_defs loans_ok_def)
qed

text \<open>Every part of what is owed is non-negative and bounded by the whole.\<close>

lemma owed_bounds:
  assumes "rex_ok X"
  shows "0 \<le> funds_sum X" "funds_sum X \<le> rex_owed X" "0 \<le> rex_owed X"
    "balances_sum (cpu_loans X) \<le> rex_owed X" "balances_sum (net_loans X) \<le> rex_owed X"
    "0 \<le> staked_sum (cpu_loans X)" "0 \<le> staked_sum (net_loans X)"
    "pool_field total_lendable X \<le> rex_owed X"
    "staked_sum (cpu_loans X) + staked_sum (net_loans X) \<le> pool_field total_lendable X"
proof -
  note D = rex_okD [OF assms]
  have n: "0 \<le> funds_sum X" "0 \<le> balances_sum (cpu_loans X)" "0 \<le> balances_sum (net_loans X)"
    "0 \<le> staked_sum (cpu_loans X)" "0 \<le> staked_sum (net_loans X)" "0 \<le> orders_sum X"
    using sums_nonneg D by blast+
  have le: "staked_sum (cpu_loans X) + staked_sum (net_loans X) \<le> pool_field total_lendable X"
    using D(5,6) by (cases "rexpool X") (auto simp: pool_field_def pool_ok_def)
  show "0 \<le> funds_sum X" "funds_sum X \<le> rex_owed X" "0 \<le> rex_owed X"
    "balances_sum (cpu_loans X) \<le> rex_owed X" "balances_sum (net_loans X) \<le> rex_owed X"
    "0 \<le> staked_sum (cpu_loans X)" "0 \<le> staked_sum (net_loans X)"
    "pool_field total_lendable X \<le> rex_owed X"
    "staked_sum (cpu_loans X) + staked_sum (net_loans X) \<le> pool_field total_lendable X"
    using n le by (simp_all add: rex_owed_def)
qed

section \<open>Funds\<close>

lemma i64_small: "- (2 ^ 62) \<le> x \<Longrightarrow> x < 2 ^ 63 \<Longrightarrow> i64 x = x"
  by (rule i64_id) (simp add: is_i64_def)

text \<open>On the funds alone: the rest of the group is untouched.\<close>

lemma transfer_to_fund_funds:
  assumes "funds_ok X" "funds_sum X < 2 ^ 62" "amount amt < 2 ^ 62"
    and "transfer_to_fund core w amt X = Inr X'"
  shows "funds_ok X'" "funds_sum X' = funds_sum X + amount amt" "0 < amount amt"
    "\<exists>t. X' = X\<lparr>rexfunds := t\<rparr>"
proof -
  from assms(4) show pos: "0 < amount amt" by (auto simp: transfer_to_fund_def)
  have X': "X' = (case fmlookup (rexfunds X) w of
        None \<Rightarrow> X\<lparr>rexfunds := fmupd w \<lparr>rf_owner = w, rf_balance = amt\<rparr> (rexfunds X)\<rparr>
      | Some fund \<Rightarrow> X\<lparr>rexfunds := fmupd w (fund\<lparr>rf_balance := inc_amt (amount amt) (rf_balance fund)\<rparr>) (rexfunds X)\<rparr>)"
    using assms(4) by (auto simp: transfer_to_fund_def)
  have w: "i64 (amount (rf_balance f) + amount amt) = amount (rf_balance f) + amount amt"
    if "fmlookup (rexfunds X) w = Some f" for f
    using funds_okD [OF assms(1) that] rows_le_sums(1) [OF assms(1) that] assms(2,3) pos
    by (intro i64_small) auto
  show "\<exists>t. X' = X\<lparr>rexfunds := t\<rparr>" unfolding X' by (auto split: option.split)
  show "funds_sum X' = funds_sum X + amount amt"
    unfolding X' using w by (simp add: sum_defs split: option.split)
  show "funds_ok X'"
    unfolding X' using assms(1) w pos by (auto simp: funds_ok_def split: option.split)
qed

lemma transfer_from_fund_funds:
  assumes "lib_ok E" "funds_ok X" "funds_sum X < 2 ^ 62"
    and "transfer_from_fund E core w amt X = Inr X'"
  shows "funds_ok X'" "funds_sum X' = funds_sum X - amount amt" "0 < amount amt"
    "amount amt \<le> funds_sum X" "\<exists>t. X' = X\<lparr>rexfunds := t\<rparr>"
proof -
  from assms(4) obtain f where f: "fmlookup (rexfunds X) w = Some f" "amount amt \<le> amount (rf_balance f)"
    and pos: "0 < amount amt"
    and X': "X' = X\<lparr>rexfunds := fmupd w (f\<lparr>rf_balance := inc_amt (- amount amt) (rf_balance f)\<rparr>) (rexfunds X)\<rparr>"
    by (auto simp: transfer_from_fund_def le_asset_lib [OF assms(1)])
  note le = rows_le_sums(1) [OF assms(2) f(1)]
  have w: "i64 (amount (rf_balance f) - amount amt) = amount (rf_balance f) - amount amt"
    using f(2) pos le assms(3) by (intro i64_small) auto
  show "0 < amount amt" "amount amt \<le> funds_sum X" "\<exists>t. X' = X\<lparr>rexfunds := t\<rparr>"
    using pos f(2) le X' by auto
  show "funds_sum X' = funds_sum X - amount amt"
    unfolding X' using w f(1) by (simp add: sum_defs)
  show "funds_ok X'"
    unfolding X' using assms(2) w f by (auto simp: funds_ok_def)
qed

lemma rex_ok_funds: "rex_ok X \<Longrightarrow> funds_ok (X\<lparr>rexfunds := t\<rparr>) \<Longrightarrow> rex_ok (X\<lparr>rexfunds := t\<rparr>)"
  by (simp add: rex_ok_def orders_ok_def)

lemma rex_owed_funds:
  "rex_owed (X\<lparr>rexfunds := t\<rparr>) = rex_owed X - funds_sum X + funds_sum (X\<lparr>rexfunds := t\<rparr>)"
  by (simp add: rex_owed_def orders_sum_def pool_field_def)

lemma transfer_to_fund_law:
  assumes "rex_ok X" "rex_owed X < 2 ^ 62" "amount amt < 2 ^ 62"
    and "transfer_to_fund core w amt X = Inr X'"
  shows "rex_ok X'" "rex_owed X' = rex_owed X + amount amt" "\<exists>t. X' = X\<lparr>rexfunds := t\<rparr>"
proof -
  have s: "funds_sum X < 2 ^ 62" using owed_bounds(2) [OF assms(1)] assms(2) by linarith
  note F = transfer_to_fund_funds [OF rex_okD(1) [OF assms(1)] s assms(3,4)]
  then obtain t where t: "X' = X\<lparr>rexfunds := t\<rparr>" by blast
  show "rex_ok X'" "rex_owed X' = rex_owed X + amount amt" "\<exists>t. X' = X\<lparr>rexfunds := t\<rparr>"
    using F t rex_ok_funds [OF assms(1), of t] rex_owed_funds [of t X] by auto
qed

lemma transfer_from_fund_law:
  assumes "lib_ok E" "rex_ok X" "rex_owed X < 2 ^ 62"
    and "transfer_from_fund E core w amt X = Inr X'"
  shows "rex_ok X'" "rex_owed X' = rex_owed X - amount amt" "0 < amount amt" "amount amt \<le> funds_sum X"
    "\<exists>t. X' = X\<lparr>rexfunds := t\<rparr>"
proof -
  have s: "funds_sum X < 2 ^ 62" using owed_bounds(2) [OF assms(2)] assms(3) by linarith
  note F = transfer_from_fund_funds [OF assms(1) rex_okD(1) [OF assms(2)] s assms(4)]
  then obtain t where t: "X' = X\<lparr>rexfunds := t\<rparr>" by blast
  show "rex_ok X'" "rex_owed X' = rex_owed X - amount amt" "0 < amount amt" "amount amt \<le> funds_sum X"
    "\<exists>t. X' = X\<lparr>rexfunds := t\<rparr>"
    using F t rex_ok_funds [OF assms(2), of t] rex_owed_funds [of t X] by auto
qed

section \<open>Loans that expire\<close>

text \<open>
  The rent of the pool and the balances of the loans bound together what the rent can grow to
  by renewals, which take the payment out of the balance.
\<close>

definition rent_pot :: "rex_state \<Rightarrow> int" where
  "rent_pot X = pool_field total_rent X + balances_sum (cpu_loans X) + balances_sum (net_loans X)"

text \<open>
  The largest supply of the core token the code is written for (the comment in
  \<open>add_to_rex_pool\<close>): \<open>rex_ratio\<close> times it stays below \<open>2 ^ 62\<close>.
\<close>

definition core_cap :: int where
  "core_cap = 400000000000000"

text \<open>What is owed and what auctions have promised to the pool.\<close>

definition rex_claims :: "rex_state \<Rightarrow> int" where
  "rex_claims X = rex_owed X + pool_field namebid_proceeds X"

definition rex_small :: "rex_state \<Rightarrow> bool" where
  "rex_small X \<longleftrightarrow> rex_claims X \<le> core_cap \<and> rent_pot X < market_max"

lemma rex_smallD:
  assumes "rex_ok X" "rex_small X"
  shows "rex_owed X \<le> core_cap" "rent_pot X < market_max" "0 \<le> pool_field namebid_proceeds X"
proof -
  show n: "0 \<le> pool_field namebid_proceeds X"
    using rex_okD(5) [OF assms(1)] by (cases "rexpool X") (auto simp: pool_field_def pool_ok_def)
  show "rex_owed X \<le> core_cap" "rent_pot X < market_max"
    using n assms(2) by (simp_all add: rex_small_def rex_claims_def)
qed

lemma expired_pool:
  assumes "pool_ok out p" "amount (total_lendable p) < market_max" "amount (total_rent p) < market_max"
    and "0 \<le> amount (total_staked l)" "amount (total_staked l) \<le> out"
    and "remove_loan_from_rex_pool l p = Inr p'"
  shows "pool_ok (out - amount (total_staked l)) p'" "amount (total_lendable p') = amount (total_lendable p)"
    "amount (total_rent p') \<le> amount (total_rent p)" "namebid_proceeds p' = namebid_proceeds p"
proof -
  obtain d where d: "get_bancor_output (amount (total_unlent p)) (amount (total_rent p)) (amount (total_staked l)) = Inr d"
    using assms(6) by (auto simp: remove_loan_from_rex_pool_def)
  have bounds: "0 \<le> amount (total_unlent p)" "0 \<le> amount (total_rent p)" "amount (total_lent p) = out"
    "amount (total_lendable p) = amount (total_lent p) + amount (total_unlent p)" "0 \<le> amount (namebid_proceeds p)"
    using assms(1) by (simp_all add: pool_ok_def)
  have "0 \<le> d \<and> d \<le> amount (total_rent p)"
    by (rule bancor_payout [OF _ _ _ _ _ d]) (use bounds assms in auto)
  then show "pool_ok (out - amount (total_staked l)) p'" "amount (total_lendable p') = amount (total_lendable p)"
    "amount (total_rent p') \<le> amount (total_rent p)" "namebid_proceeds p' = namebid_proceeds p"
    using assms bounds d
    by (auto simp: remove_loan_from_rex_pool_def Let_def pool_ok_def i64_small market_max_def)
qed

lemma loan_pool:
  assumes "pool_ok out p" "amount (total_lendable p) < market_max" "amount (total_rent p) < market_max"
    and "0 < amount pay" "amount pay < market_max" "0 \<le> rented" "rented \<le> amount (total_unlent p)"
  shows "pool_ok (out + rented) (add_loan_to_rex_pool pay rented new p)"
    "amount (total_lendable (add_loan_to_rex_pool pay rented new p)) = amount (total_lendable p) + amount pay"
    "amount (total_rent (add_loan_to_rex_pool pay rented new p)) = amount (total_rent p) + amount pay"
    "namebid_proceeds (add_loan_to_rex_pool pay rented new p) = namebid_proceeds p"
  using assms
  by (auto simp: add_loan_to_rex_pool_def Let_def pool_ok_def i64_small market_max_def)

lemma loans_simps [simp]:
  "loans k (set_loans k t X) = t"
  "rexpool (set_loans k t X) = rexpool X" "rexfunds (set_loans k t X) = rexfunds X"
  "rexbalance (set_loans k t X) = rexbalance X" "rexorders (set_loans k t X) = rexorders X"
  "loans k (X\<lparr>rexpool := p\<rparr>) = loans k X" "loans k (X\<lparr>rexfunds := f\<rparr>) = loans k X"
  "funds_sum (set_loans k t X) = funds_sum X" "orders_sum (set_loans k t X) = orders_sum X"
  "pool_field g (set_loans k t X) = pool_field g X" "funds_ok (set_loans k t X) = funds_ok X"
  "orders_ok (set_loans k t X) = orders_ok X"
  by (simp_all add: loans_def set_loans_def sum_defs funds_ok_def orders_ok_def split: loan_kind.splits)

text \<open>Replacing one table of loans: how the sums over both tables change.\<close>

lemma set_loans_sums:
  "balances_sum (cpu_loans (set_loans k t X)) + balances_sum (net_loans (set_loans k t X)) =
     balances_sum (cpu_loans X) + balances_sum (net_loans X) - balances_sum (loans k X) + balances_sum t"
  "staked_sum (cpu_loans (set_loans k t X)) + staked_sum (net_loans (set_loans k t X)) =
     staked_sum (cpu_loans X) + staked_sum (net_loans X) - staked_sum (loans k X) + staked_sum t"
  by (cases k; simp add: loans_def set_loans_def)+

lemma rex_ok_loans: "rex_ok X \<Longrightarrow> loans_ok (loans k X)"
  by (cases k) (simp_all add: loans_def rex_okD)

lemma rex_ok_set_loans:
  assumes "funds_ok X" "orders_ok X" "loans_ok (cpu_loans X)" "loans_ok (net_loans X)" "loans_ok t"
    and "rexpool X = Some p"
    and "pool_ok (staked_sum (cpu_loans X) + staked_sum (net_loans X) - staked_sum (loans k X) + staked_sum t) p"
  shows "rex_ok (set_loans k t X)"
  using assms set_loans_sums(2) [of k t X]
  by (cases k) (simp_all add: rex_ok_def loans_def set_loans_def funds_ok_def orders_ok_def add.commute)

lemma rex_owed_set_loans:
  "rex_owed (set_loans k t X) = rex_owed X - balances_sum (loans k X) + balances_sum t"
  using set_loans_sums(1) [of k t X] by (simp add: rex_owed_def)

lemma rent_pot_set_loans:
  "rent_pot (set_loans k t X) = rent_pot X - balances_sum (loans k X) + balances_sum t"
  using set_loans_sums(1) [of k t X] by (simp add: rent_pot_def)

lemma table_sums_upd:
  "fmlookup t n = Some l \<Longrightarrow> balances_sum (fmupd n l' t) = balances_sum t - amount (l_balance l) + amount (l_balance l')"
  "fmlookup t n = Some l \<Longrightarrow> staked_sum (fmupd n l' t) = staked_sum t - amount (total_staked l) + amount (total_staked l')"
  "fmlookup t n = Some l \<Longrightarrow> balances_sum (fmdrop n t) = balances_sum t - amount (l_balance l)"
  "fmlookup t n = Some l \<Longrightarrow> staked_sum (fmdrop n t) = staked_sum t - amount (total_staked l)"
  by (simp_all add: sum_defs)

lemma loan_bounds:
  assumes "rex_ok X" "fmlookup (loans k X) n = Some l"
  shows "amount (l_balance l) \<le> rex_owed X" "amount (l_balance l) \<le> rent_pot X"
    "amount (total_staked l) \<le> staked_sum (cpu_loans X) + staked_sum (net_loans X)"
proof -
  note B = owed_bounds [OF assms(1)] and D = rex_okD [OF assms(1)]
  note n = sums_nonneg(2) [OF D(2)] sums_nonneg(2) [OF D(3)]
  have r: "0 \<le> pool_field total_rent X"
    using D(5) by (cases "rexpool X") (auto simp: pool_field_def pool_ok_def)
  show "amount (l_balance l) \<le> rex_owed X" "amount (l_balance l) \<le> rent_pot X"
    "amount (total_staked l) \<le> staked_sum (cpu_loans X) + staked_sum (net_loans X)"
    using rows_le_sums(2,3) [OF rex_ok_loans [OF assms(1)] assms(2)] B n r
    by (cases k; auto simp: loans_def rent_pot_def)+
qed

definition store_loan :: "loan_kind \<Rightarrow> int \<Rightarrow> rex_loan option \<Rightarrow> rex_state \<Rightarrow> rex_state" where
  "store_loan k n renewed X =
     set_loans k (case renewed of None \<Rightarrow> fmdrop n (loans k X) | Some l \<Rightarrow> fmupd n l (loans k X)) X"

text \<open>
  What processing an expired loan keeps: \<open>X1\<close> is the state the pool is left in, \<open>X2\<close> the one with the
  loan stored again or dropped.
\<close>

definition loan_settled :: "rex_state \<Rightarrow> rex_state \<Rightarrow> rex_state \<Rightarrow> bool" where
  "loan_settled X X1 X2 \<longleftrightarrow> rex_ok X2 \<and> rex_owed X2 = rex_owed X \<and> rent_pot X2 \<le> rent_pot X \<and>
     rexorders X1 = rexorders X \<and> rexbalance X1 = rexbalance X \<and>
     pool_field total_rex X1 = pool_field total_rex X \<and> pool_field namebid_proceeds X1 = pool_field namebid_proceeds X \<and>
     pool_field total_lendable X \<le> pool_field total_lendable X1 \<and>
     (pool_field total_rex X = 0 \<longrightarrow> pool_field total_lendable X1 = pool_field total_lendable X)"

lemma expired_bounds:
  assumes X: "rex_ok X" "rex_small X" and l: "fmlookup (loans k X) n = Some l" and p: "rexpool X = Some p"
  shows "pool_ok (staked_sum (cpu_loans X) + staked_sum (net_loans X)) p" "amount (total_lendable p) < market_max"
    "amount (total_rent p) < market_max" "rex_owed X < market_max" "amount (l_balance l) < market_max"
proof -
  note D = rex_okD [OF X(1)] and B = owed_bounds [OF X(1)]
  have pot: "amount (total_rent p) \<le> rent_pot X"
    using sums_nonneg(2) [OF D(2)] sums_nonneg(2) [OF D(3)] p by (simp add: rent_pot_def pool_field_def)
  show "pool_ok (staked_sum (cpu_loans X) + staked_sum (net_loans X)) p" using D(5) [OF p] .
  show "amount (total_lendable p) < market_max" "amount (total_rent p) < market_max" "rex_owed X < market_max"
    using B(8) rex_smallD [OF X] p pot by (auto simp: pool_field_def core_cap_def market_max_def)
  then show "amount (l_balance l) < market_max" using loan_bounds(1) [OF X(1) l] by simp
qed

lemma renewed_loan_law:
  assumes X: "rex_ok X" "rex_small X" and l: "fmlookup (loans k X) n = Some l" and p: "rexpool X = Some p"
    and p1: "remove_loan_from_rex_pool l p = Inr p1"
    and r: "get_bancor_output (amount (total_rent p1)) (amount (total_unlent p1)) (amount (l_payment l)) = Inr rented"
    and pay: "amount (l_payment l) \<le> amount (l_balance l)" and tot: "pool_field total_rex X \<noteq> 0"
    and X1: "X1 = X\<lparr>rexpool := Some (add_loan_to_rex_pool (l_payment l) rented False p1)\<rparr>"
  shows "loan_settled X X1 (store_loan k n (Some (fst (update_renewed_loan rented l))) X1)"
proof -
  note D = rex_okD [OF X(1)] and L = loans_okD [OF rex_ok_loans [OF X(1)] l] and lb = loan_bounds [OF X(1) l]
  note ok = expired_bounds [OF X l p]
  note P1 = expired_pool [OF ok(1-3) L(4) lb(3) p1]
  let ?p2 = "add_loan_to_rex_pool (l_payment l) rented False p1" and ?l' = "fst (update_renewed_loan rented l)"
  have un1: "0 \<le> amount (total_unlent p1)" "amount (total_unlent p1) \<le> amount (total_lendable p1)"
    "0 \<le> amount (total_rent p1)"
    using P1(1) by (auto simp: pool_ok_def)
  have "0 \<le> rented \<and> rented \<le> amount (total_unlent p1)"
    by (rule bancor_payout [OF _ _ _ _ _ r]) (use L un1 pay lb ok P1 in auto)
  then have rr: "0 \<le> rented" "rented \<le> amount (total_unlent p1)" by auto
  have pm: "amount (l_payment l) < market_max" using pay ok(5) by linarith
  have sm1: "amount (total_lendable p1) < market_max" "amount (total_rent p1) < market_max"
    using P1 ok by auto
  note P2 = loan_pool [OF P1(1) sm1 L(2) pm rr, of False]
  have bal: "amount (l_balance ?l') = amount (l_balance l) - amount (l_payment l)"
    "amount (total_staked ?l') = rented" "l_loan_num ?l' = n" "l_payment ?l' = l_payment l"
    using pay L ok(5) by (auto simp: update_renewed_loan_def i64_small market_max_def)
  have "loans_ok (fmupd n ?l' (loans k X))"
    using rex_ok_loans [OF X(1)] bal pay L rr by (auto simp: loans_ok_def)
  then have ok': "rex_ok (store_loan k n (Some ?l') X1)"
    unfolding X1 store_loan_def using D P2(1) l bal
    by (auto intro!: rex_ok_set_loans simp: table_sums_upd funds_ok_def orders_ok_def loans_def
        algebra_simps split: loan_kind.splits)
  have "rex_owed X1 = rex_owed X + amount (l_payment l)"
    "rent_pot X1 = rent_pot X - amount (total_rent p) + amount (total_rent p1) + amount (l_payment l)"
    using p P2(2,3) P1(2) unfolding X1 by (simp_all add: rex_owed_def rent_pot_def sum_defs)
  moreover have "total_rex ?p2 = total_rex p"
    using p1 by (auto simp: remove_loan_from_rex_pool_def add_loan_to_rex_pool_def Let_def)
  ultimately show ?thesis
    using ok' P1(2,3,4) P2(2,4) p L(2) tot
    unfolding loan_settled_def X1 store_loan_def rex_owed_set_loans rent_pot_set_loans
    using l bal by (simp add: table_sums_upd pool_field_def)
qed

lemma closed_loan_law:
  assumes X: "rex_ok X" "rex_small X" and l: "fmlookup (loans k X) n = Some l" and p: "rexpool X = Some p"
    and p1: "remove_loan_from_rex_pool l p = Inr p1"
    and x2: "(if 0 < amount (l_balance l) then transfer_to_fund core (l_from l) (l_balance l) (X\<lparr>rexpool := Some p1\<rparr>)
       else Inr (X\<lparr>rexpool := Some p1\<rparr>)) = Inr X1"
  shows "loan_settled X X1 (store_loan k n None X1)"
proof -
  note D = rex_okD [OF X(1)] and L = loans_okD [OF rex_ok_loans [OF X(1)] l] and lb = loan_bounds [OF X(1) l]
  note ok = expired_bounds [OF X l p]
  note P1 = expired_pool [OF ok(1-3) L(4) lb(3) p1]
  let ?X1 = "X\<lparr>rexpool := Some p1\<rparr>"
  have fo: "funds_ok ?X1" "funds_sum ?X1 = funds_sum X" using D(1) by (simp_all add: funds_ok_def sum_defs)
  have fb: "funds_sum ?X1 < 2 ^ 62" "amount (l_balance l) < 2 ^ 62"
    using owed_bounds(2) [OF X(1)] ok(4,5) fo by (auto simp: market_max_def)
  have "\<exists>t. X1 = ?X1\<lparr>rexfunds := t\<rparr> \<and> funds_ok X1 \<and> funds_sum X1 = funds_sum X + amount (l_balance l)"
  proof (cases "0 < amount (l_balance l)")
    case True
    then show ?thesis
      using transfer_to_fund_funds [OF fo(1) fb, of core "l_from l" X1] x2 fo(2) by auto
  next
    case False
    then have "X1 = ?X1" "amount (l_balance l) = 0" using x2 L(3) by auto
    then show ?thesis using fo by (intro exI [of _ "rexfunds X"]) simp
  qed
  then obtain t where t: "X1 = ?X1\<lparr>rexfunds := t\<rparr>" "funds_ok X1" "funds_sum X1 = funds_sum X + amount (l_balance l)"
    by blast
  have lo: "loans_ok (fmdrop n (loans k X))"
    using rex_ok_loans [OF X(1)] by (simp add: loans_ok_def)
  have "rex_ok (store_loan k n None X1)"
    unfolding store_loan_def
    using D P1(1) l lo t by (auto intro!: rex_ok_set_loans simp: table_sums_upd orders_ok_def loans_def
        algebra_simps split: loan_kind.splits)
  moreover have "rex_owed X1 = rex_owed X + amount (l_balance l)" "rent_pot X1 \<le> rent_pot X"
    using p P1(2,3) t by (simp_all add: rex_owed_def rent_pot_def sum_defs)
  moreover have "total_rex p1 = total_rex p"
    using p1 by (auto simp: remove_loan_from_rex_pool_def Let_def)
  ultimately show ?thesis
    unfolding loan_settled_def store_loan_def rex_owed_set_loans rent_pot_set_loans
    using l t L(3) p P1(2,4) by (simp add: table_sums_upd pool_field_def)
qed

lemma expired_loan_law:
  assumes E: "lib_ok E" and X: "rex_ok X" "rex_small X" and l: "fmlookup (loans k X) n = Some l"
    and run: "process_expired_loan E core l X = Inr (renewed, d, X1)"
  shows "loan_settled X X1 (store_loan k n renewed X1)"
proof -
  obtain p p1 rented funded where p: "rexpool X = Some p" and p1: "remove_loan_from_rex_pool l p = Inr p1"
    and r: "get_bancor_output (amount (total_rent p1)) (amount (total_unlent p1)) (amount (l_payment l)) = Inr rented"
    and f: "le_asset E (l_payment l) (l_balance l) = Inr funded"
    using run by (auto simp: process_expired_loan_def the_pool_def Let_def)
  note go = run p p1 r f and unf = process_expired_loan_def the_pool_def Let_def
  show ?thesis
  proof (cases "funded \<and> amount (l_payment l) < rented \<and> rex_loans_available (X\<lparr>rexpool := Some p1\<rparr>)")
    case True
    then have "renewed = Some (fst (update_renewed_loan rented l))"
      "X1 = X\<lparr>rexpool := Some (add_loan_to_rex_pool (l_payment l) rented False p1)\<rparr>"
      "amount (l_payment l) \<le> amount (l_balance l)" "pool_field total_rex X \<noteq> 0"
      using go le_asset_lib [OF E] by (auto simp: unf rex_loans_available_def rex_available_def pool_field_def
          remove_loan_from_rex_pool_def split: prod.splits)
    then show ?thesis using renewed_loan_law [OF X l p p1 r] by simp
  next
    case False
    then have "renewed = None" "(if 0 < amount (l_balance l)
        then transfer_to_fund core (l_from l) (l_balance l) (X\<lparr>rexpool := Some p1\<rparr>)
        else Inr (X\<lparr>rexpool := Some p1\<rparr>)) = Inr X1"
      using go by (auto simp: unf split: if_splits)
    then show ?thesis using closed_loan_law [OF X l p p1] by simp
  qed
qed

end
