(* ===== verification/Rex_Holders.thy ===== *)
theory Rex_Holders
  imports Rex_Laws
begin

text \<open>
  REX tokens: the balances of all holders add up to the REX of the pool, an open sell order is
  covered by matured REX, and the pool is never worth less per REX than at its start. Buying
  REX and filling sell orders keep these laws and the conservation of what is owed.
\<close>

definition rex_sum :: "rex_state \<Rightarrow> int" where
  "rex_sum X = tsum (\<lambda>rb. amount (rb_rex_balance rb)) (rexbalance X)"

definition priced :: "int \<Rightarrow> int \<Rightarrow> bool" where
  "priced rex lendable \<longleftrightarrow> rex \<le> rex_ratio * lendable \<and> (rex = 0 \<longrightarrow> lendable = 0)"

definition holdings_ok :: "rex_state \<Rightarrow> bool" where
  "holdings_ok X \<longleftrightarrow> (\<forall>w rb. fmlookup (rexbalance X) w = Some rb \<longrightarrow> bal_ok rb) \<and>
     rex_sum X = pool_field total_rex X \<and> priced (pool_field total_rex X) (pool_field total_lendable X)"

definition orders_backed :: "rex_state \<Rightarrow> bool" where
  "orders_backed X \<longleftrightarrow> (\<forall>w r. fmlookup (rexorders X) w = Some r \<and> is_open r \<longrightarrow>
     0 < amount (rex_requested r) \<and>
     (\<exists>rb. fmlookup (rexbalance X) w = Some rb \<and> amount (rex_requested r) \<le> matured_rex rb))"

text \<open>An empty pool has no auction proceeds promised to it (they would be lost to it).\<close>

definition promise_ok :: "rex_state \<Rightarrow> bool" where
  "promise_ok X \<longleftrightarrow> (pool_field total_rex X = 0 \<longrightarrow> pool_field namebid_proceeds X = 0)"

definition rex_inv :: "rex_state \<Rightarrow> bool" where
  "rex_inv X \<longleftrightarrow> rex_ok X \<and> holdings_ok X \<and> orders_backed X \<and> promise_ok X"

lemma bal_ok_bounds:
  "bal_ok rb \<Longrightarrow> 0 \<le> matured_rex rb \<and> matured_rex rb \<le> amount (rb_rex_balance rb) \<and>
     0 \<le> amount (rb_rex_balance rb) \<and> amount (rb_rex_balance rb) < 2 ^ 62"
  using bucket_sum_nonneg [of "rex_maturities rb"] by (auto simp: bal_ok_def row_ok_def rex_held_def)

lemma holdings_okD:
  assumes "holdings_ok X"
  shows "fmlookup (rexbalance X) w = Some rb \<Longrightarrow> bal_ok rb"
    "fmlookup (rexbalance X) w = Some rb \<Longrightarrow> amount (rb_rex_balance rb) \<le> pool_field total_rex X"
    "0 \<le> pool_field total_rex X" "priced (pool_field total_rex X) (pool_field total_lendable X)"
    "rex_sum X = pool_field total_rex X"
proof -
  have nn: "0 \<le> amount (rb_rex_balance rb)" if "fmlookup (rexbalance X) w = Some rb" for w rb
    using assms that bal_ok_bounds by (auto simp: holdings_ok_def)
  show "fmlookup (rexbalance X) w = Some rb \<Longrightarrow> bal_ok rb"
    "priced (pool_field total_rex X) (pool_field total_lendable X)" and eq: "rex_sum X = pool_field total_rex X"
    using assms by (auto simp: holdings_ok_def)
  have "0 \<le> rex_sum X" unfolding rex_sum_def by (rule tsum_nonneg) (rule nn)
  then show "0 \<le> pool_field total_rex X" using eq by simp
  assume l: "fmlookup (rexbalance X) w = Some rb"
  have "tval (\<lambda>rb. amount (rb_rex_balance rb)) (rexbalance X) w \<le> rex_sum X"
    unfolding rex_sum_def by (rule tval_le_tsum) (rule nn)
  with l eq show "amount (rb_rex_balance rb) \<le> pool_field total_rex X" by simp
qed

lemma rex_total_small:
  assumes "holdings_ok X" "rex_ok X" "rex_small X"
  shows "pool_field total_rex X < 2 ^ 62" "pool_field total_lendable X \<le> core_cap" "0 \<le> pool_field total_lendable X"
  using holdings_okD(4) [OF assms(1)] owed_bounds [OF assms(2)] rex_smallD [OF assms(2,3)]
  by (auto simp: priced_def rex_ratio_def core_cap_def)

section \<open>Pro rata\<close>

lemma int_div_mult_le:
  fixes a b :: int
  assumes "0 < b"
  shows "a div b * b \<le> a"
  using div_mult_mod_eq [of a b] pos_mod_sign [OF assms, of a] by linarith

text \<open>The share of the pool that some REX is worth, exact since nothing overflows.\<close>

lemma pro_rata:
  assumes "0 \<le> a" "a \<le> r" "0 \<le> s" "s \<le> core_cap" "r < 2 ^ 62"
    and "muldiv128 a s r = Inr p"
  shows "p = a * s div r" "0 < r" "0 \<le> p" "p \<le> s" "p * r \<le> a * s"
proof -
  have "r \<noteq> 0" using assms(6) by (auto simp: muldiv128_def u128_def split: if_splits)
  then show r: "0 < r" using assms(1,2) by simp
  have "a * s \<le> r * s" using assms by (intro mult_right_mono) auto
  then have "a * s div r \<le> r * s div r" using r by (intro zdiv_mono1) auto
  then have le: "a * s div r \<le> s" using r by simp
  have ge: "0 \<le> a * s div r" using assms r by (simp add: pos_imp_zdiv_nonneg_iff)
  have "muldiv128 a s r = Inr (i64 (a * s div r))"
    using assms r by (intro muldiv128_exact) (auto simp: core_cap_def)
  moreover have "i64 (a * s div r) = a * s div r"
    using le ge assms(4) by (intro i64_small) (auto simp: core_cap_def)
  ultimately show p: "p = a * s div r" using assms(6) by simp
  show "0 \<le> p" "p \<le> s" using p le ge by simp_all
  show "p * r \<le> a * s" unfolding p using r by (rule int_div_mult_le)
qed

lemma priced_sell:
  assumes "priced r s" "0 \<le> s" "0 < r" "0 \<le> a" "a \<le> r" "p = a * s div r"
  shows "priced (r - a) (s - p)"
proof -
  have pr: "p * r \<le> a * s" unfolding assms(6) using assms(3) by (rule int_div_mult_le)
  have rs: "r \<le> rex_ratio * s" using assms(1) by (simp add: priced_def)
  then have s: "0 < s" using assms(2,3) by (cases "s = 0") (auto simp: rex_ratio_def)
  have "(r - a) * s \<le> (s - p) * r" using pr by (simp add: algebra_simps)
  also have "\<dots> \<le> (s - p) * (rex_ratio * s)"
  proof (rule mult_left_mono [OF rs])
    have "a * s \<le> r * s" using assms(5) s by (intro mult_right_mono) auto
    then have "p * r \<le> s * r" using pr by (simp add: mult.commute)
    then show "0 \<le> s - p" using assms(3) by (simp add: mult_le_cancel_right)
  qed
  finally have "(r - a) * s \<le> rex_ratio * (s - p) * s" by (simp add: algebra_simps)
  then have "r - a \<le> rex_ratio * (s - p)" using s by (simp add: mult_le_cancel_right)
  moreover have "r - a = 0 \<longrightarrow> s - p = 0" using assms(3,6) by auto
  ultimately show ?thesis by (simp add: priced_def)
qed

section \<open>Filling an order\<close>

text \<open>
  What filling an order of \<open>q\<close> REX for \<open>p\<close> tokens does to the pool: the payout is the pro-rata
  share rounded down, and leaves unlent a fifth of what is lent.
\<close>

definition order_filled :: "int \<Rightarrow> int \<Rightarrow> rex_state \<Rightarrow> rex_state \<Rightarrow> bool" where
  "order_filled q p X X' \<longleftrightarrow>
     0 < pool_field total_rex X \<and> p = q * pool_field total_lendable X div pool_field total_rex X \<and>
     pool_field total_rex X' = pool_field total_rex X - q \<and>
     pool_field total_lendable X' = pool_field total_lendable X - p \<and>
     pool_field total_lent X' = pool_field total_lent X \<and>
     pool_field total_unlent X' = pool_field total_unlent X - p \<and>
     2 * pool_field total_lent X div 10 \<le> pool_field total_unlent X'"

text \<open>The row of a seller and the pool after a filled order for \<open>q\<close> that pays \<open>p\<close>.\<close>

definition sold_row :: "int \<Rightarrow> int \<Rightarrow> rex_balance \<Rightarrow> rex_balance" where
  "sold_row q st rb = rb\<lparr>vote_stake := set_amt st (vote_stake rb),
     rb_rex_balance := set_amt (amount (rb_rex_balance rb) - q) (rb_rex_balance rb), matured_rex := matured_rex rb - q\<rparr>"

definition sold_pool :: "int \<Rightarrow> int \<Rightarrow> rex_pool \<Rightarrow> rex_pool" where
  "sold_pool q p rt = rt\<lparr>total_rex := set_amt (amount (total_rex rt) - q) (total_rex rt),
     total_lendable := set_amt (amount (total_lendable rt) - p) (total_lendable rt),
     total_unlent := set_amt (amount (total_lendable rt) - p - amount (total_lent rt)) (total_unlent rt)\<rparr>"

text \<open>
  What an order does on both branches: nothing, or the rounded share \<open>p\<close> of the pool is paid, which
  leaves a fifth of what is lent.
\<close>

lemma fill_order_parts:
  assumes E: "lib_ok E" and X: "rex_ok X" "holdings_ok X" "rex_small X"
    and rb: "fmlookup (rexbalance X) w = Some rb" and q: "0 < amount q" "amount q \<le> matured_rex rb"
    and run: "fill_rex_order E core w q X = Inr (res, X')"
  obtains rt p where "rexpool X = Some rt" "p = amount q * amount (total_lendable rt) div amount (total_rex rt)"
    "0 < amount (total_rex rt)" "0 \<le> p" "p \<le> amount (total_lendable rt)"
    "p * amount (total_rex rt) \<le> amount q * amount (total_lendable rt)"
    "0 \<le> amount (total_lendable rt)" "amount (total_lendable rt) \<le> core_cap" "amount q \<le> amount (total_rex rt)"
    "\<not> success res \<Longrightarrow> X' = X \<and> amount (oo_proceeds res) = 0 \<and> amount (oo_stake_change res) = 0"
    "success res \<Longrightarrow> p \<le> amount (total_unlent rt) - 2 * amount (total_lent rt) div 10 \<and> amount (oo_proceeds res) = p \<and>
      (\<exists>st. X' = set_rexbal w (sold_row (amount q) st rb) (X\<lparr>rexpool := Some (sold_pool (amount q) p rt)\<rparr>))"
proof -
  note D = rex_okD [OF X(1)] and H = holdings_okD [OF X(2)] and T = rex_total_small [OF X(2,1,3)]
  obtain rt where rt: "rexpool X = Some rt" using run rb by (auto simp: fill_rex_order_def the_pool_def)
  let ?S = "amount (total_lendable rt)" and ?R = "amount (total_rex rt)"
  have f: "pool_field total_lendable X = ?S" "pool_field total_rex X = ?R" using rt by (simp_all add: pool_field_def)
  obtain p where p: "muldiv128 (amount q) ?S ?R = Inr p" using run rb rt by (auto simp: fill_rex_order_def the_pool_def Let_def)
  note bb = bal_ok_bounds [OF H(1) [OF rb]]
  have qR: "amount q \<le> ?R" using q bb H(2) [OF rb] f by auto
  have S: "0 \<le> ?S" "?S \<le> core_cap" "?R < 2 ^ 62" using T f by auto
  note P = pro_rata [OF less_imp_le [OF q(1)] qR S p]
  have pr: "in_range p" using P S by (simp add: in_range_def asset_max_def core_cap_def)
  note ok = D(5) [OF rt]
  have lb: "muldiv128 2 (amount (total_lent rt)) 10 = Inr (2 * amount (total_lent rt) div 10)"
    using ok S by (subst muldiv128_exact) (auto simp: pool_ok_def core_cap_def i64_small)
  let ?av = "amount (total_unlent rt) - 2 * amount (total_lent rt) div 10"
  have av: "i64 ?av = ?av" using ok S by (intro i64_small) (auto simp: pool_ok_def core_cap_def)
  obtain cs where cs: "core = Inr cs" using run rb rt p by (auto simp: fill_rex_order_def the_pool_def Let_def)
  have w: "i64 (?R - amount q) = ?R - amount q" "i64 (?S - p) = ?S - p"
    "i64 (?S - p - amount (total_lent rt)) = ?S - p - amount (total_lent rt)"
    "i64 (amount (rb_rex_balance rb) - amount q) = amount (rb_rex_balance rb) - amount q"
    "i64 (matured_rex rb - amount q) = matured_rex rb - amount q"
    using P S q bb qR ok by (auto intro!: i64_small simp: pool_ok_def core_cap_def)
  note go = run rb rt p cs lb and unf = fill_rex_order_def the_pool_def Let_def new_asset_lib [OF E]
  have no: "X' = X \<and> amount (oo_proceeds res) = 0 \<and> amount (oo_stake_change res) = 0" if "\<not> success res"
    using go that by (auto simp: unf split: if_splits)
  have le: "p \<le> ?av" if "success res" using go av that by (auto simp: unf split: if_splits)
  have yes: "amount (oo_proceeds res) = p \<and>
      (\<exists>st. X' = set_rexbal w (sold_row (amount q) st rb) (X\<lparr>rexpool := Some (sold_pool (amount q) p rt)\<rparr>))"
    if "success res"
    using go av le [OF that] unfolding sold_row_def sold_pool_def
    by (auto simp: unf w inc_amt_def set_amt_def split: if_splits)
  show thesis using that [OF rt P S(1,2) qR no] le yes by blast
qed

lemma fill_order_law:
  assumes E: "lib_ok E" and X: "rex_ok X" "holdings_ok X" "rex_small X"
    and rb: "fmlookup (rexbalance X) w = Some rb" and q: "0 < amount q" "amount q \<le> matured_rex rb"
    and run: "fill_rex_order E core w q X = Inr (res, X')"
  shows "\<not> success res \<Longrightarrow> X' = X \<and> amount (oo_proceeds res) = 0 \<and> amount (oo_stake_change res) = 0"
    and "success res \<Longrightarrow> 0 \<le> amount (oo_proceeds res) \<and> amount (oo_proceeds res) \<le> core_cap \<and>
      rex_ok X' \<and> holdings_ok X' \<and> rex_owed X' = rex_owed X - amount (oo_proceeds res) \<and>
      rent_pot X' = rent_pot X \<and> rexorders X' = rexorders X \<and>
      pool_field namebid_proceeds X' = pool_field namebid_proceeds X \<and>
      (\<exists>rb'. rexbalance X' = fmupd w rb' (rexbalance X) \<and> matured_rex rb' = matured_rex rb - amount q)"
    and "success res \<Longrightarrow> order_filled (amount q) (amount (oo_proceeds res)) X X'"
proof -
  note D = rex_okD [OF X(1)] and H = holdings_okD [OF X(2)]
  obtain rt p where rt: "rexpool X = Some rt" and
    P: "p = amount q * amount (total_lendable rt) div amount (total_rex rt)" "0 < amount (total_rex rt)" "0 \<le> p"
      "p \<le> amount (total_lendable rt)" "p * amount (total_rex rt) \<le> amount q * amount (total_lendable rt)" and
    S: "0 \<le> amount (total_lendable rt)" "amount (total_lendable rt) \<le> core_cap" and
    qR: "amount q \<le> amount (total_rex rt)" and
    no: "\<not> success res \<Longrightarrow> X' = X \<and> amount (oo_proceeds res) = 0 \<and> amount (oo_stake_change res) = 0" and
    yes: "success res \<Longrightarrow> p \<le> amount (total_unlent rt) - 2 * amount (total_lent rt) div 10 \<and> amount (oo_proceeds res) = p \<and>
      (\<exists>st. X' = set_rexbal w (sold_row (amount q) st rb) (X\<lparr>rexpool := Some (sold_pool (amount q) p rt)\<rparr>))"
    by (rule fill_order_parts [OF assms]) blast
  let ?S = "amount (total_lendable rt)" and ?R = "amount (total_rex rt)"
  have f: "pool_field total_lendable X = ?S" "pool_field total_rex X = ?R" using rt by (simp_all add: pool_field_def)
  note ok = D(5) [OF rt]
  show "\<not> success res \<Longrightarrow> X' = X \<and> amount (oo_proceeds res) = 0 \<and> amount (oo_stake_change res) = 0" by (rule no)
  assume "success res"
  then obtain st where le: "p \<le> amount (total_unlent rt) - 2 * amount (total_lent rt) div 10" and
    res: "amount (oo_proceeds res) = p" "X' = set_rexbal w (sold_row (amount q) st rb) (X\<lparr>rexpool := Some (sold_pool (amount q) p rt)\<rparr>)"
    using yes by blast
  note rs = res(2) [unfolded sold_row_def sold_pool_def set_rexbal_def]
  have 1: "rex_ok X'"
    unfolding rs using D ok le P by (auto simp: rex_ok_def funds_ok_def orders_ok_def pool_ok_def)
  have "bal_ok (sold_row (amount q) st rb)"
    using H(1) [OF rb] q by (auto simp: sold_row_def bal_ok_def row_ok_def rex_held_def)
  moreover have "rex_sum X' = ?R - amount q" unfolding rs using H(5) rb f by (simp add: rex_sum_def)
  moreover have "priced (?R - amount q) (?S - p)"
    using priced_sell [OF _ S(1) P(2) less_imp_le [OF q(1)] qR P(1)] H(4) f by simp
  ultimately have 2: "holdings_ok X'"
    unfolding rs using H(1) by (auto simp: sold_row_def holdings_ok_def pool_field_def)
  have 3: "rex_owed X' = rex_owed X - p" "rent_pot X' = rent_pot X"
    "pool_field namebid_proceeds X' = pool_field namebid_proceeds X"
    unfolding rs using rt by (simp_all add: rex_owed_def rent_pot_def sum_defs)
  show "0 \<le> amount (oo_proceeds res) \<and> amount (oo_proceeds res) \<le> core_cap \<and>
      rex_ok X' \<and> holdings_ok X' \<and> rex_owed X' = rex_owed X - amount (oo_proceeds res) \<and>
      rent_pot X' = rent_pot X \<and> rexorders X' = rexorders X \<and>
      pool_field namebid_proceeds X' = pool_field namebid_proceeds X \<and>
      (\<exists>rb'. rexbalance X' = fmupd w rb' (rexbalance X) \<and> matured_rex rb' = matured_rex rb - amount q)"
    using 1 2 3 P S res(1) rs by (auto simp: sold_row_def)
  show "order_filled (amount q) (amount (oo_proceeds res)) X X'"
    unfolding order_filled_def res(1) rs using f P le ok rt by (auto simp: pool_field_def pool_ok_def)
qed

section \<open>Buying\<close>

definition initial_rent :: int where
  "initial_rent = 200000000"

lemma priced_buy:
  assumes "priced r s" "0 < s" "0 \<le> r" "0 \<le> a" "s + a \<le> core_cap" "r \<noteq> 0"
    and "muldiv128 (s + a) r s = Inr r'"
  shows "r \<le> r'" "r' < 2 ^ 62" "priced r' (s + a)" "r' = (s + a) * r div s"
proof -
  have rs: "r \<le> rex_ratio * s" using assms(1) by (simp add: priced_def)
  have le: "(s + a) * r div s \<le> rex_ratio * (s + a)"
  proof -
    have "(s + a) * r \<le> (s + a) * (rex_ratio * s)" using rs assms by (intro mult_left_mono) auto
    then have "(s + a) * r div s \<le> (s + a) * (rex_ratio * s) div s" using assms(2) by (intro zdiv_mono1) auto
    also have "(s + a) * (rex_ratio * s) div s = (s + a) * rex_ratio"
      using assms(2) by (simp add: mult.assoc [symmetric])
    finally show ?thesis by (simp add: mult.commute)
  qed
  have "s * r \<le> (s + a) * r" using assms by (intro mult_right_mono) auto
  then have "s * r div s \<le> (s + a) * r div s" using assms(2) by (intro zdiv_mono1) auto
  then have ge: "r \<le> (s + a) * r div s" using assms(2) by simp
  have "rex_ratio * (s + a) \<le> 4000000000000000000" using assms(5) by (simp add: rex_ratio_def core_cap_def)
  then have lt: "(s + a) * r div s < 2 ^ 62" using le by simp
  have "muldiv128 (s + a) r s = Inr (i64 ((s + a) * r div s))"
    using assms rs by (intro muldiv128_exact) (auto simp: core_cap_def rex_ratio_def)
  moreover have "i64 ((s + a) * r div s) = (s + a) * r div s"
    using ge lt assms(3) by (intro i64_small) auto
  ultimately have r': "r' = (s + a) * r div s" using assms(7) by simp
  show "r \<le> r'" "r' < 2 ^ 62" using ge lt r' by simp_all
  show "priced r' (s + a)" using le ge assms(3,6) r' by (simp add: priced_def)
  show "r' = (s + a) * r div s" by (rule r')
qed

text \<open>
  What a purchase of \<open>a\<close> tokens issues: \<open>rex_ratio\<close> REX per unit into an empty pool, else as
  many as keep the price, rounded down.
\<close>

definition rex_issued :: "int \<Rightarrow> int \<Rightarrow> rex_state \<Rightarrow> rex_state \<Rightarrow> bool" where
  "rex_issued a q X X' \<longleftrightarrow>
     pool_field total_lendable X' = pool_field total_lendable X + a \<and>
     pool_field total_rex X' = pool_field total_rex X + q \<and>
     (if pool_field total_rex X = 0 then q = a * rex_ratio
      else 0 < pool_field total_lendable X \<and>
        pool_field total_rex X' = pool_field total_lendable X' * pool_field total_rex X div pool_field total_lendable X)"

definition pool_joined :: "asset \<Rightarrow> asset \<Rightarrow> rex_state \<Rightarrow> rex_state \<Rightarrow> bool" where
  "pool_joined pay recv X X' \<longleftrightarrow>
     0 \<le> amount recv \<and> pool_field total_rex X' = pool_field total_rex X + amount recv \<and>
     pool_field total_rex X' < 2 ^ 62 \<and> rex_ok X' \<and> priced (pool_field total_rex X') (pool_field total_lendable X') \<and>
     rex_owed X' = rex_owed X + amount pay \<and> rent_pot X' \<le> rent_pot X + initial_rent \<and>
     pool_field namebid_proceeds X' = pool_field namebid_proceeds X \<and>
     (\<exists>p. X' = X\<lparr>rexpool := Some p\<rparr>) \<and> rex_issued (amount pay) (amount recv) X X'"

text \<open>A pool without holders is started, or started again, at the fixed ratio.\<close>

lemma start_pool_law:
  assumes E: "lib_ok E" and X: "rex_ok X" "holdings_ok X"
    and pay: "0 < amount pay" "rex_owed X + amount pay \<le> core_cap" and e: "\<not> rex_available X"
    and run: "add_to_rex_pool E core pay X = Inr (recv, X')"
  shows "pool_joined pay recv X X'"
proof -
  note D = rex_okD [OF X(1)] and H = holdings_okD [OF X(2)]
  note unf = add_to_rex_pool_def Let_def new_asset_lib [OF E]
    and fin = pool_joined_def rex_issued_def rex_owed_def rent_pot_def sum_defs initial_rent_def rex_ratio_def
  obtain cs where cs: "core = Inr cs" using run by (auto simp: add_to_rex_pool_def)
  have pc: "amount pay \<le> core_cap" using pay owed_bounds [OF X(1)] by linarith
  have w: "i64 (amount pay * rex_ratio) = amount pay * rex_ratio" "amount pay * rex_ratio < 2 ^ 62"
    using pay pc by (auto intro!: i64_small simp: rex_ratio_def core_cap_def)
  have pr: "priced (amount pay * rex_ratio) (amount pay)" using pay by (simp add: priced_def rex_ratio_def)
  show ?thesis
  proof (cases "rexpool X")
    case None
    let ?z = "\<lparr>amount = 0, symbol = cs\<rparr>"
    obtain u where z: "sub_asset E pay ?z = Inr u" and
      r: "recv = set_amt (amount pay * rex_ratio) \<lparr>amount = 0, symbol = rex_symbol\<rparr>" and
      X': "X' = X\<lparr>rexpool := Some \<lparr>total_lent = ?z, total_unlent = u,
            total_rent = \<lparr>amount = 200000000, symbol = cs\<rparr>, total_lendable = pay, total_rex = recv,
            namebid_proceeds = ?z, rp_loan_num = 0\<rparr>\<rparr>"
      using run cs None w by (auto simp: unf)
    have u: "amount u = amount pay"
      using z pay pc by (subst (asm) sub_asset_lib [OF E]) (auto simp: is_i64_def core_cap_def)
    have st: "staked_sum (cpu_loans X) + staked_sum (net_loans X) = 0" using D(6) None by blast
    have "rex_ok X'" unfolding X' using D st u pay by (simp add: rex_ok_def funds_ok_def orders_ok_def pool_ok_def)
    then show ?thesis using None pr w pay r unfolding X' by (auto simp: fin)
  next
    case (Some p)
    have R0: "amount (total_rex p) = 0" using Some e H(3) by (simp add: rex_available_def pool_field_def)
    then have S0: "amount (total_lendable p) = 0" using H(4) Some by (simp add: pool_field_def priced_def)
    have z: "staked_sum (cpu_loans X) + staked_sum (net_loans X) = 0" "0 \<le> amount (namebid_proceeds p)"
      "0 \<le> amount (total_rent p)"
      using D(5) [OF Some] S0 by (auto simp: pool_ok_def)
    have r: "recv = set_amt (amount pay * rex_ratio) \<lparr>amount = 0, symbol = rex_symbol\<rparr>" and
      X': "X' = X\<lparr>rexpool := Some (p\<lparr>total_lendable := set_amt (amount pay) (total_lendable p),
              total_lent := set_amt 0 (total_lent p), total_unlent := set_amt (amount pay) (total_unlent p),
              total_rent := set_amt 200000000 (total_rent p),
              total_rex := set_amt (amount recv) (total_rex p)\<rparr>)\<rparr>"
      using run cs Some e w by (auto simp: unf)
    have "rex_ok X'" unfolding X' using D z pay by (simp add: rex_ok_def funds_ok_def orders_ok_def pool_ok_def)
    then show ?thesis using Some pr w pay r R0 S0 z unfolding X' by (auto simp: fin)
  qed
qed

text \<open>With holders in it a pool issues at its price.\<close>

lemma join_pool_law:
  assumes E: "lib_ok E" and X: "rex_ok X" "holdings_ok X"
    and pay: "0 < amount pay" "rex_owed X + amount pay \<le> core_cap" and e: "rex_available X"
    and run: "add_to_rex_pool E core pay X = Inr (recv, X')"
  shows "pool_joined pay recv X X'"
proof -
  note D = rex_okD [OF X(1)] and H = holdings_okD [OF X(2)]
  note unf = add_to_rex_pool_def Let_def new_asset_lib [OF E]
  obtain cs where cs: "core = Inr cs" using run by (auto simp: add_to_rex_pool_def)
  obtain p where p: "rexpool X = Some p" using e by (auto simp: rex_available_def split: option.splits)
  let ?S = "amount (total_lendable p)" and ?R = "amount (total_rex p)"
  note ok = D(5) [OF p]
  have S: "?S \<le> rex_owed X" using owed_bounds(8) [OF X(1)] p by (simp add: pool_field_def)
  have S1: "i64 (?S + amount pay) = ?S + amount pay"
    using S pay ok by (intro i64_small) (auto simp: pool_ok_def core_cap_def)
  obtain R1 where R1: "muldiv128 (?S + amount pay) ?R ?S = Inr R1" and S0: "0 < ?S"
    using run cs p e S1 by (auto simp: unf)
  have R0: "0 < ?R" using p e by (simp add: rex_available_def)
  have Sc: "?S + amount pay \<le> core_cap" using S pay by linarith
  have pp: "priced ?R ?S" using H(4) p by (simp add: pool_field_def)
  note P = priced_buy [OF pp S0 less_imp_le [OF R0] less_imp_le [OF pay(1)] Sc _ R1]
  have un: "i64 (?S + amount pay - amount (total_lent p)) = ?S + amount pay - amount (total_lent p)"
    "i64 (R1 - ?R) = R1 - ?R"
    using S pay ok P R0 by (auto intro!: i64_small simp: pool_ok_def core_cap_def)
  have r: "recv = set_amt (R1 - ?R) \<lparr>amount = 0, symbol = rex_symbol\<rparr>" and
    X': "X' = X\<lparr>rexpool := Some (p\<lparr>total_lendable := set_amt (?S + amount pay) (total_lendable p),
            total_rex := set_amt R1 (total_rex p),
            total_unlent := set_amt (?S + amount pay - amount (total_lent p)) (total_unlent p)\<rparr>)\<rparr>"
    using run cs p e S1 S0 R1 un by (auto simp: unf)
  have "rex_ok X'" unfolding X' using D ok pay by (auto simp: rex_ok_def funds_ok_def orders_ok_def pool_ok_def)
  then show ?thesis
    using p pay r P R0 S0 unfolding X'
    by (auto simp: pool_joined_def rex_issued_def rex_owed_def rent_pot_def sum_defs initial_rent_def)
qed

lemma add_to_pool_law:
  assumes "lib_ok E" and "rex_ok X" "holdings_ok X" and "0 < amount pay" "rex_owed X + amount pay \<le> core_cap"
    and "add_to_rex_pool E core pay X = Inr (recv, X')"
  shows "pool_joined pay recv X X'"
  using start_pool_law [OF assms(1-5) _ assms(6)] join_pool_law [OF assms(1-5) _ assms(6)] by blast

text \<open>What a purchase does to the buckets of the buyer.\<close>

definition stow :: "env \<Rightarrow> int \<Rightarrow> rex_balance \<Rightarrow> rex_balance" where
  "stow E q rb =
     (let (r, s) = read_rex_savings rb; r = process_rex_maturities E r in
      put_rex_savings s (r\<lparr>rex_maturities := add_bucket (get_rex_maturity E) q (rex_maturities r)\<rparr>))"

lemma stow_law:
  assumes "row_ok rb" "0 \<le> q" "rex_held rb + q < 2 ^ 62"
  shows "row_ok (stow E q rb)" "rex_held (stow E q rb) = rex_held rb + q"
    "matured_rex rb \<le> matured_rex (stow E q rb)" "rb_rex_balance (stow E q rb) = rb_rex_balance rb"
proof -
  obtain r s where rs: "read_rex_savings rb = (r, s)" by fastforce
  note R = read_savings_law [OF assms(1) rs]
  note P = process_law [OF R(1), of E]
  let ?p = "process_rex_maturities E r"
  have "rex_held ?p + q < 2 ^ 62" using P R assms by simp
  note A = bucket_added_law [OF P(1) assms(2) this, of "get_rex_maturity E"]
  let ?a = "?p\<lparr>rex_maturities := add_bucket (get_rex_maturity E) q (rex_maturities ?p)\<rparr>"
  have "rex_held ?a + s < 2 ^ 62" using A P R assms by simp
  note S = put_savings_law [OF A(1) R(3) this]
  have st: "stow E q rb = put_rex_savings s ?a" by (simp add: stow_def rs Let_def)
  show "row_ok (stow E q rb)" "rex_held (stow E q rb) = rex_held rb + q"
    "matured_rex rb \<le> matured_rex (stow E q rb)" "rb_rex_balance (stow E q rb) = rb_rex_balance rb"
    unfolding st using S A P R by simp_all
qed

lemma add_to_balance_stow:
  assumes "add_to_rex_balance E core w pay recv X = Inr (delta, X')"
  shows "\<exists>v. X' = set_rexbal w (stow E (amount recv)
    (case fmlookup (rexbalance X) w of
       None \<Rightarrow> \<lparr>rb_owner = w, vote_stake = pay, rb_rex_balance = recv, matured_rex = 0, rex_maturities = []\<rparr>
     | Some rb \<Rightarrow> rb\<lparr>rb_rex_balance := inc_amt (amount recv) (rb_rex_balance rb),
               vote_stake := set_amt v (vote_stake rb)\<rparr>)) X"
  using assms
  by (cases "fmlookup (rexbalance X) w")
    (force simp: add_to_rex_balance_def stow_def Let_def split_beta)+

lemma add_to_balance_law:
  assumes ok: "\<And>rb. fmlookup (rexbalance X) w = Some rb \<Longrightarrow> bal_ok rb"
    and q: "0 \<le> amount recv" "tval (\<lambda>rb. amount (rb_rex_balance rb)) (rexbalance X) w + amount recv < 2 ^ 62"
    and run: "add_to_rex_balance E core w pay recv X = Inr (delta, X')"
  shows "\<exists>rb. X' = set_rexbal w rb X \<and> bal_ok rb \<and>
    amount (rb_rex_balance rb) = tval (\<lambda>rb. amount (rb_rex_balance rb)) (rexbalance X) w + amount recv \<and>
    tval matured_rex (rexbalance X) w \<le> matured_rex rb"
proof (cases "fmlookup (rexbalance X) w")
  case None
  let ?rb = "\<lparr>rb_owner = w, vote_stake = pay, rb_rex_balance = recv, matured_rex = 0, rex_maturities = []\<rparr>"
  have r: "row_ok ?rb" "rex_held ?rb = 0" by (simp_all add: row_ok_def rex_held_def)
  have "rex_held ?rb + amount recv < 2 ^ 62" using q None r by simp
  note S = stow_law [OF r(1) q(1) this, of E]
  show ?thesis
    using add_to_balance_stow [OF run] None S r
    by (intro exI [of _ "stow E (amount recv) ?rb"]) (auto simp: bal_ok_def)
next
  case (Some rb)
  note b = ok [OF Some]
  obtain v where v: "X' = set_rexbal w (stow E (amount recv)
      (rb\<lparr>rb_rex_balance := inc_amt (amount recv) (rb_rex_balance rb), vote_stake := set_amt v (vote_stake rb)\<rparr>)) X"
    using add_to_balance_stow [OF run] Some by auto
  let ?rb = "rb\<lparr>rb_rex_balance := inc_amt (amount recv) (rb_rex_balance rb), vote_stake := set_amt v (vote_stake rb)\<rparr>"
  have w: "i64 (amount (rb_rex_balance rb) + amount recv) = amount (rb_rex_balance rb) + amount recv"
    using bal_ok_bounds [OF b] q Some by (intro i64_small) auto
  have r: "row_ok ?rb" "rex_held ?rb = amount (rb_rex_balance rb)" using b by (simp_all add: bal_ok_def row_ok_def rex_held_def)
  have "rex_held ?rb + amount recv < 2 ^ 62" using q Some r by simp
  note S = stow_law [OF r(1) q(1) this, of E]
  show ?thesis
    using v Some S r w
    by (intro exI [of _ "stow E (amount recv) ?rb"]) (auto simp: bal_ok_def)
qed

lemma buy_law:
  assumes E: "lib_ok E" and X: "rex_inv X" "rex_small X"
    and pay: "0 < amount pay" "rex_owed X + amount pay \<le> core_cap"
    and pool: "add_to_rex_pool E core pay X = Inr (recv, X1)"
    and bal: "add_to_rex_balance E core w pay recv X1 = Inr (delta, X2)"
  shows "rex_inv X2 \<and> rex_owed X2 = rex_owed X + amount pay \<and> rent_pot X2 \<le> rent_pot X + initial_rent \<and>
    rexorders X2 = rexorders X \<and> pool_field namebid_proceeds X2 = pool_field namebid_proceeds X"
proof -
  have I: "rex_ok X" "holdings_ok X" "orders_backed X" using X(1) by (simp_all add: rex_inv_def)
  note P = add_to_pool_law [OF E I(1,2) pay pool, unfolded pool_joined_def] and H = holdings_okD [OF I(2)]
  then obtain p where p: "X1 = X\<lparr>rexpool := Some p\<rparr>" by blast
  have le: "tval (\<lambda>rb. amount (rb_rex_balance rb)) (rexbalance X) w \<le> pool_field total_rex X"
    using H(2,3) by (auto simp: tval_def split: option.split)
  have "\<exists>rb. X2 = set_rexbal w rb X1 \<and> bal_ok rb \<and>
    amount (rb_rex_balance rb) = tval (\<lambda>rb. amount (rb_rex_balance rb)) (rexbalance X1) w + amount recv \<and>
    tval matured_rex (rexbalance X1) w \<le> matured_rex rb"
    by (rule add_to_balance_law [OF _ _ _ bal]) (use P H(1) le p in auto)
  then obtain rb where rb: "X2 = set_rexbal w rb X1" "bal_ok rb"
    "amount (rb_rex_balance rb) = tval (\<lambda>rb. amount (rb_rex_balance rb)) (rexbalance X) w + amount recv"
    "tval matured_rex (rexbalance X) w \<le> matured_rex rb"
    using p by auto
  have "rex_ok X2" using P rb(1) by (simp add: rex_ok_def set_rexbal_def funds_ok_def orders_ok_def)
  moreover have "holdings_ok X2"
    using P p rb H(1,5) by (auto simp: holdings_ok_def set_rexbal_def rex_sum_def pool_field_def)
  moreover have "orders_backed X2"
  proof -
    have m: "m \<le> matured_rex rb" if "fmlookup (rexbalance X) w = Some rb0" "m \<le> matured_rex rb0" for m rb0
      using that rb(4) by simp
    show ?thesis
      unfolding orders_backed_def
    proof (intro allI impI)
      fix a r
      assume "fmlookup (rexorders X2) a = Some r \<and> is_open r"
      then have "fmlookup (rexorders X) a = Some r \<and> is_open r" using rb(1) p by (simp add: set_rexbal_def)
      then obtain rb0 where "0 < amount (rex_requested r)" "fmlookup (rexbalance X) a = Some rb0"
        "amount (rex_requested r) \<le> matured_rex rb0"
        using I(3) unfolding orders_backed_def by blast
      then show "0 < amount (rex_requested r) \<and>
          (\<exists>rb. fmlookup (rexbalance X2) a = Some rb \<and> amount (rex_requested r) \<le> matured_rex rb)"
        using rb(1) p m by (cases "a = w") (auto simp: set_rexbal_def)
    qed
  qed
  moreover have "rex_owed X2 = rex_owed X1" "rent_pot X2 = rent_pot X1" "rexorders X2 = rexorders X"
    "pool_field namebid_proceeds X2 = pool_field namebid_proceeds X1"
    using rb(1) p by (simp_all add: rex_owed_def rent_pot_def set_rexbal_def sum_defs)
  moreover have "pool_field total_rex X2 = pool_field total_rex X1"
    using rb(1) by (simp add: set_rexbal_def pool_field_def)
  then have "promise_ok X2"
    using P H(3) X(1) calculation by (auto simp: promise_ok_def rex_inv_def)
  ultimately show ?thesis using P by (simp add: rex_inv_def)
qed

end
