(* ===== verification/Rex_Flow.thy ===== *)
theory Rex_Flow
  imports Rex_Holders
begin

text \<open>
  The invariant \<open>rex_inv\<close> and the conservation of what the REX owes, through the maintenance
  loops and every action of \<open>rex.cpp\<close> that moves tokens.
\<close>

section \<open>Limits leave the rest alone\<close>

lemma update_resource_limits_frame:
  assumes "update_resource_limits E r dn dc S = Inr S'"
  shows "\<exists>R. S' = S\<lparr>rs := R\<rparr>"
  using assms unfolding update_resource_limits_def
  by (auto simp: Let_def split: if_splits intro: exI [of _ "rs S"])

lemma limits_for_frame: "limits_for E k r d S = Inr S' \<Longrightarrow> \<exists>R. S' = S\<lparr>rs := R\<rparr>"
  by (cases k) (auto simp: limits_for_def dest: update_resource_limits_frame)

section \<open>The loops of \<open>runrex\<close>\<close>

lemma holdings_ok_pool:
  assumes "holdings_ok X" "rexbalance X' = rexbalance X" "pool_field total_rex X' = pool_field total_rex X"
    and "pool_field total_lendable X \<le> pool_field total_lendable X'"
    and "pool_field total_rex X = 0 \<longrightarrow> pool_field total_lendable X' = pool_field total_lendable X"
  shows "holdings_ok X'"
  using assms by (auto simp: holdings_ok_def rex_sum_def priced_def rex_ratio_def)

lemma orders_backed_frame:
  "orders_backed X \<Longrightarrow> rexbalance X' = rexbalance X \<Longrightarrow> rexorders X' = rexorders X \<Longrightarrow> orders_backed X'"
  by (simp only: orders_backed_def)

text \<open>What one pass leaves: the invariant, the total claims, and no more rent than before.\<close>

definition kept :: "rex_state \<Rightarrow> rex_state \<Rightarrow> bool" where
  "kept X X' \<longleftrightarrow> rex_inv X' \<and> rex_owed X' = rex_owed X \<and> rent_pot X' \<le> rent_pot X \<and>
     pool_field namebid_proceeds X' = pool_field namebid_proceeds X"

lemma kept_refl: "rex_inv X \<Longrightarrow> kept X X"
  by (simp add: kept_def)

lemma kept_trans: "kept X Y \<Longrightarrow> kept Y Z \<Longrightarrow> kept X Z"
  by (auto simp: kept_def)

lemma kept_small: "kept X X' \<Longrightarrow> rex_small X \<Longrightarrow> rex_small X'"
  by (auto simp: kept_def rex_small_def rex_claims_def)

lemma kept_promise: "kept X X' \<Longrightarrow> pool_field namebid_proceeds X = 0 \<Longrightarrow> pool_field namebid_proceeds X' = 0"
  by (simp add: kept_def)

lemma kept_inv: "kept X X' \<Longrightarrow> rex_inv X'"
  by (simp add: kept_def)

lemma store_loan_fields [simp]:
  "rexpool (store_loan k n l X) = rexpool X" "rexbalance (store_loan k n l X) = rexbalance X"
  "rexorders (store_loan k n l X) = rexorders X" "pool_field g (store_loan k n l X) = pool_field g X"
  by (simp_all add: store_loan_def)

lemma expired_kept:
  assumes "lib_ok E" "rex_inv X" "rex_small X" "fmlookup (loans k X) n = Some l"
    and "process_expired_loan E core l X = Inr (renewed, d, X1)"
  shows "kept X (store_loan k n renewed X1)"
proof -
  have I: "rex_ok X" "holdings_ok X" "orders_backed X" using assms(2) by (simp_all add: rex_inv_def)
  note L = expired_loan_law [OF assms(1) I(1) assms(3-5), unfolded loan_settled_def]
  have "holdings_ok (store_loan k n renewed X1)"
    by (rule holdings_ok_pool [OF I(2)]) (use L in auto)
  moreover have "orders_backed (store_loan k n renewed X1)"
    by (rule orders_backed_frame [OF I(3)]) (use L in auto)
  ultimately show ?thesis using L assms(2) by (simp add: kept_def rex_inv_def promise_ok_def)
qed

lemma run_loans_law:
  assumes E: "lib_ok E"
  shows "rex_inv (rx S) \<Longrightarrow> rex_small (rx S) \<Longrightarrow> run_loans E k n S = Inr S' \<Longrightarrow>
    kept (rx S) (rx S') \<and> effects S' = effects S \<and> rammarket S' = rammarket S"
proof (induction n arbitrary: S)
  case 0
  then show ?case by (simp add: kept_refl)
next
  case (Suc n)
  show ?case
  proof (cases "first_of (index_by by_expr (loans k (rx S)))")
    case None
    with Suc.prems show ?thesis by (simp add: kept_refl)
  next
    case (Some l)
    obtain i where i: "fmlookup (loans k (rx S)) i = Some l" using first_of_index_by [OF Some] by blast
    have li: "l_loan_num l = i"
      using loans_okD(1) [OF rex_ok_loans i] Suc.prems(1) by (simp add: rex_inv_def)
    show ?thesis
    proof (cases "now E < expiration l")
      case True
      with Some Suc.prems show ?thesis by (simp add: kept_refl)
    next
      case False
      obtain renewed d X1 S1 where
        p: "process_expired_loan E (core_symbol S) l (rx S) = Inr (renewed, d, X1)" and
        s1: "limits_for E k (l_receiver l) d (S\<lparr>rx := store_loan k i renewed X1\<rparr>) = Inr S1" and
        r: "run_loans E k n S1 = Inr S'"
        using Suc.prems(3) Some False li
        by (auto simp: Let_def store_loan_def)
      note K = expired_kept [OF E Suc.prems(1,2) i p]
      obtain R where S1: "S1 = S\<lparr>rx := store_loan k i renewed X1, rs := R\<rparr>"
        using limits_for_frame [OF s1] by auto
      have "kept (rx S1) (rx S') \<and> effects S' = effects S1 \<and> rammarket S' = rammarket S1"
        by (rule Suc.IH [OF _ _ r]) (use K S1 kept_small [OF K Suc.prems(2)] in \<open>auto simp: kept_def\<close>)
      then show ?thesis using K S1 kept_trans by auto
    qed
  qed
qed

lemma close_order_kept:
  assumes E: "lib_ok E" and X: "rex_inv X" "rex_small X" "pool_field namebid_proceeds X = 0"
    and r: "fmlookup (rexorders X) w = Some r" "is_open r"
    and run: "fill_rex_order E core w (rex_requested r) X = Inr (res, X1)" "success res"
  shows "kept X (X1\<lparr>rexorders := fmupd w
    (close_order (r\<lparr>proceeds := set_amt (amount (oo_proceeds res)) (proceeds r), stake_change := c\<rparr>)) (rexorders X1)\<rparr>)"
    (is "kept X ?X'")
proof -
  have I: "rex_ok X" "holdings_ok X" "orders_backed X" using X(1) by (simp_all add: rex_inv_def)
  from I(3) r obtain rb where rb: "fmlookup (rexbalance X) w = Some rb" "0 < amount (rex_requested r)"
    "amount (rex_requested r) \<le> matured_rex rb"
    unfolding orders_backed_def by blast
  note F = fill_order_law(2) [OF E I(1,2) X(2) rb run]
  then obtain rb' where rb': "rexbalance X1 = fmupd w rb' (rexbalance X)" by blast
  have o: "o_owner r = w" "order_owed r = 0"
    using orders_okD(1) [OF rex_okD(4) [OF I(1)] r(1)] r(2) by (simp_all add: order_owed_def)
  have "rex_ok ?X'"
    using F o by (auto simp: rex_ok_def funds_ok_def orders_ok_def order_owed_def close_order_def)
  moreover have "holdings_ok ?X'" using F by (simp add: holdings_ok_def rex_sum_def pool_field_def)
  moreover have "orders_backed ?X'"
    using I(3) F rb' by (auto simp: orders_backed_def close_order_def)
  moreover have "rexorders X1 = rexorders X" using F by blast
  then have "rex_owed ?X' = rex_owed X1 + amount (oo_proceeds res)"
    using r o by (simp add: rex_owed_def sum_defs order_owed_def close_order_def)
  then have "rex_owed ?X' = rex_owed X" using F by simp
  moreover have "pool_field namebid_proceeds ?X' = 0" using F X(3) by (simp add: pool_field_def)
  ultimately show ?thesis using F X(3) by (simp add: kept_def rex_inv_def rent_pot_def promise_ok_def pool_field_def)
qed

lemma fill_order_orders: "fill_rex_order E core w q X = Inr (res, X1) \<Longrightarrow> rexorders X1 = rexorders X"
  by (auto simp: fill_rex_order_def set_rexbal_def Let_def split: if_splits)

lemma unfilled_order:
  assumes "lib_ok E" "rex_inv X" "rex_small X" "fmlookup (rexorders X) w = Some r" "is_open r"
    and "fill_rex_order E core w (rex_requested r) X = Inr (res, X1)" "\<not> success res"
  shows "X1 = X"
proof -
  have I: "rex_ok X" "holdings_ok X" "orders_backed X" using assms(2) by (simp_all add: rex_inv_def)
  from I(3) assms(4,5) obtain rb where rb: "fmlookup (rexbalance X) w = Some rb" "0 < amount (rex_requested r)"
    "amount (rex_requested r) \<le> matured_rex rb"
    unfolding orders_backed_def by blast
  from fill_order_law(1) [OF assms(1) I(1,2) assms(3) rb assms(6,7)] show ?thesis by simp
qed

lemma run_orders_law:
  "lib_ok E \<Longrightarrow> rex_inv X \<Longrightarrow> rex_small X \<Longrightarrow> pool_field namebid_proceeds X = 0 \<Longrightarrow>
    distinct (map o_owner os) \<Longrightarrow>
    (\<And>r. r \<in> set os \<Longrightarrow> fmlookup (rexorders X) (o_owner r) = Some r) \<Longrightarrow>
    run_orders E core n os X = Inr (es, X') \<Longrightarrow> kept X X' \<and> moved a es = 0"
proof (induction E core n os X arbitrary: es rule: run_orders.induct)
  case (3 E core n r rest X)
  note prems = "3.prems"
  have lr: "fmlookup (rexorders X) (o_owner r) = Some r" using prems(6) by simp
  consider (closed) "\<not> is_open r" | (absent) "is_open r" "fmlookup (rexbalance X) (o_owner r) = None"
    | (fill) "is_open r" "fmlookup (rexbalance X) (o_owner r) \<noteq> None" by blast
  then show ?case
  proof cases
    case closed
    then show ?thesis using prems by (auto simp: kept_refl)
  next
    case absent
    then show ?thesis using "3.IH"(1) [OF _ _ prems(1-4)] prems by auto
  next
    case fill
    obtain res X1 where f: "fill_rex_order E core (o_owner r) (rex_requested r) X = Inr (res, X1)"
      using prems(7) fill by auto
    show ?thesis
    proof (cases "success res")
      case False
      have "X1 = X" by (rule unfilled_order [OF prems(1-3) lr fill(1) f False])
      then have "run_orders E core n rest X = Inr (es, X')" using prems(7) fill f False by auto
      with \<open>X1 = X\<close> show ?thesis
        using "3.IH"(3) [OF _ _ f refl False prems(1)] prems fill by auto
    next
      case True
      let ?X2 = "X1\<lparr>rexorders := fmupd (o_owner r)
        (close_order (r\<lparr>proceeds := set_amt (amount (oo_proceeds res)) (proceeds r),
           stake_change := set_amt (amount (oo_stake_change res)) (stake_change r)\<rparr>)) (rexorders X1)\<rparr>"
      note K = close_order_kept [OF prems(1-4) lr fill(1) f True, of "set_amt (amount (oo_stake_change res)) (stake_change r)"]
      have o: "rexorders X1 = rexorders X" by (rule fill_order_orders [OF f])
      obtain es' where es': "run_orders E core n rest ?X2 = Inr (es', X')"
        "es = Rex_orderresult (o_owner r) (oo_proceeds res) # es'"
        using prems(7) fill f True by (auto simp: Let_def)
      have "kept ?X2 X' \<and> moved a es' = 0"
        by (rule "3.IH"(2) [OF _ _ f refl True refl refl prems(1) kept_inv [OF K] kept_small [OF K prems(3)] kept_promise [OF K prems(4)]])
          (use fill f prems es' o in \<open>auto\<close>)
      then show ?thesis using K kept_trans es' by auto
    qed
  qed
qed (simp_all add: kept_refl)

section \<open>Maintenance\<close>

lemma rex_inv_ok: "rex_inv X \<Longrightarrow> rex_ok X"
  by (simp add: rex_inv_def)

text \<open>
  Running the maintenance: nothing but REX tables, limits and effects change; the effects move
  auction proceeds from \<open>eosio.names\<close> into the pool and nothing else.
\<close>

definition maintained :: "system_state \<Rightarrow> system_state \<Rightarrow> bool" where
  "maintained S S' \<longleftrightarrow> rex_inv (rx S') \<and> rent_pot (rx S') \<le> rent_pot (rx S) \<and>
     rex_claims (rx S') = rex_claims (rx S) \<and>
     (\<exists>R X es. S' = S\<lparr>rs := R, rx := X, effects := effects S @ es\<rparr> \<and>
        rex_owed X = rex_owed (rx S) + moved rex_account es \<and>
        pool_field namebid_proceeds X = pool_field namebid_proceeds (rx S) + moved names_account es \<and>
        (\<forall>a. a \<noteq> rex_account \<and> a \<noteq> names_account \<longrightarrow> moved a es = 0))"

lemma maintainedD:
  assumes "maintained S S'"
  shows "rex_inv (rx S')" "rent_pot (rx S') \<le> rent_pot (rx S)" "rex_claims (rx S') = rex_claims (rx S)"
    "balanced rex_account (\<lambda>S. rex_owed (rx S)) S S'"
    "balanced names_account (\<lambda>S. pool_field namebid_proceeds (rx S)) S S'"
    "vs S' = vs S" "ns S' = ns S" "rammarket S' = rammarket S" "abihash S' = abihash S"
    "rex_small (rx S) \<Longrightarrow> rex_small (rx S')"
proof -
  from assms obtain R X es where S': "S' = S\<lparr>rs := R, rx := X, effects := effects S @ es\<rparr>" and
    m: "rex_owed X = rex_owed (rx S) + moved rex_account es"
      "pool_field namebid_proceeds X = pool_field namebid_proceeds (rx S) + moved names_account es"
    unfolding maintained_def by blast
  show "rex_inv (rx S')" "rent_pot (rx S') \<le> rent_pot (rx S)" "rex_claims (rx S') = rex_claims (rx S)"
    using assms by (simp_all add: maintained_def)
  then show "rex_small (rx S) \<Longrightarrow> rex_small (rx S')" by (auto simp: rex_small_def)
  show "balanced rex_account (\<lambda>S. rex_owed (rx S)) S S'"
    "balanced names_account (\<lambda>S. pool_field namebid_proceeds (rx S)) S S'"
    "vs S' = vs S" "ns S' = ns S" "rammarket S' = rammarket S" "abihash S' = abihash S"
    unfolding S' using m by (auto intro: balancedI [of _ _ es])
qed

lemma channelled:
  assumes "rex_inv (rx S)" "rex_small (rx S)" "rexpool (rx S) = Some p" "0 < amount (namebid_proceeds p)"
    and "channel_to_rex E names_account (namebid_proceeds p) S = Inr S1"
    and "rexpool (rx S1) = Some rt"
    and "rex_available (rx S)"
  shows "maintained S (S1\<lparr>rx := (rx S1)\<lparr>rexpool := Some (rt\<lparr>namebid_proceeds := set_amt 0 (namebid_proceeds rt)\<rparr>)\<rparr>\<rparr>)"
    (is "maintained S ?S'")
proof -
  have I: "rex_ok (rx S)" "holdings_ok (rx S)" "orders_backed (rx S)" using assms(1) by (simp_all add: rex_inv_def)
  note D = rex_okD [OF I(1)] and B = owed_bounds [OF I(1)]
  let ?n = "amount (namebid_proceeds p)"
  have ok: "pool_ok (staked_sum (cpu_loans (rx S)) + staked_sum (net_loans (rx S))) p" using D(5) assms(3) by blast
  have le: "amount (total_lendable p) + ?n \<le> core_cap"
    using B(8) assms(2,3) by (simp add: rex_small_def rex_claims_def pool_field_def)
  have w: "i64 (amount (total_lendable p) + ?n) = amount (total_lendable p) + ?n"
    "i64 (amount (total_unlent p) + ?n) = amount (total_unlent p) + ?n"
    using le ok by (auto intro!: i64_small simp: pool_ok_def core_cap_def)
  let ?t = "Token_transfer [active_of names_account] names_account rex_account (namebid_proceeds p)
              (''transfer from '' @ name_to_string E names_account @ '' to eosio.rex'')"
  let ?rt = "p\<lparr>total_unlent := inc_amt ?n (total_unlent p), total_lendable := inc_amt ?n (total_lendable p)\<rparr>"
  have rt: "rt = ?rt" and S1: "S1 = emit [?t] (S\<lparr>rx := (rx S)\<lparr>rexpool := Some ?rt\<rparr>\<rparr>)"
    using assms(3,5,6,7) by (auto simp: channel_to_rex_def)
  have rx': "rx ?S' = (rx S)\<lparr>rexpool := Some (rt\<lparr>namebid_proceeds := set_amt 0 (namebid_proceeds rt)\<rparr>)\<rparr>"
    by (simp add: S1)
  have "rex_ok (rx ?S')" unfolding rx' unfolding rt
    using D ok w assms(4) by (simp add: rex_ok_def funds_ok_def orders_ok_def pool_ok_def)
  moreover have R: "0 < amount (total_rex p)" using assms(3,7) by (simp add: rex_available_def)
  have "holdings_ok (rx ?S')"
    by (rule holdings_ok_pool [OF I(2)]) (use rx' rt w assms(3,4) R in \<open>auto simp: pool_field_def\<close>)
  moreover have "orders_backed (rx ?S')" by (rule orders_backed_frame [OF I(3)]) (simp_all add: rx')
  moreover have "rex_owed (rx ?S') = rex_owed (rx S) + ?n" "rent_pot (rx ?S') = rent_pot (rx S)"
    "pool_field namebid_proceeds (rx ?S') = pool_field namebid_proceeds (rx S) - ?n"
    unfolding rx' unfolding rt using assms(3) w by (simp_all add: rex_owed_def rent_pot_def sum_defs)
  ultimately show ?thesis
    unfolding maintained_def
    by (intro conjI exI [of _ "rs S"] exI [of _ "rx ?S'"] exI [of _ "[?t]"])
      (auto simp: rex_inv_def rex_claims_def S1 emit_def promise_ok_def rt pool_field_def)
qed

lemma maintained_refl: "rex_inv (rx S) \<Longrightarrow> maintained S S"
  unfolding maintained_def
  by (intro conjI exI [of _ "rs S"] exI [of _ "rx S"] exI [of _ "[]"]) simp_all

lemma maintained_trans:
  assumes "maintained S S1" "maintained S1 S2"
  shows "maintained S S2"
proof -
  from assms(1) obtain R X es where 1: "S1 = S\<lparr>rs := R, rx := X, effects := effects S @ es\<rparr>"
      "rex_owed X = rex_owed (rx S) + moved rex_account es"
      "pool_field namebid_proceeds X = pool_field namebid_proceeds (rx S) + moved names_account es"
      "\<forall>a. a \<noteq> rex_account \<and> a \<noteq> names_account \<longrightarrow> moved a es = 0"
    unfolding maintained_def by blast
  from assms(2) obtain R' X' fs where 2: "S2 = S1\<lparr>rs := R', rx := X', effects := effects S1 @ fs\<rparr>"
      "rex_owed X' = rex_owed (rx S1) + moved rex_account fs"
      "pool_field namebid_proceeds X' = pool_field namebid_proceeds (rx S1) + moved names_account fs"
      "\<forall>a. a \<noteq> rex_account \<and> a \<noteq> names_account \<longrightarrow> moved a fs = 0"
    unfolding maintained_def by blast
  show ?thesis
    unfolding maintained_def
  proof (intro conjI exI [of _ R'] exI [of _ X'] exI [of _ "es @ fs"])
    show "rex_inv (rx S2)" "rent_pot (rx S2) \<le> rent_pot (rx S)" "rex_claims (rx S2) = rex_claims (rx S)"
      using assms by (auto simp: maintained_def)
  qed (use 1 2 in simp_all)
qed

lemma kept_maintained:
  assumes "kept (rx S) X" "S' = S\<lparr>rs := R, rx := X, effects := effects S @ es\<rparr>" "\<forall>a. moved a es = 0"
  shows "maintained S S'"
  unfolding maintained_def
  by (intro conjI exI [of _ R] exI [of _ X] exI [of _ es])
    (use assms in \<open>auto simp: kept_def rex_claims_def\<close>)

lemma run_loans_maintained:
  assumes "lib_ok E" "rex_inv (rx S)" "rex_small (rx S)" "run_loans E k n S = Inr S'"
  shows "maintained S S'"
proof -
  have fr: "\<exists>R X. S' = S\<lparr>rs := R, rx := X\<rparr>" using assms(4)
  proof (induction n arbitrary: S)
    case 0
    then show ?case by (auto intro!: exI [of _ "rs S"] exI [of _ "rx S"])
  next
    case (Suc n)
    show ?case
    proof (cases "first_of (index_by by_expr (loans k (rx S)))")
      case None
      then show ?thesis using Suc.prems by (auto intro!: exI [of _ "rs S"] exI [of _ "rx S"])
    next
      case (Some l)
      show ?thesis
      proof (cases "now E < expiration l")
        case True
        then show ?thesis using Some Suc.prems by (auto intro!: exI [of _ "rs S"] exI [of _ "rx S"])
      next
        case False
        then obtain d X1 S1 where "limits_for E k (l_receiver l) d (S\<lparr>rx := X1\<rparr>) = Inr S1" and
          r: "run_loans E k n S1 = Inr S'"
          using Suc.prems Some by (auto simp: Let_def)
        then obtain R where "S1 = S\<lparr>rx := X1, rs := R\<rparr>" using limits_for_frame by fastforce
        with Suc.IH [OF r] show ?thesis by auto
      qed
    qed
  qed
  then obtain R X where S': "S' = S\<lparr>rs := R, rx := X\<rparr>" by blast
  note K = run_loans_law [OF assms]
  show ?thesis
    by (rule kept_maintained [of _ "rx S'" _ "[]" R]) (use K S' in simp_all)
qed

lemma run_orders_maintained:
  assumes "lib_ok E" "rex_inv (rx S)" "rex_small (rx S)" "pool_field namebid_proceeds (rx S) = 0"
    and "run_orders E core n (index_by by_time (rexorders (rx S))) (rx S) = Inr (es, X)"
  shows "maintained S (emit es (S\<lparr>rx := X\<rparr>))"
proof -
  have own: "o_owner r = w" if "fmlookup (rexorders (rx S)) w = Some r" for w r
    using orders_okD(1) [OF rex_okD(4) [OF rex_inv_ok [OF assms(2)]] that] .
  have d: "distinct (map o_owner (index_by by_time (rexorders (rx S))))"
    by (rule distinct_index_by) (rule own)
  have "kept (rx S) X \<and> moved a es = 0" for a
    by (rule run_orders_law [OF assms(1-4) d _ assms(5)]) (use own in auto)
  then show ?thesis
    by (intro kept_maintained [of _ X _ es "rs S"]) (simp_all add: emit_def)
qed

text \<open>The first step: proceeds of auctions that were promised to the pool are fetched.\<close>

lemma proceeds_maintained:
  assumes X: "rex_inv (rx S)" "rex_small (rx S)" and p: "rexpool (rx S) = Some p"
    and 1: "(if 0 < amount (namebid_proceeds p) then
          bindE (channel_to_rex E names_account (namebid_proceeds p) S) (\<lambda>S.
          bindE (the_pool (rx S)) (\<lambda>rt.
          Inr (S\<lparr>rx := (rx S)\<lparr>rexpool :=
            Some (rt\<lparr>namebid_proceeds := set_amt 0 (namebid_proceeds rt)\<rparr>)\<rparr>\<rparr>)))
        else Inr S) = Inr S1"
  shows "maintained S S1" "pool_field namebid_proceeds (rx S1) = 0"
proof -
  show "maintained S S1"
  proof (cases "0 < amount (namebid_proceeds p)")
    case False
    then show ?thesis using 1 X by (simp add: maintained_refl)
  next
    case True
    then obtain S0 rt where c: "channel_to_rex E names_account (namebid_proceeds p) S = Inr S0"
      "rexpool (rx S0) = Some rt"
      "S1 = S0\<lparr>rx := (rx S0)\<lparr>rexpool := Some (rt\<lparr>namebid_proceeds := set_amt 0 (namebid_proceeds rt)\<rparr>)\<rparr>\<rparr>"
      using 1 by (auto simp: the_pool_def)
    have "rex_available (rx S)"
    proof (rule ccontr)
      assume "\<not> rex_available (rx S)"
      then have "pool_field total_rex (rx S) = 0"
        using p holdings_okD(3) [of "rx S"] X(1) by (simp add: rex_available_def pool_field_def rex_inv_def)
      then show False using X(1) True p by (simp add: rex_inv_def promise_ok_def pool_field_def)
    qed
    then show ?thesis
      unfolding c(3) by (rule channelled [OF X p True c(1,2)])
  qed
  show "pool_field namebid_proceeds (rx S1) = 0"
    using 1 p rex_smallD(3) [OF rex_inv_ok [OF X(1)] X(2)] by (auto simp: the_pool_def pool_field_def split: if_splits)
qed

lemma runrex_maintained:
  assumes E: "lib_ok E" and X: "rex_inv (rx S)" "rex_small (rx S)" and run: "runrex E n S = Inr S'"
  shows "maintained S S'" "pool_field namebid_proceeds (rx S') = 0"
proof -
  obtain p where p: "rexpool (rx S) = Some p" using run by (auto simp: runrex_def the_pool_def)
  obtain S1 S2 S3 es X4 where
    1: "(if 0 < amount (namebid_proceeds p) then
          bindE (channel_to_rex E names_account (namebid_proceeds p) S) (\<lambda>S.
          bindE (the_pool (rx S)) (\<lambda>rt.
          Inr (S\<lparr>rx := (rx S)\<lparr>rexpool :=
            Some (rt\<lparr>namebid_proceeds := set_amt 0 (namebid_proceeds rt)\<rparr>)\<rparr>\<rparr>)))
        else Inr S) = Inr S1" and
    2: "run_loans E Cpu_loan n S1 = Inr S2" and 3: "run_loans E Net_loan n S2 = Inr S3" and
    4: "run_orders E (core_symbol S3) n (index_by by_time (rexorders (rx S3))) (rx S3) = Inr (es, X4)" and
    S': "S' = emit es (S3\<lparr>rx := X4\<rparr>)"
    using run p by (auto simp: runrex_def the_pool_def)
  note m1 = proceeds_maintained(1) [OF X p 1] and z1 = proceeds_maintained(2) [OF X p 1]
  note s1 = maintainedD(1) [OF m1] maintainedD(10) [OF m1 X(2)]
  note m2 = run_loans_maintained [OF E s1 2]
  note s2 = maintainedD(1) [OF m2] maintainedD(10) [OF m2 s1(2)]
  note m3 = run_loans_maintained [OF E s2 3]
  note s3 = maintainedD(1) [OF m3] maintainedD(10) [OF m3 s2(2)]
  have "pool_field namebid_proceeds (rx S3) = pool_field namebid_proceeds (rx S1)"
    using run_loans_law [OF E s1 2] run_loans_law [OF E s2 3] by (simp add: kept_def)
  then have z3: "pool_field namebid_proceeds (rx S3) = 0" using z1 by simp
  note m4 = run_orders_maintained [OF E s3 z3 4]
  show m: "maintained S S'"
    unfolding S' by (rule maintained_trans [OF m1 maintained_trans [OF m2 maintained_trans [OF m3 m4]]])
  have own: "o_owner r = w" if "fmlookup (rexorders (rx S3)) w = Some r" for w r
    using orders_okD(1) [OF rex_okD(4) [OF rex_inv_ok [OF s3(1)]] that] .
  have "distinct (map o_owner (index_by by_time (rexorders (rx S3))))"
    by (rule distinct_index_by) (rule own)
  then have "kept (rx S3) X4 \<and> moved rex_account es = 0"
    by (rule run_orders_law [OF E s3 z3 _ _ 4]) (use own in auto)
  then show "pool_field namebid_proceeds (rx S') = 0"
    using z3 S' by (simp add: kept_def)
qed

end
