(* ===== verification/Rex_Conservation.thy ===== *)
theory Rex_Conservation
  imports Rex_Flow
begin

text \<open>
  Every action of the REX keeps the invariant and is balanced for \<open>eosio.rex\<close>: what the REX
  owes changes by exactly the tokens the action moves in or out of that account.
\<close>

section \<open>Frames of the calls into voting\<close>

lemma on_vs_frame: "on_vs f S = Inr S' \<Longrightarrow> \<exists>V. S' = S\<lparr>vs := V\<rparr>"
  by (auto simp: on_vs_def)

lemma state_updates [simp]:
  "(S::system_state)\<lparr>vs := vs S\<rparr> = S" "(S::system_state)\<lparr>rx := X, vs := V\<rparr> = S\<lparr>vs := V, rx := X\<rparr>"
  "(S::system_state)\<lparr>vs := vs S, rx := X\<rparr> = S\<lparr>rx := X\<rparr>" "(S::system_state)\<lparr>rx := rx S\<rparr> = S"
  by (cases S; simp)+

lemma on_rx_frame: "on_rx f S = Inr S' \<longleftrightarrow> (\<exists>X. f (rx S) = Inr X \<and> S' = S\<lparr>rx := X\<rparr>)"
  by (auto simp: on_rx_def)

section \<open>Settling an account\<close>

text \<open>The REX in the order an account has open.\<close>

definition pending :: "rex_state \<Rightarrow> name \<Rightarrow> int" where
  "pending X w = (case fmlookup (rexorders X) w of
     None \<Rightarrow> 0 | Some r \<Rightarrow> if is_open r then amount (rex_requested r) else 0)"

lemma pending_open: "fmlookup (rexorders X) w = Some r \<Longrightarrow> is_open r \<Longrightarrow> pending X w = amount (rex_requested r)"
  by (simp add: pending_def)

lemma pending_none: "(\<And>r. fmlookup (rexorders X) w = Some r \<Longrightarrow> \<not> is_open r) \<Longrightarrow> pending X w = 0"
  by (simp add: pending_def split: option.split)

lemma pending_cong:
  assumes "\<And>r. is_open r \<Longrightarrow> fmlookup (rexorders X') w = Some r \<longleftrightarrow> fmlookup (rexorders X) w = Some r"
  shows "pending X' w = pending X w"
proof (cases "\<exists>r. fmlookup (rexorders X) w = Some r \<and> is_open r")
  case True
  then obtain r where "fmlookup (rexorders X) w = Some r" "is_open r" by blast
  then show ?thesis using assms [of r] by (simp add: pending_open)
next
  case False
  then show ?thesis using assms by (metis pending_none)
qed

lemma pending_nonneg: "orders_backed X \<Longrightarrow> 0 \<le> pending X w"
  by (auto simp: pending_def orders_backed_def split: option.split intro: less_imp_le)

text \<open>A fund is credited only when there is something to credit.\<close>

lemma credit_law:
  assumes X: "rex_ok X" "rex_owed X + amount f \<le> core_cap" "0 \<le> amount f"
    and run: "(if 0 < amount f then transfer_to_fund core w f X else Inr X) = Inr X'"
  shows "rex_ok X' \<and> rex_owed X' = rex_owed X + amount f \<and> (\<exists>u. X' = X\<lparr>rexfunds := u\<rparr>)"
proof (cases "0 < amount f")
  case True
  have b: "rex_owed X < 2 ^ 62" "amount f < 2 ^ 62"
    using X owed_bounds(3) [OF X(1)] by (auto simp: core_cap_def)
  have "transfer_to_fund core w f X = Inr X'" using run True by simp
  from transfer_to_fund_law [OF X(1) b this] show ?thesis by blast
next
  case False
  then show ?thesis using run X by (auto intro: exI [of _ "rexfunds X"])
qed

text \<open>
  The proceeds \<open>f\<close> that an account update credits: what it is given, and the proceeds of the filled
  order it takes off the queue.
\<close>

lemma rex_account_settled:
  assumes E: "lib_ok E" and X: "rex_ok (rx S)" "rex_owed (rx S) + amount p0 \<le> core_cap" "0 \<le> amount p0"
    and run: "update_rex_account E w p0 d force S = Inr (q, S')"
  obtains X1 f t where "(if 0 < amount f then transfer_to_fund (core_symbol S) w f X1 else Inr X1) = Inr (rx S')"
    "X1 = (rx S)\<lparr>rexorders := t\<rparr>" "rex_ok X1" "rex_owed X1 + amount f = rex_owed (rx S) + amount p0" "0 \<le> amount f"
    "\<forall>a r. is_open r \<longrightarrow> fmlookup (rexorders X1) a = Some r \<longleftrightarrow> fmlookup (rexorders (rx S)) a = Some r"
    "amount q = pending (rx S) w" "S' = S\<lparr>vs := vs S', rx := rx S'\<rparr>"
proof (cases "\<exists>r. fmlookup (rexorders (rx S)) w = Some r \<and> \<not> is_open r")
  case False
  let ?X = "rx S"
  have "(if 0 < amount p0 then transfer_to_fund (core_symbol S) w p0 ?X else Inr ?X) = Inr (rx S') \<and>
      amount q = pending ?X w \<and> S' = S\<lparr>vs := vs S', rx := rx S'\<rparr>"
    using run False
    by (auto simp: update_rex_account_def pending_def new_asset_lib [OF E] Let_def split: option.splits if_splits
        dest!: on_vs_frame)
  moreover have "?X = ?X\<lparr>rexorders := rexorders ?X\<rparr>" by simp
  ultimately show thesis using X that by blast
next
  case True
  let ?X = "rx S"
  note D = rex_okD [OF X(1)] and B = owed_bounds [OF X(1)]
  obtain r where r: "fmlookup (rexorders ?X) w = Some r" "\<not> is_open r" using True by blast
  have o: "order_owed r = amount (proceeds r)" "0 \<le> amount (proceeds r)"
    using r orders_okD(2) [OF D(4) r(1)] by (simp_all add: order_owed_def)
  have "tval order_owed (rexorders ?X) w \<le> orders_sum ?X"
    unfolding orders_sum_def by (rule tval_le_tsum) (rule orders_okD(2) [OF D(4)])
  moreover have "orders_sum ?X \<le> rex_owed ?X"
    using sums_nonneg D B by (simp add: rex_owed_def) (smt (verit) B(6,7,9))
  ultimately have le: "amount (proceeds r) \<le> rex_owed ?X" using r o by simp
  let ?X1 = "?X\<lparr>rexorders := fmdrop w (rexorders ?X)\<rparr>" and ?f = "inc_amt (amount (proceeds r)) p0"
  have w: "i64 (amount p0 + amount (proceeds r)) = amount p0 + amount (proceeds r)"
    using o le X B by (intro i64_small) (auto simp: core_cap_def)
  have "(if 0 < amount ?f then transfer_to_fund (core_symbol S) w ?f ?X1 else Inr ?X1) = Inr (rx S') \<and>
      amount q = pending ?X w \<and> S' = S\<lparr>vs := vs S', rx := rx S'\<rparr>"
    using run r
    by (auto simp: update_rex_account_def pending_def new_asset_lib [OF E] Let_def split: if_splits
        dest!: on_vs_frame)
  moreover have "rex_ok ?X1" using D X(1) by (simp add: rex_ok_def funds_ok_def orders_ok_def)
  moreover have "rex_owed ?X1 = rex_owed ?X - amount (proceeds r)"
    using r o by (simp add: rex_owed_def sum_defs)
  ultimately show thesis using w o X r by (intro that [of ?f ?X1]) auto
qed

lemma update_rex_account_law:
  assumes E: "lib_ok E" and X: "rex_ok (rx S)" "rex_owed (rx S) + amount p0 \<le> core_cap" "0 \<le> amount p0"
    and run: "update_rex_account E w p0 d force S = Inr (q, S')"
  shows "\<exists>V X'. S' = S\<lparr>vs := V, rx := X'\<rparr> \<and> rex_ok X' \<and> rex_owed X' = rex_owed (rx S) + amount p0 \<and>
    rent_pot X' = rent_pot (rx S) \<and> rexbalance X' = rexbalance (rx S) \<and> rexpool X' = rexpool (rx S) \<and>
    (\<forall>a r. is_open r \<longrightarrow> fmlookup (rexorders X') a = Some r \<longleftrightarrow> fmlookup (rexorders (rx S)) a = Some r) \<and>
    amount q = pending (rx S) w"
proof (rule rex_account_settled [OF assms])
  fix X1 f t
  assume f: "(if 0 < amount f then transfer_to_fund (core_symbol S) w f X1 else Inr X1) = Inr (rx S')" and
    t: "X1 = (rx S)\<lparr>rexorders := t\<rparr>" "rex_ok X1" "rex_owed X1 + amount f = rex_owed (rx S) + amount p0" "0 \<le> amount f"
      "\<forall>a r. is_open r \<longrightarrow> fmlookup (rexorders X1) a = Some r \<longleftrightarrow> fmlookup (rexorders (rx S)) a = Some r"
      "amount q = pending (rx S) w" "S' = S\<lparr>vs := vs S', rx := rx S'\<rparr>"
  have "rex_owed X1 + amount f \<le> core_cap" using t(3) X(2) by simp
  from credit_law [OF t(2) this t(4) f] obtain u where
    u: "rex_ok (rx S')" "rex_owed (rx S') = rex_owed X1 + amount f" "rx S' = X1\<lparr>rexfunds := u\<rparr>"
    by blast
  have "rent_pot (rx S') = rent_pot (rx S)" "rexbalance (rx S') = rexbalance (rx S)" "rexpool (rx S') = rexpool (rx S)"
    "rexorders (rx S') = rexorders X1"
    using u(3) t(1) by (simp_all add: rent_pot_def pool_field_def)
  with u(1,2) t show ?thesis by (intro exI [of _ "vs S'"] exI [of _ "rx S'"]) auto
qed

text \<open>Settling in a state that satisfies the whole invariant.\<close>

lemma settle_law:
  assumes E: "lib_ok E" and X: "rex_inv (rx S)" "rex_small (rx S)"
    and run: "update_rex_account E w p0 d force S = Inr (q, S')" and p0: "amount p0 = 0"
  shows "maintained (S\<lparr>vs := vs S'\<rparr>) S'" "amount q = pending (rx S') w" "0 \<le> amount q"
    "rexbalance (rx S') = rexbalance (rx S)" "rexpool (rx S') = rexpool (rx S)"
proof -
  have I: "rex_ok (rx S)" "holdings_ok (rx S)" "orders_backed (rx S)" "promise_ok (rx S)"
    using X(1) by (simp_all add: rex_inv_def)
  have c: "rex_owed (rx S) + amount p0 \<le> core_cap" "0 \<le> amount p0" using rex_smallD(1) [OF I(1) X(2)] p0 by simp_all
  from update_rex_account_law [OF E I(1) c run] obtain V X' where
    S': "S' = S\<lparr>vs := V, rx := X'\<rparr>" and X': "rex_ok X'" "rex_owed X' = rex_owed (rx S)"
      "rent_pot X' = rent_pot (rx S)" "rexbalance X' = rexbalance (rx S)" "rexpool X' = rexpool (rx S)"
      "\<And>a r. is_open r \<Longrightarrow> fmlookup (rexorders X') a = Some r \<longleftrightarrow> fmlookup (rexorders (rx S)) a = Some r"
      "amount q = pending (rx S) w"
    using p0 by auto
  have h: "holdings_ok X'" using I(2) X'(4,5) by (simp add: holdings_ok_def rex_sum_def pool_field_def)
  have b: "orders_backed X'"
    unfolding orders_backed_def X'(4)
  proof (intro allI impI)
    fix a r
    assume "fmlookup (rexorders X') a = Some r \<and> is_open r"
    then have "fmlookup (rexorders (rx S)) a = Some r \<and> is_open r" using X'(6) by blast
    then show "0 < amount (rex_requested r) \<and>
        (\<exists>rb. fmlookup (rexbalance (rx S)) a = Some rb \<and> amount (rex_requested r) \<le> matured_rex rb)"
      using I(3) unfolding orders_backed_def by blast
  qed
  have pr: "promise_ok X'" using I(4) X'(5) by (simp add: promise_ok_def pool_field_def)
  show "maintained (S\<lparr>vs := vs S'\<rparr>) S'"
    by (rule kept_maintained [of _ X' _ "[]" "rs S"])
      (use X' h b pr S' in \<open>simp_all add: kept_def rex_inv_def pool_field_def\<close>)
  have "pending X' w = pending (rx S) w" by (rule pending_cong) (rule X'(6))
  then show "amount q = pending (rx S') w" "rexbalance (rx S') = rexbalance (rx S)" "rexpool (rx S') = rexpool (rx S)"
    using X'(4,5,7) S' by simp_all
  show "0 \<le> amount q" unfolding X'(7) by (rule pending_nonneg [OF I(3)])
qed

section \<open>Sound steps\<close>

definition sound :: "system_state \<Rightarrow> system_state \<Rightarrow> bool" where
  "sound S S' \<longleftrightarrow> rex_inv (rx S') \<and> balanced rex_account (\<lambda>S. rex_owed (rx S)) S S'"

lemma sound_trans: "sound S S1 \<Longrightarrow> sound S1 S2 \<Longrightarrow> sound S S2"
  by (auto simp: sound_def intro: balanced_trans)

lemma sound_inv: "sound S S' \<Longrightarrow> rex_inv (rx S')"
  by (simp add: sound_def)

lemma maintained_sound: "maintained S S' \<Longrightarrow> sound S S'"
  using maintainedD by (simp add: sound_def)

lemma sound_from: "rx T = rx S \<Longrightarrow> effects T = effects S \<Longrightarrow> sound T S' \<Longrightarrow> sound S S'"
  by (simp add: sound_def balanced_def)

lemma sound_same: "rex_inv (rx S) \<Longrightarrow> rx S' = rx S \<Longrightarrow> effects S' = effects S \<Longrightarrow> sound S S'"
  by (simp add: sound_def balanced_quiet)

lemma sound_emit:
  "rex_inv (rx S') \<Longrightarrow> effects S' = effects S @ es \<Longrightarrow> rex_owed (rx S') = rex_owed (rx S) + moved rex_account es \<Longrightarrow>
    sound S S'"
  unfolding sound_def by (blast intro: balancedI)

lemma settled_sound:
  assumes "lib_ok E" "rex_inv (rx S)" "rex_small (rx S)"
    and "update_rex_account E w p0 d force S = Inr (q, S')" "amount p0 = 0"
  shows "sound S S'" "rex_small (rx S')"
proof -
  note m = settle_law(1) [OF assms]
  show "sound S S'" by (rule sound_from [OF _ _ maintained_sound [OF m]]) simp_all
  show "rex_small (rx S')" using maintainedD(10) [OF m] assms(3) by simp
qed

lemma zero_core_amount: "lib_ok E \<Longrightarrow> zero_core E S = Inr z \<Longrightarrow> amount z = 0"
  by (auto simp: zero_core_def new_asset_lib)

lemma inv_parts:
  assumes "rex_inv X"
  shows "rex_ok X" "holdings_ok X" "orders_backed X" "promise_ok X"
  using assms by (simp_all add: rex_inv_def)

lemma funds_frame [simp]:
  "holdings_ok (X\<lparr>rexfunds := t\<rparr>) = holdings_ok X" "orders_backed (X\<lparr>rexfunds := t\<rparr>) = orders_backed X"
  "promise_ok (X\<lparr>rexfunds := t\<rparr>) = promise_ok X"
  by (simp_all add: holdings_ok_def rex_sum_def pool_field_def orders_backed_def promise_ok_def)

lemma inv_funds: "rex_inv X \<Longrightarrow> rex_ok (X\<lparr>rexfunds := t\<rparr>) \<Longrightarrow> rex_inv (X\<lparr>rexfunds := t\<rparr>)"
  by (simp add: rex_inv_def)

section \<open>Deposits and withdrawals\<close>

lemma deposit_sound:
  assumes E: "lib_ok E" and X: "rex_inv (rx S)" "rex_small (rx S)" and a: "owner \<noteq> rex_account" "amount amt \<le> core_cap"
    and run: "deposit E owner amt S = Inr S'"
  shows "sound S S'"
proof -
  let ?t = "Token_transfer [active_of owner] owner rex_account amt ''deposit to REX fund''"
  obtain X' where x: "transfer_to_fund (core_symbol S) owner amt (rx S) = Inr X'" and
    S': "S' = (emit [?t] S)\<lparr>rx := X'\<rparr>"
    using run by (auto simp: deposit_def on_rx_frame core_symbol_def)
  have b: "rex_owed (rx S) < 2 ^ 62" "amount amt < 2 ^ 62"
    using rex_smallD(1) [OF inv_parts(1) [OF X(1)] X(2)] a(2) by (simp_all add: core_cap_def)
  from transfer_to_fund_law [OF inv_parts(1) [OF X(1)] b x] obtain t where
    t: "X' = (rx S)\<lparr>rexfunds := t\<rparr>" "rex_ok X'" "rex_owed X' = rex_owed (rx S) + amount amt" by blast
  then have "rex_inv X'" using inv_funds [OF X(1), of t] by simp
  then show ?thesis
    using t a(1) by (intro sound_emit [of _ _ "[?t]"]) (simp_all add: S')
qed

lemma fund_taken:
  assumes E: "lib_ok E" and X: "rex_inv X" "rex_small X"
    and x: "transfer_from_fund E core w amt X = Inr X'"
  shows "rex_inv X'" "rex_owed X' = rex_owed X - amount amt" "rent_pot X' = rent_pot X" "0 < amount amt"
    "pool_field g X' = pool_field g X" "rexpool X' = rexpool X" "rex_small X'" "loans k X' = loans k X"
    "rexbalance X' = rexbalance X" "rexorders X' = rexorders X"
proof -
  have b: "rex_owed X < 2 ^ 62"
    using rex_smallD(1) [OF inv_parts(1) [OF X(1)] X(2)] by (simp add: core_cap_def)
  from transfer_from_fund_law [OF E inv_parts(1) [OF X(1)] b x] obtain t where
    t: "X' = X\<lparr>rexfunds := t\<rparr>" "rex_ok X'" "rex_owed X' = rex_owed X - amount amt" "0 < amount amt" by blast
  show "rex_inv X'" using inv_funds [OF X(1), of t] t by simp
  show "rex_owed X' = rex_owed X - amount amt" "rent_pot X' = rent_pot X" "0 < amount amt"
    "pool_field g X' = pool_field g X" "rexpool X' = rexpool X" "loans k X' = loans k X"
    "rexbalance X' = rexbalance X" "rexorders X' = rexorders X"
    using t by (simp_all add: rent_pot_def pool_field_def)
  then show "rex_small X'" using X(2) t by (simp add: rex_small_def rex_claims_def pool_field_def)
qed

lemma withdraw_sound:
  assumes E: "lib_ok E" and X: "rex_inv (rx S)" "rex_small (rx S)" and a: "owner \<noteq> rex_account"
    and run: "withdraw E owner amt S = Inr S'"
  shows "sound S S'"
proof -
  let ?t = "Token_transfer [active_of rex_account] rex_account owner amt ''withdraw from REX fund''"
  obtain z q S1 X' where z: "zero_core E S = Inr z" and
    u: "update_rex_account E owner z z False S = Inr (q, S1)" and
    x: "transfer_from_fund E (core_symbol S1) owner amt (rx S1) = Inr X'" and S': "S' = emit [?t] (S1\<lparr>rx := X'\<rparr>)"
    using run by (auto simp: withdraw_def on_rx_frame)
  note s1 = settled_sound [OF E X u zero_core_amount [OF E z]]
  note f = fund_taken [OF E sound_inv [OF s1(1)] s1(2) x]
  have "sound S1 S'" by (rule sound_emit [of _ _ "[?t]"]) (use f a S' in simp_all)
  with s1(1) show ?thesis by (rule sound_trans)
qed

section \<open>Buying\<close>

text \<open>The part that \<open>buyrex\<close> and \<open>unstaketorex\<close> share.\<close>

lemma purchase_sound:
  assumes E: "lib_ok E" and X: "rex_inv X" "rex_small X" "rex_owed X + amount pay + pool_field namebid_proceeds X \<le> core_cap"
      "rent_pot X + initial_rent < market_max" "0 < amount pay"
    and pool: "add_to_rex_pool E core pay X = Inr (recv, X1)"
    and bal: "add_to_rex_balance E core w pay recv X1 = Inr (delta, X2)"
    and r: "runrex E n (S\<lparr>rx := X2\<rparr>) = Inr S1"
    and z: "amount z = 0" and u: "update_rex_account E w z d force S1 = Inr (q, S2)"
  shows "rex_inv X2" "rex_owed X2 = rex_owed X + amount pay" "sound (S\<lparr>rx := X2\<rparr>) S2"
proof -
  have c: "rex_owed X + amount pay \<le> core_cap"
    using X(3) rex_smallD(3) [OF inv_parts(1) [OF X(1)] X(2)] by linarith
  note B = buy_law [OF E X(1,2,5) c pool bal]
  then show x2: "rex_inv X2" "rex_owed X2 = rex_owed X + amount pay" by simp_all
  have s: "rex_small X2" using B X(3,4) by (simp add: rex_small_def rex_claims_def)
  have m: "maintained (S\<lparr>rx := X2\<rparr>) S1" by (rule runrex_maintained(1) [OF E _ _ r]) (use x2 s in simp_all)
  have "rex_small (rx S1)" using maintainedD(10) [OF m] s by simp
  note s2 = settled_sound [OF E maintainedD(1) [OF m] this u z]
  show "sound (S\<lparr>rx := X2\<rparr>) S2" by (rule sound_trans [OF maintained_sound [OF m] s2(1)])
qed

lemma buyrex_sound:
  assumes E: "lib_ok E" and X: "rex_inv (rx S)" "rex_small (rx S)" "rent_pot (rx S) + initial_rent < market_max"
    and run: "buyrex E w amt S = Inr S'"
  shows "sound S S'"
proof -
  obtain X0 recv X1 delta X2 S1 z q S2 where
    x0: "transfer_from_fund E (core_symbol S) w amt (rx S) = Inr X0" and
    x1: "add_to_rex_pool E (core_symbol S) amt X0 = Inr (recv, X1)" and
    x2: "add_to_rex_balance E (core_symbol S) w amt recv X1 = Inr (delta, X2)" and
    r: "runrex E 2 (S\<lparr>rx := X2\<rparr>) = Inr S1" and z: "zero_core E S1 = Inr z" and
    u: "update_rex_account E w z delta False S1 = Inr (q, S2)" and S': "S' = emit [Rex_buyresult recv] S2"
    using run by (auto simp: buyrex_def)
  note f = fund_taken [OF E X(1,2) x0]
  have "rex_owed X0 + amount amt + pool_field namebid_proceeds X0 \<le> core_cap"
    using f X(2) by (simp add: rex_small_def rex_claims_def)
  note P = purchase_sound [OF E f(1,7) this _ f(4) x1 x2 r zero_core_amount [OF E z] u]
  have "rent_pot X0 + initial_rent < market_max" using f(3) X(3) by simp
  note P = P [OF this]
  have "sound S (S\<lparr>rx := X2\<rparr>)"
    by (rule sound_emit [of _ _ "[]"]) (use P f in simp_all)
  moreover have "sound S2 S'"
    by (rule sound_emit [of _ _ "[Rex_buyresult recv]"]) (use P S' in \<open>auto simp: sound_def\<close>)
  ultimately show ?thesis using P(3) sound_trans by blast
qed

lemma unstaketorex_sound:
  assumes E: "lib_ok E" and X: "rex_inv (rx S)" "rex_small (rx S)" "rent_pot (rx S) + initial_rent < market_max"
    and c: "rex_claims (rx S) + amount net + amount cpu \<le> core_cap"
    and run: "unstaketorex E w receiver net cpu S = Inr S'"
  shows "sound S S'"
proof -
  obtain R S0 pay recv X1 delta X2 S1 z q S2 where
    g: "0 \<le> amount net" "0 \<le> amount cpu" "0 < amount net \<or> 0 < amount cpu" and
    s0: "update_resource_limits E receiver (i64 (- amount net)) (i64 (- amount cpu)) (S\<lparr>rs := R\<rparr>) = Inr S0" and
    p: "add_asset E net cpu = Inr pay" and
    x1: "add_to_rex_pool E (core_symbol S0) pay (rx S0) = Inr (recv, X1)" and
    x2: "add_to_rex_balance E (core_symbol S0) w pay recv X1 = Inr (delta, X2)" and
    r: "runrex E 2 ((emit [Token_transfer [active_of stake_account] stake_account rex_account pay
           ''buy REX with staked tokens''] S0)\<lparr>rx := X2\<rparr>) = Inr S1" and
    z: "zero_core E S1 = Inr z" and
    u: "update_rex_account E w z z True S1 = Inr (q, S2)" and S': "S' = emit [Rex_buyresult recv] S2"
    using run by (auto simp: unstaketorex_def Let_def core_symbol_def)
  let ?t = "Token_transfer [active_of stake_account] stake_account rex_account pay ''buy REX with staked tokens''"
  have rx0: "rx S0 = rx S" "effects S0 = effects S" using update_resource_limits_frame [OF s0] by auto
  have nb: "0 \<le> rex_claims (rx S)"
    using owed_bounds(3) [OF inv_parts(1) [OF X(1)]] rex_smallD(3) [OF inv_parts(1) [OF X(1)] X(2)]
    by (simp add: rex_claims_def)
  have pay: "amount pay = amount net + amount cpu" "0 < amount pay"
    using p g c nb by (subst (asm) add_asset_lib [OF E]; auto simp: is_i64_def core_cap_def)+
  have cc: "rex_owed (rx S0) + amount pay + pool_field namebid_proceeds (rx S0) \<le> core_cap"
    using c pay rx0 by (simp add: rex_claims_def)
  note P = purchase_sound [OF E _ _ cc _ pay(2) x1 x2 r zero_core_amount [OF E z] u]
  note P = P [unfolded rx0, OF X]
  have "sound S ((emit [?t] S0)\<lparr>rx := X2\<rparr>)"
    by (rule sound_emit [of _ _ "[?t]"]) (use P rx0 in simp_all)
  moreover have "sound S2 S'"
    by (rule sound_emit [of _ _ "[Rex_buyresult recv]"]) (use P S' in \<open>auto simp: sound_def\<close>)
  ultimately show ?thesis using P(3) sound_trans by blast
qed

section \<open>Rows of the REX balances\<close>

lemma orders_backedD:
  "orders_backed X \<Longrightarrow> fmlookup (rexorders X) w = Some r \<Longrightarrow> is_open r \<Longrightarrow>
    0 < amount (rex_requested r) \<and> (\<exists>rb. fmlookup (rexbalance X) w = Some rb \<and> amount (rex_requested r) \<le> matured_rex rb)"
  unfolding orders_backed_def by blast

lemma pending_backed:
  "orders_backed X \<Longrightarrow> fmlookup (rexbalance X) w = Some rb \<Longrightarrow> 0 \<le> matured_rex rb \<Longrightarrow> pending X w \<le> matured_rex rb"
  by (auto simp: pending_def split: option.split dest: orders_backedD)

lemma orders_backed_row:
  assumes "\<And>a r. a \<noteq> w \<Longrightarrow> fmlookup (rexorders X') a = Some r \<Longrightarrow> is_open r \<Longrightarrow> fmlookup (rexorders X) a = Some r"
    and "\<And>a. a \<noteq> w \<Longrightarrow> fmlookup (rexbalance X') a = fmlookup (rexbalance X) a"
    and "orders_backed X" and "fmlookup (rexbalance X') w = Some rb"
    and "\<And>r. fmlookup (rexorders X') w = Some r \<Longrightarrow> is_open r \<Longrightarrow>
      0 < amount (rex_requested r) \<and> amount (rex_requested r) \<le> matured_rex rb"
  shows "orders_backed X'"
  unfolding orders_backed_def
proof (intro allI impI)
  fix a r
  assume r: "fmlookup (rexorders X') a = Some r \<and> is_open r"
  show "0 < amount (rex_requested r) \<and>
      (\<exists>rb. fmlookup (rexbalance X') a = Some rb \<and> amount (rex_requested r) \<le> matured_rex rb)"
  proof (cases "a = w")
    case True
    then show ?thesis using r assms(4,5) by blast
  next
    case False
    then show ?thesis using r assms(1-3) unfolding orders_backed_def by metis
  qed
qed

lemma row_replaced:
  assumes X: "rex_inv X" and rb: "fmlookup (rexbalance X) w = Some rb"
    and n: "bal_ok rb'" "amount (rb_rex_balance rb') = amount (rb_rex_balance rb)" "pending X w \<le> matured_rex rb'"
  shows "rex_inv (set_rexbal w rb' X)" "rex_owed (set_rexbal w rb' X) = rex_owed X"
    "rent_pot (set_rexbal w rb' X) = rent_pot X" "pool_field g (set_rexbal w rb' X) = pool_field g X"
    "rexorders (set_rexbal w rb' X) = rexorders X" "rex_small X \<Longrightarrow> rex_small (set_rexbal w rb' X)"
proof -
  note I = inv_parts [OF X]
  let ?X = "set_rexbal w rb' X"
  show f: "rex_owed ?X = rex_owed X" "rent_pot ?X = rent_pot X" "pool_field g ?X = pool_field g X" "rexorders ?X = rexorders X" for g
    by (simp_all add: set_rexbal_def rex_owed_def rent_pot_def sum_defs)
  then show "rex_small X \<Longrightarrow> rex_small ?X" by (simp add: rex_small_def rex_claims_def)
  have 1: "rex_ok ?X" using I(1) by (simp add: rex_ok_def set_rexbal_def funds_ok_def orders_ok_def)
  have 2: "holdings_ok ?X"
    using I(2) rb n by (auto simp: holdings_ok_def set_rexbal_def rex_sum_def pool_field_def)
  have 3: "orders_backed ?X"
  proof (rule orders_backed_row [OF _ _ I(3), of w _ rb'])
    fix r assume "fmlookup (rexorders ?X) w = Some r" "is_open r"
    then have r: "fmlookup (rexorders X) w = Some r" "is_open r" by (simp_all add: set_rexbal_def)
    then show "0 < amount (rex_requested r) \<and> amount (rex_requested r) \<le> matured_rex rb'"
      using n(3) I(3) pending_open [OF r] unfolding orders_backed_def by auto
  qed (simp_all add: set_rexbal_def)
  show "rex_inv ?X" using 1 2 3 I(4) f by (simp add: rex_inv_def promise_ok_def)
qed

lemma put_rexbal_sound:
  assumes "rex_inv (rx S)" "fmlookup (rexbalance (rx S)) w = Some rb"
    and "bal_ok rb'" "amount (rb_rex_balance rb') = amount (rb_rex_balance rb)" "pending (rx S) w \<le> matured_rex rb'"
  shows "sound S (put_rexbal w rb' S)" "rex_small (rx S) \<Longrightarrow> rex_small (rx (put_rexbal w rb' S))"
proof -
  note R = row_replaced [OF assms]
  show "sound S (put_rexbal w rb' S)"
    by (rule sound_emit [of _ _ "[]"]) (use R in \<open>simp_all add: put_rexbal_def\<close>)
  show "rex_small (rx S) \<Longrightarrow> rex_small (rx (put_rexbal w rb' S))" using R(6) by (simp add: put_rexbal_def)
qed

lemma matured_row:
  assumes X: "rex_inv X" and rb: "fmlookup (rexbalance X) w = Some rb"
  shows "bal_ok (process_rex_maturities E rb)"
    "amount (rb_rex_balance (process_rex_maturities E rb)) = amount (rb_rex_balance rb)"
    "pending X w \<le> matured_rex (process_rex_maturities E rb)"
proof -
  note b = holdings_okD(1) [OF inv_parts(2) [OF X] rb]
  then have r: "row_ok rb" by (simp add: bal_ok_def)
  note P = process_law [OF r, of E]
  show "bal_ok (process_rex_maturities E rb)"
    "amount (rb_rex_balance (process_rex_maturities E rb)) = amount (rb_rex_balance rb)"
    using P b by (simp_all add: bal_ok_def)
  have "pending X w \<le> matured_rex rb"
    using pending_backed [OF inv_parts(3) [OF X] rb] r by (simp add: row_ok_def)
  then show "pending X w \<le> matured_rex (process_rex_maturities E rb)" using P(3) by linarith
qed

section \<open>Selling\<close>

lemma filled_sale:
  assumes E: "lib_ok E" and X: "rex_inv (rx S)" "rex_small (rx S)" "pool_field namebid_proceeds (rx S) = 0"
    and rb: "fmlookup (rexbalance (rx S)) w = Some rb" and q: "0 < amount q" "amount q \<le> matured_rex rb"
    and fill: "fill_rex_order E core w q (rx S) = Inr (res, X1)" "success res"
    and upd: "update_rex_account E w (oo_proceeds res) d force (S\<lparr>rx := X1\<rparr>) = Inr (p, S2)"
    and rb2: "fmlookup (rexbalance (rx S2)) w = Some rb2" "amount p \<le> matured_rex rb2"
  shows "sound S S2"
proof -
  note I = inv_parts [OF X(1)]
  note F = fill_order_law(2) [OF E I(1,2) X(2) rb q fill]
  then obtain rb1 where rb1: "rexbalance X1 = fmupd w rb1 (rexbalance (rx S))" "matured_rex rb1 = matured_rex rb - amount q"
    by blast
  have c: "rex_ok (rx (S\<lparr>rx := X1\<rparr>))" "rex_owed (rx (S\<lparr>rx := X1\<rparr>)) + amount (oo_proceeds res) \<le> core_cap"
    "0 \<le> amount (oo_proceeds res)"
    using F rex_smallD(1) [OF I(1) X(2)] by simp_all
  from update_rex_account_law [OF E c upd] obtain V X2 where
    S2: "S2 = S\<lparr>vs := V, rx := X2\<rparr>" and X2: "rex_ok X2" "rex_owed X2 = rex_owed X1 + amount (oo_proceeds res)"
      "rexbalance X2 = rexbalance X1" "rexpool X2 = rexpool X1"
      "\<And>a r. is_open r \<Longrightarrow> fmlookup (rexorders X2) a = Some r \<longleftrightarrow> fmlookup (rexorders X1) a = Some r"
      "amount p = pending X1 w"
    by auto
  have h: "holdings_ok X2" using F X2(3,4) by (simp add: holdings_ok_def rex_sum_def pool_field_def)
  have o: "rexorders X1 = rexorders (rx S)" using F by blast
  have b: "orders_backed X2"
  proof (rule orders_backed_row [OF _ _ I(3), of w _ rb2])
    fix r assume r: "fmlookup (rexorders X2) w = Some r" "is_open r"
    then have r1: "fmlookup (rexorders X1) w = Some r" using X2(5) by blast
    have "amount (rex_requested r) = amount p" using pending_open [OF r1 r(2)] X2(6) by simp
    moreover have "0 < amount (rex_requested r)" using r1 r(2) o I(3) unfolding orders_backed_def by auto
    ultimately show "0 < amount (rex_requested r) \<and> amount (rex_requested r) \<le> matured_rex rb2" using rb2(2) by simp
  qed (use X2 o rb1 rb2(1) S2 in auto)
  have "pool_field namebid_proceeds X2 = 0" using F X(3) X2(4) by (simp add: pool_field_def)
  then have "rex_inv (rx S2)" using X2(1) h b S2 by (simp add: rex_inv_def promise_ok_def)
  then show ?thesis
    by (rule sound_emit [of _ _ "[]"]) (use S2 X2(2) F in simp_all)
qed

lemma queued_sale:
  assumes E: "lib_ok E" and X: "rex_inv (rx S)" "rex_small (rx S)"
    and q: "0 < amount q" "amount q < 2 ^ 62"
    and enq: "enqueue_order E core w q (rx S) = Inr (n, X1)"
    and rb: "fmlookup (rexbalance X1) w = Some rb" "n \<le> matured_rex rb"
  shows "sound S (S\<lparr>rx := X1\<rparr>)"
proof -
  note I = inv_parts [OF X(1)]
  have "\<exists>r. X1 = (rx S)\<lparr>rexorders := fmupd w r (rexorders (rx S))\<rparr> \<and> o_owner r = w \<and>
      order_owed r = tval order_owed (rexorders (rx S)) w \<and> (is_open r \<longrightarrow> n = amount (rex_requested r) \<and> 0 < n)"
  proof (cases "fmlookup (rexorders (rx S)) w")
    case None
    then show ?thesis using enq q by (auto simp: enqueue_order_def new_asset_lib [OF E] order_owed_def)
  next
    case (Some r)
    note ow = orders_okD(1) [OF rex_okD(4) [OF I(1)] Some]
    let ?r = "r\<lparr>rex_requested := inc_amt (amount q) (rex_requested r)\<rparr>"
    have "n = amount (rex_requested ?r) \<and> 0 < n" if op: "is_open r"
    proof -
      obtain rb0 where "fmlookup (rexbalance (rx S)) w = Some rb0" "0 < amount (rex_requested r)"
        "amount (rex_requested r) \<le> matured_rex rb0"
        using orders_backedD [OF I(3) Some op] by blast
      moreover from this(1) have "bal_ok rb0" by (rule holdings_okD(1) [OF I(2)])
      ultimately have "0 < amount (rex_requested r)" "amount (rex_requested r) < 2 ^ 62"
        using bal_ok_bounds [of rb0] by auto
      then have "i64 (amount (rex_requested r) + amount q) = amount (rex_requested r) + amount q"
        using q by (intro i64_small) auto
      then show ?thesis using enq Some q \<open>0 < amount (rex_requested r)\<close> by (auto simp: enqueue_order_def)
    qed
    then show ?thesis using enq Some ow
      by (intro exI [of _ ?r]) (auto simp: enqueue_order_def order_owed_def)
  qed
  then obtain r where X1: "X1 = (rx S)\<lparr>rexorders := fmupd w r (rexorders (rx S))\<rparr>" and r: "o_owner r = w"
    "order_owed r = tval order_owed (rexorders (rx S)) w" "is_open r \<longrightarrow> n = amount (rex_requested r) \<and> 0 < n" by blast
  have "0 \<le> order_owed r" unfolding r(2) using orders_okD(2) [OF rex_okD(4) [OF I(1)]]
    by (auto simp: tval_def split: option.split)
  then have 1: "rex_ok X1" using I(1) r(1) unfolding X1 by (auto simp: rex_ok_def funds_ok_def orders_ok_def)
  have 2: "holdings_ok X1" using I(2) unfolding X1 by (simp add: holdings_ok_def rex_sum_def pool_field_def)
  have 3: "orders_backed X1"
    by (rule orders_backed_row [OF _ _ I(3), of w _ rb]) (use X1 r rb in auto)
  have 4: "promise_ok X1" using I(4) unfolding X1 by (simp add: promise_ok_def pool_field_def)
  have "rex_owed X1 = rex_owed (rx S)" unfolding X1 using r(2) by (simp add: rex_owed_def sum_defs)
  then show ?thesis by (intro sound_emit [of _ _ "[]"]) (use 1 2 3 4 in \<open>simp_all add: rex_inv_def\<close>)
qed

lemma sellrex_sound:
  assumes E: "lib_ok E" and X: "rex_inv (rx S)" "rex_small (rx S)"
    and run: "sellrex E w q S = Inr S'"
  shows "sound S S'"
proof -
  obtain S1 rb where r: "runrex E 2 S = Inr S1" and rb: "fmlookup (rexbalance (rx S1)) w = Some rb"
    and q: "0 < amount q" using run by (auto simp: sellrex_def rexbal_of_def)
  let ?rb = "process_rex_maturities E rb"
  let ?S2 = "put_rexbal w ?rb S1"
  note m = runrex_maintained [OF E X r]
  note s1 = maintainedD(1) [OF m(1)] maintainedD(10) [OF m(1) X(2)]
  note p = put_rexbal_sound [OF s1(1) rb matured_row [OF s1(1) rb, of E]]
  have rb2: "fmlookup (rexbalance (rx ?S2)) w = Some ?rb" by (simp add: put_rexbal_def set_rexbal_def)
  have nb: "pool_field namebid_proceeds (rx ?S2) = 0"
    using m(2) by (simp add: put_rexbal_def set_rexbal_def pool_field_def)
  have s2: "rex_inv (rx ?S2)" "rex_small (rx ?S2)" using p s1(2) by (simp_all add: sound_inv)
  have qm: "amount q \<le> matured_rex ?rb" using run r rb by (auto simp: sellrex_def rexbal_of_def Let_def)
  have q62: "amount q < 2 ^ 62" using qm bal_ok_bounds [OF matured_row(1) [OF s1(1) rb, of E]] by linarith
  obtain res X3 po S4 pend X5 rb5 where
    f: "fill_rex_order E (core_symbol ?S2) w q (rx ?S2) = Inr (res, X3)" and
    u: "update_rex_account E w (oo_proceeds res) (oo_stake_change res) False (?S2\<lparr>rx := X3\<rparr>) = Inr (po, S4)" and
    e: "(if \<not> success res then
          bindE (check (w \<noteq> b1_account) ''b1 sellrex orders should not be queued'') (\<lambda>_.
          enqueue_order E (core_symbol S4) w q (rx S4))
        else Inr (amount po, rx S4)) = Inr (pend, X5)" and
    l: "fmlookup (rexbalance X5) w = Some rb5" "pend \<le> matured_rex rb5" and
    S': "S' = emit (if success res then [Rex_sellresult (oo_proceeds res)] else []) (S4\<lparr>rx := X5\<rparr>)"
    using run r rb by (auto simp: sellrex_def rexbal_of_def Let_def)
  have "sound ?S2 (S4\<lparr>rx := X5\<rparr>)"
  proof (cases "success res")
    case True
    then have e': "pend = amount po" "X5 = rx S4" using e by auto
    show ?thesis using filled_sale [OF E s2 nb rb2 q qm f True u] l e' by simp
  next
    case False
    note F = fill_order_law(1) [OF E inv_parts(1,2) [OF s2(1)] s2(2) rb2 q qm f False]
    then have u': "update_rex_account E w (oo_proceeds res) (oo_stake_change res) False ?S2 = Inr (po, S4)" using u by simp
    note s4 = settled_sound [OF E s2 u'] 
    have s4: "sound ?S2 S4" "rex_small (rx S4)" using s4 F by simp_all
    have e': "enqueue_order E (core_symbol S4) w q (rx S4) = Inr (pend, X5)" using e False by auto
    show ?thesis
      by (rule sound_trans [OF s4(1) queued_sale [OF E sound_inv [OF s4(1)] s4(2) q q62 e' l]])
  qed
  then have "sound S (S4\<lparr>rx := X5\<rparr>)"
    using sound_trans [OF maintained_sound [OF m(1)] sound_trans [OF p(1)]] by blast
  moreover have "sound (S4\<lparr>rx := X5\<rparr>) S'"
    by (rule sound_emit [of _ _ "if success res then [Rex_sellresult (oo_proceeds res)] else []"])
      (use S' calculation in \<open>auto simp: sound_def\<close>)
  ultimately show ?thesis by (rule sound_trans)
qed

lemma cnclrexorder_sound:
  assumes X: "rex_inv (rx S)" and run: "on_rx (cnclrexorder E w) S = Inr S'"
  shows "sound S S'"
proof -
  note I = inv_parts [OF X]
  obtain r where r: "fmlookup (rexorders (rx S)) w = Some r" "is_open r"
    and S': "S' = S\<lparr>rx := (rx S)\<lparr>rexorders := fmdrop w (rexorders (rx S))\<rparr>\<rparr>"
    using run by (auto simp: on_rx_frame cnclrexorder_def)
  let ?X = "(rx S)\<lparr>rexorders := fmdrop w (rexorders (rx S))\<rparr>"
  have "rex_ok ?X" using I(1) by (simp add: rex_ok_def funds_ok_def orders_ok_def)
  moreover have "holdings_ok ?X" "promise_ok ?X" using I(2,4) by (simp_all add: holdings_ok_def rex_sum_def pool_field_def promise_ok_def)
  moreover have "orders_backed ?X"
    unfolding orders_backed_def using orders_backedD [OF I(3)] by auto
  moreover have "rex_owed ?X = rex_owed (rx S)" using r by (simp add: rex_owed_def sum_defs order_owed_def)
  ultimately show ?thesis by (intro sound_emit [of _ _ "[]"]) (simp_all add: S' rex_inv_def)
qed

section \<open>Loans\<close>

lemma new_loan_inv:
  assumes X: "rex_inv X" "rex_small X" and p: "rexpool X = Some p"
    and av: "rex_loans_available X" and pay: "0 < amount pay" "amount pay < market_max" and fund: "0 \<le> amount fund"
    and r: "0 \<le> rented" "rented \<le> amount (total_unlent p)"
    and l: "l_payment l = pay" "l_balance l = fund" "amount (total_staked l) = rented" "l_loan_num l = n"
      "fmlookup (loans k X) n = None"
  defines "X' \<equiv> set_loans k (fmupd n l (loans k X)) (X\<lparr>rexpool := Some (add_loan_to_rex_pool pay rented True p)\<rparr>)"
  shows "rex_inv X' \<and> rex_owed X' = rex_owed X + amount pay + amount fund"
proof -
  note I = inv_parts [OF X(1)] and D = rex_okD [OF inv_parts(1) [OF X(1)]]
  note B = owed_bounds [OF I(1)] and sm = rex_smallD [OF I(1) X(2)]
  let ?p = "add_loan_to_rex_pool pay rented True p"
  have pot: "amount (total_rent p) \<le> rent_pot X"
    using sums_nonneg(2) [OF D(2)] sums_nonneg(2) [OF D(3)] p by (simp add: rent_pot_def pool_field_def)
  have b: "amount (total_lendable p) < market_max" "amount (total_rent p) < market_max"
    using B(8) sm p pot by (auto simp: pool_field_def core_cap_def market_max_def)
  note L = loan_pool [OF D(5) [OF p] b pay r, of True]
  have lo: "loans_ok (fmupd n l (loans k X))"
    using rex_ok_loans [OF I(1), of k] pay fund r l by (auto simp: loans_ok_def)
  have s: "balances_sum (fmupd n l (loans k X)) = balances_sum (loans k X) + amount fund"
    "staked_sum (fmupd n l (loans k X)) = staked_sum (loans k X) + rented"
    using l by (simp_all add: sum_defs)
  have 1: "rex_ok X'"
    unfolding X'_def using D L(1) lo s
    by (auto intro!: rex_ok_set_loans simp: funds_ok_def orders_ok_def loans_def algebra_simps split: loan_kind.splits)
  have ne: "pool_field total_rex X \<noteq> 0" "pool_field total_rex X' = pool_field total_rex X"
    using av p unfolding X'_def
    by (auto simp: rex_loans_available_def rex_available_def pool_field_def add_loan_to_rex_pool_def Let_def)
  have 2: "holdings_ok X'"
    by (rule holdings_ok_pool [OF I(2)]) (use ne L(2) p pay in \<open>auto simp: X'_def pool_field_def\<close>)
  have 3: "orders_backed X'" by (rule orders_backed_frame [OF I(3)]) (simp_all add: X'_def)
  have 4: "promise_ok X'" using ne by (simp add: promise_ok_def)
  have "rex_owed X' = rex_owed X + amount pay + amount fund"
    unfolding X'_def rex_owed_set_loans using s(1) L(2) p
    by (cases k) (simp_all add: rex_owed_def sum_defs loans_def)
  with 1 2 3 4 show ?thesis by (simp add: rex_inv_def)
qed

lemma rent_loan_parts:
  assumes E: "lib_ok E" and run: "rent_loan E k w receiver pay fund S = Inr S'"
  obtains S1 both X2 p rented cs tab where
    "runrex E 2 S = Inr S1" "rex_loans_available (rx S1)" "0 < amount pay" "0 \<le> amount fund"
    "add_asset E pay fund = Inr both" "transfer_from_fund E (core_symbol S1) w both (rx S1) = Inr X2"
    "rexpool X2 = Some p"
    "get_bancor_output (amount (total_rent p)) (amount (total_unlent p)) (amount pay) = Inr rented"
    "emplace (rp_loan_num (add_loan_to_rex_pool pay rented True p))
       \<lparr>l_from = w, l_receiver = receiver, l_payment = pay, l_balance = fund,
        total_staked = \<lparr>amount = rented, symbol = cs\<rparr>,
        l_loan_num = rp_loan_num (add_loan_to_rex_pool pay rented True p),
        expiration = i64 (now E + 30 * useconds_per_day)\<rparr> (loans k X2) = Inr tab"
    "limits_for E k receiver rented (emit [Rex_rentresult \<lparr>amount = rented, symbol = cs\<rparr>]
      (S1\<lparr>rx := set_loans k tab (X2\<lparr>rexpool := Some (add_loan_to_rex_pool pay rented True p)\<rparr>)\<rparr>)) = Inr S'"
proof -
  from run show ?thesis
    unfolding rent_loan_def rent_rex_def Let_def the_pool_def
    by (clarsimp simp: new_asset_lib [OF E]) (rule that; (assumption | simp))
qed

lemma rent_loan_sound:
  assumes E: "lib_ok E" and X: "rex_inv (rx S)" "rex_small (rx S)" and i64: "is_i64 (amount pay + amount fund)"
    and run: "rent_loan E k w receiver pay fund S = Inr S'"
  shows "sound S S'"
proof -
  obtain S1 both X2 p rented cs tab where
    r: "runrex E 2 S = Inr S1" and av: "rex_loans_available (rx S1)" and
    g: "0 < amount pay" "0 \<le> amount fund" and bo: "add_asset E pay fund = Inr both" and
    x2: "transfer_from_fund E (core_symbol S1) w both (rx S1) = Inr X2" and p: "rexpool X2 = Some p" and
    b: "get_bancor_output (amount (total_rent p)) (amount (total_unlent p)) (amount pay) = Inr rented" and
    em: "emplace (rp_loan_num (add_loan_to_rex_pool pay rented True p))
       \<lparr>l_from = w, l_receiver = receiver, l_payment = pay, l_balance = fund,
        total_staked = \<lparr>amount = rented, symbol = cs\<rparr>,
        l_loan_num = rp_loan_num (add_loan_to_rex_pool pay rented True p),
        expiration = i64 (now E + 30 * useconds_per_day)\<rparr> (loans k X2) = Inr tab" and
    lim: "limits_for E k receiver rented (emit [Rex_rentresult \<lparr>amount = rented, symbol = cs\<rparr>]
      (S1\<lparr>rx := set_loans k tab (X2\<lparr>rexpool := Some (add_loan_to_rex_pool pay rented True p)\<rparr>)\<rparr>)) = Inr S'"
    by (rule rent_loan_parts [OF E run])
  let ?e = "Rex_rentresult \<lparr>amount = rented, symbol = cs\<rparr>"
  let ?S3 = "emit [?e] (S1\<lparr>rx := set_loans k tab (X2\<lparr>rexpool := Some (add_loan_to_rex_pool pay rented True p)\<rparr>)\<rparr>)"
  note m = runrex_maintained [OF E X r]
  note s1 = maintainedD(1) [OF m(1)] maintainedD(10) [OF m(1) X(2)]
  note f = fund_taken [OF E s1 x2]
  have sm: "rex_owed (rx S1) \<le> core_cap" using rex_smallD(1) [OF inv_parts(1) [OF s1(1)] s1(2)] .
  have bt: "amount both \<le> core_cap"
    using f(2) owed_bounds(3) [OF inv_parts(1) [OF f(1)]] sm by linarith
  have sumv: "amount both = amount pay + amount fund" using bo add_asset_lib [OF E i64] by auto
  have pm: "amount pay < market_max" using bt sumv g by (simp add: core_cap_def market_max_def)
  have ok: "0 \<le> amount (total_rent p)" "0 \<le> amount (total_unlent p)" "amount (total_unlent p) \<le> amount (total_lendable p)"
    using rex_okD(5) [OF inv_parts(1) [OF f(1)] p] by (auto simp: pool_ok_def)
  have "amount (total_lendable p) \<le> core_cap"
    using owed_bounds(8) [OF inv_parts(1) [OF f(1)]] p rex_smallD(1) [OF inv_parts(1) [OF f(1)] f(7)] by (simp add: pool_field_def)
  then have "0 \<le> rented \<and> rented \<le> amount (total_unlent p)"
    by (intro bancor_payout [OF _ _ _ _ _ b]) (use g pm ok in \<open>auto simp: core_cap_def market_max_def\<close>)
  then have rr: "0 \<le> rented" "rented \<le> amount (total_unlent p)" by auto
  have av2: "rex_loans_available X2" using av f(6,10) by (simp add: rex_loans_available_def rex_available_def)
  have em': "fmlookup (loans k X2) (rp_loan_num (add_loan_to_rex_pool pay rented True p)) = None \<and>
      tab = fmupd (rp_loan_num (add_loan_to_rex_pool pay rented True p))
       \<lparr>l_from = w, l_receiver = receiver, l_payment = pay, l_balance = fund,
        total_staked = \<lparr>amount = rented, symbol = cs\<rparr>,
        l_loan_num = rp_loan_num (add_loan_to_rex_pool pay rented True p),
        expiration = i64 (now E + 30 * useconds_per_day)\<rparr> (loans k X2)"
    using em by (auto simp: emplace_def split: option.splits if_splits)
  note N0 = new_loan_inv [OF f(1,7) p av2 g(1) pm g(2) rr _ _ _ _ conjunct1 [OF em'], of
      "\<lparr>l_from = w, l_receiver = receiver, l_payment = pay, l_balance = fund,
        total_staked = \<lparr>amount = rented, symbol = cs\<rparr>,
        l_loan_num = rp_loan_num (add_loan_to_rex_pool pay rented True p),
        expiration = i64 (now E + 30 * useconds_per_day)\<rparr>"]
  have N: "rex_inv (rx ?S3)" "rex_owed (rx ?S3) = rex_owed X2 + amount pay + amount fund"
    using N0 em' by simp_all
  have "sound S1 ?S3"
    by (rule sound_emit [of _ _ "[?e]"]) (use N f(2) sumv in simp_all)
  moreover have "sound ?S3 S'"
    by (rule sound_same) (use limits_for_frame [OF lim] N in auto)
  ultimately show ?thesis using maintained_sound [OF m(1)] sound_trans by blast
qed

lemma loan_balance_inv:
  assumes X: "rex_inv X" and l: "fmlookup (loans k X) n = Some l"
    and v: "0 \<le> amount (l_balance l')" "l_payment l' = l_payment l" "total_staked l' = total_staked l" "l_loan_num l' = l_loan_num l"
  shows "rex_inv (set_loans k (fmupd n l' (loans k X)) X) \<and>
    rex_owed (set_loans k (fmupd n l' (loans k X)) X) = rex_owed X - amount (l_balance l) + amount (l_balance l')"
proof -
  note I = inv_parts [OF X] and D = rex_okD [OF inv_parts(1) [OF X]]
  let ?X = "set_loans k (fmupd n l' (loans k X)) X"
  have lo: "loans_ok (fmupd n l' (loans k X))"
    using rex_ok_loans [OF I(1), of k] l v by (auto simp: loans_ok_def)
  have st: "staked_sum (fmupd n l' (loans k X)) = staked_sum (loans k X)" using l v by (simp add: sum_defs)
  have "rex_ok ?X"
    using I(1) lo st by (cases k) (auto simp: rex_ok_def loans_def set_loans_def funds_ok_def orders_ok_def)
  moreover have "holdings_ok ?X" by (rule holdings_ok_pool [OF I(2)]) simp_all
  moreover have "orders_backed ?X" by (rule orders_backed_frame [OF I(3)]) simp_all
  moreover have "promise_ok ?X" using I(4) by (simp add: promise_ok_def)
  moreover have "rex_owed ?X = rex_owed X - amount (l_balance l) + amount (l_balance l')"
    unfolding rex_owed_set_loans using l by (simp add: table_sums_upd)
  ultimately show ?thesis by (simp add: rex_inv_def)
qed

lemma fund_loan_sound:
  assumes E: "lib_ok E" and X: "rex_inv (rx S)" "rex_small (rx S)"
    and run: "fund_loan E k w n pay S = Inr S'"
  shows "sound S S'"
proof -
  obtain X1 l where x1: "transfer_from_fund E (core_symbol S) w pay (rx S) = Inr X1" and
    l: "fmlookup (loans k X1) n = Some l" and
    S': "S' = S\<lparr>rx := set_loans k (fmupd n (l\<lparr>l_balance := inc_amt (amount pay) (l_balance l)\<rparr>) (loans k X1)) X1\<rparr>"
    using run by (auto simp: fund_loan_def on_rx_frame fund_rex_loan_def)
  note f = fund_taken [OF E X x1]
  note L = loans_okD [OF rex_ok_loans [OF inv_parts(1) [OF f(1)]] l] loan_bounds [OF inv_parts(1) [OF f(1)] l]
  have sm: "rex_owed X1 + amount pay \<le> core_cap" using f(2) rex_smallD(1) [OF inv_parts(1) [OF X(1)] X(2)] by simp
  have w: "i64 (amount (l_balance l) + amount pay) = amount (l_balance l) + amount pay"
    using L(3,5) sm f(4) by (intro i64_small) (auto simp: core_cap_def)
  have "0 \<le> amount (l_balance (l\<lparr>l_balance := inc_amt (amount pay) (l_balance l)\<rparr>))" using w L(3) f(4) by simp
  note N = loan_balance_inv [OF f(1) l this]
  show ?thesis
    by (rule sound_emit [of _ _ "[]"]) (use N S' w f(2) in simp_all)
qed

lemma defund_loan_sound:
  assumes E: "lib_ok E" and X: "rex_inv (rx S)" "rex_small (rx S)"
    and run: "defund_loan E k w n amt S = Inr S'"
  shows "sound S S'"
proof -
  obtain l where l: "fmlookup (loans k (rx S)) n = Some l" and le: "amount amt \<le> amount (l_balance l)" and
    t: "transfer_to_fund (core_symbol S) w amt
      (set_loans k (fmupd n (l\<lparr>l_balance := inc_amt (- amount amt) (l_balance l)\<rparr>) (loans k (rx S))) (rx S)) = Inr (rx S')"
    and S': "S' = S\<lparr>rx := rx S'\<rparr>"
    using run by (auto simp: defund_loan_def on_rx_frame defund_rex_loan_def le_asset_lib [OF E])
  have pos: "0 < amount amt" using t by (auto simp: transfer_to_fund_def)
  note I = inv_parts(1) [OF X(1)]
  note L = loans_okD [OF rex_ok_loans [OF I] l] loan_bounds [OF I l]
  have sm: "rex_owed (rx S) \<le> core_cap" using rex_smallD(1) [OF I X(2)] .
  have w: "i64 (amount (l_balance l) - amount amt) = amount (l_balance l) - amount amt"
    using L(3,5) sm pos le by (intro i64_small) (auto simp: core_cap_def)
  let ?X1 = "set_loans k (fmupd n (l\<lparr>l_balance := inc_amt (- amount amt) (l_balance l)\<rparr>) (loans k (rx S))) (rx S)"
  have "rex_inv ?X1 \<and> rex_owed ?X1 = rex_owed (rx S) - amount amt"
    using loan_balance_inv [OF X(1) l, of "l\<lparr>l_balance := inc_amt (- amount amt) (l_balance l)\<rparr>"] w le by simp
  then have N: "rex_inv ?X1" "rex_owed ?X1 = rex_owed (rx S) - amount amt" by simp_all
  have b: "rex_owed ?X1 < 2 ^ 62" "amount amt < 2 ^ 62" using N(2) sm pos le L(5) by (auto simp: core_cap_def)
  from transfer_to_fund_law [OF inv_parts(1) [OF N(1)] b t] obtain u where
    u: "rx S' = ?X1\<lparr>rexfunds := u\<rparr>" "rex_ok (rx S')" "rex_owed (rx S') = rex_owed ?X1 + amount amt" by blast
  have "rex_inv (rx S')" using inv_funds [OF N(1), of u] u by simp
  then show ?thesis
    by (rule sound_emit [of _ _ "[]"]) (use S' u N in \<open>auto intro: arg_cong [where f = effects]\<close>)
qed

section \<open>Maintenance\<close>

lemma vote_stake_row [simp]:
  "bal_ok (rb\<lparr>vote_stake := v\<rparr>) = bal_ok rb"
  by (simp add: bal_ok_def row_ok_def rex_held_def)

lemma restaked_row:
  assumes "rex_inv X" "fmlookup (rexbalance X) w = Some rb"
  shows "bal_ok (rb\<lparr>vote_stake := v\<rparr>)" "amount (rb_rex_balance (rb\<lparr>vote_stake := v\<rparr>)) = amount (rb_rex_balance rb)"
    "pending X w \<le> matured_rex (rb\<lparr>vote_stake := v\<rparr>)"
proof -
  have b: "bal_ok rb" using holdings_okD(1) [OF inv_parts(2) [OF assms(1)] assms(2)] .
  then show "bal_ok (rb\<lparr>vote_stake := v\<rparr>)" "amount (rb_rex_balance (rb\<lparr>vote_stake := v\<rparr>)) = amount (rb_rex_balance rb)"
    by simp_all
  show "pending X w \<le> matured_rex (rb\<lparr>vote_stake := v\<rparr>)"
    using pending_backed [OF inv_parts(3) [OF assms(1)] assms(2)] bal_ok_bounds [OF b] by simp
qed

lemma updaterex_sound:
  assumes E: "lib_ok E" and X: "rex_inv (rx S)" "rex_small (rx S)"
    and run: "updaterex E w S = Inr S'"
  shows "sound S S'"
proof -
  obtain S1 rb z v d q S3 rb3 where r: "runrex E 2 S = Inr S1" and rb: "fmlookup (rexbalance (rx S1)) w = Some rb" and
    z: "zero_core E S1 = Inr z" and
    u: "update_rex_account E w z d True (put_rexbal w (rb\<lparr>vote_stake := v\<rparr>) S1) = Inr (q, S3)" and
    rb3: "fmlookup (rexbalance (rx S3)) w = Some rb3" and S': "S' = put_rexbal w (process_rex_maturities E rb3) S3"
    using run by (auto simp: updaterex_def rexbal_of_def Let_def)
  note m = runrex_maintained [OF E X r]
  note s1 = maintainedD(1) [OF m(1)] maintainedD(10) [OF m(1) X(2)]
  note p = put_rexbal_sound [OF s1(1) rb restaked_row [OF s1(1) rb]]
  note s3 = settled_sound [OF E sound_inv [OF p(1)] p(2) [OF s1(2)] u zero_core_amount [OF E z]]
  note f = put_rexbal_sound(1) [OF sound_inv [OF s3(1)] rb3 matured_row [OF sound_inv [OF s3(1)] rb3, of E]]
  show ?thesis
    using sound_trans [OF maintained_sound [OF m(1)] sound_trans [OF p(1) sound_trans [OF s3(1) f]]] S' by blast
qed

lemma setrex_sound:
  assumes X: "rex_inv (rx S)" and run: "setrex E bal S = Inr S'"
  shows "sound S S'"
proof -
  note I = inv_parts [OF X]
  obtain p where p: "rexpool (rx S) = Some p" and pos: "0 < amount bal"
    and S': "S' = S\<lparr>rx := (rx S)\<lparr>rexpool := Some (p\<lparr>total_rent := bal\<rparr>)\<rparr>\<rparr>"
    using run by (auto simp: setrex_def the_pool_def)
  let ?X = "(rx S)\<lparr>rexpool := Some (p\<lparr>total_rent := bal\<rparr>)\<rparr>"
  have "rex_ok ?X" using I(1) p pos by (simp add: rex_ok_def funds_ok_def orders_ok_def pool_ok_def)
  moreover have "holdings_ok ?X" "promise_ok ?X"
    using I(2,4) p by (simp_all add: holdings_ok_def rex_sum_def pool_field_def promise_ok_def)
  moreover have "orders_backed ?X" by (rule orders_backed_frame [OF I(3)]) simp_all
  moreover have "rex_owed ?X = rex_owed (rx S)" using p by (simp add: rex_owed_def sum_defs)
  ultimately show ?thesis by (intro sound_emit [of _ _ "[]"]) (simp_all add: S' rex_inv_def)
qed

lemma rexexec_sound:
  assumes "lib_ok E" "rex_inv (rx S)" "rex_small (rx S)" "rexexec E user most S = Inr S'"
  shows "sound S S'"
  using runrex_maintained(1) [of E S most S'] assms by (auto simp: rexexec_def intro: maintained_sound)

lemma consolidate_sound:
  assumes E: "lib_ok E" and X: "rex_inv (rx S)" "rex_small (rx S)"
    and run: "consolidate E w S = Inr S'"
  shows "sound S S'"
proof -
  obtain S1 z q S2 rb where r: "runrex E 2 S = Inr S1" and z: "zero_core E S1 = Inr z" and
    u: "update_rex_account E w z z False S1 = Inr (q, S2)" and rb: "fmlookup (rexbalance (rx S2)) w = Some rb" and
    S': "S' = put_rexbal w (consolidate_rex_balance E q rb) S2"
    using run by (auto simp: consolidate_def rexbal_of_def)
  note m = runrex_maintained [OF E X r]
  note s1 = maintainedD(1) [OF m(1)] maintainedD(10) [OF m(1) X(2)]
  note a0 = zero_core_amount [OF E z]
  note s2 = settled_sound [OF E s1 u a0] and q = settle_law(2,3) [OF E s1 u a0]
  note b = holdings_okD(1) [OF inv_parts(2) [OF sound_inv [OF s2(1)]] rb]
  have row: "row_ok rb" and "amount q \<le> matured_rex rb"
    using b q pending_backed [OF inv_parts(3) [OF sound_inv [OF s2(1)]] rb] bal_ok_bounds [OF b] by (auto simp: bal_ok_def)
  note C = consolidate_law [OF row q(2) this(2), of E]
  have "sound S2 S'" unfolding S'
    by (rule put_rexbal_sound(1) [OF sound_inv [OF s2(1)] rb]) (use C b q in \<open>simp_all add: bal_ok_def\<close>)
  then show ?thesis using sound_trans [OF maintained_sound [OF m(1)] sound_trans [OF s2(1)]] by blast
qed

lemma mvtosavings_sound:
  assumes E: "lib_ok E" and X: "rex_inv (rx S)" "rex_small (rx S)" and i64: "is_i64 (amount rex)"
    and run: "mvtosavings E w rex S = Inr S'"
  shows "sound S S'"
proof -
  obtain S1 z q S2 rb0 rb2 where r: "runrex E 2 S = Inr S1" and pos: "0 < amount rex" and
    z: "zero_core E S1 = Inr z" and
    u: "update_rex_account E w z z False S1 = Inr (q, S2)" and rb: "fmlookup (rexbalance (rx S2)) w = Some rb0" and
    mv: "move_to_savings (amount rex) q (process_rex_maturities E (fst (read_rex_savings rb0))) = Inr rb2" and
    S': "S' = put_rexbal w (put_rex_savings (i64 (snd (read_rex_savings rb0) + amount rex)) rb2) S2"
    using run by (auto simp: mvtosavings_def rexbal_of_def case_prod_beta)
  obtain rb1 sv where sv: "read_rex_savings rb0 = (rb1, sv)" by fastforce
  note mv = mv [unfolded sv fst_conv] and S' = S' [unfolded sv snd_conv]
  note m = runrex_maintained [OF E X r]
  note s1 = maintainedD(1) [OF m(1)] maintainedD(10) [OF m(1) X(2)]
  note a0 = zero_core_amount [OF E z]
  note s2 = settled_sound [OF E s1 u a0] and q = settle_law(2,3) [OF E s1 u a0]
  note b = holdings_okD(1) [OF inv_parts(2) [OF sound_inv [OF s2(1)]] rb]
  have row: "row_ok rb0" "rex_held rb0 = amount (rb_rex_balance rb0)" and qm: "amount q \<le> matured_rex rb0"
    using b q pending_backed [OF inv_parts(3) [OF sound_inv [OF s2(1)]] rb] bal_ok_bounds [OF b] by (auto simp: bal_ok_def)
  note R = read_savings_law [OF row(1) sv]
  note P = process_law [OF R(1), of E]
  have "amount rex < 2 ^ 63" "amount q \<le> matured_rex (process_rex_maturities E rb1)"
    using i64 P(3) R(4) qm by (auto simp: is_i64_def)
  note M = move_to_savings_law [OF P(1) pos this(1) q(2) this(2) mv]
  have h: "rex_held rb0 < 2 ^ 62" "0 \<le> rex_held rb2" using row(1) M(1) bucket_sum_nonneg
    by (auto simp: row_ok_def rex_held_def)
  then have w: "i64 (sv + amount rex) = sv + amount rex"
    using M(2) P(2) R(2,3) pos by (intro i64_small) auto
  have "rex_held rb2 + (sv + amount rex) < 2 ^ 62" using M(2) P(2) R(2) h by simp
  from put_savings_law [OF M(1) _ this] have W: "row_ok (put_rex_savings (sv + amount rex) rb2)"
    "rex_held (put_rex_savings (sv + amount rex) rb2) = rex_held rb0"
    "matured_rex (put_rex_savings (sv + amount rex) rb2) = matured_rex rb2"
    "rb_rex_balance (put_rex_savings (sv + amount rex) rb2) = rb_rex_balance rb0"
    using M P R pos by auto
  have "sound S2 S'" unfolding S' w
    by (rule put_rexbal_sound(1) [OF sound_inv [OF s2(1)] rb]) (use W M(3) row q in \<open>simp_all add: bal_ok_def\<close>)
  then show ?thesis using sound_trans [OF maintained_sound [OF m(1)] sound_trans [OF s2(1)]] by blast
qed

lemma mvfrsavings_sound:
  assumes E: "lib_ok E" and X: "rex_inv (rx S)" "rex_small (rx S)"
    and run: "mvfrsavings E w rex S = Inr S'"
  shows "sound S S'"
proof -
  obtain S1 Sx z q rb0 where r: "runrex E 2 S = Inr S1" and rb: "fmlookup (rexbalance (rx S1)) w = Some rb0" and
    pos: "0 < amount rex" and le: "amount rex \<le> snd (read_rex_savings rb0)" and
    z: "zero_core E Sx = Inr z" and
    u: "update_rex_account E w z z False (put_rexbal w (put_rex_savings (i64 (snd (read_rex_savings rb0) - amount rex))
      ((process_rex_maturities E (fst (read_rex_savings rb0)))\<lparr>rex_maturities := add_bucket (get_rex_maturity E) (amount rex)
        (rex_maturities (process_rex_maturities E (fst (read_rex_savings rb0))))\<rparr>)) S1) = Inr (q, S')"
    using run by (auto simp: mvfrsavings_def rexbal_of_def Let_def case_prod_beta)
  obtain rb1 sv where sv: "read_rex_savings rb0 = (rb1, sv)" by fastforce
  note u = u [unfolded sv fst_conv snd_conv] and le = le [unfolded sv snd_conv]
  note m = runrex_maintained [OF E X r]
  note s1 = maintainedD(1) [OF m(1)] maintainedD(10) [OF m(1) X(2)]
  note b = holdings_okD(1) [OF inv_parts(2) [OF s1(1)] rb]
  have row: "row_ok rb0" "rex_held rb0 = amount (rb_rex_balance rb0)" and qm: "pending (rx S1) w \<le> matured_rex rb0"
    using b pending_backed [OF inv_parts(3) [OF s1(1)] rb] bal_ok_bounds [OF b] by (auto simp: bal_ok_def)
  note R = read_savings_law [OF row(1) sv]
  note P = process_law [OF R(1), of E]
  let ?rb = "process_rex_maturities E rb1"
  let ?rb2 = "?rb\<lparr>rex_maturities := add_bucket (get_rex_maturity E) (amount rex) (rex_maturities ?rb)\<rparr>"
  have h: "rex_held rb0 < 2 ^ 62" "0 \<le> rex_held ?rb" using row(1) P(1) bucket_sum_nonneg
    by (auto simp: row_ok_def rex_held_def)
  have w: "i64 (sv - amount rex) = sv - amount rex" using pos le R(2,3) P(2) h by (intro i64_small) auto
  have "rex_held ?rb + amount rex < 2 ^ 62" using P(2) R(2) le h by simp
  note A = bucket_added_law [OF P(1) less_imp_le [OF pos] this, of "get_rex_maturity E"]
  have "rex_held ?rb2 + (sv - amount rex) < 2 ^ 62" using A(2) P(2) R(2) h by simp
  note W = put_savings_law [OF A(1) _ this]
  have p: "sound S1 (put_rexbal w (put_rex_savings (sv - amount rex) ?rb2) S1)"
    "rex_small (rx S1) \<Longrightarrow> rex_small (rx (put_rexbal w (put_rex_savings (sv - amount rex) ?rb2) S1))"
    by (rule put_rexbal_sound [OF s1(1) rb]; use W A P R row qm le in \<open>simp add: bal_ok_def\<close>)+
  note s2 = settled_sound [OF E sound_inv [OF p(1)] p(2) [OF s1(2)] u [unfolded w] zero_core_amount [OF E z]]
  show ?thesis using sound_trans [OF maintained_sound [OF m(1)] sound_trans [OF p(1) s2(1)]] .
qed

lemma drop_fund_law:
  assumes "rex_inv X"
  shows "rex_inv (drop_fund w X)" "rex_owed (drop_fund w X) = rex_owed X"
    "rexbalance (drop_fund w X) = rexbalance X" "rexorders (drop_fund w X) = rexorders X"
proof -
  note I = inv_parts [OF assms]
  have ok: "rex_ok (X\<lparr>rexfunds := fmdrop w (rexfunds X)\<rparr>)"
    by (rule rex_ok_funds [OF I(1)]) (use rex_okD(1) [OF I(1)] in \<open>auto simp: funds_ok_def\<close>)
  show "rex_inv (drop_fund w X)" using inv_funds [OF assms ok] assms by (simp add: drop_fund_def split: option.split)
  show "rex_owed (drop_fund w X) = rex_owed X"
    by (auto simp: drop_fund_def rex_owed_def sum_defs split: option.split)
  show "rexbalance (drop_fund w X) = rexbalance X" "rexorders (drop_fund w X) = rexorders X"
    by (simp_all add: drop_fund_def split: option.split)
qed

lemma drop_balance_law:
  assumes X: "rex_inv X" and run: "drop_balance w X = Inr X'"
  shows "rex_inv X'" "rex_owed X' = rex_owed X"
proof -
  note I = inv_parts [OF X]
  have "rex_inv X' \<and> rex_owed X' = rex_owed X"
  proof (cases "fmlookup (rexbalance X) w")
    case None
    then show ?thesis using run X by (simp add: drop_balance_def)
  next
    case (Some rb)
    have z: "amount (rb_rex_balance rb) = 0" and X': "X' = X\<lparr>rexbalance := fmdrop w (rexbalance X)\<rparr>"
      using run Some by (auto simp: drop_balance_def)
    have no: "\<not> is_open r" if "fmlookup (rexorders X) w = Some r" for r
      using orders_backedD [OF I(3) that] Some z bal_ok_bounds [OF holdings_okD(1) [OF I(2) Some]] by auto
    have 1: "rex_ok X'" using I(1) unfolding X' by (simp add: rex_ok_def funds_ok_def orders_ok_def)
    have 2: "holdings_ok X'" using I(2) Some z unfolding X' by (auto simp: holdings_ok_def rex_sum_def pool_field_def)
    have 3: "orders_backed X'"
      unfolding orders_backed_def X' using orders_backedD [OF I(3)] no by (auto split: if_splits)
    show ?thesis using 1 2 3 I(4) unfolding X' by (simp add: rex_inv_def promise_ok_def rex_owed_def sum_defs)
  qed
  then show "rex_inv X'" "rex_owed X' = rex_owed X" by blast+
qed

lemma closerex_sound:
  assumes E: "lib_ok E" and X: "rex_inv (rx S)" "rex_small (rx S)"
    and run: "closerex E w S = Inr S'"
  shows "sound S S'"
proof -
  obtain S1 z q S2 X' where r: "(if rex_system_initialized (rx S) then runrex E 2 S else Inr S) = Inr S1" and
    z: "zero_core E S1 = Inr z" and u: "update_rex_account E w z z False S1 = Inr (q, S2)" and
    d: "drop_balance w (drop_fund w (rx S2)) = Inr X'" and S': "S' = S2\<lparr>rx := X'\<rparr>"
    using run by (auto simp: closerex_def on_rx_frame)
  have m: "maintained S S1"
    using r runrex_maintained(1) [OF E X] maintained_refl [OF X(1)] by (auto split: if_splits)
  note s2 = settled_sound [OF E maintainedD(1) [OF m] maintainedD(10) [OF m X(2)] u zero_core_amount [OF E z]]
  note D = drop_fund_law [OF sound_inv [OF s2(1)], of w]
  note F = drop_balance_law [OF D(1) d]
  have "sound S2 S'" by (rule sound_emit [of _ _ "[]"]) (use D F S' in simp_all)
  then show ?thesis using sound_trans [OF maintained_sound [OF m] sound_trans [OF s2(1)]] by blast
qed

end
