(* ===== verification/Demo.thy ===== *)
theory Demo
  imports Ledger
begin

text \<open>
  A small state of the system contract, on which the witnesses evaluate: a market, two accounts
  (\<open>alice\<close> holds all REX, \<open>bob\<close> has a REX fund) that vote through the proxy \<open>carol\<close>, a pool
  of a million units without loans.
\<close>

definition alice :: name where "alice = 0x3456789000000000"
definition bob :: name where "bob = 0x3d0e000000000000"
definition carol :: name where "carol = 0x41ae740000000000"

lemma demo_accounts [simp]:
  "alice \<noteq> bob" "bob \<noteq> alice" "alice \<noteq> rex_account" "bob \<noteq> rex_account" "alice \<noteq> 0" "bob \<noteq> 0"
  "alice \<noteq> names_account" "bob \<noteq> names_account" "alice \<noteq> stake_account" "bob \<noteq> stake_account"
  "alice \<noteq> carol" "carol \<noteq> alice" "bob \<noteq> carol" "carol \<noteq> bob" "carol \<noteq> 0"
  "alice \<noteq> b1_account" "bob \<noteq> b1_account" "alice \<noteq> ram_account" "bob \<noteq> ram_account"
  by (simp_all add: alice_def bob_def carol_def account_defs)

definition coins :: "int \<Rightarrow> asset" where "coins n = \<lparr>amount = n, symbol = eos\<rparr>"
definition rexes :: "int \<Rightarrow> asset" where "rexes n = \<lparr>amount = n, symbol = rex_symbol\<rparr>"

lemma coins_simps [simp]: "amount (coins n) = n" "symbol (coins n) = eos"
  "amount (rexes n) = n" "symbol (rexes n) = rex_symbol"
  by (simp_all add: coins_def rexes_def)

definition demo_gstate :: eosio_global_state where
  "demo_gstate =
     \<lparr>parameters = \<lparr>max_authority_depth = 6, other_parameters = []\<rparr>, max_ram_size = 1000000,
      total_ram_bytes_reserved = 400000, total_ram_stake = 5000, last_producer_schedule_update = 0,
      last_pervote_bucket_fill = 0, pervote_bucket = 0, perblock_bucket = 0, total_unpaid_blocks = 0,
      total_activated_stake = 0, thresh_activated_stake_time = 0, last_producer_schedule_size = 0,
      total_producer_vote_weight = 0, last_name_close = 0\<rparr>"

definition demo_voting :: voting_state where
  "demo_voting =
     \<lparr>voters = fmupd alice ((new_voter alice)\<lparr>proxy := carol, staked := 2000000\<rparr>)
        (fmupd bob ((new_voter bob)\<lparr>proxy := carol, staked := 2000000\<rparr>)
        (fmupd carol ((new_voter carol)\<lparr>is_proxy := True\<rparr>) fmempty)),
      producers = fmempty, producers2 = fmempty, gstate = demo_gstate,
      gstate2 = \<lparr>new_ram_per_block = 0, last_ram_increase = 0, last_block_num = 0,
        total_producer_votepay_share = 0, revision = 0\<rparr>,
      gstate3 = \<lparr>last_vpay_state_update = 0, total_vpay_share_change_rate = 0\<rparr>\<rparr>"

definition demo_pool :: rex_pool where
  "demo_pool = \<lparr>total_lent = coins 0, total_unlent = coins 1000000, total_rent = coins 20000,
     total_lendable = coins 1000000, total_rex = rexes 10000000000, namebid_proceeds = coins 0, rp_loan_num = 0\<rparr>"

definition alice_rex :: rex_balance where
  "alice_rex = \<lparr>rb_owner = alice, vote_stake = coins 1000000, rb_rex_balance = rexes 10000000000,
     matured_rex = 9000000000, rex_maturities = [(1600300800, 600000000), (2 ^ 32 - 1, 400000000)]\<rparr>"

definition demo_rex :: rex_state where
  "demo_rex = \<lparr>rexpool = Some demo_pool,
     rexfunds = fmupd bob \<lparr>rf_owner = bob, rf_balance = coins 500\<rparr> fmempty,
     rexbalance = fmupd alice alice_rex fmempty, rexorders = fmempty, cpu_loans = fmempty, net_loans = fmempty\<rparr>"

definition demo_state :: system_state where
  "demo_state =
     \<lparr>vs = demo_voting,
      rs = \<lparr>userres = fmempty, delband = fmempty, refunds = fmempty, limits = fmupd alice (1000, 0, 0) (fmupd bob (1000, 0, 0) fmempty)\<rparr>,
      rx = demo_rex, ns = \<lparr>namebids = fmempty, bidrefunds = fmempty\<rparr>,
      rammarket = Some \<lparr>es_supply = \<lparr>amount = 100000000000000, symbol = ramcore_symbol\<rparr>,
        base = \<lparr>c_balance = \<lparr>amount = 600000, symbol = ram_symbol\<rparr>, weight = 1 / 2\<rparr>,
        quote = \<lparr>c_balance = coins 5000, weight = 1 / 2\<rparr>\<rparr>,
      abihash = fmempty, effects = []\<rparr>"

lemma demo_state_rx [simp]: "rx demo_state = demo_rex" "effects demo_state = []"
  by (simp_all add: demo_state_def)

lemma rows_empty [simp]: "rows fmempty = []"
  using set_rows [of fmempty] by simp

lemma index_by_empty [simp]: "index_by f fmempty = []"
  by (simp add: index_by_def)

end
