(* ===== verification/Token.thy ===== *)
theory Token
  imports Chain
begin

text \<open>
  The token contract (\<open>eosio.token\<close>): its two tables, its six actions and its read
  functions. The invariant \<open>token_inv\<close> says that a supply is the sum of the balances of its
  currency and never exceeds the maximum; every action keeps it.
\<close>

section \<open>Tables\<close>

text \<open>
  \<open>accounts\<close> is scoped by owner and keyed by symbol code, \<open>stats\<close> is scoped and keyed by
  symbol code. The payer of a row's memory is chain bookkeeping and is not kept.
\<close>

record account =
  balance :: asset

record currency_stats =
  "supply" :: asset
  max_supply :: asset
  issuer :: name

record token_state =
  accounts :: "(name \<times> symbol_code, account) table"
  stats :: "(symbol_code, currency_stats) table"
  notified :: "name list"

definition code_of :: "asset \<Rightarrow> symbol_code" where
  "code_of q = sym_code (symbol q)"

section \<open>Actions\<close>

definition token_create :: "env \<Rightarrow> name \<Rightarrow> asset \<Rightarrow> token_state \<Rightarrow> token_state res" where
  "token_create E iss maximum_supply T =
     bindE (require_auth E (get_self E)) (\<lambda>_.
     let symb = symbol maximum_supply in
     bindE (check (sym_is_valid E symb) ''invalid symbol name'') (\<lambda>_.
     bindE (check (asset_is_valid E maximum_supply) ''invalid supply'') (\<lambda>_.
     bindE (check (0 < amount maximum_supply) ''max-supply must be positive'') (\<lambda>_.
     let existing = fmlookup (stats T) (sym_code symb) in
     bindE (check (existing = None) ''token with symbol already exists'') (\<lambda>_.
     Inr (T\<lparr>stats := fmupd (sym_code symb)
            \<lparr>supply = \<lparr>amount = 0, symbol = symb\<rparr>, max_supply = maximum_supply, issuer = iss\<rparr>
            (stats T)\<rparr>))))))"

definition sub_balance :: "env \<Rightarrow> name \<Rightarrow> asset \<Rightarrow> token_state \<Rightarrow> token_state res" where
  "sub_balance E owner val T =
     bindE (some_or (Check ''no balance object found'') (fmlookup (accounts T) (owner, code_of val))) (\<lambda>from.
     bindE (check (amount val \<le> amount (balance from)) ''overdrawn balance'') (\<lambda>_.
     bindE (sub_asset E (balance from) val) (\<lambda>b.
     Inr (T\<lparr>accounts := fmupd (owner, code_of val) (from\<lparr>balance := b\<rparr>) (accounts T)\<rparr>))))"

definition add_balance :: "env \<Rightarrow> name \<Rightarrow> asset \<Rightarrow> name \<Rightarrow> token_state \<Rightarrow> token_state res" where
  "add_balance E owner val ram_payer T =
     (case fmlookup (accounts T) (owner, code_of val) of
        None \<Rightarrow> Inr (T\<lparr>accounts := fmupd (owner, code_of val) \<lparr>balance = val\<rparr> (accounts T)\<rparr>)
      | Some to \<Rightarrow>
          bindE (add_asset E (balance to) val) (\<lambda>b.
          Inr (T\<lparr>accounts := fmupd (owner, code_of val) (to\<lparr>balance := b\<rparr>) (accounts T)\<rparr>)))"

definition token_issue :: "env \<Rightarrow> name \<Rightarrow> asset \<Rightarrow> string \<Rightarrow> token_state \<Rightarrow> token_state res" where
  "token_issue E to quantity memo T =
     bindE (check (sym_is_valid E (symbol quantity)) ''invalid symbol name'') (\<lambda>_.
     bindE (check (length memo \<le> 256) ''memo has more than 256 bytes'') (\<lambda>_.
     bindE (some_or (Check ''token with symbol does not exist, create token before issue'')
       (fmlookup (stats T) (code_of quantity))) (\<lambda>st.
     bindE (check (to = issuer st) ''tokens can only be issued to issuer account'') (\<lambda>_.
     bindE (require_auth E (issuer st)) (\<lambda>_.
     bindE (check (asset_is_valid E quantity) ''invalid quantity'') (\<lambda>_.
     bindE (check (0 < amount quantity) ''must issue positive quantity'') (\<lambda>_.
     bindE (check (symbol quantity = symbol (supply st)) ''symbol precision mismatch'') (\<lambda>_.
     bindE (check (amount quantity \<le> i64 (amount (max_supply st) - amount (supply st)))
       ''quantity exceeds available supply'') (\<lambda>_.
     bindE (add_asset E (supply st) quantity) (\<lambda>s.
     add_balance E (issuer st) quantity (issuer st)
       (T\<lparr>stats := fmupd (code_of quantity) (st\<lparr>supply := s\<rparr>) (stats T)\<rparr>)))))))))))"

definition token_retire :: "env \<Rightarrow> asset \<Rightarrow> string \<Rightarrow> token_state \<Rightarrow> token_state res" where
  "token_retire E quantity memo T =
     bindE (check (sym_is_valid E (symbol quantity)) ''invalid symbol name'') (\<lambda>_.
     bindE (check (length memo \<le> 256) ''memo has more than 256 bytes'') (\<lambda>_.
     bindE (some_or (Check ''token with symbol does not exist'')
       (fmlookup (stats T) (code_of quantity))) (\<lambda>st.
     bindE (require_auth E (issuer st)) (\<lambda>_.
     bindE (check (asset_is_valid E quantity) ''invalid quantity'') (\<lambda>_.
     bindE (check (0 < amount quantity) ''must retire positive quantity'') (\<lambda>_.
     bindE (check (symbol quantity = symbol (supply st)) ''symbol precision mismatch'') (\<lambda>_.
     bindE (sub_asset E (supply st) quantity) (\<lambda>s.
     sub_balance E (issuer st) quantity
       (T\<lparr>stats := fmupd (code_of quantity) (st\<lparr>supply := s\<rparr>) (stats T)\<rparr>)))))))))"

definition token_transfer ::
    "env \<Rightarrow> name \<Rightarrow> name \<Rightarrow> asset \<Rightarrow> string \<Rightarrow> token_state \<Rightarrow> token_state res" where
  "token_transfer E from to quantity memo T =
     bindE (check (from \<noteq> to) ''cannot transfer to self'') (\<lambda>_.
     bindE (require_auth E from) (\<lambda>_.
     bindE (check (is_account E to) ''to account does not exist'') (\<lambda>_.
     bindE (some_or (Check ''unable to find key'') (fmlookup (stats T) (code_of quantity))) (\<lambda>st.
     let T = T\<lparr>notified := notified T @ [from, to]\<rparr> in
     bindE (check (asset_is_valid E quantity) ''invalid quantity'') (\<lambda>_.
     bindE (check (0 < amount quantity) ''must transfer positive quantity'') (\<lambda>_.
     bindE (check (symbol quantity = symbol (supply st)) ''symbol precision mismatch'') (\<lambda>_.
     bindE (check (length memo \<le> 256) ''memo has more than 256 bytes'') (\<lambda>_.
     let payer = (if has_auth E to then to else from) in
     bindE (sub_balance E from quantity T) (\<lambda>T.
     add_balance E to quantity payer T)))))))))"

definition token_open :: "env \<Rightarrow> name \<Rightarrow> symbol \<Rightarrow> name \<Rightarrow> token_state \<Rightarrow> token_state res" where
  "token_open E owner symb ram_payer T =
     bindE (require_auth E ram_payer) (\<lambda>_.
     bindE (check (is_account E owner) ''owner account does not exist'') (\<lambda>_.
     bindE (some_or (Check ''symbol does not exist'') (fmlookup (stats T) (sym_code symb))) (\<lambda>st.
     bindE (check (symbol (supply st) = symb) ''symbol precision mismatch'') (\<lambda>_.
     (case fmlookup (accounts T) (owner, sym_code symb) of
        None \<Rightarrow>
          bindE (new_asset E 0 symb) (\<lambda>z.
          Inr (T\<lparr>accounts := fmupd (owner, sym_code symb) \<lparr>balance = z\<rparr> (accounts T)\<rparr>))
      | Some _ \<Rightarrow> Inr T)))))"

definition token_close :: "env \<Rightarrow> name \<Rightarrow> symbol \<Rightarrow> token_state \<Rightarrow> token_state res" where
  "token_close E owner symb T =
     bindE (require_auth E owner) (\<lambda>_.
     bindE (some_or (Check ''Balance row already deleted or never existed. Action won't have any effect.'')
       (fmlookup (accounts T) (owner, sym_code symb))) (\<lambda>it.
     bindE (check (amount (balance it) = 0) ''Cannot close because the balance is not zero.'') (\<lambda>_.
     Inr (T\<lparr>accounts := fmdrop (owner, sym_code symb) (accounts T)\<rparr>))))"

definition get_supply :: "token_state \<Rightarrow> symbol_code \<Rightarrow> asset res" where
  "get_supply T c =
     bindE (some_or (Check ''unable to find key'') (fmlookup (stats T) c)) (\<lambda>st. Inr (supply st))"

definition get_balance :: "token_state \<Rightarrow> name \<Rightarrow> symbol_code \<Rightarrow> asset res" where
  "get_balance T owner c =
     bindE (some_or (Check ''unable to find key'') (fmlookup (accounts T) (owner, c))) (\<lambda>ac.
     Inr (balance ac))"

section \<open>The invariant\<close>

definition held_in :: "symbol_code \<Rightarrow> account \<Rightarrow> int" where
  "held_in c a = (if code_of (balance a) = c then amount (balance a) else 0)"

definition circulating :: "token_state \<Rightarrow> symbol_code \<Rightarrow> int" where
  "circulating T c = tsum (held_in c) (accounts T)"

definition bal :: "token_state \<Rightarrow> symbol_code \<Rightarrow> name \<Rightarrow> int" where
  "bal T c owner = tval (\<lambda>a. amount (balance a)) (accounts T) (owner, c)"

definition stats_ok :: "token_state \<Rightarrow> bool" where
  "stats_ok T \<longleftrightarrow> (\<forall>c st. fmlookup (stats T) c = Some st \<longrightarrow>
     code_of (supply st) = c \<and> symbol (max_supply st) = symbol (supply st) \<and>
     0 \<le> amount (supply st) \<and> amount (supply st) \<le> amount (max_supply st) \<and>
     in_range (amount (max_supply st)))"

definition accounts_ok :: "token_state \<Rightarrow> bool" where
  "accounts_ok T \<longleftrightarrow> (\<forall>w c a. fmlookup (accounts T) (w, c) = Some a \<longrightarrow>
     0 \<le> amount (balance a) \<and> in_range (amount (balance a)) \<and>
     (\<exists>st. fmlookup (stats T) c = Some st \<and> symbol (balance a) = symbol (supply st)))"

definition supply_ok :: "token_state \<Rightarrow> bool" where
  "supply_ok T \<longleftrightarrow> (\<forall>c st. fmlookup (stats T) c = Some st \<longrightarrow>
     amount (supply st) = circulating T c)"

definition token_inv :: "token_state \<Rightarrow> bool" where
  "token_inv T \<longleftrightarrow> stats_ok T \<and> accounts_ok T \<and> supply_ok T"

text \<open>The actions as values, dispatched as the chain dispatches them to the contract.\<close>

datatype token_action =
    Create name asset
  | Issue name asset string
  | Retire asset string
  | Transfer name name asset string
  | Open name symbol name
  | Close name symbol

fun token_exec :: "env \<Rightarrow> token_action \<Rightarrow> token_state \<Rightarrow> token_state res" where
  "token_exec E (Create iss m) T = token_create E iss m T"
| "token_exec E (Issue to q memo) T = token_issue E to q memo T"
| "token_exec E (Retire q memo) T = token_retire E q memo T"
| "token_exec E (Transfer from to q memo) T = token_transfer E from to q memo T"
| "token_exec E (Open owner s p) T = token_open E owner s p T"
| "token_exec E (Close owner s) T = token_close E owner s T"

definition token_empty :: token_state where
  "token_empty = \<lparr>accounts = fmempty, stats = fmempty, notified = []\<rparr>"

text \<open>States of the contract: each step is an action pushed in an environment of its own.\<close>

inductive token_reachable :: "token_state \<Rightarrow> bool" where
  start: "token_reachable token_empty"
| step: "token_reachable T \<Longrightarrow> lib_ok E \<Longrightarrow> token_exec E a T = Inr T' \<Longrightarrow> token_reachable T'"

section \<open>Balance updates\<close>

lemma account_upd [simp]: "(a::account)\<lparr>balance := b\<rparr> = \<lparr>balance = b\<rparr>"
  by (cases a) simp

lemma asset_eq_iff: "(a::asset) = b \<longleftrightarrow> amount a = amount b \<and> symbol a = symbol b"
  by (cases a; cases b) simp

lemma accounts_okD:
  assumes "accounts_ok T" and "fmlookup (accounts T) (w, c) = Some a"
  shows "0 \<le> amount (balance a)" "in_range (amount (balance a))"
    "\<exists>st. fmlookup (stats T) c = Some st \<and> symbol (balance a) = symbol (supply st)"
  using assms unfolding accounts_ok_def by blast+

lemma is_i64_sub: "0 \<le> a \<Longrightarrow> in_range a \<Longrightarrow> 0 \<le> b \<Longrightarrow> in_range b \<Longrightarrow> is_i64 (a - b)"
  by (simp add: is_i64_def in_range_def asset_max_def abs_le_iff)

lemma is_i64_add: "in_range a \<Longrightarrow> in_range b \<Longrightarrow> is_i64 (a + b)"
  by (simp add: is_i64_def in_range_def asset_max_def abs_le_iff)

lemma sub_balance_Inr:
  assumes "lib_ok E" "accounts_ok T" "0 \<le> amount v" "in_range (amount v)"
  shows "sub_balance E w v T = Inr T' \<longleftrightarrow>
    (\<exists>a. fmlookup (accounts T) (w, code_of v) = Some a \<and> amount v \<le> amount (balance a) \<and>
       symbol (balance a) = symbol v \<and>
       T' = T\<lparr>accounts := fmupd (w, code_of v)
         \<lparr>balance = \<lparr>amount = amount (balance a) - amount v, symbol = symbol v\<rparr>\<rparr> (accounts T)\<rparr>)"
proof (cases "fmlookup (accounts T) (w, code_of v)")
  case None
  then show ?thesis by (simp add: sub_balance_def)
next
  case (Some a)
  note a = accounts_okD [OF assms(2) Some]
  have "in_range (amount (balance a) - amount v)" if "amount v \<le> amount (balance a)"
    using a that assms(3) by (simp add: in_range_def abs_le_iff)
  then show ?thesis
    using Some a is_i64_sub [OF a(1,2) assms(3,4)]
    by (auto simp: sub_balance_def sub_asset_lib [OF assms(1)])
qed

lemma add_balance_Inr:
  assumes "lib_ok E" "accounts_ok T" "in_range (amount v)"
  shows "add_balance E w v p T = Inr T' \<longleftrightarrow>
    (case fmlookup (accounts T) (w, code_of v) of
       None \<Rightarrow> T' = T\<lparr>accounts := fmupd (w, code_of v) \<lparr>balance = v\<rparr> (accounts T)\<rparr>
     | Some a \<Rightarrow> symbol (balance a) = symbol v \<and> in_range (amount (balance a) + amount v) \<and>
         T' = T\<lparr>accounts := fmupd (w, code_of v)
           \<lparr>balance = \<lparr>amount = amount (balance a) + amount v, symbol = symbol v\<rparr>\<rparr> (accounts T)\<rparr>)"
proof (cases "fmlookup (accounts T) (w, code_of v)")
  case None
  then show ?thesis by (auto simp: add_balance_def)
next
  case (Some a)
  note a = accounts_okD [OF assms(2) Some]
  show ?thesis
    using Some is_i64_add [OF a(2) assms(3)]
    by (auto simp: add_balance_def add_asset_lib [OF assms(1)])
qed

text \<open>Both as changes of the abstract balance: \<open>bal\<close> moves by the amount, nothing else moves.\<close>

lemma add_balance_bal:
  assumes "lib_ok E" "accounts_ok T" "in_range (amount v)" "add_balance E w v p T = Inr T'"
  shows "bal T' c b = bal T c b + (if c = code_of v \<and> b = w then amount v else 0)"
    and "stats T' = stats T" and "notified T' = notified T"
  using assms(4) unfolding add_balance_Inr [OF assms(1-3)]
  by (auto simp: bal_def split: option.splits)

lemma sub_balance_bal:
  assumes "lib_ok E" "accounts_ok T" "0 \<le> amount v" "in_range (amount v)" "sub_balance E w v T = Inr T'"
  shows "bal T' c b = bal T c b - (if c = code_of v \<and> b = w then amount v else 0)"
    and "stats T' = stats T" and "notified T' = notified T" and "amount v \<le> bal T (code_of v) w"
  using assms(5) unfolding sub_balance_Inr [OF assms(1-4)]
  by (auto simp: bal_def)

lemma held_in_row [simp]:
  "held_in c \<lparr>balance = q\<rparr> = (if code_of q = c then amount q else 0)"
  by (simp add: held_in_def)

lemma tval_held_in:
  assumes "accounts_ok T" "stats_ok T"
  shows "tval (held_in c) (accounts T) (w, d) = (if d = c then bal T c w else 0)"
proof (cases "fmlookup (accounts T) (w, d)")
  case (Some a)
  from accounts_okD(3) [OF assms(1) this] obtain st where
    st: "fmlookup (stats T) d = Some st" "symbol (balance a) = symbol (supply st)" by blast
  with assms(2) have "code_of (balance a) = d" by (auto simp: stats_ok_def code_of_def)
  with Some show ?thesis by (cases "d = c") (simp_all add: held_in_def bal_def)
next
  case None
  then show ?thesis by (cases "d = c") (simp_all add: bal_def)
qed

lemma circulating_upd:
  assumes "accounts_ok T" "stats_ok T"
  shows "circulating (T\<lparr>accounts := fmupd (w, d) \<lparr>balance = q\<rparr> (accounts T)\<rparr>) c
     = circulating T c - (if d = c then bal T c w else 0) + (if code_of q = c then amount q else 0)"
  using assms by (simp add: circulating_def tval_held_in)

lemma add_balance_circulating:
  assumes "lib_ok E" "accounts_ok T" "stats_ok T" "in_range (amount v)"
    and "add_balance E w v p T = Inr T'"
  shows "circulating T' c = circulating T c + (if c = code_of v then amount v else 0)"
  using assms(5) unfolding add_balance_Inr [OF assms(1,2,4)]
  by (auto simp: circulating_upd assms(2,3) bal_def code_of_def split: option.splits)

lemma sub_balance_circulating:
  assumes "lib_ok E" "accounts_ok T" "stats_ok T" "0 \<le> amount v" "in_range (amount v)"
    and "sub_balance E w v T = Inr T'"
  shows "circulating T' c = circulating T c - (if c = code_of v then amount v else 0)"
  using assms(6) unfolding sub_balance_Inr [OF assms(1,2,4,5)]
  by (auto simp: circulating_upd assms(2,3) bal_def code_of_def)

lemma add_balance_accounts_ok:
  assumes "lib_ok E" "accounts_ok T" "0 \<le> amount v" "in_range (amount v)"
    and "fmlookup (stats T) (code_of v) = Some st" "symbol v = symbol (supply st)"
    and "add_balance E w v p T = Inr T'"
  shows "accounts_ok T'"
  using assms(7) assms(2-6) unfolding add_balance_Inr [OF assms(1,2,4)]
  by (auto simp: accounts_ok_def split: option.splits if_splits)

lemma sub_balance_accounts_ok:
  assumes "lib_ok E" "accounts_ok T" "0 \<le> amount v" "in_range (amount v)"
    and "sub_balance E w v T = Inr T'"
  shows "accounts_ok T'"
proof -
  from assms(5) obtain a where a: "fmlookup (accounts T) (w, code_of v) = Some a"
    "amount v \<le> amount (balance a)" "symbol (balance a) = symbol v"
    "T' = T\<lparr>accounts := fmupd (w, code_of v)
       \<lparr>balance = \<lparr>amount = amount (balance a) - amount v, symbol = symbol v\<rparr>\<rparr> (accounts T)\<rparr>"
    unfolding sub_balance_Inr [OF assms(1-4)] by blast
  note r = accounts_okD [OF assms(2) a(1)]
  have "in_range (amount (balance a) - amount v)"
    using r a(2) assms(3) by (simp add: in_range_def abs_le_iff)
  with a r assms(2) show ?thesis
    by (auto simp: accounts_ok_def)
qed

section \<open>Preservation of the invariant\<close>

lemma stats_ok_stats: "stats T' = stats T \<Longrightarrow> stats_ok T' = stats_ok T"
  by (simp add: stats_ok_def)

lemma supply_ok_supply:
  "supply_ok T \<Longrightarrow> fmlookup (stats T) c = Some st \<Longrightarrow> circulating T c = amount (supply st)"
  by (simp add: supply_ok_def)

lemma token_invD:
  assumes "token_inv T"
  shows "stats_ok T" "accounts_ok T" "supply_ok T"
  using assms by (simp_all add: token_inv_def)

lemma token_create_inv:
  assumes "lib_ok E" "token_inv T" "token_create E iss m T = Inr T'"
  shows "token_inv T'"
proof -
  let ?c = "sym_code (symbol m)"
  from assms(3) have new: "fmlookup (stats T) ?c = None" and m: "0 < amount m" "in_range (amount m)"
    and T': "T' = T\<lparr>stats := fmupd ?c
      \<lparr>supply = \<lparr>amount = 0, symbol = symbol m\<rparr>, max_supply = m, issuer = iss\<rparr> (stats T)\<rparr>"
    by (auto simp: token_create_def Let_def valid_asset_lib [OF assms(1)])
  note I = token_invD [OF assms(2)]
  have none: "held_in ?c a = 0" if "fmlookup (accounts T) k = Some a" for k a
  proof (cases k)
    case (Pair w d)
    with that I(2) obtain st where "fmlookup (stats T) d = Some st" "symbol (balance a) = symbol (supply st)"
      by (blast dest: accounts_okD)
    with new I(1) show ?thesis by (auto simp: held_in_def stats_ok_def code_of_def)
  qed
  have "circulating T ?c = tsum (\<lambda>_. 0) (accounts T)"
    unfolding circulating_def by (rule tsum_cong) (simp add: none)
  then have "circulating T' ?c = 0" by (simp add: T' circulating_def tsum_def)
  moreover have "circulating T' c = circulating T c" for c by (simp add: T' circulating_def)
  moreover have "accounts_ok T'"
    using I(2) new unfolding accounts_ok_def T' by (auto; metis option.distinct(1))
  ultimately show ?thesis
    using I(1,3) m unfolding token_inv_def T'
    by (auto simp: stats_ok_def supply_ok_def code_of_def split: if_splits)
qed

text \<open>The guards of issue, retire and transfer, once for the three proofs.\<close>

lemma token_issue_Inr:
  assumes "lib_ok E" "token_issue E to q memo T = Inr T'"
  obtains st s where "fmlookup (stats T) (code_of q) = Some st" "to = issuer st" "has_auth E to"
    "in_range (amount q)" "0 < amount q" "symbol q = symbol (supply st)" "length memo \<le> 256"
    "amount q \<le> i64 (amount (max_supply st) - amount (supply st))"
    "add_asset E (supply st) q = Inr s"
    "add_balance E to q to (T\<lparr>stats := fmupd (code_of q) (st\<lparr>supply := s\<rparr>) (stats T)\<rparr>) = Inr T'"
  using assms(2) by (auto simp: token_issue_def valid_asset_lib [OF assms(1)])

lemma token_retire_Inr:
  assumes "lib_ok E" "token_retire E q memo T = Inr T'"
  obtains st s where "fmlookup (stats T) (code_of q) = Some st" "has_auth E (issuer st)"
    "in_range (amount q)" "0 < amount q" "symbol q = symbol (supply st)" "length memo \<le> 256"
    "sub_asset E (supply st) q = Inr s"
    "sub_balance E (issuer st) q (T\<lparr>stats := fmupd (code_of q) (st\<lparr>supply := s\<rparr>) (stats T)\<rparr>) = Inr T'"
  using assms(2) by (auto simp: token_retire_def valid_asset_lib [OF assms(1)])

lemma token_transfer_Inr:
  assumes "lib_ok E" "token_transfer E from to q memo T = Inr T'"
  obtains st T1 where "from \<noteq> to" "has_auth E from" "is_account E to"
    "fmlookup (stats T) (code_of q) = Some st" "in_range (amount q)" "0 < amount q"
    "symbol q = symbol (supply st)" "length memo \<le> 256"
    "sub_balance E from q (T\<lparr>notified := notified T @ [from, to]\<rparr>) = Inr T1"
    "add_balance E to q (if has_auth E to then to else from) T1 = Inr T'"
  using assms(2) by (auto simp: token_transfer_def Let_def valid_asset_lib [OF assms(1)])

lemma accounts_ok_supply_upd:
  assumes "accounts_ok T" "fmlookup (stats T) c = Some st" "symbol s = symbol (supply st)"
  shows "accounts_ok (T\<lparr>stats := fmupd c (st\<lparr>supply := s\<rparr>) (stats T)\<rparr>)"
  using assms unfolding accounts_ok_def by (auto; fastforce)

lemma token_issue_inv:
  assumes "lib_ok E" "token_inv T" "token_issue E to q memo T = Inr T'"
  shows "token_inv T'"
  using assms(1,3)
proof (rule token_issue_Inr)
  fix st s
  assume st: "fmlookup (stats T) (code_of q) = Some st" and q: "in_range (amount q)" "0 < amount q"
    "symbol q = symbol (supply st)"
    and avail: "amount q \<le> i64 (amount (max_supply st) - amount (supply st))"
    and s: "add_asset E (supply st) q = Inr s"
    and ab: "add_balance E to q to (T\<lparr>stats := fmupd (code_of q) (st\<lparr>supply := s\<rparr>) (stats T)\<rparr>) = Inr T'"
  let ?T = "T\<lparr>stats := fmupd (code_of q) (st\<lparr>supply := s\<rparr>) (stats T)\<rparr>"
  note I = token_invD [OF assms(2)]
  have S: "0 \<le> amount (supply st)" "amount (supply st) \<le> amount (max_supply st)"
    "in_range (amount (max_supply st))" "symbol (max_supply st) = symbol (supply st)"
    using I(1) st by (auto simp: stats_ok_def)
  then have S': "in_range (amount (supply st))" "is_i64 (amount (max_supply st) - amount (supply st))"
    by (auto simp: in_range_def is_i64_def asset_max_def abs_le_iff)
  have s': "s = \<lparr>amount = amount (supply st) + amount q, symbol = symbol (supply st)\<rparr>"
    using s add_asset_lib [OF assms(1) is_i64_add [OF S'(1) q(1)]] by auto
  have le: "amount (supply st) + amount q \<le> amount (max_supply st)"
    using avail S'(2) by (simp add: i64_id)
  have A: "accounts_ok ?T" using accounts_ok_supply_upd [OF I(2) st] s' by simp
  have B: "stats_ok ?T"
    using I(1) st q(2) le S s' by (auto simp: stats_ok_def code_of_def)
  note r = add_balance_bal [OF assms(1) A q(1) ab]
  have "circulating T' c = circulating T c + (if c = code_of q then amount q else 0)" for c
    using add_balance_circulating [OF assms(1) A B q(1) ab] by (simp add: circulating_def)
  then have "supply_ok T'"
    using I(3) st s' r(2) by (auto simp: supply_ok_def)
  moreover have "accounts_ok T'"
    by (rule add_balance_accounts_ok [OF assms(1) A _ q(1) _ _ ab, of "st\<lparr>supply := s\<rparr>"])
      (use q s' in simp_all)
  moreover have "stats_ok T'" using stats_ok_stats [OF r(2)] B by simp
  ultimately show ?thesis by (simp add: token_inv_def)
qed

lemma token_retire_inv:
  assumes "lib_ok E" "token_inv T" "token_retire E q memo T = Inr T'"
  shows "token_inv T'"
  using assms(1,3)
proof (rule token_retire_Inr)
  fix st s
  assume st: "fmlookup (stats T) (code_of q) = Some st" and q: "in_range (amount q)" "0 < amount q"
    "symbol q = symbol (supply st)" and s: "sub_asset E (supply st) q = Inr s"
    and sb: "sub_balance E (issuer st) q (T\<lparr>stats := fmupd (code_of q) (st\<lparr>supply := s\<rparr>) (stats T)\<rparr>) = Inr T'"
  let ?T = "T\<lparr>stats := fmupd (code_of q) (st\<lparr>supply := s\<rparr>) (stats T)\<rparr>"
  note I = token_invD [OF assms(2)]
  have S: "0 \<le> amount (supply st)" "amount (supply st) \<le> amount (max_supply st)"
    "in_range (amount (max_supply st))" "symbol (max_supply st) = symbol (supply st)"
    using I(1) st by (auto simp: stats_ok_def)
  then have S': "in_range (amount (supply st))" by (auto simp: in_range_def abs_le_iff)
  have q0: "0 \<le> amount q" using q by simp
  have s': "s = \<lparr>amount = amount (supply st) - amount q, symbol = symbol (supply st)\<rparr>"
    using s sub_asset_lib [OF assms(1) is_i64_sub [OF S(1) S' q0 q(1)]] by auto
  have A: "accounts_ok ?T" using accounts_ok_supply_upd [OF I(2) st] s' by simp
  note r = sub_balance_bal [OF assms(1) A q0 q(1) sb]
  have A': "accounts_ok T'" using sub_balance_accounts_ok [OF assms(1) A q0 q(1) sb] .
  have le: "bal T (code_of q) (issuer st) \<le> circulating T (code_of q)"
  proof -
    have nn: "0 \<le> held_in (code_of q) a" if "fmlookup (accounts T) k = Some a" for k a
      using that I(2) by (cases k) (auto simp: held_in_def dest: accounts_okD)
    have "tval (held_in (code_of q)) (accounts T) (issuer st, code_of q) \<le> circulating T (code_of q)"
      unfolding circulating_def by (rule tval_le_tsum) (rule nn)
    then show ?thesis by (simp add: tval_held_in [OF I(2,1)])
  qed
  have "amount q \<le> amount (supply st)"
    using le r(4) I(3) st by (simp add: bal_def supply_ok_def)
  moreover from S(2) q(2) have "amount (supply st) - amount q \<le> amount (max_supply st)" by linarith
  ultimately have B: "stats_ok ?T"
    using I(1) st s' by (auto simp: stats_ok_def code_of_def)
  have "circulating T' c = circulating T c - (if c = code_of q then amount q else 0)" for c
    using sub_balance_circulating [OF assms(1) A B q0 q(1) sb] by (simp add: circulating_def)
  then have "supply_ok T'"
    using I(3) st s' r(2) by (auto simp: supply_ok_def)
  moreover have "stats_ok T'" using stats_ok_stats [OF r(2)] B by simp
  ultimately show ?thesis using A' by (simp add: token_inv_def)
qed

lemma token_transfer_inv:
  assumes "lib_ok E" "token_inv T" "token_transfer E from to q memo T = Inr T'"
  shows "token_inv T'"
  using assms(1,3)
proof (rule token_transfer_Inr)
  fix st T1
  assume st: "fmlookup (stats T) (code_of q) = Some st" and q: "in_range (amount q)" "0 < amount q"
    "symbol q = symbol (supply st)"
    and sb: "sub_balance E from q (T\<lparr>notified := notified T @ [from, to]\<rparr>) = Inr T1"
    and ab: "add_balance E to q (if has_auth E to then to else from) T1 = Inr T'"
  let ?T = "T\<lparr>notified := notified T @ [from, to]\<rparr>"
  have q0: "0 \<le> amount q" using q by simp
  have A: "accounts_ok ?T" "stats_ok ?T" "supply_ok ?T"
    using token_invD [OF assms(2)]
    by (simp_all add: accounts_ok_def stats_ok_def supply_ok_def circulating_def)
  note r = sub_balance_bal [OF assms(1) A(1) q0 q(1) sb]
  have A1: "accounts_ok T1" "stats_ok T1"
    using sub_balance_accounts_ok [OF assms(1) A(1) q0 q(1) sb] A(2) r(2) by (simp_all add: stats_ok_def)
  note r' = add_balance_bal [OF assms(1) A1(1) q(1) ab]
  have st1: "fmlookup (stats T1) (code_of q) = Some st" using st r(2) by simp
  have "circulating T' c = circulating T c" for c
    using add_balance_circulating [OF assms(1) A1 q(1) ab]
      sub_balance_circulating [OF assms(1) A(1,2) q0 q(1) sb]
    by (simp add: circulating_def)
  then have "supply_ok T'"
    using A(3) r(2) r'(2) by (simp add: supply_ok_def circulating_def)
  moreover have "stats_ok T'" using A(2) r(2) r'(2) by (simp add: stats_ok_def)
  moreover have "accounts_ok T'"
    using add_balance_accounts_ok [OF assms(1) A1(1) q0 q(1) st1 q(3) ab] .
  ultimately show ?thesis by (simp add: token_inv_def)
qed

lemma token_open_inv:
  assumes "lib_ok E" "token_inv T" "token_open E owner s p T = Inr T'"
  shows "token_inv T'"
proof (cases "fmlookup (accounts T) (owner, sym_code s)")
  case (Some a)
  with assms show ?thesis by (auto simp: token_open_def)
next
  case None
  note I = token_invD [OF assms(2)]
  from None assms(3) obtain st where st: "fmlookup (stats T) (sym_code s) = Some st"
    "symbol (supply st) = s"
    and T': "T' = T\<lparr>accounts := fmupd (owner, sym_code s) \<lparr>balance = \<lparr>amount = 0, symbol = s\<rparr>\<rparr> (accounts T)\<rparr>"
    by (auto simp: token_open_def new_asset_lib [OF assms(1)])
  have "circulating T' c = circulating T c" for c
    unfolding T' circulating_upd [OF I(2,1)] using None by (cases "sym_code s = c") (simp_all add: bal_def code_of_def)
  then show ?thesis
    using I st unfolding token_inv_def T'
    by (auto simp: stats_ok_def supply_ok_def accounts_ok_def)
qed

lemma token_close_inv:
  assumes "lib_ok E" "token_inv T" "token_close E owner s T = Inr T'"
  shows "token_inv T'"
proof -
  note I = token_invD [OF assms(2)]
  from assms(3) obtain a where a: "fmlookup (accounts T) (owner, sym_code s) = Some a" "amount (balance a) = 0"
    and T': "T' = T\<lparr>accounts := fmdrop (owner, sym_code s) (accounts T)\<rparr>"
    by (auto simp: token_close_def)
  have "circulating T' c = circulating T c" for c
    using a by (simp add: T' circulating_def held_in_def)
  then show ?thesis
    using I unfolding token_inv_def T'
    by (auto simp: stats_ok_def supply_ok_def accounts_ok_def)
qed

lemma token_exec_inv:
  assumes "lib_ok E" "token_inv T" "token_exec E a T = Inr T'"
  shows "token_inv T'"
  using assms
  by (cases a) (auto intro: token_create_inv token_issue_inv token_retire_inv token_transfer_inv
      token_open_inv token_close_inv)

lemma token_empty_inv: "token_inv token_empty"
  by (simp add: token_inv_def token_empty_def stats_ok_def accounts_ok_def supply_ok_def)

section \<open>Properties of the token contract\<close>

text \<open>
  C11: Whatever sequence of actions the contract has executed, the supply recorded for a
  currency is exactly the sum of all balances held in it, and lies between zero and the
  maximum supply.
\<close>

theorem token_supply_is_sum_of_balances:
  assumes "token_reachable T" and "fmlookup (stats T) c = Some st"
  shows "amount (supply st) = circulating T c \<and> 0 \<le> amount (supply st) \<and>
    amount (supply st) \<le> amount (max_supply st)"
proof -
  have "token_inv T"
    using assms(1) by induction (auto intro: token_empty_inv token_exec_inv)
  with assms(2) show ?thesis
    by (auto simp: token_inv_def stats_ok_def supply_ok_def)
qed

definition demo_token :: token_state where
  "demo_token =
     \<lparr>accounts = fmupd (b1_account, 0x534f45) \<lparr>balance = \<lparr>amount = 300, symbol = eos\<rparr>\<rparr>
        (fmupd (eosio_account, 0x534f45) \<lparr>balance = \<lparr>amount = 700, symbol = eos\<rparr>\<rparr> fmempty),
      stats = fmupd 0x534f45 \<lparr>supply = \<lparr>amount = 1000, symbol = eos\<rparr>,
        max_supply = \<lparr>amount = 5000, symbol = eos\<rparr>, issuer = eosio_account\<rparr> fmempty,
      notified = [eosio_account, b1_account]\<rparr>"

lemmas demo_token_eval =
  demo_token_def token_create_def token_issue_def token_transfer_def sub_balance_def add_balance_def
  ref_env_def eos_def code_of_def check_def require_auth_def add_asset_def sub_asset_def new_asset_def
  in_range_def asset_max_def token_empty_def i64_def account_defs Let_def

lemma demo_token_reachable: "token_reachable demo_token"
proof -
  let ?eos = "\<lambda>n. \<lparr>amount = n, symbol = eos\<rparr>"
  define T1 where "T1 = token_empty\<lparr>stats := fmupd 0x534f45
    \<lparr>supply = ?eos 0, max_supply = ?eos 5000, issuer = eosio_account\<rparr> fmempty\<rparr>"
  define T2 where "T2 = T1\<lparr>accounts := fmupd (eosio_account, 0x534f45) \<lparr>balance = ?eos 1000\<rparr> fmempty,
    stats := fmupd 0x534f45
      \<lparr>supply = ?eos 1000, max_supply = ?eos 5000, issuer = eosio_account\<rparr> fmempty\<rparr>"
  have 1: "token_exec ref_env (Create eosio_account (?eos 5000)) token_empty = Inr T1"
    by (simp add: T1_def demo_token_eval)
  have 2: "token_exec ref_env (Issue eosio_account (?eos 1000) []) T1 = Inr T2"
    by (simp add: T1_def T2_def demo_token_eval)
  have 3: "token_exec ref_env (Transfer eosio_account b1_account (?eos 300) []) T2 = Inr demo_token"
    by (simp add: T1_def T2_def demo_token_eval)
  note s1 = token_reachable.step [OF token_reachable.start ref_env_ok 1]
  note s2 = token_reachable.step [OF s1 ref_env_ok 2]
  show ?thesis by (rule token_reachable.step [OF s2 ref_env_ok 3])
qed

theorem token_supply_is_sum_of_balances_witness:
  "circulating demo_token 0x534f45 = 1000"
  using token_supply_is_sum_of_balances [OF demo_token_reachable, of "0x534f45"]
  by (simp add: demo_token_def)

lemma token_transfer_effect:
  assumes "lib_ok E" and "token_inv T" and "token_transfer E from to q memo T = Inr T'"
  shows "bal T' c w = bal T c w + (if c = code_of q \<and> w = to then amount q else 0)
      - (if c = code_of q \<and> w = from then amount q else 0) \<and>
    from \<noteq> to \<and> has_auth E from \<and> 0 < amount q \<and> amount q \<le> bal T (code_of q) from \<and>
    stats T' = stats T"
  using assms(1,3)
proof (rule token_transfer_Inr)
  fix T1
  let ?T = "T\<lparr>notified := notified T @ [from, to]\<rparr>"
  assume g: "from \<noteq> to" "has_auth E from" and q: "in_range (amount q)" "0 < amount q"
    and sb: "sub_balance E from q ?T = Inr T1"
    and ab: "add_balance E to q (if has_auth E to then to else from) T1 = Inr T'"
  have q0: "0 \<le> amount q" using q by simp
  have A: "accounts_ok ?T" using token_invD(2) [OF assms(2)] by (simp add: accounts_ok_def)
  note r = sub_balance_bal [OF assms(1) A q0 q(1) sb]
  note r' = add_balance_bal [OF assms(1) sub_balance_accounts_ok [OF assms(1) A q0 q(1) sb] q(1) ab]
  show ?thesis
    using r r' g q by (simp add: bal_def)
qed

text \<open>
  C15: A successful transfer moves exactly the quantity from the sender to the receiver: no
  other balance, of this or another currency, changes, and neither do supplies.
\<close>

theorem token_transfer_moves_exactly:
  assumes "lib_ok E" and "token_inv T" and "token_transfer E from to q memo T = Inr T'"
  shows "bal T' c w = bal T c w + (if c = code_of q \<and> w = to then amount q else 0)
      - (if c = code_of q \<and> w = from then amount q else 0) \<and>
    from \<noteq> to \<and> has_auth E from \<and> 0 < amount q \<and> amount q \<le> bal T (code_of q) from \<and>
    stats T' = stats T"
  using token_transfer_effect [OF assms] .

theorem token_transfer_moves_exactly_witness:
  "\<exists>T'. token_transfer ref_env b1_account eosio_account \<lparr>amount = 120, symbol = eos\<rparr> [] demo_token = Inr T' \<and>
     bal T' 0x534f45 b1_account = 180 \<and> bal T' 0x534f45 eosio_account = 820"
proof -
  obtain T' where T': "token_transfer ref_env b1_account eosio_account \<lparr>amount = 120, symbol = eos\<rparr> [] demo_token = Inr T'"
    by (simp add: demo_token_eval)
  have inv: "token_inv demo_token"
    using demo_token_reachable by induction (auto intro: token_empty_inv token_exec_inv)
  show ?thesis
    using T' token_transfer_moves_exactly [OF ref_env_ok inv T', of "0x534f45" b1_account]
      token_transfer_moves_exactly [OF ref_env_ok inv T', of "0x534f45" eosio_account]
    by (simp add: code_of_def eos_def bal_def demo_token_def account_defs)
qed

text \<open>Two distinct holders of one currency together hold no more than its supply.\<close>

lemma two_balances_le:
  assumes "token_inv T" "a \<noteq> b"
  shows "bal T c a + bal T c b \<le> circulating T c"
proof -
  note I = token_invD [OF assms(1)]
  have nn: "0 \<le> held_in c r" if "fmlookup (accounts T) k = Some r" for k r
    using that I(2) by (cases k) (auto simp: held_in_def dest: accounts_okD)
  have "tval (held_in c) (fmdrop (a, c) (accounts T)) (b, c) \<le> tsum (held_in c) (fmdrop (a, c) (accounts T))"
    by (rule tval_le_tsum) (auto split: if_splits intro: nn)
  then show ?thesis
    using assms(2) by (simp add: tval_held_in [OF I(2,1)] circulating_def)
qed

lemma bal_nonneg: "accounts_ok T \<Longrightarrow> 0 \<le> bal T c w"
  by (auto simp: bal_def tval_def split: option.split dest: accounts_okD)

lemma sub_balance_succeeds:
  assumes "lib_ok E" "accounts_ok T" "0 < amount v" "in_range (amount v)"
    "fmlookup (stats T) (code_of v) = Some st" "symbol v = symbol (supply st)"
    "amount v \<le> bal T (code_of v) w"
  shows "\<exists>T'. sub_balance E w v T = Inr T'"
proof (cases "fmlookup (accounts T) (w, code_of v)")
  case None
  with assms(3,7) show ?thesis by (simp add: bal_def)
next
  case (Some a)
  from accounts_okD(3) [OF assms(2) Some] assms(5,6) have "symbol (balance a) = symbol v" by auto
  with Some assms show ?thesis
    by (subst sub_balance_Inr) (auto simp: bal_def)
qed

lemma add_balance_succeeds:
  assumes "lib_ok E" "accounts_ok T" "in_range (amount v)"
    "fmlookup (stats T) (code_of v) = Some st" "symbol v = symbol (supply st)"
    "in_range (bal T (code_of v) w + amount v)"
  shows "\<exists>T'. add_balance E w v p T = Inr T'"
proof (cases "fmlookup (accounts T) (w, code_of v)")
  case None
  with assms show ?thesis by (simp add: add_balance_def)
next
  case (Some a)
  from accounts_okD(3) [OF assms(2) Some] assms(4,5) have "symbol (balance a) = symbol v" by auto
  with Some assms show ?thesis
    by (subst add_balance_Inr) (auto simp: bal_def)
qed

lemma transfer_succeeds:
  assumes "lib_ok E" and "token_inv T"
    and "from \<noteq> to" "has_auth E from" "is_account E to"
    and st: "fmlookup (stats T) (code_of q) = Some st" "symbol q = symbol (supply st)"
    and g: "asset_is_valid E q" "0 < amount q" "length memo \<le> 256" "amount q \<le> bal T (code_of q) from"
  shows "\<exists>T'. token_transfer E from to q memo T = Inr T'"
proof -
  note I = token_invD [OF assms(2)]
  let ?T = "T\<lparr>notified := notified T @ [from, to]\<rparr>"
  have q: "0 < amount q" "in_range (amount q)" using g by (simp_all add: valid_asset_lib [OF assms(1)])
  have A: "accounts_ok ?T" using I(2) by (simp add: accounts_ok_def)
  obtain T1 where T1: "sub_balance E from q ?T = Inr T1"
    using sub_balance_succeeds [OF assms(1) A q] st g(4) by (auto simp: bal_def)
  note q0 = less_imp_le [OF q(1)]
  note r = sub_balance_bal [OF assms(1) A q0 q(2) T1]
  have A1: "accounts_ok T1" using sub_balance_accounts_ok [OF assms(1) A q0 q(2) T1] .
  have "circulating T (code_of q) \<le> amount (max_supply st)"
    using I(1,3) st by (auto simp: supply_ok_def stats_ok_def)
  then have "bal T (code_of q) to + amount q \<le> amount (max_supply st)"
    using two_balances_le [OF assms(2,3), of "code_of q"] g(4) by linarith
  moreover have "in_range (amount (max_supply st))" using I(1) st by (simp add: stats_ok_def)
  ultimately have "in_range (bal T1 (code_of q) to + amount q)"
    using bal_nonneg [OF I(2), of "code_of q" to] assms(3) r(1) q
    by (auto simp: in_range_def abs_le_iff bal_def)
  then obtain T' where "add_balance E to q (if has_auth E to then to else from) T1 = Inr T'"
    using add_balance_succeeds [OF assms(1) A1 q(2) _ st(2)] st(1) r(2) by auto
  then have "token_transfer E from to q memo T = Inr T'"
    using assms(3-5) st g T1 by (simp add: token_transfer_def Let_def)
  then show ?thesis by blast
qed

end
