(* ===== verification/Escrow.thy ===== *)
theory Escrow
  imports Ledger Token
begin

text \<open>
  The contract between the system contract and the token contract. The system contract keeps
  tokens of its users on escrow accounts and moves them with inline actions. A ledger is what
  carries such actions out; an escrow is a group of actions that never makes the contract owe
  more out of its account than the effects it sent move in. Together the account stays solvent.
\<close>

section \<open>Covered steps and histories\<close>

definition covered :: "name \<Rightarrow> (system_state \<Rightarrow> int) \<Rightarrow> system_state \<Rightarrow> system_state \<Rightarrow> bool" where
  "covered a owed S S' \<longleftrightarrow> (\<exists>es. effects S' = effects S @ es \<and> owed S' \<le> owed S + moved a es)"

lemma coveredI: "effects S' = effects S @ es \<Longrightarrow> owed S' \<le> owed S + moved a es \<Longrightarrow> covered a owed S S'"
  unfolding covered_def by blast

lemma balanced_covered: "balanced a owed S S' \<Longrightarrow> covered a owed S S'"
  by (auto simp: balanced_def covered_def)

lemma covered_refl: "covered a owed S S"
  by (rule coveredI [of _ _ "[]"]) simp_all

lemma covered_trans [trans]:
  assumes "covered a owed S S1" and "covered a owed S1 S2"
  shows "covered a owed S S2"
proof -
  from assms obtain es fs where "effects S1 = effects S @ es" "owed S1 \<le> owed S + moved a es"
    "effects S2 = effects S1 @ fs" "owed S2 \<le> owed S1 + moved a fs"
    unfolding covered_def by blast
  then show ?thesis by (intro coveredI [of _ _ "es @ fs"]) simp_all
qed

text \<open>
  Histories of successful actions, each in an environment of its own. An action that fails is
  rolled back and leaves no trace.
\<close>

inductive history ::
    "(env \<Rightarrow> 'a \<Rightarrow> system_state \<Rightarrow> system_state res) \<Rightarrow> ('a \<Rightarrow> system_state \<Rightarrow> bool) \<Rightarrow>
     system_state \<Rightarrow> system_state \<Rightarrow> bool" for exec fits where
  history_start: "history exec fits S S"
| history_act: "history exec fits S S1 \<Longrightarrow> lib_ok E \<Longrightarrow> fits a S1 \<Longrightarrow> exec E a S1 = Inr S2 \<Longrightarrow>
    history exec fits S S2"

inductive_cases history_actE: "history exec fits S S'"

section \<open>Ledgers\<close>

text \<open>Effects are delivered in the order in which they were sent; one that fails fails the transaction.\<close>

fun deliver_all :: "(effect \<Rightarrow> 'l \<Rightarrow> 'l res) \<Rightarrow> effect list \<Rightarrow> 'l \<Rightarrow> 'l res" where
  "deliver_all deliver [] L = Inr L"
| "deliver_all deliver (e # es) L = bindE (deliver e L) (deliver_all deliver es)"

locale ledger =
  fixes deliver :: "effect \<Rightarrow> 'l \<Rightarrow> 'l res" and holds :: "'l \<Rightarrow> name \<Rightarrow> int"
    and good :: "'l \<Rightarrow> bool" and counted :: "effect \<Rightarrow> bool"
  assumes deliver_good: "good L \<Longrightarrow> deliver e L = Inr L' \<Longrightarrow> good L'"
    and deliver_moves: "good L \<Longrightarrow> counted e \<Longrightarrow> deliver e L = Inr L' \<Longrightarrow> holds L' a = holds L a + moved1 a e"
begin

lemma deliver_all_moves:
  "good L \<Longrightarrow> \<forall>e\<in>set es. counted e \<Longrightarrow> deliver_all deliver es L = Inr L' \<Longrightarrow>
    good L' \<and> holds L' a = holds L a + moved a es"
proof (induction es arbitrary: L)
  case (Cons e es)
  then obtain L1 where 1: "deliver e L = Inr L1" "deliver_all deliver es L1 = Inr L'" by auto
  have "good L1" using deliver_good [OF Cons.prems(1) 1(1)] .
  then show ?case
    using Cons.IH [OF _ _ 1(2)] Cons.prems(2) deliver_moves [OF Cons.prems(1) _ 1(1)] by simp
qed simp

end

section \<open>Escrows\<close>

locale escrow =
  fixes acct :: name and owed :: "system_state \<Rightarrow> int" and inv :: "system_state \<Rightarrow> bool"
    and fits :: "'a \<Rightarrow> system_state \<Rightarrow> bool" and exec :: "env \<Rightarrow> 'a \<Rightarrow> system_state \<Rightarrow> system_state res"
  assumes exec_keeps: "lib_ok E \<Longrightarrow> inv S \<Longrightarrow> fits a S \<Longrightarrow> exec E a S = Inr S' \<Longrightarrow> inv S'"
    and exec_covers: "lib_ok E \<Longrightarrow> inv S \<Longrightarrow> fits a S \<Longrightarrow> exec E a S = Inr S' \<Longrightarrow> covered acct owed S S'"
begin

lemma history_sound: "history exec fits S S' \<Longrightarrow> inv S \<Longrightarrow> inv S' \<and> covered acct owed S S'"
proof (induction rule: history.induct)
  case (history_act S S1 E a S2)
  then show ?case
    using exec_keeps [OF history_act(2) _ history_act(3,4)] exec_covers [OF history_act(2) _ history_act(3,4)]
    by (auto intro: covered_trans)
qed (simp add: covered_refl)

lemma history_keeps: "history exec fits S S' \<Longrightarrow> inv S \<Longrightarrow> inv S'"
  using history_sound by blast

lemma history_covers:
  assumes "history exec fits S S'" "inv S"
  obtains es where "effects S' = effects S @ es" "owed S' \<le> owed S + moved acct es"
  using history_sound [OF assms] unfolding covered_def by blast

end

text \<open>An escrow whose effects a ledger carries out.\<close>

locale funded_escrow = escrow acct owed inv fits exec + ledger deliver holds good counted
  for acct owed inv and fits :: "'a \<Rightarrow> system_state \<Rightarrow> bool" and exec
    and deliver :: "effect \<Rightarrow> 'l \<Rightarrow> 'l res" and holds good counted
begin

lemma stays_solvent:
  assumes "inv S" "good L" "owed S \<le> holds L acct" "history exec fits S S'"
    and "effects S' = effects S @ es" "\<forall>e\<in>set es. counted e" "deliver_all deliver es L = Inr L'"
  shows "owed S' \<le> holds L' acct"
proof -
  obtain fs where fs: "effects S' = effects S @ fs" "owed S' \<le> owed S + moved acct fs"
    by (rule history_covers [OF assms(4,1)])
  then have "owed S' \<le> owed S + moved acct es" using assms(5) by simp
  then show ?thesis using deliver_all_moves [OF assms(2,6,7), of acct] assms(3) by simp
qed

end

section \<open>The token contract as ledger\<close>

text \<open>An inline action runs with the authority of the accounts in its permission list.\<close>

definition inline_env :: "permission_level list \<Rightarrow> env \<Rightarrow> env" where
  "inline_env ps E = E\<lparr>has_perm := (\<lambda>p. p \<in> set ps), has_auth := (\<lambda>a. a \<in> actor ` set ps)\<rparr>"

lemma inline_env_ok [simp]: "lib_ok (inline_env ps E) = lib_ok E"
  by (simp add: lib_ok_def inline_env_def)

fun token_deliver :: "env \<Rightarrow> effect \<Rightarrow> token_state \<Rightarrow> token_state res" where
  "token_deliver E (Token_transfer ps from to q memo) T = token_transfer (inline_env ps E) from to q memo T"
| "token_deliver E (Token_issue ps to q memo) T = token_issue (inline_env ps E) to q memo T"
| "token_deliver E (Token_open ps owner s payer) T = token_open (inline_env ps E) owner s payer T"
| "token_deliver E _ T = Inr T"

text \<open>Transfers and issues in one currency.\<close>

fun in_currency :: "symbol_code \<Rightarrow> effect \<Rightarrow> bool" where
  "in_currency c (Token_transfer ps from to q memo) \<longleftrightarrow> code_of q = c"
| "in_currency c (Token_issue ps to q memo) \<longleftrightarrow> code_of q = c"
| "in_currency c _ \<longleftrightarrow> True"

lemma token_issue_effect:
  assumes "lib_ok E" "token_inv T" "token_issue E to q memo T = Inr T'"
  shows "bal T' c w = bal T c w + (if c = code_of q \<and> w = to then amount q else 0)"
  using assms(1,3)
proof (rule token_issue_Inr)
  fix st s
  assume st: "fmlookup (stats T) (code_of q) = Some st" and q: "in_range (amount q)" "0 < amount q"
    "symbol q = symbol (supply st)" and s: "add_asset E (supply st) q = Inr s"
    and ab: "add_balance E to q to (T\<lparr>stats := fmupd (code_of q) (st\<lparr>supply := s\<rparr>) (stats T)\<rparr>) = Inr T'"
  let ?T = "T\<lparr>stats := fmupd (code_of q) (st\<lparr>supply := s\<rparr>) (stats T)\<rparr>"
  note I = token_invD [OF assms(2)]
  have "in_range (amount (supply st))"
    using I(1) st unfolding stats_ok_def in_range_def by (metis abs_of_nonneg dual_order.trans)
  then have "symbol s = symbol (supply st)"
    using s add_asset_lib [OF assms(1) is_i64_add [OF _ q(1)]] by auto
  then have A: "accounts_ok ?T" using accounts_ok_supply_upd [OF I(2) st] by simp
  show ?thesis using add_balance_bal(1) [OF assms(1) A q(1) ab] by (simp add: bal_def)
qed

lemma token_open_effect:
  assumes "lib_ok E" "token_open E owner s p T = Inr T'"
  shows "bal T' c w = bal T c w"
  using assms by (auto simp: token_open_def new_asset_lib bal_def split: option.splits)

lemma token_deliver_good:
  assumes "lib_ok E" "token_inv T" "token_deliver E e T = Inr T'"
  shows "token_inv T'"
proof -
  note ok = inline_env_ok [THEN iffD2, OF assms(1)]
  show ?thesis
    using assms(2,3)
    by (cases e) (auto intro: token_transfer_inv [OF ok] token_issue_inv [OF ok] token_open_inv [OF ok])
qed

lemma token_deliver_moves:
  assumes "lib_ok E" "token_inv T" "token_deliver E e T = Inr T'" "in_currency c e"
  shows "bal T' c w = bal T c w + moved1 w e"
proof -
  note ok = inline_env_ok [THEN iffD2, OF assms(1)]
  show ?thesis
  proof (cases e)
    case (Token_transfer ps f t q memo)
    then show ?thesis using assms token_transfer_effect [OF ok assms(2), of ps f t q memo T'] by simp
  next
    case (Token_issue ps t q memo)
    then show ?thesis using assms token_issue_effect [OF ok assms(2), of ps t q memo T'] by simp
  next
    case (Token_open ps owner s payer)
    then show ?thesis using assms token_open_effect [OF ok, of ps owner s payer T T'] by simp
  qed (use assms in simp_all)
qed

text \<open>The token contract in one currency, under the library behaviour assumed, is a ledger.\<close>

interpretation token_ledger: ledger "token_deliver E" "\<lambda>T. bal T c" "\<lambda>T. lib_ok E \<and> token_inv T" "in_currency c" for E c
  by unfold_locales (auto intro: token_deliver_good token_deliver_moves)

end
