(* ===== verification/Rex_Spec.thy ===== *)
theory Rex_Spec
  imports Rex_Conservation Demo Escrow
begin

text \<open>
  The actions of the REX as one relation, the bounds under which their integer arithmetic is
  exact, and the properties of the REX: solvency, prices, buckets.
\<close>

section \<open>The actions\<close>

datatype rex_action =
    Deposit name asset
  | Withdraw name asset
  | Buyrex name asset
  | Unstaketorex name name asset asset
  | Sellrex name asset
  | Cnclrexorder name
  | Rentcpu name name asset asset
  | Rentnet name name asset asset
  | Fundcpuloan name int asset
  | Fundnetloan name int asset
  | Defcpuloan name int asset
  | Defnetloan name int asset
  | Updaterex name
  | Setrex asset
  | Rexexec name nat
  | Consolidate name
  | Mvtosavings name asset
  | Mvfrsavings name asset
  | Closerex name

fun rex_exec :: "env \<Rightarrow> rex_action \<Rightarrow> system_state \<Rightarrow> system_state res" where
  "rex_exec E (Deposit w q) S = deposit E w q S"
| "rex_exec E (Withdraw w q) S = withdraw E w q S"
| "rex_exec E (Buyrex w q) S = buyrex E w q S"
| "rex_exec E (Unstaketorex w r net cpu) S = unstaketorex E w r net cpu S"
| "rex_exec E (Sellrex w q) S = sellrex E w q S"
| "rex_exec E (Cnclrexorder w) S = on_rx (cnclrexorder E w) S"
| "rex_exec E (Rentcpu w r pay fund) S = rentcpu E w r pay fund S"
| "rex_exec E (Rentnet w r pay fund) S = rentnet E w r pay fund S"
| "rex_exec E (Fundcpuloan w n q) S = fundcpuloan E w n q S"
| "rex_exec E (Fundnetloan w n q) S = fundnetloan E w n q S"
| "rex_exec E (Defcpuloan w n q) S = defcpuloan E w n q S"
| "rex_exec E (Defnetloan w n q) S = defnetloan E w n q S"
| "rex_exec E (Updaterex w) S = updaterex E w S"
| "rex_exec E (Setrex q) S = setrex E q S"
| "rex_exec E (Rexexec w n) S = rexexec E w n S"
| "rex_exec E (Consolidate w) S = consolidate E w S"
| "rex_exec E (Mvtosavings w q) S = mvtosavings E w q S"
| "rex_exec E (Mvfrsavings w q) S = mvfrsavings E w q S"
| "rex_exec E (Closerex w) S = closerex E w S"

text \<open>
  The amounts an action brings in stay, with all claims, within the supply the code is written
  for; the rent of the pool stays within the range of the market; \<open>eosio.rex\<close> itself is not a user.
\<close>

fun rex_fits :: "rex_action \<Rightarrow> system_state \<Rightarrow> bool" where
  "rex_fits (Deposit w q) S \<longleftrightarrow> w \<noteq> rex_account \<and> amount q \<le> core_cap"
| "rex_fits (Withdraw w q) S \<longleftrightarrow> w \<noteq> rex_account"
| "rex_fits (Buyrex w q) S \<longleftrightarrow> rent_pot (rx S) + initial_rent < market_max"
| "rex_fits (Unstaketorex w r net cpu) S \<longleftrightarrow> rent_pot (rx S) + initial_rent < market_max \<and>
     rex_claims (rx S) + amount net + amount cpu \<le> core_cap"
| "rex_fits (Rentcpu w r pay fund) S \<longleftrightarrow> is_i64 (amount pay + amount fund)"
| "rex_fits (Rentnet w r pay fund) S \<longleftrightarrow> is_i64 (amount pay + amount fund)"
| "rex_fits (Mvtosavings w q) S \<longleftrightarrow> is_i64 (amount q)"
| "rex_fits _ S \<longleftrightarrow> True"

lemma rex_exec_sound:
  assumes "lib_ok E" "rex_inv (rx S)" "rex_small (rx S)" "rex_fits a S" "rex_exec E a S = Inr S'"
  shows "sound S S'"
  using assms
  by (cases a)
    (auto simp: rentcpu_def rentnet_def fundcpuloan_def fundnetloan_def defcpuloan_def defnetloan_def
      intro: deposit_sound withdraw_sound buyrex_sound unstaketorex_sound sellrex_sound cnclrexorder_sound
        rent_loan_sound fund_loan_sound defund_loan_sound updaterex_sound setrex_sound rexexec_sound
        consolidate_sound mvtosavings_sound mvfrsavings_sound closerex_sound)

section \<open>Solvency\<close>

text \<open>
  C10: Every action of the REX keeps its invariant, and what the REX owes (funds, lendable pool,
  balances of loans, proceeds of filled orders) changes by exactly the tokens that the action
  moves into or out of \<open>eosio.rex\<close>.
\<close>

theorem rex_actions_conserve:
  assumes "lib_ok E" and "rex_inv (rx S)" and "rex_small (rx S)" and "rex_fits a S"
    and "rex_exec E a S = Inr S'"
  shows "rex_inv (rx S') \<and>
    (\<exists>es. effects S' = effects S @ es \<and> rex_owed (rx S') = rex_owed (rx S) + moved rex_account es)"
  using rex_exec_sound [OF assms] by (simp add: sound_def balanced_def)

lemma demo_rex_inv: "rex_inv demo_rex" "rex_small demo_rex"
  by (simp_all add: rex_inv_def rex_ok_def funds_ok_def loans_ok_def orders_ok_def pool_ok_def holdings_ok_def
      rex_sum_def priced_def rex_ratio_def orders_backed_def promise_ok_def rex_small_def rex_claims_def rex_owed_def
      rent_pot_def sum_defs demo_rex_def demo_pool_def alice_rex_def bal_ok_def row_ok_def
      rex_held_def core_cap_def market_max_def)

lemma demo_rex_values [simp]:
  "pool_field total_lendable demo_rex = 1000000" "pool_field total_rex demo_rex = 10000000000"
  "rex_owed demo_rex = 1000500" "fmlookup (rexbalance demo_rex) alice = Some alice_rex"
  by (simp_all add: rex_owed_def sum_defs demo_rex_def demo_pool_def)

lemma demo_withdraw:
  "case rex_exec ref_env (Withdraw bob (coins 200)) demo_state of
     Inr S' \<Rightarrow> moved rex_account (effects S') = - 200 | Inl _ \<Rightarrow> False"
  by code_simp

theorem rex_actions_conserve_witness:
  "\<exists>S'. rex_exec ref_env (Withdraw bob (coins 200)) demo_state = Inr S' \<and>
     rex_inv (rx S') \<and> rex_owed (rx S') = 1000300"
proof -
  obtain S' where S': "rex_exec ref_env (Withdraw bob (coins 200)) demo_state = Inr S'"
    "moved rex_account (effects S') = - 200"
    using demo_withdraw by (auto split: sum.splits)
  then show ?thesis
    using rex_actions_conserve [OF ref_env_ok _ _ _ S'(1)] demo_rex_inv by auto
qed

text \<open>The REX as an escrow of the token contract.\<close>

definition rex_ready :: "rex_action \<Rightarrow> system_state \<Rightarrow> bool" where
  "rex_ready a S \<longleftrightarrow> rex_small (rx S) \<and> rex_fits a S"

interpretation rex_escrow: funded_escrow rex_account "\<lambda>S. rex_owed (rx S)" "\<lambda>S. rex_inv (rx S)" rex_ready rex_exec
    "token_deliver E" "\<lambda>T. bal T c" "\<lambda>T. lib_ok E \<and> token_inv T" "in_currency c" for E c
  by unfold_locales (use rex_exec_sound in \<open>auto simp: rex_ready_def sound_def intro: balanced_covered\<close>)

text \<open>
  C21: The REX stays solvent: if \<open>eosio.rex\<close> holds what the REX owes, then after any history of REX
  actions whose inline transfers the token contract has carried out it still does.
\<close>

theorem rex_stays_solvent:
  assumes "lib_ok E" and "token_inv T" and "rex_inv (rx S)" and "rex_owed (rx S) \<le> bal T c rex_account"
    and "history rex_exec rex_ready S S'" and "effects S' = effects S @ es" and "\<forall>e\<in>set es. in_currency c e"
    and "deliver_all (token_deliver E) es T = Inr T'"
  shows "rex_owed (rx S') \<le> bal T' c rex_account"
  by (rule rex_escrow.stays_solvent [OF assms(3) _ assms(4-8)]) (use assms(1,2) in simp)

definition demo_bank :: token_state where
  "demo_bank =
     \<lparr>accounts = fmupd (rex_account, sym_code eos) \<lparr>balance = coins 1000500\<rparr>
        (fmupd (bob, sym_code eos) \<lparr>balance = coins 500\<rparr> fmempty),
      stats = fmupd (sym_code eos) \<lparr>supply = coins 1001000, max_supply = coins 5000000, issuer = eosio_account\<rparr> fmempty,
      notified = []\<rparr>"

lemma demo_bank_inv: "token_inv demo_bank"
  using demo_accounts(4) [symmetric] by (auto simp: token_inv_def demo_bank_def stats_ok_def accounts_ok_def supply_ok_def circulating_def
      held_in_def code_of_def in_range_def asset_max_def split: if_splits)

theorem rex_stays_solvent_witness:
  "\<exists>S' T'. history rex_exec rex_ready demo_state S' \<and> deliver_all (token_deliver ref_env) (effects S') demo_bank = Inr T' \<and>
     rex_owed (rx S') \<le> bal T' (sym_code eos) rex_account"
proof -
  let ?t = "Token_transfer [active_of rex_account] rex_account bob (coins 200) ''withdraw from REX fund''"
  have "case rex_exec ref_env (Withdraw bob (coins 200)) demo_state of Inr S' \<Rightarrow> effects S' = [?t] | Inl _ \<Rightarrow> False"
    by code_simp
  then obtain S' where S': "rex_exec ref_env (Withdraw bob (coins 200)) demo_state = Inr S'" "effects S' = [?t]"
    by (auto split: sum.splits)
  have h: "history rex_exec rex_ready demo_state S'"
    by (rule history_act [where exec = rex_exec, OF history_start ref_env_ok _ S'(1)])
      (use demo_rex_inv in \<open>simp add: rex_ready_def\<close>)
  have "case deliver_all (token_deliver ref_env) [?t] demo_bank of Inr _ \<Rightarrow> True | Inl _ \<Rightarrow> False"
    by code_simp
  then obtain T' where T': "deliver_all (token_deliver ref_env) [?t] demo_bank = Inr T'"
    by (auto split: sum.splits)
  have "rex_owed (rx S') \<le> bal T' (sym_code eos) rex_account"
    by (rule rex_stays_solvent [OF ref_env_ok demo_bank_inv _ _ h _ _ T'])
      (use S' demo_rex_inv in \<open>simp_all add: code_of_def bal_def demo_bank_def\<close>)
  then show ?thesis using h T' S' by auto
qed

section \<open>The price of REX\<close>

text \<open>
  C16: Selling REX pays its share of the pool rounded down, never lowers what the remaining REX is
  worth, and leaves unlent at least a fifth of what is lent out.
\<close>

theorem selling_never_dilutes:
  assumes "lib_ok E" and "rex_inv X" and "rex_small X" and "fmlookup (rexbalance X) w = Some rb"
    and "0 < amount q" and "amount q \<le> matured_rex rb"
    and "fill_rex_order E core w q X = Inr (outcome, X')" and "success outcome"
  shows "amount (oo_proceeds outcome) = amount q * pool_field total_lendable X div pool_field total_rex X \<and>
    pool_field total_lendable X * pool_field total_rex X' \<le> pool_field total_lendable X' * pool_field total_rex X \<and>
    2 * pool_field total_lent X' div 10 \<le> pool_field total_unlent X'"
proof -
  note I = inv_parts [OF assms(2)]
  have f: "order_filled (amount q) (amount (oo_proceeds outcome)) X X'"
    by (rule fill_order_law(3) [OF assms(1) I(1,2) assms(3-8)])
  let ?L = "pool_field total_lendable X" and ?R = "pool_field total_rex X"
  from f have v: "0 < ?R" "amount (oo_proceeds outcome) = amount q * ?L div ?R"
    "pool_field total_rex X' = ?R - amount q" "pool_field total_lendable X' = ?L - amount (oo_proceeds outcome)"
    "2 * pool_field total_lent X' div 10 \<le> pool_field total_unlent X'"
    unfolding order_filled_def by simp_all
  have "amount (oo_proceeds outcome) * ?R \<le> amount q * ?L" unfolding v(2) using v(1) by (rule int_div_mult_le)
  then have "?L * pool_field total_rex X' \<le> pool_field total_lendable X' * ?R"
    unfolding v(3,4) by (simp add: algebra_simps)
  with v(2,5) show ?thesis by simp
qed

theorem selling_never_dilutes_witness:
  "\<exists>outcome X'. fill_rex_order ref_env (Inr eos) alice (rexes 3000000) demo_rex = Inr (outcome, X') \<and>
     success outcome \<and> amount (oo_proceeds outcome) = 300"
proof -
  have "case fill_rex_order ref_env (Inr eos) alice (rexes 3000000) demo_rex of
      Inr (outcome, _) \<Rightarrow> success outcome | Inl _ \<Rightarrow> False"
    by code_simp
  then obtain outcome X' where r: "fill_rex_order ref_env (Inr eos) alice (rexes 3000000) demo_rex = Inr (outcome, X')"
    "success outcome"
    by (auto split: sum.splits)
  from selling_never_dilutes [OF ref_env_ok demo_rex_inv _ _ _ r] r show ?thesis
    by (simp add: alice_rex_def)
qed

text \<open>
  Buying REX never lowers what the REX of the other holders is worth: what is issued is
  rounded down.
\<close>

lemma buying_never_dilutes:
  assumes "lib_ok E" and "rex_inv X" and "0 < amount pay"
    and "rex_owed X + amount pay \<le> core_cap"
    and "add_to_rex_pool E core pay X = Inr (recv, X')"
  shows "0 \<le> amount recv \<and> pool_field total_rex X' = pool_field total_rex X + amount recv \<and>
    pool_field total_lendable X' = pool_field total_lendable X + amount pay \<and>
    pool_field total_lendable X * pool_field total_rex X' \<le> pool_field total_lendable X' * pool_field total_rex X"
proof -
  note I = inv_parts [OF assms(2)]
  note P = add_to_pool_law [OF assms(1) I(1,2) assms(3-5), unfolded pool_joined_def]
  let ?L = "pool_field total_lendable X" and ?R = "pool_field total_rex X"
  have i: "rex_issued (amount pay) (amount recv) X X'" using P by blast
  have "?L * pool_field total_rex X' \<le> pool_field total_lendable X' * ?R"
  proof (cases "?R = 0")
    case True
    then show ?thesis using holdings_okD(4) [OF I(2)] by (simp add: priced_def)
  next
    case False
    then have "pool_field total_rex X' = pool_field total_lendable X' * ?R div ?L" "0 < ?L"
      using i unfolding rex_issued_def if_not_P [OF False] by blast+
    then show ?thesis using int_div_mult_le [of ?L "pool_field total_lendable X' * ?R"]
      by (simp only: mult.commute)
  qed
  then show ?thesis using P i by (simp add: rex_issued_def)
qed

text \<open>
  Sold at the price that its purchase leaves, REX is worth at most what it cost.
\<close>

lemma bought_worth:
  assumes "lib_ok E" and "rex_inv X" and "0 < amount pay" and "rex_owed X + amount pay \<le> core_cap"
    and "add_to_rex_pool E core pay X = Inr (recv, X')"
  shows "amount recv * pool_field total_lendable X' div pool_field total_rex X' \<le> amount pay"
    "0 \<le> amount recv" "amount recv \<le> pool_field total_rex X'" "0 < pool_field total_rex X'" "pool_field total_rex X' < 2 ^ 62"
    "0 \<le> pool_field total_lendable X'" "pool_field total_lendable X' \<le> core_cap"
proof -
  note I = inv_parts [OF assms(2)]
  note P = add_to_pool_law [OF assms(1) I(1,2) assms(3-5), unfolded pool_joined_def]
  let ?L = "pool_field total_lendable X" and ?R = "pool_field total_rex X"
  let ?L' = "pool_field total_lendable X'" and ?R' = "pool_field total_rex X'"
  have i: "?L' = ?L + amount pay" "?R' = ?R + amount recv" "0 \<le> amount recv" "0 \<le> ?R" "0 \<le> ?L"
    "?R = 0 \<longrightarrow> ?L = 0 \<and> amount recv = amount pay * rex_ratio" "?R \<noteq> 0 \<longrightarrow> 0 < ?L \<and> ?R' = ?L' * ?R div ?L"
    using P holdings_okD(3,4) [OF I(2)] owed_bounds(8) [OF I(1)]
    by (auto simp: rex_issued_def priced_def split: if_splits)
  show pos: "0 < ?R'" using i assms(3) by (cases "?R = 0") (auto simp: rex_ratio_def)
  have "amount recv * ?L' \<le> amount pay * ?R'"
  proof (cases "?R = 0")
    case True
    then show ?thesis using i by (simp add: mult.commute)
  next
    case False
    then have "?R' * ?L \<le> ?L' * ?R" using i int_div_mult_le [of ?L "?L' * ?R"] by simp
    then show ?thesis using i(1,2) by (simp add: algebra_simps)
  qed
  then have "amount recv * ?L' div ?R' \<le> amount pay * ?R' div ?R'" using pos by (intro zdiv_mono1) auto
  then show "amount recv * ?L' div ?R' \<le> amount pay" using pos by simp
  show "0 \<le> amount recv" "amount recv \<le> ?R'" using i by simp_all
  show "?R' < 2 ^ 62" using P by blast
  show "0 \<le> ?L'" using i assms(3) by simp
  show "?L' \<le> core_cap" using i(1) owed_bounds(8) [OF I(1)] assms(4) by simp
qed

lemma fill_order_price:
  assumes "lib_ok E" and "fill_rex_order E core w q X = Inr (outcome, X')"
  shows "\<exists>p. muldiv128 (amount q) (pool_field total_lendable X) (pool_field total_rex X) = Inr p \<and>
    (success outcome \<longrightarrow> amount (oo_proceeds outcome) = p)"
  using assms by (auto simp: fill_rex_order_def the_pool_def pool_field_def lib_simps Let_def split: if_splits)

text \<open>
  C17: REX that is bought and sold back while the pool is as the purchase left it, all of it or a part,
  pays at most what it cost: neither the issue of the REX nor the filling of the order rounds in favour
  of the trader.
\<close>

theorem round_trip_never_profits:
  assumes "lib_ok E" and "rex_inv X" and "0 < amount pay" and "rex_owed X + amount pay \<le> core_cap"
    and "add_to_rex_pool E core pay X = Inr (recv, X1)"
    and "rexpool X2 = rexpool X1" and "0 \<le> amount q" and "amount q \<le> amount recv"
    and "fill_rex_order E core w q X2 = Inr (outcome, X3)" and "success outcome"
  shows "amount (oo_proceeds outcome) \<le> amount pay"
proof -
  note B = bought_worth [OF assms(1-5)]
  let ?L = "pool_field total_lendable X1" and ?R = "pool_field total_rex X1"
  have "pool_field f X2 = pool_field f X1" for f by (simp add: pool_field_def assms(6))
  then obtain p where p: "muldiv128 (amount q) ?L ?R = Inr p" "amount (oo_proceeds outcome) = p"
    using fill_order_price [OF assms(1,9)] assms(10) by auto
  have "p = amount q * ?L div ?R" by (rule pro_rata [OF assms(7) _ B(6,7,5) p(1)]) (use assms(8) B(3) in simp)
  also have "\<dots> \<le> amount recv * ?L div ?R" using assms(8) B(4,6) by (intro zdiv_mono1 mult_right_mono)
  finally show ?thesis using B(1) p(2) by simp
qed

theorem round_trip_never_profits_witness:
  "\<exists>recv delta X1 X2 outcome X3. add_to_rex_pool ref_env (Inr eos) (coins 333) demo_rex = Inr (recv, X1) \<and>
     add_to_rex_balance ref_env (Inr eos) bob (coins 333) recv X1 = Inr (delta, X2) \<and>
     fill_rex_order ref_env (Inr eos) bob recv X2 = Inr (outcome, X3) \<and> success outcome \<and> amount (oo_proceeds outcome) \<le> 333"
proof -
  have "bindE (add_to_rex_pool ref_env (Inr eos) (coins 333) demo_rex) (\<lambda>(recv, X1).
      bindE (add_to_rex_balance ref_env (Inr eos) bob (coins 333) recv X1) (\<lambda>(delta, X2).
      bindE (fill_rex_order ref_env (Inr eos) bob recv X2) (\<lambda>(outcome, X3).
      check (success outcome \<and> 0 \<le> amount recv) ''not filled''))) = Inr ()"
    by code_simp
  then obtain recv delta X1 X2 outcome X3 where r: "add_to_rex_pool ref_env (Inr eos) (coins 333) demo_rex = Inr (recv, X1)"
    "add_to_rex_balance ref_env (Inr eos) bob (coins 333) recv X1 = Inr (delta, X2)"
    "fill_rex_order ref_env (Inr eos) bob recv X2 = Inr (outcome, X3)" "success outcome" "0 \<le> amount recv"
    by auto
  have "rexpool X2 = rexpool X1" using add_to_balance_stow [OF r(2)] by (auto simp: set_rexbal_def)
  moreover have "rex_owed demo_rex + 333 \<le> core_cap" by (simp add: core_cap_def)
  ultimately have "amount (oo_proceeds outcome) \<le> 333"
    using round_trip_never_profits [OF ref_env_ok demo_rex_inv(1) _ _ r(1) _ r(5) order_refl r(3,4)] by simp
  then show ?thesis using r by blast
qed

section \<open>Maturity\<close>

text \<open>The REX of the buckets that have matured, in buckets sorted by maturity.\<close>

definition matured_sum :: "time_point_sec \<Rightarrow> (time_point_sec \<times> int) list \<Rightarrow> int" where
  "matured_sum n bs = bucket_sum (filter (\<lambda>b. fst b \<le> n) bs)"

lemma none_matured: "\<forall>b\<in>set bs. n < fst b \<Longrightarrow> filter (\<lambda>b. fst b \<le> n) bs = []" for n :: int
  by (rule filter_False) (simp add: not_le)

lemma mature_exact:
  "sorted (map fst bs) \<Longrightarrow> 0 \<le> m \<Longrightarrow> buckets_ok bs \<Longrightarrow> m + bucket_sum bs < 2 ^ 62 \<Longrightarrow>
    mature n bs m = (m + matured_sum n bs, filter (\<lambda>b. n < fst b) bs)"
proof (induction n bs m rule: mature.induct)
  case (1 n t q bs m)
  show ?case
  proof (cases "t \<le> n")
    case True
    then show ?thesis
      using 1 bucket_sum_nonneg [of bs] by (simp add: i64_lt matured_sum_def)
  next
    case False
    then have "\<forall>b\<in>set ((t, q) # bs). n < fst b" using 1(2) by auto
    then show ?thesis
      using False none_matured [of "(t, q) # bs" n] by (simp add: matured_sum_def)
  qed
qed (simp add: matured_sum_def)

text \<open>
  C18: Maturing a balance frees exactly the buckets whose time has come, no more and no less, when
  the buckets are in the order the contract keeps them.
\<close>

theorem maturities_are_exact:
  assumes "row_ok rb" and "sorted (map fst (rex_maturities rb))"
  shows "matured_rex (process_rex_maturities E rb) = matured_rex rb + matured_sum (now_sec E) (rex_maturities rb) \<and>
    rex_maturities (process_rex_maturities E rb) = filter (\<lambda>b. now_sec E < fst b) (rex_maturities rb)"
  using assms mature_exact [of "rex_maturities rb" "matured_rex rb" "now_sec E"]
  by (simp add: process_rex_maturities_def row_ok_def rex_held_def)

theorem maturities_are_exact_witness:
  "matured_rex (process_rex_maturities (ref_env\<lparr>now := 1600300800000000\<rparr>) alice_rex) = 9600000000"
  using maturities_are_exact [of alice_rex "ref_env\<lparr>now := 1600300800000000\<rparr>"]
  by (simp add: alice_rex_def row_ok_def rex_held_def matured_sum_def now_sec_def u32_def)

lemma maturity_window:
  assumes "0 \<le> now E" "now E div 1000000 + 5 * seconds_per_day < 2 ^ 32"
  shows "now_sec E + 4 * seconds_per_day < get_rex_maturity E \<and>
    get_rex_maturity E \<le> now_sec E + 5 * seconds_per_day \<and> get_rex_maturity E mod seconds_per_day = 0"
proof -
  let ?n = "now E div 1000000"
  have n: "now_sec E = ?n" "0 \<le> ?n"
    using assms by (simp_all add: now_sec_def u32_def time_constants pos_imp_zdiv_nonneg_iff)
  have r: "0 \<le> ?n mod 86400" "?n mod 86400 < 86400" "?n mod 86400 \<le> ?n"
    using n(2) by (simp_all add: zmod_le_nonneg_dividend)
  have "get_rex_maturity E = ?n - ?n mod 86400 + 432000"
    unfolding get_rex_maturity_def n(1) Let_def using assms r n(2)
    by (simp add: u32_def time_constants)
  moreover have "?n - ?n mod 86400 + 432000 = 86400 * (?n div 86400 + 5)"
    by (simp add: minus_mod_eq_mult_div)
  then have "(?n - ?n mod 86400 + 432000) mod 86400 = 0" by (simp only: mod_mult_self1_is_0)
  ultimately show ?thesis using r n by (simp add: time_constants)
qed

text \<open>
  C19: New REX is locked for at least four and at most five days: it matures at a midnight, and
  consolidating a balance locks all of it again but what an open sell order holds and what
  is in savings.
\<close>

theorem consolidation_locks_again:
  assumes "0 \<le> now E" and "now E div 1000000 + 5 * seconds_per_day < 2 ^ 32"
    and "row_ok rb" and "0 \<le> amount q" and "amount q \<le> matured_rex rb"
  shows "rex_held (consolidate_rex_balance E q rb) = rex_held rb \<and>
    matured_rex (consolidate_rex_balance E q rb) = amount q \<and>
    (\<forall>b\<in>set (rex_maturities (consolidate_rex_balance E q rb)).
       fst b = end_of_days \<or> now_sec E + 4 * seconds_per_day < fst b \<and> fst b \<le> now_sec E + 5 * seconds_per_day)"
proof -
  have "fst b = end_of_days \<or> fst b = get_rex_maturity E"
    if "b \<in> set (rex_maturities (consolidate_rex_balance E q rb))" for b
    using that by (auto simp: consolidate_rex_balance_def put_rex_savings_def add_bucket_def Let_def
        split: prod.splits if_splits)
  then show ?thesis
    using consolidate_law [OF assms(3-5), of E] maturity_window [OF assms(1,2)] by metis
qed

theorem consolidation_locks_again_witness:
  "matured_rex (consolidate_rex_balance ref_env (rexes 5) alice_rex) = 5 \<and>
     rex_held (consolidate_rex_balance ref_env (rexes 5) alice_rex) = 10000000000"
  using consolidation_locks_again [of ref_env alice_rex "rexes 5"]
  by (simp add: alice_rex_def row_ok_def rex_held_def ref_env_def time_constants)

end
