(* ===== verification/Ram.thy ===== *)
theory Ram
  imports Rex_Run
begin

text \<open>
  The memory market (\<open>delegate_bandwidth.cpp\<close>, \<open>eosio.system.cpp\<close>): its supply, which grows
  with every block, and the purchase and sale of bytes at the Bancor price, with a fee of one
  half percent that goes to the REX pool.
\<close>

definition the_market :: "string \<Rightarrow> system_state \<Rightarrow> exchange_state res" where
  "the_market msg S = some_or (Check msg) (rammarket S)"

definition set_gstate :: "(eosio_global_state \<Rightarrow> eosio_global_state) \<Rightarrow> system_state \<Rightarrow> system_state" where
  "set_gstate f S = S\<lparr>vs := (vs S)\<lparr>gstate := f (gstate (vs S))\<rparr>\<rparr>"

text \<open>\<open>m.base.balance.amount += delta\<close>\<close>

definition grow_base :: "int \<Rightarrow> exchange_state \<Rightarrow> exchange_state" where
  "grow_base delta m = m\<lparr>base := (base m)\<lparr>c_balance := inc_amt delta (c_balance (base m))\<rparr>\<rparr>"

section \<open>Supply\<close>

definition update_ram_supply :: "env \<Rightarrow> system_state \<Rightarrow> system_state res" where
  "update_ram_supply E S =
     (let cbt = block_slot E; g2 = gstate2 (vs S) in
      if cbt \<le> last_ram_increase g2 then Inr S
      else
        let new_ram = u32 (u32 (cbt - last_ram_increase g2) * new_ram_per_block g2);
            S = set_gstate (\<lambda>g. g\<lparr>max_ram_size := u64 (max_ram_size g + new_ram)\<rparr>) S in
        bindE (the_market ''cannot pass end iterator to modify'' S) (\<lambda>m.
        Inr (S\<lparr>rammarket := Some (grow_base new_ram m),
               vs := (vs S)\<lparr>gstate2 := g2\<lparr>last_ram_increase := cbt\<rparr>\<rparr>\<rparr>)))"

definition setramrate :: "env \<Rightarrow> int \<Rightarrow> system_state \<Rightarrow> system_state res" where
  "setramrate E bytes_per_block S =
     bindE (require_auth E (get_self E)) (\<lambda>_.
     bindE (update_ram_supply E S) (\<lambda>S.
     Inr (S\<lparr>vs := (vs S)\<lparr>gstate2 := (gstate2 (vs S))\<lparr>new_ram_per_block := bytes_per_block\<rparr>\<rparr>\<rparr>)))"

definition setram :: "env \<Rightarrow> int \<Rightarrow> system_state \<Rightarrow> system_state res" where
  "setram E new_size S =
     bindE (require_auth E (get_self E)) (\<lambda>_.
     let g = gstate (vs S) in
     bindE (check (max_ram_size g < new_size) ''ram may only be increased'') (\<lambda>_.
     bindE (check (new_size < 1024 ^ 5) ''ram size is unrealistic'') (\<lambda>_.
     bindE (check (total_ram_bytes_reserved g < new_size) ''attempt to set max below reserved'') (\<lambda>_.
     let delta = i64 (i64 new_size - i64 (max_ram_size g)) in
     bindE (the_market ''cannot pass end iterator to modify'' S) (\<lambda>m.
     Inr (set_gstate (\<lambda>g. g\<lparr>max_ram_size := new_size\<rparr>) (S\<lparr>rammarket := Some (grow_base delta m)\<rparr>)))))))"

section \<open>Purchase and sale\<close>

text \<open>.5% fee (round up)\<close>

definition half_percent :: "int \<Rightarrow> int" where
  "half_percent n = tdiv (i64 (n + 199)) 200"

definition set_ram_limit :: "name \<Rightarrow> int \<Rightarrow> voting_state \<Rightarrow> resource_state \<Rightarrow> resource_state res" where
  "set_ram_limit a bytes V R =
     (if managed_flag V a ram_managed then Inr R
      else bindE (get_resource_limits a R) (\<lambda>(_, net, cpu).
        Inr (set_resource_limits a (i64 (bytes + ram_gift_bytes)) net cpu R)))"

definition buyram :: "env \<Rightarrow> name \<Rightarrow> name \<Rightarrow> asset \<Rightarrow> system_state \<Rightarrow> system_state res" where
  "buyram E payer receiver quant S =
     bindE (require_auth E payer) (\<lambda>_.
     bindE (update_ram_supply E S) (\<lambda>S.
     bindE (core_symbol S) (\<lambda>cs.
     bindE (check (symbol quant = cs) ''must buy ram with core token'') (\<lambda>_.
     bindE (check (0 < amount quant) ''must purchase a positive amount'') (\<lambda>_.
     let fee = set_amt (half_percent (amount quant)) quant;
         quant_after_fee = inc_amt (- amount fee) quant;
         S = emit [Token_transfer [active_of payer, active_of ram_account] payer ram_account quant_after_fee
               ''buy ram''] S in
     bindE
       (if 0 < amount fee then
          channel_to_rex E ramfee_account fee
            (emit [Token_transfer [active_of payer] payer ramfee_account fee ''ram fee''] S)
        else Inr S) (\<lambda>S.
     bindE (the_market ''ram market does not exist'' S) (\<lambda>m.
     bindE (direct_convert E quant_after_fee ram_symbol m) (\<lambda>(out, m).
     let bytes_out = amount out; S = S\<lparr>rammarket := Some m\<rparr> in
     bindE (check (0 < bytes_out) ''must reserve a positive amount'') (\<lambda>_.
     let S = set_gstate (\<lambda>g. g\<lparr>total_ram_bytes_reserved := u64 (total_ram_bytes_reserved g + bytes_out),
               total_ram_stake := i64 (total_ram_stake g + amount quant_after_fee)\<rparr>) S in
     bindE
       (case fmlookup (userres (rs S)) receiver of
          None \<Rightarrow>
            bindE (core_symbol S) (\<lambda>cs.
            bindE (new_asset E 0 cs) (\<lambda>zero.
            Inr \<lparr>ur_owner = receiver, ur_net_weight = zero, ur_cpu_weight = zero, ram_bytes = bytes_out\<rparr>))
        | Some r \<Rightarrow> Inr (r\<lparr>ram_bytes := i64 (ram_bytes r + bytes_out)\<rparr>)) (\<lambda>r.
     bindE (set_ram_limit (ur_owner r) (ram_bytes r) (vs S)
       ((rs S)\<lparr>userres := fmupd receiver r (userres (rs S))\<rparr>)) (\<lambda>R.
     Inr (S\<lparr>rs := R\<rparr>))))))))))))"

definition buyrambytes :: "env \<Rightarrow> name \<Rightarrow> name \<Rightarrow> int \<Rightarrow> system_state \<Rightarrow> system_state res" where
  "buyrambytes E payer receiver num_bytes S =
     bindE (the_market ''cannot use end iterator'' S) (\<lambda>itr.
     bindE (get_bancor_input (amount (c_balance (base itr))) (amount (c_balance (quote itr))) num_bytes) (\<lambda>cost.
     bindE (dbl_to_i64 (ddiv (dbl cost) (rnd (995 / 1000)))) (\<lambda>cost_plus_fee.
     bindE (core_symbol S) (\<lambda>cs.
     bindE (new_asset E cost_plus_fee cs) (\<lambda>q.
     buyram E payer receiver q S)))))"

definition sellram :: "env \<Rightarrow> name \<Rightarrow> int \<Rightarrow> system_state \<Rightarrow> system_state res" where
  "sellram E acct num_bytes S =
     bindE (require_auth E acct) (\<lambda>_.
     bindE (update_ram_supply E S) (\<lambda>S.
     bindE (check (0 < num_bytes) ''cannot sell negative byte'') (\<lambda>_.
     bindE (some_or (Check ''no resource row'') (fmlookup (userres (rs S)) acct)) (\<lambda>r.
     bindE (check (num_bytes \<le> ram_bytes r) ''insufficient quota'') (\<lambda>_.
     bindE (the_market ''cannot pass end iterator to modify'' S) (\<lambda>m.
     bindE (new_asset E num_bytes ram_symbol) (\<lambda>sold.
     bindE (core_symbol S) (\<lambda>cs.
     bindE (direct_convert E sold cs m) (\<lambda>(tokens_out, m).
     let S = S\<lparr>rammarket := Some m\<rparr> in
     bindE (check (1 < amount tokens_out) ''token amount received from selling ram is too low'') (\<lambda>_.
     let S = set_gstate (\<lambda>g. g\<lparr>total_ram_bytes_reserved := u64 (total_ram_bytes_reserved g - num_bytes),
               total_ram_stake := i64 (total_ram_stake g - amount tokens_out)\<rparr>) S in
     bindE (check (0 \<le> total_ram_stake (gstate (vs S)))
       ''error, attempt to unstake more tokens than previously staked'') (\<lambda>_.
     let r = r\<lparr>ram_bytes := i64 (ram_bytes r - num_bytes)\<rparr> in
     bindE (set_ram_limit (ur_owner r) (ram_bytes r) (vs S)
       ((rs S)\<lparr>userres := fmupd acct r (userres (rs S))\<rparr>)) (\<lambda>R.
     let S = emit [Token_transfer [active_of ram_account, active_of acct] ram_account acct tokens_out ''sell ram'']
           (S\<lparr>rs := R\<rparr>);
         fee = half_percent (amount tokens_out) in
     if 0 < fee then
       bindE (new_asset E fee cs) (\<lambda>q.
       channel_to_rex E ramfee_account q
         (emit [Token_transfer [active_of acct] acct ramfee_account q ''sell ram fee''] S))
     else Inr S))))))))))))"

end
