(* ===== verification/Ram_Laws.thy ===== *)
theory Ram_Laws
  imports Ram Rex_Conservation Demo Escrow
begin

text \<open>
  The memory market keeps its books: the base reserve is the memory still unsold, the bytes of
  all accounts are within what is sold, and the tokens staked for memory change by exactly what
  moves into or out of \<open>eosio.ram\<close>.
\<close>

section \<open>The invariant\<close>

abbreviation base_of :: "exchange_state \<Rightarrow> int" where "base_of m \<equiv> amount (c_balance (base m))"
abbreviation quote_of :: "exchange_state \<Rightarrow> int" where "quote_of m \<equiv> amount (c_balance (quote m))"

definition market_ok :: "eosio_global_state \<Rightarrow> exchange_state \<Rightarrow> bool" where
  "market_ok g m \<longleftrightarrow> symbol (c_balance (base m)) = ram_symbol \<and> symbol (c_balance (quote m)) \<noteq> ram_symbol \<and>
     0 \<le> total_ram_bytes_reserved g \<and> total_ram_bytes_reserved g \<le> max_ram_size g \<and>
     base_of m = max_ram_size g - total_ram_bytes_reserved g \<and>
     0 \<le> total_ram_stake g \<and> total_ram_stake g \<le> quote_of m"

definition bytes_held :: "resource_state \<Rightarrow> int" where
  "bytes_held R = tsum ram_bytes (userres R)"

definition bytes_ok :: "resource_state \<Rightarrow> bool" where
  "bytes_ok R \<longleftrightarrow> (\<forall>w r. fmlookup (userres R) w = Some r \<longrightarrow> 0 \<le> ram_bytes r)"

definition ram_inv :: "system_state \<Rightarrow> bool" where
  "ram_inv S \<longleftrightarrow> (\<exists>m. rammarket S = Some m \<and> market_ok (gstate (vs S)) m) \<and> bytes_ok (rs S) \<and>
     bytes_held (rs S) \<le> total_ram_bytes_reserved (gstate (vs S))"

text \<open>The range in which the market's double arithmetic is exact enough: a petabyte and ten times the supply.\<close>

definition ram_small :: "system_state \<Rightarrow> bool" where
  "ram_small S \<longleftrightarrow> max_ram_size (gstate (vs S)) + 2 ^ 32 < market_max \<and>
     (\<forall>m. rammarket S = Some m \<longrightarrow> quote_of m < market_max)"

definition ram_stake :: "system_state \<Rightarrow> int" where
  "ram_stake S = total_ram_stake (gstate (vs S))"

definition ram_sound :: "system_state \<Rightarrow> system_state \<Rightarrow> bool" where
  "ram_sound S S' \<longleftrightarrow> ram_inv S' \<and> balanced ram_account ram_stake S S'"

lemma ram_sound_trans: "ram_sound S S1 \<Longrightarrow> ram_sound S1 S2 \<Longrightarrow> ram_sound S S2"
  by (auto simp: ram_sound_def intro: balanced_trans)

lemma ram_sound_emit:
  "ram_inv S' \<Longrightarrow> effects S' = effects S @ es \<Longrightarrow> ram_stake S' = ram_stake S + moved ram_account es \<Longrightarrow> ram_sound S S'"
  unfolding ram_sound_def by (blast intro: balancedI)

lemma bytes_okD: "bytes_ok R \<Longrightarrow> fmlookup (userres R) w = Some r \<Longrightarrow> 0 \<le> ram_bytes r"
  by (simp add: bytes_ok_def)

lemma bytes_le_held: "bytes_ok R \<Longrightarrow> fmlookup (userres R) w = Some r \<Longrightarrow> ram_bytes r \<le> bytes_held R"
  using tval_le_tsum [of "userres R" ram_bytes w] by (simp add: bytes_ok_def bytes_held_def)

section \<open>Supply\<close>

lemma u32_range: "0 \<le> u32 x" "u32 x < 2 ^ 32"
  by (simp_all add: u32_def)

lemma update_ram_supply_law:
  assumes X: "ram_inv S" "ram_small S" and run: "update_ram_supply E S = Inr S'"
  shows "ram_inv S' \<and> ram_stake S' = ram_stake S \<and> effects S' = effects S \<and> rs S' = rs S \<and> rx S' = rx S \<and>
    core_symbol S' = core_symbol S \<and> max_ram_size (gstate (vs S')) < market_max \<and>
    (\<exists>m m'. rammarket S = Some m \<and> rammarket S' = Some m' \<and> quote_of m' = quote_of m)"
proof -
  let ?g = "gstate (vs S)"
  obtain m where m: "rammarket S = Some m" "market_ok ?g m" using X(1) by (auto simp: ram_inv_def)
  have b: "max_ram_size ?g + 2 ^ 32 < market_max" using X(2) by (simp add: ram_small_def)
  let ?n = "u32 (u32 (block_slot E - last_ram_increase (gstate2 (vs S))) * new_ram_per_block (gstate2 (vs S)))"
  have n: "0 \<le> ?n" "?n < 2 ^ 32" by (rule u32_range)+
  have w: "u64 (max_ram_size ?g + ?n) = max_ram_size ?g + ?n" "i64 (base_of m + ?n) = base_of m + ?n"
    using b n m(2) by (auto intro!: u64_id i64_id simp: market_ok_def is_i64_def market_max_def)
  show ?thesis
    using run X m w n b
    by (auto simp: update_ram_supply_def the_market_def set_gstate_def grow_base_def Let_def ram_inv_def
        market_ok_def ram_stake_def core_symbol_def split: if_splits)
qed

section \<open>Conversion\<close>

text \<open>Buying bytes: tokens in, bytes out. Selling is the reverse.\<close>

lemma convert_buy:
  assumes E: "lib_ok E" and m: "symbol (c_balance (base m)) = ram_symbol" "symbol (c_balance (quote m)) \<noteq> ram_symbol"
      "0 \<le> base_of m" "base_of m < market_max" "0 \<le> quote_of m" "quote_of m < market_max"
    and q: "symbol q = symbol (c_balance (quote m))" "0 \<le> amount q" "amount q < market_max"
    and run: "direct_convert E q ram_symbol m = Inr (out, m')"
  shows "get_bancor_output (quote_of m) (base_of m) (amount q) = Inr (amount out)"
    "symbol (c_balance (base m')) = ram_symbol" "symbol (c_balance (quote m')) = symbol (c_balance (quote m))"
    "0 \<le> amount out" "amount out \<le> base_of m"
    "base_of m' = base_of m - amount out" "quote_of m' = quote_of m + amount q"
proof -
  obtain n b qq where g: "get_bancor_output (quote_of m) (base_of m) (amount q) = Inr n" and
    out: "out = \<lparr>amount = n, symbol = ram_symbol\<rparr>" and
    qq: "add_asset E (c_balance (quote m)) q = Inr qq" and
    b: "sub_asset E (c_balance (base m)) out = Inr b" and
    m': "m' = m\<lparr>base := (base m)\<lparr>c_balance := b\<rparr>, quote := (quote m)\<lparr>c_balance := qq\<rparr>\<rparr>"
    using run m(1,2) q(1) by (auto simp: direct_convert_def Let_def new_asset_lib [OF E])
  have n: "0 \<le> n \<and> n \<le> base_of m" using bancor_payout [OF q(2,3) m(5,3,4) g] .
  have 1: "is_i64 (quote_of m + amount q)" "is_i64 (base_of m - amount out)"
    using m q n out by (simp_all add: is_i64_def market_max_def)
  show "get_bancor_output (quote_of m) (base_of m) (amount q) = Inr (amount out)"
    "symbol (c_balance (base m')) = ram_symbol" "symbol (c_balance (quote m')) = symbol (c_balance (quote m))"
    "0 \<le> amount out" "amount out \<le> base_of m"
    "base_of m' = base_of m - amount out" "quote_of m' = quote_of m + amount q"
    using g n out m(1) qq [unfolded add_asset_lib [OF E 1(1)]] b [unfolded sub_asset_lib [OF E 1(2)]] m' by auto
qed

lemma convert_sell:
  assumes E: "lib_ok E" and m: "symbol (c_balance (base m)) = ram_symbol" "symbol (c_balance (quote m)) \<noteq> ram_symbol"
      "0 \<le> base_of m" "base_of m < market_max" "0 \<le> quote_of m" "quote_of m < market_max"
    and q: "symbol q = ram_symbol" "0 \<le> amount q" "amount q < market_max"
    and run: "direct_convert E q (symbol (c_balance (quote m))) m = Inr (out, m')"
  shows "get_bancor_output (base_of m) (quote_of m) (amount q) = Inr (amount out)"
    "symbol (c_balance (base m')) = ram_symbol" "symbol (c_balance (quote m')) = symbol (c_balance (quote m))"
    "0 \<le> amount out" "amount out \<le> quote_of m"
    "base_of m' = base_of m + amount q" "quote_of m' = quote_of m - amount out"
proof -
  obtain n b qq where g: "get_bancor_output (base_of m) (quote_of m) (amount q) = Inr n" and
    out: "out = \<lparr>amount = n, symbol = symbol (c_balance (quote m))\<rparr>" and
    b: "add_asset E (c_balance (base m)) q = Inr b" and
    qq: "sub_asset E (c_balance (quote m)) out = Inr qq" and
    m': "m' = m\<lparr>base := (base m)\<lparr>c_balance := b\<rparr>, quote := (quote m)\<lparr>c_balance := qq\<rparr>\<rparr>"
    using run m(1,2) q(1) by (auto simp: direct_convert_def Let_def new_asset_lib [OF E] split: if_splits)
  have n: "0 \<le> n \<and> n \<le> quote_of m" using bancor_payout [OF q(2,3) m(3,5,6) g] .
  have o: "amount out = n" using out by simp
  have 1: "is_i64 (base_of m + amount q)" "is_i64 (quote_of m - amount out)"
    using m q n out by (simp_all add: is_i64_def market_max_def)
  show "get_bancor_output (base_of m) (quote_of m) (amount q) = Inr (amount out)"
    "symbol (c_balance (base m')) = ram_symbol" "symbol (c_balance (quote m')) = symbol (c_balance (quote m))"
    "0 \<le> amount out" "amount out \<le> quote_of m"
    "base_of m' = base_of m + amount q" "quote_of m' = quote_of m - amount out"
    using g n o m(1) b [unfolded add_asset_lib [OF E 1(1)]] qq [unfolded sub_asset_lib [OF E 1(2)]] m' q(1) by auto
qed

section \<open>Fees\<close>

lemma half_percent_law:
  assumes "0 < n" "n < market_max"
  shows "0 < half_percent n" "half_percent n \<le> n" "half_percent n = (n + 199) div 200"
    "n \<le> 200 * half_percent n" "200 * half_percent n < n + 200"
proof -
  have "i64 (n + 199) = n + 199" using assms by (intro i64_id) (simp add: is_i64_def market_max_def)
  then have h: "half_percent n = (n + 199) div 200" using assms by (simp add: half_percent_def tdiv_def)
  show "half_percent n = (n + 199) div 200" by (rule h)
  show "0 < half_percent n" "half_percent n \<le> n" "n \<le> 200 * half_percent n" "200 * half_percent n < n + 200"
    unfolding h using assms div_mult_mod_eq [of "n + 199" 200] pos_mod_sign [of 200 "n + 199"]
      pos_mod_bound [of 200 "n + 199"] by linarith+
qed

lemma channel_frame:
  assumes "channel_to_rex E from amt S = Inr S'"
  shows "vs S' = vs S" "rs S' = rs S" "rammarket S' = rammarket S" "ns S' = ns S"
    "\<exists>es. effects S' = effects S @ es \<and> (\<forall>a. a \<noteq> from \<and> a \<noteq> rex_account \<longrightarrow> moved a es = 0)"
  using assms by (auto simp: channel_to_rex_def split: option.splits if_splits)

lemma set_ram_limit_frame:
  assumes "set_ram_limit a n V R = Inr R'"
  shows "userres R' = userres R" "delband R' = delband R" "refunds R' = refunds R"
  using assms by (auto simp: set_ram_limit_def split: if_splits)

section \<open>Buying\<close>

lemma buyram_parts:
  assumes E: "lib_ok E" and run: "buyram E payer receiver q S = Inr S'"
  obtains S1 S2 m out m' r R es V where
    "update_ram_supply E S = Inr S1" "core_symbol S1 = Inr (symbol q)" "0 < amount q"
    "vs S2 = vs S1" "rs S2 = rs S1" "rammarket S2 = rammarket S1" "ns S2 = ns S1"
    "effects S2 = effects S1 @ Token_transfer [active_of payer, active_of ram_account] payer ram_account
       (inc_amt (- half_percent (amount q)) q) ''buy ram'' # es"
    "\<forall>a. a \<noteq> ramfee_account \<and> a \<noteq> rex_account \<longrightarrow>
       moved a es = (if a = payer \<and> 0 < half_percent (amount q) then - half_percent (amount q) else 0)"
    "rammarket S1 = Some m" "direct_convert E (inc_amt (- half_percent (amount q)) q) ram_symbol m = Inr (out, m')"
    "0 < amount out"
    "case fmlookup (userres (rs S1)) receiver of
       None \<Rightarrow> ur_owner r = receiver \<and> ram_bytes r = amount out
     | Some r0 \<Rightarrow> r = r0\<lparr>ram_bytes := i64 (ram_bytes r0 + amount out)\<rparr>"
    "set_ram_limit (ur_owner r) (ram_bytes r) V ((rs S1)\<lparr>userres := fmupd receiver r (userres (rs S1))\<rparr>) = Inr R"
    "S' = (set_gstate (\<lambda>g. g\<lparr>total_ram_bytes_reserved := u64 (total_ram_bytes_reserved g + amount out),
       total_ram_stake := i64 (total_ram_stake g + amount (inc_amt (- half_percent (amount q)) q))\<rparr>)
       (S2\<lparr>rammarket := Some m'\<rparr>))\<lparr>rs := R\<rparr>"
proof -
  let ?f = "set_amt (half_percent (amount q)) q" and ?q = "inc_amt (- amount (set_amt (half_percent (amount q)) q)) q"
  let ?t = "Token_transfer [active_of payer, active_of ram_account] payer ram_account ?q ''buy ram''"
  obtain S1 S2 m out m' r R V Sx where
    1: "update_ram_supply E S = Inr S1" and 2: "core_symbol S1 = Inr (symbol q)" and 3: "0 < amount q" and
    4: "(if 0 < amount ?f then
          channel_to_rex E ramfee_account ?f
            (emit [Token_transfer [active_of payer] payer ramfee_account ?f ''ram fee''] (emit [?t] S1))
        else Inr (emit [?t] S1)) = Inr S2" and
    5: "rammarket S2 = Some m" and 6: "direct_convert E ?q ram_symbol m = Inr (out, m')" and 7: "0 < amount out" and
    8: "(case fmlookup (userres (rs S2)) receiver of
       None \<Rightarrow>
         bindE (core_symbol Sx) (\<lambda>cs.
         bindE (new_asset E 0 cs) (\<lambda>zero.
         Inr \<lparr>ur_owner = receiver, ur_net_weight = zero, ur_cpu_weight = zero, ram_bytes = amount out\<rparr>))
     | Some r \<Rightarrow> Inr (r\<lparr>ram_bytes := i64 (ram_bytes r + amount out)\<rparr>)) = Inr r" and
    9: "set_ram_limit (ur_owner r) (ram_bytes r) V ((rs S2)\<lparr>userres := fmupd receiver r (userres (rs S2))\<rparr>) = Inr R" and
    10: "S' = (set_gstate (\<lambda>g. g\<lparr>total_ram_bytes_reserved := u64 (total_ram_bytes_reserved g + amount out),
       total_ram_stake := i64 (total_ram_stake g + amount ?q)\<rparr>) (S2\<lparr>rammarket := Some m'\<rparr>))\<lparr>rs := R\<rparr>"
    using run
    by (auto simp: buyram_def Let_def the_market_def set_gstate_def)
  from 8 have 8: "(case fmlookup (userres (rs S2)) receiver of
       None \<Rightarrow> ur_owner r = receiver \<and> ram_bytes r = amount out
     | Some r0 \<Rightarrow> r = r0\<lparr>ram_bytes := i64 (ram_bytes r0 + amount out)\<rparr>)"
    by (auto split: option.splits)
  let ?P = "\<lambda>es. \<forall>a. a \<noteq> ramfee_account \<and> a \<noteq> rex_account \<longrightarrow>
    moved a es = (if a = payer \<and> 0 < half_percent (amount q) then - half_percent (amount q) else 0)"
  have "\<exists>es. effects S2 = effects (emit [?t] S1) @ es \<and> ?P es \<and>
    vs S2 = vs S1 \<and> rs S2 = rs S1 \<and> rammarket S2 = rammarket S1 \<and> ns S2 = ns S1"
  proof (cases "0 < half_percent (amount q)")
    case True
    let ?u = "Token_transfer [active_of payer] payer ramfee_account ?f ''ram fee''"
    have c: "channel_to_rex E ramfee_account ?f (emit [?u] (emit [?t] S1)) = Inr S2" using 4 True by simp
    note F = channel_frame [OF c]
    then obtain es where "effects S2 = effects (emit [?u] (emit [?t] S1)) @ es"
      "\<forall>a. a \<noteq> ramfee_account \<and> a \<noteq> rex_account \<longrightarrow> moved a es = 0" by auto
    then show ?thesis using F True by (intro exI [of _ "?u # es"]) auto
  next
    case False
    then show ?thesis using 4 by (intro exI [of _ "[]"]) auto
  qed
  then obtain es where "effects S2 = effects (emit [?t] S1) @ es" "?P es"
    "vs S2 = vs S1" "rs S2 = rs S1" "rammarket S2 = rammarket S1" "ns S2 = ns S1" by blast
  with 1 2 3 5 6 7 8 9 10 show ?thesis by (intro that [of S1 S2 es m out m' r V R]) auto
qed

lemma ram_inv_market:
  assumes "ram_inv S"
  obtains m where "rammarket S = Some m" "market_ok (gstate (vs S)) m"
  using assms by (auto simp: ram_inv_def)

text \<open>Replacing the bytes of one account.\<close>

lemma bytes_upd:
  "bytes_held (R\<lparr>userres := fmupd w r t\<rparr>) = tsum ram_bytes t - tval ram_bytes t w + ram_bytes r"
  "bytes_ok (R\<lparr>userres := fmupd w r t\<rparr>) \<longleftrightarrow> 0 \<le> ram_bytes r \<and> (\<forall>v s. v \<noteq> w \<and> fmlookup t v = Some s \<longrightarrow> 0 \<le> ram_bytes s)"
  by (auto simp: bytes_held_def bytes_ok_def split: if_splits)

lemma bytes_cong:
  "userres R' = userres R \<Longrightarrow> bytes_held R' = bytes_held R" "userres R' = userres R \<Longrightarrow> bytes_ok R' = bytes_ok R"
  by (simp_all add: bytes_held_def bytes_ok_def)

definition buyram_fits :: "name \<Rightarrow> asset \<Rightarrow> system_state \<Rightarrow> bool" where
  "buyram_fits payer q S \<longleftrightarrow> payer \<noteq> ram_account \<and>
     (\<forall>m. rammarket S = Some m \<longrightarrow> quote_of m + amount q < market_max)"

text \<open>A purchase is sound, and takes bytes from nobody.\<close>

text \<open>Bytes bought are added to the row of the receiver, in bounds.\<close>

lemma bought_bytes:
  assumes ok: "bytes_ok R0" "bytes_held R0 + n < market_max" "0 \<le> n"
    and r: "case fmlookup (userres R0) receiver of
       None \<Rightarrow> ur_owner r = receiver \<and> ram_bytes r = n
     | Some r0 \<Rightarrow> r = r0\<lparr>ram_bytes := i64 (ram_bytes r0 + n)\<rparr>"
    and R: "set_ram_limit (ur_owner r) (ram_bytes r) V (R0\<lparr>userres := fmupd receiver r (userres R0)\<rparr>) = Inr R"
  shows "ram_bytes r = tval ram_bytes (userres R0) receiver + n" "bytes_ok R" "bytes_held R = bytes_held R0 + n"
    "tval ram_bytes (userres R0) w \<le> tval ram_bytes (userres R) w"
proof -
  show held: "ram_bytes r = tval ram_bytes (userres R0) receiver + n"
  proof (cases "fmlookup (userres R0) receiver")
    case (Some r0)
    have "i64 (ram_bytes r0 + n) = ram_bytes r0 + n"
      using bytes_okD [OF ok(1) Some] bytes_le_held [OF ok(1) Some] ok(2,3)
      by (intro i64_small) (auto simp: market_max_def)
    then show ?thesis using r Some by simp
  qed (use r in simp)
  have tv: "0 \<le> tval ram_bytes (userres R0) receiver" using bytes_okD [OF ok(1)] by (auto simp: tval_def split: option.split)
  show "bytes_ok R" "bytes_held R = bytes_held R0 + n"
    using bytes_cong [OF set_ram_limit_frame(1) [OF R]] bytes_okD [OF ok(1)] held tv ok(3)
    by (auto simp: bytes_upd, simp add: bytes_held_def)
  show "tval ram_bytes (userres R0) w \<le> tval ram_bytes (userres R) w"
    using set_ram_limit_frame(1) [OF R] held ok(3) by (auto simp: tval_def)
qed

lemma buyram_effect:
  assumes E: "lib_ok E" and X: "ram_inv S" "ram_small S" and fits: "buyram_fits payer q S"
    and run: "buyram E payer receiver q S = Inr S'"
  shows "ram_sound S S' \<and> (\<forall>w. tval ram_bytes (userres (rs S)) w \<le> tval ram_bytes (userres (rs S')) w)"
proof (rule buyram_parts [OF E run])
  fix S1 S2 m out m' r R es V
  let ?q = "inc_amt (- half_percent (amount q)) q"
  assume s1: "update_ram_supply E S = Inr S1" and cs: "core_symbol S1 = Inr (symbol q)" and pos: "0 < amount q"
    and fr: "vs S2 = vs S1" "rs S2 = rs S1" "rammarket S2 = rammarket S1" "ns S2 = ns S1"
    and ef: "effects S2 = effects S1 @ Token_transfer [active_of payer, active_of ram_account] payer ram_account ?q ''buy ram'' # es"
      "\<forall>a. a \<noteq> ramfee_account \<and> a \<noteq> rex_account \<longrightarrow>
         moved a es = (if a = payer \<and> 0 < half_percent (amount q) then - half_percent (amount q) else 0)"
    and m: "rammarket S1 = Some m" and c: "direct_convert E ?q ram_symbol m = Inr (out, m')" and out: "0 < amount out"
    and r: "case fmlookup (userres (rs S1)) receiver of
       None \<Rightarrow> ur_owner r = receiver \<and> ram_bytes r = amount out
     | Some r0 \<Rightarrow> r = r0\<lparr>ram_bytes := i64 (ram_bytes r0 + amount out)\<rparr>"
    and R: "set_ram_limit (ur_owner r) (ram_bytes r) V ((rs S1)\<lparr>userres := fmupd receiver r (userres (rs S1))\<rparr>) = Inr R"
    and S': "S' = (set_gstate (\<lambda>g. g\<lparr>total_ram_bytes_reserved := u64 (total_ram_bytes_reserved g + amount out),
       total_ram_stake := i64 (total_ram_stake g + amount ?q)\<rparr>) (S2\<lparr>rammarket := Some m'\<rparr>))\<lparr>rs := R\<rparr>"
  note U = update_ram_supply_law [OF X s1]
  let ?g = "gstate (vs S1)"
  have ok: "market_ok ?g m" "bytes_ok (rs S1)" "bytes_held (rs S1) \<le> total_ram_bytes_reserved ?g"
    using U m by (auto simp: ram_inv_def)
  have bs: "0 \<le> base_of m" "base_of m < market_max" "max_ram_size ?g < market_max"
    using ok(1) U by (auto simp: market_ok_def)
  have qs: "quote_of m + amount q < market_max" "0 \<le> quote_of m" "symbol (c_balance (quote m)) = symbol q"
    using U m fits X cs ok(1) by (auto simp: buyram_fits_def market_ok_def core_symbol_def)
  have am: "amount q < market_max" using qs by simp
  note h = half_percent_law [OF pos am]
  have q: "amount ?q = amount q - half_percent (amount q)"
    using h pos am by (simp, intro i64_small) (auto simp: market_max_def)
  have q': "0 \<le> amount ?q" "amount ?q \<le> amount q" using q h by auto
  have C: "0 \<le> amount out" "amount out \<le> base_of m" "base_of m' = base_of m - amount out"
    "quote_of m' = quote_of m + amount ?q" "symbol (c_balance (base m')) = ram_symbol"
    "symbol (c_balance (quote m')) = symbol (c_balance (quote m))"
    by (rule convert_buy [OF E _ _ bs(1,2) qs(2) _ _ q'(1) _ c];
      use ok(1) qs q' am in \<open>simp add: market_ok_def\<close>)+
  have st: "0 \<le> total_ram_stake ?g" "total_ram_stake ?g \<le> quote_of m" "0 \<le> total_ram_bytes_reserved ?g"
    "base_of m = max_ram_size ?g - total_ram_bytes_reserved ?g"
    using ok(1) by (simp_all add: market_ok_def)
  have w: "u64 (total_ram_bytes_reserved ?g + amount out) = total_ram_bytes_reserved ?g + amount out"
    "i64 (total_ram_stake ?g + amount ?q) = total_ram_stake ?g + amount ?q"
    using st C bs qs q' by (auto intro!: u64_id i64_small simp: market_max_def)
  have "bytes_held (rs S1) + amount out < market_max" using ok(3) C st bs by linarith
  note br = bought_bytes [OF ok(2) this _ r R]
  have mk: "market_ok (gstate (vs S')) m'"
    using ok(1) C st w q' fr unfolding S' by (simp add: market_ok_def set_gstate_def)
  have "ram_inv S'" using mk br(2,3) C(1) ok(3) w fr unfolding S' by (simp add: ram_inv_def set_gstate_def)
  moreover have "ram_stake S' = ram_stake S + amount ?q"
    using U w fr unfolding S' by (simp add: ram_stake_def set_gstate_def)
  ultimately have "ram_sound S S'"
    using U ef fits S' by (intro ram_sound_emit) (auto simp: set_gstate_def buyram_fits_def)
  moreover have "tval ram_bytes (userres (rs S)) w \<le> tval ram_bytes (userres (rs S')) w" for w
    using br(4) [of w] U C(1) S' by simp
  ultimately show ?thesis by blast
qed

lemmas buyram_law = buyram_effect [THEN conjunct1]

lemma buyrambytes_parts:
  assumes "lib_ok E" "buyrambytes E payer receiver n S = Inr S'"
  obtains m cost c2 cs where "rammarket S = Some m" "get_bancor_input (base_of m) (quote_of m) n = Inr cost"
    "dbl_to_i64 (ddiv (dbl cost) (rnd (995 / 1000))) = Inr c2"
    "buyram E payer receiver \<lparr>amount = c2, symbol = cs\<rparr> S = Inr S'"
  using assms by (auto simp: buyrambytes_def the_market_def new_asset_lib)

section \<open>Selling\<close>

lemma sellram_parts:
  assumes E: "lib_ok E" and run: "sellram E w n S = Inr S'"
  obtains S1 r m out m' R V es cs where
    "update_ram_supply E S = Inr S1" "0 < n" "fmlookup (userres (rs S1)) w = Some r" "n \<le> ram_bytes r"
    "rammarket S1 = Some m" "core_symbol S1 = Inr cs"
    "direct_convert E \<lparr>amount = n, symbol = ram_symbol\<rparr> cs m = Inr (out, m')" "1 < amount out"
    "0 \<le> i64 (total_ram_stake (gstate (vs S1)) - amount out)"
    "set_ram_limit (ur_owner r) (i64 (ram_bytes r - n)) V
      ((rs S1)\<lparr>userres := fmupd w (r\<lparr>ram_bytes := i64 (ram_bytes r - n)\<rparr>) (userres (rs S1))\<rparr>) = Inr R"
    "vs S' = (vs S1)\<lparr>gstate := (gstate (vs S1))\<lparr>
       total_ram_bytes_reserved := u64 (total_ram_bytes_reserved (gstate (vs S1)) - n),
       total_ram_stake := i64 (total_ram_stake (gstate (vs S1)) - amount out)\<rparr>\<rparr>"
    "rs S' = R" "rammarket S' = Some m'" "ns S' = ns S1"
    "effects S' = effects S1 @ Token_transfer [active_of ram_account, active_of w] ram_account w out ''sell ram'' # es"
    "w \<noteq> ram_account \<longrightarrow> moved ram_account es = 0"
proof -
  let ?g = "\<lambda>g out. g\<lparr>total_ram_bytes_reserved := u64 (total_ram_bytes_reserved g - n),
               total_ram_stake := i64 (total_ram_stake g - amount out)\<rparr>"
  let ?t = "\<lambda>out. Token_transfer [active_of ram_account, active_of w] ram_account w out ''sell ram''"
  obtain S1 r m out m' R V cs S2 where
    1: "update_ram_supply E S = Inr S1" "0 < n" "fmlookup (userres (rs S1)) w = Some r" "n \<le> ram_bytes r"
      "rammarket S1 = Some m" "core_symbol S1 = Inr cs"
      "direct_convert E \<lparr>amount = n, symbol = ram_symbol\<rparr> cs m = Inr (out, m')" "1 < amount out"
      "0 \<le> i64 (total_ram_stake (gstate (vs S1)) - amount out)"
      "set_ram_limit (ur_owner r) (i64 (ram_bytes r - n)) V
        ((rs S1)\<lparr>userres := fmupd w (r\<lparr>ram_bytes := i64 (ram_bytes r - n)\<rparr>) (userres (rs S1))\<rparr>) = Inr R" and
    2: "S2 = emit [?t out] (set_gstate (\<lambda>g. ?g g out) (S1\<lparr>rammarket := Some m'\<rparr>)\<lparr>rs := R\<rparr>)" and
    3: "(if 0 < half_percent (amount out) then
           bindE (new_asset E (half_percent (amount out)) cs) (\<lambda>q.
           channel_to_rex E ramfee_account q
             (emit [Token_transfer [active_of w] w ramfee_account q ''sell ram fee''] S2))
         else Inr S2) = Inr S'"
    using run
    by (auto simp: sellram_def Let_def the_market_def set_gstate_def new_asset_lib [OF E] cong: if_cong)
  have "\<exists>es. effects S' = effects S2 @ es \<and> (w \<noteq> ram_account \<longrightarrow> moved ram_account es = 0) \<and>
    vs S' = vs S2 \<and> rs S' = rs S2 \<and> rammarket S' = rammarket S2 \<and> ns S' = ns S2"
  proof (cases "0 < half_percent (amount out)")
    case True
    then obtain q where c: "channel_to_rex E ramfee_account q
        (emit [Token_transfer [active_of w] w ramfee_account q ''sell ram fee''] S2) = Inr S'"
      using 3 by (auto simp: new_asset_lib [OF E])
    let ?u = "Token_transfer [active_of w] w ramfee_account q ''sell ram fee''"
    note F = channel_frame [OF c]
    then obtain es where "effects S' = effects (emit [?u] S2) @ es"
      "\<forall>a. a \<noteq> ramfee_account \<and> a \<noteq> rex_account \<longrightarrow> moved a es = 0" by auto
    then show ?thesis using F by (intro exI [of _ "?u # es"]) auto
  next
    case False
    then show ?thesis using 3 by (intro exI [of _ "[]"]) auto
  qed
  then obtain es where "effects S' = effects S2 @ es" "w \<noteq> ram_account \<longrightarrow> moved ram_account es = 0"
    "vs S' = vs S2" "rs S' = rs S2" "rammarket S' = rammarket S2" "ns S' = ns S2" by blast
  with 1 2 show ?thesis by (intro that [of S1 r m cs out m' V R es]) (auto simp: set_gstate_def)
qed

text \<open>What a sale converts, in the state it starts from.\<close>

lemma sellram_convert:
  assumes E: "lib_ok E" and X: "ram_inv S" "ram_small S" and s1: "update_ram_supply E S = Inr S1"
    and n: "0 < n" and r: "fmlookup (userres (rs S1)) w = Some r" and nr: "n \<le> ram_bytes r"
    and m: "rammarket S1 = Some m" and cs: "core_symbol S1 = Inr cs"
    and c: "direct_convert E \<lparr>amount = n, symbol = ram_symbol\<rparr> cs m = Inr (out, m')"
  shows "0 \<le> base_of m" "base_of m < market_max" "max_ram_size (gstate (vs S1)) < market_max"
    "quote_of m < market_max" "0 \<le> quote_of m" "ram_bytes r \<le> bytes_held (rs S1)" "0 \<le> ram_bytes r"
    "0 \<le> amount out" "amount out \<le> quote_of m" "base_of m' = base_of m + n"
    "quote_of m' = quote_of m - amount out" "symbol (c_balance (base m')) = ram_symbol"
    "symbol (c_balance (quote m')) = symbol (c_balance (quote m))"
proof -
  note U = update_ram_supply_law [OF X s1]
  let ?g = "gstate (vs S1)"
  have ok: "market_ok ?g m" "bytes_ok (rs S1)" "bytes_held (rs S1) \<le> total_ram_bytes_reserved ?g"
    using U m by (auto simp: ram_inv_def)
  show bs: "0 \<le> base_of m" "base_of m < market_max" "max_ram_size ?g < market_max"
    using ok(1) U by (auto simp: market_ok_def)
  show qs: "quote_of m < market_max" "0 \<le> quote_of m"
    using U m X ok(1) by (auto simp: ram_small_def market_ok_def)
  have cs': "cs = symbol (c_balance (quote m))" using m cs by (simp add: core_symbol_def)
  have st: "0 \<le> total_ram_bytes_reserved ?g" "base_of m = max_ram_size ?g - total_ram_bytes_reserved ?g"
    using ok(1) by (simp_all add: market_ok_def)
  show rb: "ram_bytes r \<le> bytes_held (rs S1)" "0 \<le> ram_bytes r"
    using bytes_le_held [OF ok(2) r] bytes_okD [OF ok(2) r] by auto
  have nm: "n < market_max" using nr rb ok(3) st bs by linarith
  show "0 \<le> amount out" "amount out \<le> quote_of m" "base_of m' = base_of m + n"
    "quote_of m' = quote_of m - amount out" "symbol (c_balance (base m')) = ram_symbol"
    "symbol (c_balance (quote m')) = symbol (c_balance (quote m))"
    using convert_sell [OF E _ _ bs(1,2) qs(2,1) _ _ _ c [unfolded cs']] ok(1) n nm
    by (simp_all add: market_ok_def)
qed

lemma sellram_law:
  assumes E: "lib_ok E" and X: "ram_inv S" "ram_small S" and w: "w \<noteq> ram_account"
    and run: "sellram E w n S = Inr S'"
  shows "ram_sound S S'"
proof (rule sellram_parts [OF E run])
  fix S1 r m out m' R V es cs
  assume s1: "update_ram_supply E S = Inr S1" and n: "0 < n" and r: "fmlookup (userres (rs S1)) w = Some r"
    and nr: "n \<le> ram_bytes r" and m: "rammarket S1 = Some m" and cs: "core_symbol S1 = Inr cs"
    and c: "direct_convert E \<lparr>amount = n, symbol = ram_symbol\<rparr> cs m = Inr (out, m')" and out: "1 < amount out"
    and stk: "0 \<le> i64 (total_ram_stake (gstate (vs S1)) - amount out)"
    and R: "set_ram_limit (ur_owner r) (i64 (ram_bytes r - n)) V
      ((rs S1)\<lparr>userres := fmupd w (r\<lparr>ram_bytes := i64 (ram_bytes r - n)\<rparr>) (userres (rs S1))\<rparr>) = Inr R"
    and S': "vs S' = (vs S1)\<lparr>gstate := (gstate (vs S1))\<lparr>
       total_ram_bytes_reserved := u64 (total_ram_bytes_reserved (gstate (vs S1)) - n),
       total_ram_stake := i64 (total_ram_stake (gstate (vs S1)) - amount out)\<rparr>\<rparr>"
      "rs S' = R" "rammarket S' = Some m'" "ns S' = ns S1"
      "effects S' = effects S1 @ Token_transfer [active_of ram_account, active_of w] ram_account w out ''sell ram'' # es"
      "w \<noteq> ram_account \<longrightarrow> moved ram_account es = 0"
  note U = update_ram_supply_law [OF X s1]
  let ?g = "gstate (vs S1)"
  have ok: "market_ok ?g m" "bytes_ok (rs S1)" "bytes_held (rs S1) \<le> total_ram_bytes_reserved ?g"
    using U m by (auto simp: ram_inv_def)
  note C = sellram_convert [OF E X s1 n r nr m cs c]
  have st: "0 \<le> total_ram_stake ?g" "total_ram_stake ?g \<le> quote_of m" "0 \<le> total_ram_bytes_reserved ?g"
    "base_of m = max_ram_size ?g - total_ram_bytes_reserved ?g"
    using ok(1) by (simp_all add: market_ok_def)
  have i: "i64 (total_ram_stake ?g - amount out) = total_ram_stake ?g - amount out"
    "u64 (total_ram_bytes_reserved ?g - n) = total_ram_bytes_reserved ?g - n"
    "i64 (ram_bytes r - n) = ram_bytes r - n"
    using st C n nr ok(3) by (auto intro!: u64_id i64_small simp: market_max_def)
  have br: "bytes_ok R" "bytes_held R = bytes_held (rs S1) - n"
    using bytes_cong [OF set_ram_limit_frame(1) [OF R]] bytes_okD [OF ok(2)] r nr i
    by (auto simp: bytes_upd, simp add: bytes_held_def)
  have "market_ok (gstate (vs S')) m'"
    using ok(1) C st i stk nr ok(3) n unfolding S' by (simp add: market_ok_def)
  then have "ram_inv S'" using br ok(3) i unfolding ram_inv_def S'(1-3) by simp
  moreover have "ram_stake S' = ram_stake S - amount out" using U i S' by (simp add: ram_stake_def)
  ultimately show ?thesis using U S' w by (intro ram_sound_emit) auto
qed

section \<open>Changing the supply\<close>

lemma setram_law:
  assumes X: "ram_inv S" and run: "setram E n S = Inr S'"
  shows "ram_sound S S'" "max_ram_size (gstate (vs S)) < max_ram_size (gstate (vs S'))"
proof -
  obtain m where m: "rammarket S = Some m" "market_ok (gstate (vs S)) m" using X by (rule ram_inv_market)
  let ?g = "gstate (vs S)"
  have g: "max_ram_size ?g < n" "n < 2 ^ 50" and
    S': "S' = set_gstate (\<lambda>g. g\<lparr>max_ram_size := n\<rparr>)
      (S\<lparr>rammarket := Some (grow_base (i64 (i64 n - i64 (max_ram_size ?g))) m)\<rparr>)"
    using run m by (auto simp: setram_def the_market_def Let_def)
  have ok: "0 \<le> base_of m" "base_of m \<le> max_ram_size ?g" "0 \<le> max_ram_size ?g"
    "base_of m = max_ram_size ?g - total_ram_bytes_reserved ?g" using m(2) by (auto simp: market_ok_def)
  have i: "i64 n = n" "i64 (max_ram_size ?g) = max_ram_size ?g" "i64 (n - max_ram_size ?g) = n - max_ram_size ?g"
    "i64 (base_of m + (n - max_ram_size ?g)) = base_of m + (n - max_ram_size ?g)"
    using g ok by (auto intro!: i64_small)
  have "market_ok (gstate (vs S')) (grow_base (n - max_ram_size ?g) m)"
    using m(2) g ok i unfolding S' by (simp add: market_ok_def grow_base_def set_gstate_def)
  then have "ram_inv S'" using X i unfolding S' by (simp add: ram_inv_def set_gstate_def)
  then show "ram_sound S S'"
    by (rule ram_sound_emit [of _ _ "[]"]) (simp_all add: S' set_gstate_def ram_stake_def)
  show "max_ram_size ?g < max_ram_size (gstate (vs S'))" using g unfolding S' by (simp add: set_gstate_def)
qed

lemma setramrate_law:
  assumes X: "ram_inv S" "ram_small S" and run: "setramrate E n S = Inr S'"
  shows "ram_sound S S'"
proof -
  obtain S1 where s1: "update_ram_supply E S = Inr S1" and
    S': "S' = S1\<lparr>vs := (vs S1)\<lparr>gstate2 := (gstate2 (vs S1))\<lparr>new_ram_per_block := n\<rparr>\<rparr>\<rparr>"
    using run by (auto simp: setramrate_def)
  note U = update_ram_supply_law [OF X s1]
  show ?thesis
    by (rule ram_sound_emit [of _ _ "[]"]) (use U S' in \<open>auto simp: ram_inv_def ram_stake_def\<close>)
qed

section \<open>The actions of the market\<close>

datatype ram_action =
    Buyram name name asset
  | Buyrambytes name name int
  | Sellram name int
  | Setram int
  | Setramrate int

fun ram_exec :: "env \<Rightarrow> ram_action \<Rightarrow> system_state \<Rightarrow> system_state res" where
  "ram_exec E (Buyram payer receiver q) S = buyram E payer receiver q S"
| "ram_exec E (Buyrambytes payer receiver n) S = buyrambytes E payer receiver n S"
| "ram_exec E (Sellram w n) S = sellram E w n S"
| "ram_exec E (Setram n) S = setram E n S"
| "ram_exec E (Setramrate n) S = setramrate E n S"

text \<open>\<open>eosio.ram\<close> itself does not trade, and a purchase leaves the market in its range.\<close>

fun ram_fits :: "ram_action \<Rightarrow> system_state \<Rightarrow> bool" where
  "ram_fits (Buyram payer receiver q) S \<longleftrightarrow> ram_small S \<and> buyram_fits payer q S"
| "ram_fits (Buyrambytes payer receiver n) S \<longleftrightarrow> ram_small S \<and> payer \<noteq> ram_account \<and>
     (\<forall>m cost c2. rammarket S = Some m \<and> get_bancor_input (base_of m) (quote_of m) n = Inr cost \<and>
        dbl_to_i64 (ddiv (dbl cost) (rnd (995 / 1000))) = Inr c2 \<longrightarrow> quote_of m + c2 < market_max)"
| "ram_fits (Sellram w n) S \<longleftrightarrow> ram_small S \<and> w \<noteq> ram_account"
| "ram_fits (Setram n) S \<longleftrightarrow> True"
| "ram_fits (Setramrate n) S \<longleftrightarrow> ram_small S"

lemma ram_exec_sound:
  assumes E: "lib_ok E" and X: "ram_inv S" "ram_fits a S" and run: "ram_exec E a S = Inr S'"
  shows "ram_sound S S'"
proof (cases a)
  case (Buyrambytes payer receiver n)
  then have "buyrambytes E payer receiver n S = Inr S'" using run by simp
  then show ?thesis
  proof (rule buyrambytes_parts [OF E])
    fix m cost c2 cs
    assume "rammarket S = Some m" "get_bancor_input (base_of m) (quote_of m) n = Inr cost"
      "dbl_to_i64 (ddiv (dbl cost) (rnd (995 / 1000))) = Inr c2" and
      b: "buyram E payer receiver \<lparr>amount = c2, symbol = cs\<rparr> S = Inr S'"
    then show ?thesis using X Buyrambytes by (intro buyram_law [OF E _ _ _ b]) (auto simp: buyram_fits_def)
  qed
qed (use assms buyram_law sellram_law setram_law setramrate_law in auto)

text \<open>
  C14: Every action of the memory market keeps its books (unsold memory is the base reserve, the
  bytes of all accounts together are within the memory sold) and changes the tokens staked for
  memory by exactly what it moves into or out of \<open>eosio.ram\<close>.
\<close>

theorem ram_actions_conserve:
  assumes "lib_ok E" and "ram_inv S" and "ram_fits a S" and "ram_exec E a S = Inr S'"
  shows "ram_inv S' \<and>
    (\<exists>es. effects S' = effects S @ es \<and> ram_stake S' = ram_stake S + moved ram_account es)"
  using ram_exec_sound [OF assms] by (simp add: ram_sound_def balanced_def)

lemma demo_ram_inv: "ram_inv demo_state" "ram_small demo_state"
  by (simp_all add: ram_inv_def demo_state_def demo_voting_def demo_gstate_def market_ok_def bytes_ok_def
      bytes_held_def ram_small_def market_max_def ram_symbol_def eos_def)

lemma demo_buyram:
  "case ram_exec ref_env (Buyram bob bob (coins 400)) demo_state of
     Inr S' \<Rightarrow> moved ram_account (effects S') = 398 | Inl _ \<Rightarrow> False"
  by code_simp

theorem ram_actions_conserve_witness:
  "\<exists>S'. ram_exec ref_env (Buyram bob bob (coins 400)) demo_state = Inr S' \<and> ram_inv S' \<and> ram_stake S' = 5398"
proof -
  obtain S' where S': "ram_exec ref_env (Buyram bob bob (coins 400)) demo_state = Inr S'"
    "moved ram_account (effects S') = 398"
    using demo_buyram by (auto split: sum.splits)
  have "ram_stake demo_state = 5000" by (simp add: ram_stake_def demo_state_def demo_voting_def demo_gstate_def)
  moreover have "ram_fits (Buyram bob bob (coins 400)) demo_state"
    using demo_ram_inv by (simp add: buyram_fits_def demo_state_def market_max_def)
  ultimately show ?thesis using ram_actions_conserve [OF ref_env_ok demo_ram_inv(1) _ S'(1)] S' by auto
qed

interpretation ram_escrow: funded_escrow ram_account ram_stake ram_inv ram_fits ram_exec
    "token_deliver E" "\<lambda>T. bal T c" "\<lambda>T. lib_ok E \<and> token_inv T" "in_currency c" for E c
  by unfold_locales (use ram_exec_sound in \<open>auto simp: ram_sound_def intro: balanced_covered\<close>)

section \<open>Fees\<close>

lemma update_ram_supply_effects: "update_ram_supply E S = Inr S' \<Longrightarrow> effects S' = effects S"
  by (auto simp: update_ram_supply_def Let_def set_gstate_def split: if_splits)

text \<open>The fee goes to its account, and on to the REX when that is in use.\<close>

lemma buyram_fee:
  assumes "lib_ok E" "buyram E payer receiver q S = Inr S'" "0 < half_percent (amount q)"
    and "payer \<notin> {ram_account, ramfee_account, rex_account}"
  shows "\<exists>es. effects S' = effects S @ es \<and>
    (\<forall>a. moved a es = (if a = payer then - amount (inc_amt (- half_percent (amount q)) q) - half_percent (amount q)
      else if a = ram_account then amount (inc_amt (- half_percent (amount q)) q)
      else if a = (if rex_available (rx S) then rex_account else ramfee_account) then half_percent (amount q) else 0))"
proof -
  let ?f = "set_amt (half_percent (amount q)) q" and ?q = "inc_amt (- amount (set_amt (half_percent (amount q)) q)) q"
  let ?t = "Token_transfer [active_of payer, active_of ram_account] payer ram_account ?q ''buy ram''"
  let ?u = "Token_transfer [active_of payer] payer ramfee_account ?f ''ram fee''"
    and ?v = "Token_transfer [active_of ramfee_account] ramfee_account rex_account ?f
      (''transfer from '' @ name_to_string E ramfee_account @ '' to eosio.rex'')"
  obtain S1 S2 where s: "update_ram_supply E S = Inr S1" "channel_to_rex E ramfee_account ?f (emit [?u] (emit [?t] S1)) = Inr S2"
    and S': "effects S' = effects S2"
    using assms(2,3) by (auto simp: buyram_def Let_def the_market_def set_gstate_def)
  have "rx S1 = rx S" using s(1) by (auto simp: update_ram_supply_def Let_def set_gstate_def split: if_splits)
  then have e: "effects S' = effects S @ [?t, ?u] @ (if rex_available (rx S) then [?v] else [])"
    using s(2) update_ram_supply_effects [OF s(1)]
    by (auto simp: S' channel_to_rex_def rex_available_def rex_system_initialized_def split: option.splits if_splits)
  show ?thesis
    by (rule exI, rule conjI, rule e) (use assms(4) in \<open>auto simp: account_defs\<close>)
qed

text \<open>
  C22: Buying memory costs the payer exactly the quantity named. Half a percent of it, rounded up, goes to
  the fee account, or through it to the REX when there is one to receive fees; the rest goes to
  \<open>eosio.ram\<close>. No other account is touched.
\<close>

theorem buyram_charges_exactly:
  assumes "lib_ok E" and "buyram E payer receiver q S = Inr S'" and "amount q < market_max"
    and "payer \<notin> {ram_account, ramfee_account, rex_account}"
  shows "\<exists>es. effects S' = effects S @ es \<and> (\<forall>a. moved a es =
    (if a = payer then - amount q
     else if a = ram_account then amount q - (amount q + 199) div 200
     else if a = (if rex_available (rx S) then rex_account else ramfee_account) then (amount q + 199) div 200
     else 0))"
proof -
  have pos: "0 < amount q" using assms(1,2) by (rule buyram_parts)
  note h = half_percent_law [OF pos assms(3)]
  have q: "amount (inc_amt (- half_percent (amount q)) q) = amount q - half_percent (amount q)"
    using h pos assms(3) by (simp, intro i64_small) (auto simp: market_max_def)
  have f: "half_percent (amount q) = (amount q + 199) div 200" "0 < half_percent (amount q)" using h pos by auto
  show ?thesis using buyram_fee [OF assms(1,2) f(2) assms(4)] unfolding q f(1) [symmetric] by (simp cong: if_cong)
qed

text \<open>With the REX of the state in use, the fee of 3 for 401 ends up there.\<close>

theorem buyram_charges_exactly_witness:
  "\<exists>S'. buyram ref_env bob bob (coins 401) demo_state = Inr S' \<and> moved bob (effects S') = - 401 \<and>
     moved ram_account (effects S') = 398 \<and> moved rex_account (effects S') = 3 \<and> moved ramfee_account (effects S') = 0"
proof -
  have "case buyram ref_env bob bob (coins 401) demo_state of Inr S' \<Rightarrow> True | Inl _ \<Rightarrow> False"
    by code_simp
  then obtain S' where r: "buyram ref_env bob bob (coins 401) demo_state = Inr S'"
    by (auto split: sum.splits)
  have b: "bob \<notin> {ram_account, ramfee_account, rex_account}" "rex_available demo_rex"
    by (simp_all add: bob_def account_defs rex_available_def rex_system_initialized_def demo_rex_def demo_pool_def)
  obtain es where "effects S' = es" "\<And>a. moved a es = (if a = bob then - 401 else if a = ram_account then 398
      else if a = rex_account then 3 else 0)"
    using buyram_charges_exactly [OF ref_env_ok r _ b(1)] b(2) by (auto simp: market_max_def)
  then show ?thesis using r by (auto simp: bob_def account_defs)
qed

section \<open>Buying and selling back\<close>

lemma bancor_upper:
  assumes "0 \<le> i" "i < market_max" "0 \<le> r" "r < market_max" "0 \<le> s" "s < market_max" "0 < r + i"
    and "get_bancor_output r s i = Inr n"
  shows "(of_int n :: rat) \<le> of_int i * of_int s / of_int (r + i) * (1 + 4 / 2 ^ 53)"
proof -
  define a b :: rat where "a = of_int (i * s)" and "b = of_int (r + i)"
  define y where "y = rnd (rnd a / rnd b)"
  have ab: "0 \<le> a" "0 < b" using assms by (simp_all add: a_def b_def del: of_int_mult of_int_add)
  have y0: "0 \<le> y" unfolding y_def using b64.quotient_nonneg [OF ab] by (rule b64.round_nonneg)
  have D: "dbl i = of_int i" "dbl r = of_int r" "dbl s = of_int s"
    using assms by (simp_all add: dbl_exact market_max_def)
  have "rnd b \<noteq> 0" using b64.round_pos [OF ab(2)] by simp
  then have "get_bancor_output r s i = bindE (dbl_to_i64 y) (\<lambda>out. Inr (if out < 0 then 0 else out))"
    by (simp add: get_bancor_output_def D dadd_def dmul_def ddiv_def y_def a_def b_def Let_def)
  from this [unfolded assms(8)] have "n = \<lfloor>y\<rfloor> \<or> n = 0"
    using y0 by (auto simp: Let_def dbl_to_i64_def truncate_rat_def split: if_splits)
  then have "of_int n \<le> y" using y0 by auto
  also have "y \<le> a / b * (1 + 4 / 2 ^ 53)" unfolding y_def using b64.quotient_upper [OF ab] by simp
  finally show ?thesis by (simp add: a_def b_def)
qed

lemma bancor_round_trip:
  assumes "0 \<le> x" "0 \<le> q" "q + x < market_max" "0 < b" "b < market_max" "0 < q + x"
    and "get_bancor_output q b x = Inr n" "get_bancor_output (b - n) (q + x) n = Inr y"
  shows "y \<le> x"
proof -
  let ?c = "1 + 4 / 2 ^ 53 :: rat"
  have n: "0 \<le> n \<and> n \<le> b" using bancor_payout [OF assms(1) _ assms(2) _ assms(5,7)] assms by auto
  have 1: "(of_int n :: rat) \<le> of_int x * of_int b / of_int (q + x) * ?c"
    by (rule bancor_upper [OF _ _ _ _ _ _ _ assms(7)]) (use assms in auto)
  have 2: "(of_int y :: rat) \<le> of_int n * of_int (q + x) / of_int (b - n + n) * ?c"
    by (rule bancor_upper [OF _ _ _ _ _ _ _ assms(8)]) (use assms n in auto)
  have pos: "0 < (of_int (q + x) :: rat)" "0 < (of_int b :: rat)" using assms by (simp_all del: of_int_add)
  have "of_int n * of_int (q + x) / of_int b * ?c \<le>
      of_int x * of_int b / of_int (q + x) * ?c * of_int (q + x) / of_int b * ?c"
    using 1 pos by (intro mult_right_mono divide_right_mono) (auto simp del: of_int_add)
  also have "\<dots> = of_int x * (?c * ?c)" using pos by (simp add: field_simps del: of_int_add)
  finally have le: "(of_int y :: rat) \<le> of_int x * (?c * ?c)" using 2 by (simp del: of_int_add)
  have "x \<le> 2 ^ 50 - 1" using assms(2,3) by (simp add: market_max_def)
  then have "(of_int x :: rat) \<le> of_int (2 ^ 50 - 1)" by (simp only: of_int_le_iff)
  then have "of_int x * (?c * ?c - 1) \<le> of_int (2 ^ 50 - 1) * (?c * ?c - 1)" by (rule mult_right_mono) simp
  then have "of_int x * (?c * ?c) \<le> of_int x + of_int (2 ^ 50 - 1) * (?c * ?c - 1)" by (simp add: algebra_simps)
  also have "\<dots> < of_int x + 1" by simp
  finally have "(of_int y :: rat) < of_int (x + 1)" using le by simp
  then have "y < x + 1" by (simp only: of_int_less_iff)
  then show ?thesis by simp
qed

text \<open>
  C23: Memory bought and sold back at once returns at most the tokens paid for it (before fees):
  the rounding of the price formulas cannot be exploited.
\<close>

theorem ram_round_trip_never_profits:
  assumes "lib_ok E" and "market_ok g m" and "base_of m < market_max" and "0 < base_of m"
    and "0 < amount q" and "quote_of m + amount q < market_max" and "symbol q = symbol (c_balance (quote m))"
    and "direct_convert E q ram_symbol m = Inr (bytes, m1)"
    and "direct_convert E bytes (symbol q) m1 = Inr (tokens, m2)"
  shows "amount tokens \<le> amount q"
proof -
  have ok: "symbol (c_balance (base m)) = ram_symbol" "symbol (c_balance (quote m)) \<noteq> ram_symbol" "0 \<le> quote_of m"
    using assms(2) by (simp_all add: market_ok_def)
  note b0 = less_imp_le [OF assms(4)] and q0 = less_imp_le [OF assms(5)]
  have qs: "quote_of m < market_max" "amount q < market_max" using assms(5,6) ok(3) by linarith+
  note B = convert_buy [OF assms(1) ok(1,2) b0 assms(3) ok(3) qs(1) assms(7) q0 qs(2) assms(8)]
  have bsy: "symbol bytes = ram_symbol"
    using assms(8) ok assms(7) by (auto simp: direct_convert_def Let_def new_asset_lib [OF assms(1)])
  have sq: "symbol q = symbol (c_balance (quote m1))" "symbol (c_balance (quote m1)) \<noteq> ram_symbol" using B(3) assms(7) ok by simp_all
  have r: "0 \<le> base_of m1" "base_of m1 < market_max" "0 \<le> quote_of m1" "quote_of m1 < market_max" "amount bytes < market_max"
    using B assms(3,5,6) ok(3) by auto
  note C = convert_sell [OF assms(1) B(2) sq(2) r(1-4) bsy B(4) r(5) assms(9) [unfolded sq(1)]]
  show ?thesis
    by (rule bancor_round_trip [OF q0 ok(3) assms(6,4,3) _ B(1) C(1) [unfolded B(6,7)]]) (use ok(3) assms(5) in simp)
qed

theorem ram_round_trip_never_profits_witness:
  "\<exists>b m1 t m2. direct_convert ref_env (coins 400) ram_symbol (the (rammarket demo_state)) = Inr (b, m1) \<and>
     direct_convert ref_env b eos m1 = Inr (t, m2) \<and> amount t \<le> 400"
proof -
  have e: "case direct_convert ref_env (coins 400) ram_symbol (the (rammarket demo_state)) of
     Inr x \<Rightarrow> (case direct_convert ref_env (fst x) eos (snd x) of Inr _ \<Rightarrow> True | Inl _ \<Rightarrow> False) | Inl _ \<Rightarrow> False"
    by code_simp
  obtain x where x: "direct_convert ref_env (coins 400) ram_symbol (the (rammarket demo_state)) = Inr x"
    using e by (cases "direct_convert ref_env (coins 400) ram_symbol (the (rammarket demo_state))") simp_all
  obtain y where y: "direct_convert ref_env (fst x) eos (snd x) = Inr y"
    using e unfolding x by (cases "direct_convert ref_env (fst x) eos (snd x)") simp_all
  obtain b m1 t m2 where r: "direct_convert ref_env (coins 400) ram_symbol (the (rammarket demo_state)) = Inr (b, m1)"
    "direct_convert ref_env b eos m1 = Inr (t, m2)"
    using x y by (cases x; cases y) simp
  have ok: "market_ok demo_gstate (the (rammarket demo_state))"
    by (simp add: market_ok_def demo_state_def demo_gstate_def ram_symbol_def eos_def)
  have "amount t \<le> amount (coins 400)"
    by (rule ram_round_trip_never_profits [OF ref_env_ok ok _ _ _ _ _ r(1)])
      (use r(2) in \<open>simp_all add: demo_state_def market_max_def\<close>)
  then show ?thesis using r by auto
qed

section \<open>Growth of the supply\<close>

text \<open>
  C24: The memory for sale grows by the rate per block slot since the last increase, but only modulo
  \<open>2 ^ 32\<close>: the product is computed in 32 bits.
\<close>

theorem ram_supply_grows_modulo:
  assumes "ram_inv S" and "ram_small S" and "update_ram_supply E S = Inr S'"
    and "last_ram_increase (gstate2 (vs S)) < block_slot E" and "0 \<le> last_ram_increase (gstate2 (vs S))"
    and "block_slot E < 2 ^ 32"
  shows "max_ram_size (gstate (vs S')) = max_ram_size (gstate (vs S)) +
    (block_slot E - last_ram_increase (gstate2 (vs S))) * new_ram_per_block (gstate2 (vs S)) mod 2 ^ 32"
proof -
  let ?g = "gstate (vs S)" and ?g2 = "gstate2 (vs S)"
  have s: "u32 (block_slot E - last_ram_increase ?g2) = block_slot E - last_ram_increase ?g2"
    using assms(4-6) by (simp add: u32_def)
  let ?n = "(block_slot E - last_ram_increase ?g2) * new_ram_per_block ?g2 mod 2 ^ 32"
  have n: "0 \<le> ?n" "?n < 2 ^ 32" by simp_all
  have "u64 (max_ram_size ?g + ?n) = max_ram_size ?g + ?n"
    using assms(1,2) n by (intro u64_id) (auto simp: ram_inv_def market_ok_def ram_small_def market_max_def)
  then show ?thesis
    using assms(3,4) s by (auto simp: update_ram_supply_def Let_def set_gstate_def u32_def)
qed

text \<open>At a kilobyte per block, twenty-four days without a market action add nothing at all.\<close>

definition idle_state :: system_state where
  "idle_state = demo_state\<lparr>vs := demo_voting\<lparr>gstate2 := (gstate2 demo_voting)\<lparr>new_ram_per_block := 1024,
     last_ram_increase := block_slot ref_env - 2 ^ 22\<rparr>\<rparr>\<rparr>"

theorem ram_supply_grows_modulo_witness:
  "\<exists>S'. update_ram_supply ref_env idle_state = Inr S' \<and>
     max_ram_size (gstate (vs S')) = max_ram_size (gstate (vs idle_state)) \<and>
     (block_slot ref_env - last_ram_increase (gstate2 (vs idle_state))) * new_ram_per_block (gstate2 (vs idle_state)) = 2 ^ 32"
proof -
  have i: "ram_inv idle_state" "ram_small idle_state"
    using demo_ram_inv by (auto simp: idle_state_def ram_inv_def ram_small_def demo_state_def)
  obtain S' where r: "update_ram_supply ref_env idle_state = Inr S'"
    by (simp add: update_ram_supply_def idle_state_def demo_state_def ref_env_def the_market_def set_gstate_def Let_def)
  show ?thesis
    using r ram_supply_grows_modulo [OF i r] by (simp add: idle_state_def ref_env_def)
qed

end
