(* ===== verification/Names.thy ===== *)
theory Names
  imports Ram
begin

text \<open>
  Name auctions (\<open>name_bidding.cpp\<close>, and \<open>newaccount\<close> of \<open>eosio.system.cpp\<close> which uses their
  outcome): bids are collected by \<open>eosio.names\<close>, an outbid bidder is refunded, and a closed
  auction, marked by a negative high bid, is spent by creating the account.
\<close>

definition bidname :: "env \<Rightarrow> name \<Rightarrow> name \<Rightarrow> asset \<Rightarrow> system_state \<Rightarrow> system_state res" where
  "bidname E bidder newname bid S =
     bindE (require_auth E bidder) (\<lambda>_.
     bindE (check (name_suffix E newname = newname) ''you can only bid on top-level suffix'') (\<lambda>_.
     bindE (check (newname \<noteq> 0) ''the empty name is not a valid account name to bid on'') (\<lambda>_.
     bindE (check (newname AND 0xF = 0) ''13 character names are not valid account names to bid on'') (\<lambda>_.
     bindE (check (newname AND 0x1F0 = 0)
       ''accounts with 12 character names and no dots can be created without bidding required'') (\<lambda>_.
     bindE (check (\<not> is_account E newname) ''account already exists'') (\<lambda>_.
     bindE (core_symbol S) (\<lambda>cs.
     bindE (check (symbol bid = cs) ''asset must be system token'') (\<lambda>_.
     bindE (check (0 < amount bid) ''insufficient bid'') (\<lambda>_.
     let S = emit [Token_transfer [active_of bidder] bidder names_account bid
           (''bid name '' @ name_to_string E newname)] S;
         N = ns S in
     (case fmlookup (namebids N) newname of
        None \<Rightarrow>
          Inr (S\<lparr>ns := N\<lparr>namebids := fmupd newname \<lparr>nb_newname = newname, high_bidder = bidder,
            high_bid = amount bid, last_bid_time = now E\<rparr> (namebids N)\<rparr>\<rparr>)
      | Some cur \<Rightarrow>
          bindE (check (0 < high_bid cur) ''this auction has already closed'') (\<lambda>_.
          bindE (check (tdiv (high_bid cur) 10 < i64 (amount bid - high_bid cur)) ''must increase bid by 10%'') (\<lambda>_.
          bindE (check (high_bidder cur \<noteq> bidder) ''account is already highest bidder'') (\<lambda>_.
          bindE (new_asset E (high_bid cur) cs) (\<lambda>back.
          bindE
            (case fmlookup (bidrefunds N) (newname, high_bidder cur) of
               Some r \<Rightarrow> bindE (add_asset E (br_amount r) back) (\<lambda>a. Inr (r\<lparr>br_amount := a\<rparr>))
             | None \<Rightarrow> Inr \<lparr>br_bidder = high_bidder cur, br_amount = back\<rparr>) (\<lambda>r.
          let did = deferred_id newname (uint (high_bidder cur)) in
          Inr (emit [Cancel_deferred did, Send_deferred did bidder 0 (Trx_bidrefund (high_bidder cur) newname) False]
            (S\<lparr>ns := N\<lparr>bidrefunds := fmupd (newname, high_bidder cur) r (bidrefunds N),
              namebids := fmupd newname (cur\<lparr>high_bidder := bidder, high_bid := amount bid,
                last_bid_time := now E\<rparr>) (namebids N)\<rparr>\<rparr>)))))))))))))))))"

definition bidrefund :: "env \<Rightarrow> name \<Rightarrow> name \<Rightarrow> system_state \<Rightarrow> system_state res" where
  "bidrefund E bidder newname S =
     bindE (some_or (Check ''refund not found'') (fmlookup (bidrefunds (ns S)) (newname, bidder))) (\<lambda>it.
     Inr (emit [Token_transfer [active_of names_account, active_of bidder] names_account bidder (br_amount it)
         (''refund bid on name '' @ name_to_string E newname)]
       (S\<lparr>ns := (ns S)\<lparr>bidrefunds := fmdrop (newname, bidder) (bidrefunds (ns S))\<rparr>\<rparr>)))"

section \<open>Account creation\<close>

text \<open>Whether one of the first twelve characters is a dot, looking at \<open>n\<close> of them.\<close>

fun has_dot :: "nat \<Rightarrow> name \<Rightarrow> bool" where
  "has_dot 0 tmp \<longleftrightarrow> False"
| "has_dot (Suc n) tmp \<longleftrightarrow> tmp AND 0x1f = 0 \<or> has_dot n (drop_bit 5 tmp)"

text \<open>The name rules: the bids after the creation, when the creator may make the account.\<close>

definition claim_name :: "env \<Rightarrow> name \<Rightarrow> name \<Rightarrow> names_state \<Rightarrow> names_state res" where
  "claim_name E creator newact N =
     (if creator \<noteq> get_self E \<and> has_dot 12 (drop_bit 4 newact) then
        let suffix = name_suffix E newact in
        if suffix = newact then
          bindE (some_or (Check ''no active bid for name'') (fmlookup (namebids N) newact)) (\<lambda>cur.
          bindE (check (high_bidder cur = creator) ''only highest bidder can claim'') (\<lambda>_.
          bindE (check (high_bid cur < 0) ''auction for name is not closed yet'') (\<lambda>_.
          Inr (N\<lparr>namebids := fmdrop newact (namebids N)\<rparr>))))
        else bindE (check (creator = suffix) ''only suffix may create this account'') (\<lambda>_. Inr N)
      else Inr N)"

definition newaccount :: "env \<Rightarrow> name \<Rightarrow> name \<Rightarrow> system_state \<Rightarrow> system_state res" where
  "newaccount E creator newact S =
     bindE (claim_name E creator newact (ns S)) (\<lambda>N.
     bindE (core_symbol S) (\<lambda>cs.
     bindE (new_asset E 0 cs) (\<lambda>zero.
     bindE (emplace newact \<lparr>ur_owner = newact, ur_net_weight = zero, ur_cpu_weight = zero, ram_bytes = 0\<rparr>
       (userres (rs S))) (\<lambda>u.
     Inr (S\<lparr>ns := N, rs := set_resource_limits newact 0 0 0 ((rs S)\<lparr>userres := u\<rparr>)\<rparr>)))))"

definition setabi :: "env \<Rightarrow> name \<Rightarrow> bytes \<Rightarrow> system_state \<Rightarrow> system_state" where
  "setabi E acnt abi S =
     S\<lparr>abihash := fmupd acnt
       (case fmlookup (abihash S) acnt of
          None \<Rightarrow> \<lparr>ah_owner = acnt, ah_hash = sha256 E abi\<rparr>
        | Some row \<Rightarrow> row\<lparr>ah_hash := sha256 E abi\<rparr>) (abihash S)\<rparr>"

end
