(* ===== verification/Pay.thy ===== *)
theory Pay
  imports Names Voting Token
begin

text \<open>
  Producer pay (\<open>producer_pay.cpp\<close>): the per-block bookkeeping with the election of producers
  and the closing of name auctions, and the payment of a producer out of freshly issued
  inflation. The token contract's tables, which \<open>get_supply\<close> reads, are the argument \<open>T\<close>.
\<close>

section \<open>Every block\<close>

text \<open>
  \<open>lower_bound\<close> in the \<open>highbid\<close> index: closed auctions have a negative high bid and therefore
  a small key.
\<close>

definition highest_open_bid :: "names_state \<Rightarrow> name_bid option" where
  "highest_open_bid N = find (\<lambda>b. 2 ^ 63 - 1 \<le> by_high_bid b) (index_by by_high_bid (namebids N))"

definition close_auction :: "env \<Rightarrow> slot \<Rightarrow> system_state \<Rightarrow> system_state" where
  "close_auction E timestamp S =
     (case highest_open_bid (ns S) of
        None \<Rightarrow> S
      | Some highest \<Rightarrow>
          let thresh = thresh_activated_stake_time (gstate (vs S)) in
          if 0 < high_bid highest \<and> useconds_per_day < i64 (now E - last_bid_time highest) \<and>
             0 < thresh \<and> 14 * useconds_per_day < i64 (now E - thresh)
          then set_gstate (\<lambda>g. g\<lparr>last_name_close := timestamp\<rparr>)
            (S\<lparr>rx := channel_namebid_to_rex (high_bid highest) (rx S),
               ns := (ns S)\<lparr>namebids := fmupd (nb_newname highest)
                 (highest\<lparr>high_bid := i64 (- high_bid highest)\<rparr>) (namebids (ns S))\<rparr>\<rparr>)
          else S)"

text \<open>The start of the reward clock, and the block counted for its producer.\<close>

definition count_block :: "env \<Rightarrow> name \<Rightarrow> system_state \<Rightarrow> system_state" where
  "count_block E producer S =
     (let S = (if last_pervote_bucket_fill (gstate (vs S)) = 0
           then set_gstate (\<lambda>g. g\<lparr>last_pervote_bucket_fill := now E\<rparr>) S else S)
      in case fmlookup (producers (vs S)) producer of
           None \<Rightarrow> S
         | Some p \<Rightarrow> set_gstate (\<lambda>g. g\<lparr>total_unpaid_blocks := u32 (total_unpaid_blocks g + 1)\<rparr>)
             (S\<lparr>vs := (vs S)\<lparr>producers := fmupd producer
               (p\<lparr>unpaid_blocks := u32 (unpaid_blocks p + 1)\<rparr>) (producers (vs S))\<rparr>\<rparr>))"

definition onblock :: "env \<Rightarrow> slot \<Rightarrow> name \<Rightarrow> system_state \<Rightarrow> system_state res" where
  "onblock E timestamp producer S =
     bindE (require_auth E (get_self E)) (\<lambda>_.
     let S = S\<lparr>vs := (vs S)\<lparr>gstate2 := (gstate2 (vs S))\<lparr>last_block_num := timestamp\<rparr>\<rparr>\<rparr> in
     if total_activated_stake (gstate (vs S)) < min_activated_stake then Inr S
     else
       let S = count_block E producer S in
       if 120 < u32 (timestamp - last_producer_schedule_update (gstate (vs S))) then
         let (V, es) = update_elected_producers E timestamp (vs S);
             S = emit es (S\<lparr>vs := V\<rparr>) in
         Inr (if blocks_per_day < u32 (timestamp - last_name_close (gstate (vs S)))
              then close_auction E timestamp S else S)
       else Inr S)"

section \<open>Rewards\<close>

text \<open>How new tokens are split: savings, per-block pay, per-vote pay.\<close>

definition inflation_split :: "int \<Rightarrow> int \<times> int \<times> int" where
  "inflation_split new_tokens =
     (let to_producers = tdiv new_tokens inflation_pay_factor;
          to_savings = i64 (new_tokens - to_producers);
          to_per_block_pay = tdiv to_producers votepay_factor;
          to_per_vote_pay = i64 (to_producers - to_per_block_pay)
      in (to_savings, to_per_block_pay, to_per_vote_pay))"

definition new_tokens_since :: "int \<Rightarrow> int \<Rightarrow> int res" where
  "new_tokens_since token_supply usecs =
     dbl_to_i64 (ddiv (dmul (dmul continuous_rate (dbl token_supply)) (dbl usecs)) (dbl useconds_per_year))"

definition fill_buckets :: "env \<Rightarrow> token_state \<Rightarrow> system_state \<Rightarrow> system_state res" where
  "fill_buckets E T S =
     bindE (core_symbol S) (\<lambda>cs.
     bindE (get_supply T (sym_code cs)) (\<lambda>token_supply.
     let g = gstate (vs S); usecs = i64 (now E - last_pervote_bucket_fill g) in
     if 0 < usecs \<and> 0 < last_pervote_bucket_fill g then
       bindE (new_tokens_since (amount token_supply) usecs) (\<lambda>new_tokens.
       let (to_savings, to_per_block_pay, to_per_vote_pay) = inflation_split new_tokens;
           self = get_self E in
       bindE (new_asset E new_tokens cs) (\<lambda>q.
       bindE (new_asset E to_savings cs) (\<lambda>qs.
       bindE (new_asset E to_per_block_pay cs) (\<lambda>qb.
       bindE (new_asset E to_per_vote_pay cs) (\<lambda>qv.
       Inr (emit
         [Token_issue [active_of self] self q ''issue tokens for producer pay and savings'',
          Token_transfer [active_of self] self saving_account qs ''unallocated inflation'',
          Token_transfer [active_of self] self bpay_account qb ''fund per-block bucket'',
          Token_transfer [active_of self] self vpay_account qv ''fund per-vote bucket'']
         (set_gstate (\<lambda>g. g\<lparr>pervote_bucket := i64 (pervote_bucket g + to_per_vote_pay),
             perblock_bucket := i64 (perblock_bucket g + to_per_block_pay),
             last_pervote_bucket_fill := now E\<rparr>) S)))))))
     else Inr S))"

text \<open>The pay per vote, by the scheme in force.\<close>

definition vote_pay :: "env \<Rightarrow> producer_info \<Rightarrow> double \<Rightarrow> bool \<Rightarrow> voting_state \<Rightarrow> (int \<times> voting_state) res" where
  "vote_pay E prow new_votepay_share crossed_threshold V =
     (let g = gstate V in
      if 0 < revision (gstate2 V) then
        let (V, total_share) = update_total_votepay_share (now E) 0 0 V in
        if 0 < total_share \<and> \<not> crossed_threshold then
          bindE (dbl_to_i64 (ddiv (dmul new_votepay_share (dbl (pervote_bucket g))) total_share)) (\<lambda>p.
          Inr (if pervote_bucket g < p then pervote_bucket g else p, V))
        else Inr (0, V)
      else if 0 < total_producer_vote_weight g then
        bindE (dbl_to_i64 (ddiv (dmul (dbl (pervote_bucket g)) (total_votes prow)) (total_producer_vote_weight g)))
          (\<lambda>p. Inr (p, V))
      else Inr (0, V))"

text \<open>The vote pay share of the producer up to now, with its row made when there is none.\<close>

definition claim_share :: "env \<Rightarrow> name \<Rightarrow> producer_info \<Rightarrow> voting_state \<Rightarrow> bool \<times> double \<times> voting_state" where
  "claim_share E owner prow V =
     (let ct = now E;
          last_claim_plus_3days = i64 (last_claim_time prow + 3 * useconds_per_day);
          (updated_after_threshold, p2) =
            (case fmlookup (producers2 V) owner of
               Some p2 \<Rightarrow> (last_claim_plus_3days \<le> last_votepay_share_update p2, p2)
             | None \<Rightarrow> (True, \<lparr>p2_owner = owner, votepay_share = 0, last_votepay_share_update = ct\<rparr>));
          V = V\<lparr>producers2 := fmupd owner p2 (producers2 V)\<rparr>;
          (V, new_votepay_share) = update_producer_votepay_share p2 ct
            (if updated_after_threshold then 0 else total_votes prow) True V
      in (updated_after_threshold, new_votepay_share, V))"

definition block_pay :: "producer_info \<Rightarrow> voting_state \<Rightarrow> int" where
  "block_pay prow V =
     (let g = gstate V in
      if 0 < total_unpaid_blocks g
      then tdiv (i64 (perblock_bucket g * unpaid_blocks prow)) (total_unpaid_blocks g) else 0)"

definition pay_effects :: "env \<Rightarrow> symbol res \<Rightarrow> name \<Rightarrow> int \<Rightarrow> int \<Rightarrow> effect list res" where
  "pay_effects E core owner bpay vpay =
     bindE
       (if 0 < bpay then bindE core (\<lambda>cs. bindE (new_asset E bpay cs) (\<lambda>q.
          Inr [Token_transfer [active_of bpay_account, active_of owner] bpay_account owner q ''producer block pay'']))
        else Inr []) (\<lambda>es.
     bindE
       (if 0 < vpay then bindE core (\<lambda>cs. bindE (new_asset E vpay cs) (\<lambda>q.
          Inr [Token_transfer [active_of vpay_account, active_of owner] vpay_account owner q ''producer vote pay'']))
        else Inr []) (\<lambda>es'.
     Inr (es @ es')))"

definition claimrewards :: "env \<Rightarrow> token_state \<Rightarrow> name \<Rightarrow> system_state \<Rightarrow> system_state res" where
  "claimrewards E T owner S =
     bindE (require_auth E owner) (\<lambda>_.
     bindE (some_or (Check ''unable to find key'') (fmlookup (producers (vs S)) owner)) (\<lambda>prow.
     bindE (check (is_active prow) ''producer does not have an active key'') (\<lambda>_.
     bindE (check (min_activated_stake \<le> total_activated_stake (gstate (vs S)))
       ''cannot claim rewards until the chain is activated (at least 15% of all tokens participate in voting)'') (\<lambda>_.
     let ct = now E in
     bindE (check (useconds_per_day < i64 (ct - last_claim_time prow))
       ''already claimed rewards within past day'') (\<lambda>_.
     bindE (fill_buckets E T S) (\<lambda>S.
     let (updated_after_threshold, new_votepay_share, V) = claim_share E owner prow (vs S);
         crossed_threshold = (i64 (last_claim_time prow + 3 * useconds_per_day) \<le> ct);
         bpay = block_pay prow V in
     bindE (vote_pay E prow new_votepay_share crossed_threshold V) (\<lambda>(vpay, V).
     let vpay = (if vpay < min_pervote_daily_pay then 0 else vpay);
         g = gstate V;
         V = V\<lparr>gstate := g\<lparr>pervote_bucket := i64 (pervote_bucket g - vpay),
               perblock_bucket := i64 (perblock_bucket g - bpay),
               total_unpaid_blocks := u32 (total_unpaid_blocks g - unpaid_blocks prow)\<rparr>\<rparr>;
         V = fst (update_total_votepay_share ct (- new_votepay_share)
               (if updated_after_threshold then total_votes prow else 0) V);
         V = V\<lparr>producers := fmupd owner (prow\<lparr>last_claim_time := ct, unpaid_blocks := 0\<rparr>) (producers V)\<rparr> in
     bindE (pay_effects E (core_symbol S) owner bpay vpay) (\<lambda>es.
     Inr (emit es (S\<lparr>vs := V\<rparr>))))))))))"

end
