(* ===== verification/Names_Laws.thy ===== *)
theory Names_Laws
  imports Pay Escrow Demo Rex_Conservation
begin

text \<open>
  Name auctions: what bidders are owed out of \<open>eosio.names\<close>, the rules of bidding, which auction
  closes, and who may create an account with a dotted or short name.
\<close>

section \<open>What bidders are owed\<close>

definition open_bid :: "name_bid \<Rightarrow> int" where
  "open_bid b = (if 0 < high_bid b then high_bid b else 0)"

definition open_bids :: "names_state \<Rightarrow> int" where
  "open_bids N = tsum open_bid (namebids N)"

definition refunds_due :: "names_state \<Rightarrow> int" where
  "refunds_due N = tsum (\<lambda>r. amount (br_amount r)) (bidrefunds N)"

definition names_owed :: "system_state \<Rightarrow> int" where
  "names_owed S = open_bids (ns S) + refunds_due (ns S) + pool_field namebid_proceeds (rx S)"

definition names_inv :: "system_state \<Rightarrow> bool" where
  "names_inv S \<longleftrightarrow> (\<forall>n b. fmlookup (namebids (ns S)) n = Some b \<longrightarrow> nb_newname b = n \<and> \<bar>high_bid b\<bar> \<le> core_cap) \<and>
     (\<forall>k r. fmlookup (bidrefunds (ns S)) k = Some r \<longrightarrow> 0 \<le> amount (br_amount r)) \<and>
     0 \<le> pool_field namebid_proceeds (rx S)"

lemma names_invD:
  assumes "names_inv S"
  shows "fmlookup (namebids (ns S)) n = Some b \<Longrightarrow> nb_newname b = n \<and> \<bar>high_bid b\<bar> \<le> core_cap"
    "fmlookup (bidrefunds (ns S)) k = Some r \<Longrightarrow> 0 \<le> amount (br_amount r)"
    "0 \<le> pool_field namebid_proceeds (rx S)"
  using assms unfolding names_inv_def by blast+

lemma names_parts:
  assumes "names_inv S"
  shows "0 \<le> open_bids (ns S)" "0 \<le> refunds_due (ns S)"
    "fmlookup (namebids (ns S)) n = Some b \<Longrightarrow> open_bid b \<le> open_bids (ns S)"
    "fmlookup (bidrefunds (ns S)) k = Some r \<Longrightarrow> amount (br_amount r) \<le> refunds_due (ns S)"
proof -
  show "0 \<le> open_bids (ns S)" unfolding open_bids_def by (rule tsum_nonneg) (simp add: open_bid_def)
  show "0 \<le> refunds_due (ns S)" unfolding refunds_due_def by (rule tsum_nonneg) (rule names_invD(2) [OF assms])
  show "open_bid b \<le> open_bids (ns S)" if "fmlookup (namebids (ns S)) n = Some b"
    using tval_le_tsum [of "namebids (ns S)" open_bid n] that by (simp add: open_bids_def open_bid_def)
  show "amount (br_amount r) \<le> refunds_due (ns S)" if "fmlookup (bidrefunds (ns S)) k = Some r"
    using tval_le_tsum [of "bidrefunds (ns S)" "\<lambda>r. amount (br_amount r)" k] that names_invD(2) [OF assms]
    by (simp add: refunds_due_def)
qed

section \<open>Bidding\<close>

definition bid_transfer :: "env \<Rightarrow> name \<Rightarrow> name \<Rightarrow> asset \<Rightarrow> effect" where
  "bid_transfer E bidder newname bid =
     Token_transfer [active_of bidder] bidder names_account bid (''bid name '' @ name_to_string E newname)"

text \<open>A successful bid is the first one on the name, or outbids the highest one.\<close>

lemma bidname_cases:
  assumes E: "lib_ok E" and run: "bidname E bidder newname bid S = Inr S'"
  obtains (first) "0 < amount bid" "fmlookup (namebids (ns S)) newname = None"
      "S' = emit [bid_transfer E bidder newname bid] S\<lparr>ns := (ns S)\<lparr>namebids :=
        fmupd newname \<lparr>nb_newname = newname, high_bidder = bidder, high_bid = amount bid, last_bid_time = now E\<rparr>
          (namebids (ns S))\<rparr>\<rparr>"
  | (outbid) cur r es where "0 < amount bid" "fmlookup (namebids (ns S)) newname = Some cur" "0 < high_bid cur"
      "tdiv (high_bid cur) 10 < i64 (amount bid - high_bid cur)" "high_bidder cur \<noteq> bidder"
      "case fmlookup (bidrefunds (ns S)) (newname, high_bidder cur) of
         Some r0 \<Rightarrow> is_i64 (amount (br_amount r0) + high_bid cur) \<longrightarrow> amount (br_amount r) = amount (br_amount r0) + high_bid cur
       | None \<Rightarrow> amount (br_amount r) = high_bid cur"
      "S' = emit (bid_transfer E bidder newname bid # es) S\<lparr>ns := (ns S)\<lparr>
        bidrefunds := fmupd (newname, high_bidder cur) r (bidrefunds (ns S)),
        namebids := fmupd newname (cur\<lparr>high_bidder := bidder, high_bid := amount bid, last_bid_time := now E\<rparr>)
          (namebids (ns S))\<rparr>\<rparr>"
      "moved names_account es = 0"
proof (cases "fmlookup (namebids (ns S)) newname")
  case None
  then show ?thesis using run first by (auto simp: bidname_def bid_transfer_def emit_def Let_def)
next
  case (Some cur)
  let ?did = "deferred_id newname (uint (high_bidder cur))"
  let ?es = "[Cancel_deferred ?did, Send_deferred ?did bidder 0 (Trx_bidrefund (high_bidder cur) newname) False]"
  obtain cs bk r where g: "0 < amount bid" "0 < high_bid cur" "tdiv (high_bid cur) 10 < i64 (amount bid - high_bid cur)"
      "high_bidder cur \<noteq> bidder" and bk: "new_asset E (high_bid cur) cs = Inr bk" and
    r: "(case fmlookup (bidrefunds (ns S)) (newname, high_bidder cur) of
          Some r \<Rightarrow> bindE (add_asset E (br_amount r) bk) (\<lambda>a. Inr (r\<lparr>br_amount := a\<rparr>))
        | None \<Rightarrow> Inr \<lparr>br_bidder = high_bidder cur, br_amount = bk\<rparr>) = Inr r" and
    S': "S' = emit (bid_transfer E bidder newname bid # ?es) S\<lparr>ns := (ns S)\<lparr>
        bidrefunds := fmupd (newname, high_bidder cur) r (bidrefunds (ns S)),
        namebids := fmupd newname (cur\<lparr>high_bidder := bidder, high_bid := amount bid, last_bid_time := now E\<rparr>)
          (namebids (ns S))\<rparr>\<rparr>"
    using run Some by (auto simp: bidname_def bid_transfer_def emit_def Let_def)
  have b: "amount bk = high_bid cur" using bk by (simp add: new_asset_lib [OF E])
  have "case fmlookup (bidrefunds (ns S)) (newname, high_bidder cur) of
         Some r0 \<Rightarrow> is_i64 (amount (br_amount r0) + high_bid cur) \<longrightarrow> amount (br_amount r) = amount (br_amount r0) + high_bid cur
       | None \<Rightarrow> amount (br_amount r) = high_bid cur"
    using r b add_asset_lib [OF E] by (auto split: option.splits)
  then show ?thesis by (intro outbid [OF g(1) Some g(2-4) _ S']) simp_all
qed

lemma bidname_law:
  assumes E: "lib_ok E" and X: "names_inv S" "bidder \<noteq> names_account" "names_owed S + amount bid \<le> core_cap"
    and run: "bidname E bidder newname bid S = Inr S'"
  shows "names_inv S'" "balanced names_account names_owed S S'"
proof -
  note P = names_parts [OF X(1)] and D = names_invD [OF X(1)]
  have cap: "open_bids (ns S) + refunds_due (ns S) + amount bid \<le> core_cap" using X(3) D(3) by (simp add: names_owed_def)
  have "names_inv S' \<and> balanced names_account names_owed S S'"
  proof (rule bidname_cases [OF E run])
    assume b: "0 < amount bid" and n: "fmlookup (namebids (ns S)) newname = None"
      and S': "S' = emit [bid_transfer E bidder newname bid] S\<lparr>ns := (ns S)\<lparr>namebids :=
        fmupd newname \<lparr>nb_newname = newname, high_bidder = bidder, high_bid = amount bid, last_bid_time = now E\<rparr>
          (namebids (ns S))\<rparr>\<rparr>"
    have "names_inv S'" using X(1) b cap P(1,2) unfolding S' by (auto simp: names_inv_def)
    moreover have "names_owed S' = names_owed S + amount bid"
      using n b unfolding S' by (simp add: names_owed_def open_bids_def refunds_due_def open_bid_def)
    ultimately show ?thesis
      using X(2) by (auto simp: S' bid_transfer_def intro!: balancedI [of _ _ "[bid_transfer E bidder newname bid]"])
  next
    fix cur r es
    assume b: "0 < amount bid" and c: "fmlookup (namebids (ns S)) newname = Some cur" "0 < high_bid cur"
      and r: "case fmlookup (bidrefunds (ns S)) (newname, high_bidder cur) of
         Some r0 \<Rightarrow> is_i64 (amount (br_amount r0) + high_bid cur) \<longrightarrow> amount (br_amount r) = amount (br_amount r0) + high_bid cur
       | None \<Rightarrow> amount (br_amount r) = high_bid cur"
      and S': "S' = emit (bid_transfer E bidder newname bid # es) S\<lparr>ns := (ns S)\<lparr>
        bidrefunds := fmupd (newname, high_bidder cur) r (bidrefunds (ns S)),
        namebids := fmupd newname (cur\<lparr>high_bidder := bidder, high_bid := amount bid, last_bid_time := now E\<rparr>)
          (namebids (ns S))\<rparr>\<rparr>"
      and es: "moved names_account es = 0"
    let ?k = "(newname, high_bidder cur)"
    have cb: "high_bid cur \<le> open_bids (ns S)" using P(3) [OF c(1)] c(2) by (simp add: open_bid_def)
    have r': "amount (br_amount r) = tval (\<lambda>r. amount (br_amount r)) (bidrefunds (ns S)) ?k + high_bid cur"
    proof (cases "fmlookup (bidrefunds (ns S)) ?k")
      case (Some r0)
      have "is_i64 (amount (br_amount r0) + high_bid cur)"
        using P(4) [OF Some] D(2) [OF Some] cb c(2) cap b by (simp add: is_i64_def core_cap_def)
      then show ?thesis using r Some by simp
    qed (use r in simp)
    have r0: "0 \<le> amount (br_amount r)"
      using r' c(2) D(2) by (auto simp: tval_def split: option.split_asm)
    have "\<bar>amount bid\<bar> \<le> core_cap" using b cap P(1,2) by simp
    then have inv: "names_inv S'" using X(1) r0 D(1) [OF c(1)] unfolding S' by (auto simp: names_inv_def)
    have "names_owed S' = names_owed S + amount bid"
      using c b r' unfolding S' by (simp add: names_owed_def open_bids_def refunds_due_def open_bid_def)
    with inv show ?thesis
      using X(2) es by (auto simp: S' bid_transfer_def intro!: balancedI [of _ _ "bid_transfer E bidder newname bid # es"])
  qed
  then show "names_inv S'" "balanced names_account names_owed S S'" by blast+
qed

lemma bidrefund_law:
  assumes X: "names_inv S" "bidder \<noteq> names_account" and run: "bidrefund E bidder newname S = Inr S'"
  shows "names_inv S'" "balanced names_account names_owed S S'"
proof -
  obtain r where r: "fmlookup (bidrefunds (ns S)) (newname, bidder) = Some r" and
    S': "S' = emit [Token_transfer [active_of names_account, active_of bidder] names_account bidder (br_amount r)
         (''refund bid on name '' @ name_to_string E newname)]
       (S\<lparr>ns := (ns S)\<lparr>bidrefunds := fmdrop (newname, bidder) (bidrefunds (ns S))\<rparr>\<rparr>)"
    using run by (auto simp: bidrefund_def)
  show "names_inv S'" using X(1) unfolding S' by (auto simp: names_inv_def)
  show "balanced names_account names_owed S S'"
    by (rule balancedI) (use X(2) r in \<open>auto simp: S' names_owed_def open_bids_def refunds_due_def\<close>)
qed

section \<open>Closing an auction\<close>

lemma find_sorted_least:
  "sorted (map f xs) \<Longrightarrow> find P xs = Some x \<Longrightarrow> x \<in> set xs \<and> P x \<and> (\<forall>y\<in>set xs. P y \<longrightarrow> f x \<le> f y)"
  by (induction xs) (auto split: if_splits)

lemma by_high_bid_key:
  assumes "\<bar>high_bid b\<bar> \<le> core_cap"
  shows "by_high_bid b = (if 0 < high_bid b then 2 ^ 64 - high_bid b else - high_bid b)"
proof (cases "0 < high_bid b")
  case True
  have "u64 (- high_bid b) = u64 (2 ^ 64 - high_bid b)" by (simp add: u64_def mod_diff_left_eq)
  also have "\<dots> = 2 ^ 64 - high_bid b" using True assms by (intro u64_id) (auto simp: core_cap_def)
  finally show ?thesis using True by (simp add: by_high_bid_def)
next
  case False
  then show ?thesis using assms by (simp add: by_high_bid_def u64_id core_cap_def)
qed

lemma highest_open_bid_law:
  assumes "names_inv S" "highest_open_bid (ns S) = Some b"
  shows "\<exists>n. fmlookup (namebids (ns S)) n = Some b" "0 < high_bid b"
    "fmlookup (namebids (ns S)) n = Some c \<Longrightarrow> high_bid c \<le> high_bid b"
proof -
  let ?P = "\<lambda>b. 2 ^ 63 - 1 \<le> by_high_bid b" and ?xs = "index_by by_high_bid (namebids (ns S))"
  have "sorted (map by_high_bid ?xs)" by (simp add: index_by_def)
  from find_sorted_least [OF this assms(2) [unfolded highest_open_bid_def]]
  have b: "b \<in> set ?xs" "?P b" "\<forall>c\<in>set ?xs. ?P c \<longrightarrow> by_high_bid b \<le> by_high_bid c" by blast+
  then show n: "\<exists>n. fmlookup (namebids (ns S)) n = Some b" by simp
  note key = by_high_bid_key [OF conjunct2 [OF names_invD(1) [OF assms(1)]]]
  obtain m where m: "fmlookup (namebids (ns S)) m = Some b" using n by blast
  show pos: "0 < high_bid b"
    using b(2) key [OF m] names_invD(1) [OF assms(1) m] by (auto simp: core_cap_def split: if_splits)
  show "high_bid c \<le> high_bid b" if c: "fmlookup (namebids (ns S)) n = Some c"
  proof (cases "0 < high_bid c")
    case True
    have "c \<in> set ?xs" using c by auto
    moreover have "?P c" using True key [OF c] names_invD(1) [OF assms(1) c] by (simp add: core_cap_def)
    ultimately have "by_high_bid b \<le> by_high_bid c" using b(3) by blast
    then show ?thesis using key [OF c] key [OF m] True pos by simp
  qed (use pos in simp)
qed

text \<open>
  Closing an auction moves the bid from the open bids to the proceeds promised to the REX pool,
  or out of the books when no REX is sold.
\<close>

lemma close_auction_law:
  assumes X: "names_inv S" "names_owed S \<le> core_cap"
  shows "names_inv (close_auction E t S)" "names_owed (close_auction E t S) \<le> names_owed S"
    "effects (close_auction E t S) = effects S"
proof -
  let ?S = "close_auction E t S"
  have "names_inv ?S \<and> names_owed ?S \<le> names_owed S \<and> effects ?S = effects S"
  proof (cases "ns ?S = ns S \<and> rx ?S = rx S \<and> effects ?S = effects S")
    case True
    then show ?thesis using X by (simp add: names_inv_def names_owed_def)
  next
    case False
    obtain b where b: "highest_open_bid (ns S) = Some b" and
      S': "?S = set_gstate (\<lambda>g. g\<lparr>last_name_close := t\<rparr>)
            (S\<lparr>rx := channel_namebid_to_rex (high_bid b) (rx S),
               ns := (ns S)\<lparr>namebids := fmupd (nb_newname b)
                 (b\<lparr>high_bid := i64 (- high_bid b)\<rparr>) (namebids (ns S))\<rparr>\<rparr>)"
      using False by (auto simp: close_auction_def set_gstate_def Let_def split: option.splits if_splits)
    note H = highest_open_bid_law [OF X(1) b]
    obtain n where n: "fmlookup (namebids (ns S)) n = Some b" using H(1) by blast
    note D = names_invD(1) [OF X(1) n] names_invD(3) [OF X(1)] and P = names_parts [OF X(1)]
    have i: "i64 (- high_bid b) = - high_bid b" using D H(2) by (intro i64_small) (auto simp: core_cap_def)
    have nb: "nb_newname b = n" using D by simp
    have ob: "open_bid b = high_bid b" "open_bid (b\<lparr>high_bid := - high_bid b\<rparr>) = 0" using H(2) by (simp_all add: open_bid_def)
    have fit: "pool_field namebid_proceeds (rx S) + high_bid b \<le> core_cap"
      using X(2) P(2) P(3) [OF n] ob(1) by (simp add: names_owed_def)
    have ch: "0 \<le> pool_field namebid_proceeds (channel_namebid_to_rex (high_bid b) (rx S)) \<and>
        pool_field namebid_proceeds (channel_namebid_to_rex (high_bid b) (rx S))
          \<le> pool_field namebid_proceeds (rx S) + high_bid b"
    proof (cases "rexpool (rx S)")
      case (Some p)
      have "i64 (amount (namebid_proceeds p) + high_bid b) = amount (namebid_proceeds p) + high_bid b"
        using fit D H(2) Some by (intro i64_small) (auto simp: pool_field_def core_cap_def)
      then show ?thesis using Some D H(2) by (auto simp: channel_namebid_to_rex_def pool_field_def)
    qed (use H(2) in \<open>simp add: channel_namebid_to_rex_def pool_field_def\<close>)
    have "names_inv ?S" using X(1) ch D i nb unfolding S' by (auto simp: names_inv_def set_gstate_def)
    moreover have "names_owed ?S \<le> names_owed S"
      using ch n i nb ob unfolding S' by (simp add: names_owed_def set_gstate_def open_bids_def refunds_due_def)
    moreover have "effects ?S = effects S" unfolding S' by (simp add: set_gstate_def)
    ultimately show ?thesis by blast
  qed
  then show "names_inv ?S" "names_owed ?S \<le> names_owed S" "effects ?S = effects S" by blast+
qed

lemma names_cong:
  "ns S' = ns S \<Longrightarrow> rx S' = rx S \<Longrightarrow> names_inv S' = names_inv S"
  "ns S' = ns S \<Longrightarrow> rx S' = rx S \<Longrightarrow> names_owed S' = names_owed S"
  by (simp_all add: names_inv_def names_owed_def)

lemma elected_quiet: "moved a (snd (update_elected_producers E t V)) = 0"
  by (simp add: update_elected_producers_def Let_def)

lemma onblock_law:
  assumes X: "names_inv S" "names_owed S \<le> core_cap" and run: "onblock E t p S = Inr S'"
  shows "names_inv S'" "covered names_account names_owed S S'"
proof -
  have "\<exists>S1 es. ns S1 = ns S \<and> rx S1 = rx S \<and> effects S1 = effects S @ es \<and> moved names_account es = 0 \<and>
    (S' = S1 \<or> S' = close_auction E t S1)"
  proof (cases "total_activated_stake (gstate (vs S)) < min_activated_stake")
    case True
    then show ?thesis using run by (intro exI [of _ S'] exI [of _ "[]"]) (auto simp: onblock_def Let_def)
  next
    case False
    let ?S2 = "count_block E p (S\<lparr>vs := (vs S)\<lparr>gstate2 := (gstate2 (vs S))\<lparr>last_block_num := t\<rparr>\<rparr>\<rparr>)"
    have f2: "ns ?S2 = ns S" "rx ?S2 = rx S" "effects ?S2 = effects S"
      by (auto simp: count_block_def set_gstate_def Let_def split: option.split)
    obtain V es where u: "update_elected_producers E t (vs ?S2) = (V, es)" by fastforce
    then have m: "moved names_account es = 0" using elected_quiet [of names_account E t "vs ?S2"] by simp
    have "S' = ?S2 \<or> S' = emit es (?S2\<lparr>vs := V\<rparr>) \<or> S' = close_auction E t (emit es (?S2\<lparr>vs := V\<rparr>))"
      using run False u by (auto simp: onblock_def Let_def split: if_splits)
    then consider "S' = ?S2" | "S' = emit es (?S2\<lparr>vs := V\<rparr>) \<or> S' = close_auction E t (emit es (?S2\<lparr>vs := V\<rparr>))"
      by blast
    then show ?thesis
    proof cases
      case 1
      then show ?thesis using f2 by (intro exI [of _ ?S2] exI [of _ "[]"]) simp
    next
      case 2
      then show ?thesis using f2 m
        by (intro exI [of _ "emit es (?S2\<lparr>vs := V\<rparr>)"] exI [of _ es]) simp
    qed
  qed
  then obtain S1 es where S1: "ns S1 = ns S" "rx S1 = rx S" "effects S1 = effects S @ es" "moved names_account es = 0"
    "S' = S1 \<or> S' = close_auction E t S1" by blast
  have X1: "names_inv S1" "names_owed S1 \<le> core_cap" using names_cong [OF S1(1,2)] X by simp_all
  note C = close_auction_law [OF X1, of E t]
  show "names_inv S'" using S1(5) X1 C(1) by blast
  have "names_owed S' \<le> names_owed S" "effects S' = effects S @ es"
    using S1(3,5) C(2,3) names_cong(2) [OF S1(1,2)] by auto
  then show "covered names_account names_owed S S'" using S1(4) by (intro coveredI [of _ _ es]) simp_all
qed

section \<open>Creating accounts\<close>

lemma newaccount_law:
  assumes X: "names_inv S" and run: "newaccount E creator newact S = Inr S'"
  shows "names_inv S'" "covered names_account names_owed S S'"
proof -
  obtain N u where c: "claim_name E creator newact (ns S) = Inr N" and
    S': "S' = S\<lparr>ns := N, rs := set_resource_limits newact 0 0 0 ((rs S)\<lparr>userres := u\<rparr>)\<rparr>"
    using run by (auto simp: newaccount_def)
  have "N = ns S \<or> (\<exists>b. fmlookup (namebids (ns S)) newact = Some b \<and> high_bid b < 0 \<and>
      N = (ns S)\<lparr>namebids := fmdrop newact (namebids (ns S))\<rparr>)"
    using c by (auto simp: claim_name_def Let_def split: if_splits)
  then show "names_inv S'" "covered names_account names_owed S S'"
    using X by (auto simp: S' names_inv_def names_owed_def open_bids_def refunds_due_def open_bid_def
        split: if_splits intro!: coveredI [of _ _ "[]"])
qed

section \<open>The actions on names\<close>

datatype name_action =
    Bidname name name asset
  | Bidrefund name name
  | Newaccount name name
  | Onblock slot name

fun name_exec :: "env \<Rightarrow> name_action \<Rightarrow> system_state \<Rightarrow> system_state res" where
  "name_exec E (Bidname bidder newname bid) S = bidname E bidder newname bid S"
| "name_exec E (Bidrefund bidder newname) S = bidrefund E bidder newname S"
| "name_exec E (Newaccount creator newact) S = newaccount E creator newact S"
| "name_exec E (Onblock t p) S = onblock E t p S"

text \<open>\<open>eosio.names\<close> itself does not bid, and all bids stay within the supply of the core token.\<close>

fun name_fits :: "name_action \<Rightarrow> system_state \<Rightarrow> bool" where
  "name_fits (Bidname bidder newname bid) S \<longleftrightarrow> bidder \<noteq> names_account \<and> names_owed S + amount bid \<le> core_cap"
| "name_fits (Bidrefund bidder newname) S \<longleftrightarrow> bidder \<noteq> names_account"
| "name_fits (Newaccount creator newact) S \<longleftrightarrow> True"
| "name_fits (Onblock t p) S \<longleftrightarrow> names_owed S \<le> core_cap"

interpretation names_escrow: funded_escrow names_account names_owed names_inv name_fits name_exec
    "token_deliver E" "\<lambda>T. bal T c" "\<lambda>T. lib_ok E \<and> token_inv T" "in_currency c" for E c
proof unfold_locales
  fix E a S S'
  assume a: "lib_ok E" "names_inv S" "name_fits a S" "name_exec E a S = Inr S'"
  show "names_inv S'" "covered names_account names_owed S S'"
    using a bidname_law [OF a(1,2)] bidrefund_law [OF a(2)] newaccount_law [OF a(2)] onblock_law [OF a(2)]
    by (cases a; auto intro: balanced_covered)+
qed

section \<open>The properties of auctions\<close>

text \<open>
  C25: Bidders are covered: after any history of bids, refunds, account creations and blocks whose
  inline transfers the token contract has carried out, \<open>eosio.names\<close> holds all open bids, all
  refunds due and the proceeds promised to the REX pool.
\<close>

theorem names_stay_solvent:
  assumes "lib_ok E" and "token_inv T" and "names_inv S" and "names_owed S \<le> bal T c names_account"
    and "history name_exec name_fits S S'" and "effects S' = effects S @ es" and "\<forall>e\<in>set es. in_currency c e"
    and "deliver_all (token_deliver E) es T = Inr T'"
  shows "names_owed S' \<le> bal T' c names_account"
  by (rule names_escrow.stays_solvent [OF assms(3) _ assms(4-8)]) (use assms(1,2) in simp)

definition no_accounts :: env where
  "no_accounts = ref_env\<lparr>is_account := (\<lambda>_. False)\<rparr>"

lemma no_accounts_ok [simp]: "lib_ok no_accounts"
  by (simp add: no_accounts_def lib_ok_def ref_env_def)

definition short_name :: name where "short_name = 0x34c0000000000000"

definition auction_state :: system_state where
  "auction_state = demo_state\<lparr>ns := \<lparr>namebids = fmupd short_name \<lparr>nb_newname = short_name, high_bidder = alice,
     high_bid = 1000, last_bid_time = 1500000000000000\<rparr> fmempty, bidrefunds = fmempty\<rparr>\<rparr>"

lemma auction_state_inv: "names_inv auction_state" "names_owed auction_state = 1000" "effects auction_state = []"
  by (simp_all add: names_inv_def auction_state_def core_cap_def pool_field_def demo_rex_def demo_pool_def
      names_owed_def open_bids_def refunds_due_def open_bid_def)

lemma auction_rows:
  "fmlookup (namebids (ns auction_state)) short_name = Some \<lparr>nb_newname = short_name, high_bidder = alice,
     high_bid = 1000, last_bid_time = 1500000000000000\<rparr>"
  "bidrefunds (ns auction_state) = fmempty"
  by (simp_all add: auction_state_def)

definition auction_bank :: token_state where
  "auction_bank =
     \<lparr>accounts = fmupd (names_account, sym_code eos) \<lparr>balance = coins 1000\<rparr>
        (fmupd (bob, sym_code eos) \<lparr>balance = coins 5000\<rparr> fmempty),
      stats = fmupd (sym_code eos) \<lparr>supply = coins 6000, max_supply = coins 5000000, issuer = eosio_account\<rparr> fmempty,
      notified = []\<rparr>"

lemma auction_bank_inv: "token_inv auction_bank"
  using demo_accounts(8) [symmetric] by (auto simp: token_inv_def auction_bank_def stats_ok_def accounts_ok_def
      supply_ok_def circulating_def held_in_def code_of_def in_range_def asset_max_def split: if_splits)

lemma demo_outbid:
  "case name_exec no_accounts (Bidname bob short_name (coins 1200)) auction_state of
     Inr S' \<Rightarrow> (case deliver_all (token_deliver no_accounts) (effects S') auction_bank of Inr T' \<Rightarrow> True | Inl _ \<Rightarrow> True) \<and>
       list_all (in_currency (sym_code eos)) (effects S') \<and>
       (case deliver_all (token_deliver ref_env) (effects S') auction_bank of Inr _ \<Rightarrow> True | Inl _ \<Rightarrow> False)
   | Inl _ \<Rightarrow> False"
  by code_simp

theorem names_stay_solvent_witness:
  "\<exists>S' T'. history name_exec name_fits auction_state S' \<and>
     deliver_all (token_deliver ref_env) (effects S') auction_bank = Inr T' \<and>
     names_owed S' \<le> bal T' (sym_code eos) names_account"
proof -
  let ?a = "Bidname bob short_name (coins 1200)"
  obtain S' T' where S': "name_exec no_accounts ?a auction_state = Inr S'"
    "\<forall>e\<in>set (effects S'). in_currency (sym_code eos) e" and
    T': "deliver_all (token_deliver ref_env) (effects S') auction_bank = Inr T'"
    using demo_outbid by (auto simp: list_all_iff split: sum.splits)
  have h: "history name_exec name_fits auction_state S'"
    by (rule history_act [where exec = name_exec, OF history_start no_accounts_ok _ S'(1)])
      (simp add: auction_state_inv core_cap_def)
  have "names_owed S' \<le> bal T' (sym_code eos) names_account"
    by (rule names_stay_solvent [OF ref_env_ok auction_bank_inv auction_state_inv(1) _ h _ S'(2) T'])
      (simp_all add: auction_state_inv bal_def auction_bank_def)
  then show ?thesis using h T' by blast
qed

text \<open>
  C26: An auction can only be outbid by more than a tenth, by somebody else, while it is open; the
  bidder outbid is then owed exactly the old bid in addition to earlier refunds for the name.
\<close>

theorem outbidding_rules:
  assumes "lib_ok E" and "names_inv S" and "names_owed S + amount bid \<le> core_cap"
    and "bidname E bidder newname bid S = Inr S'" and "fmlookup (namebids (ns S)) newname = Some cur"
  shows "0 < high_bid cur \<and> 11 * high_bid cur < 10 * amount bid \<and> bidder \<noteq> high_bidder cur \<and>
    fmlookup (namebids (ns S')) newname = Some (cur\<lparr>high_bidder := bidder, high_bid := amount bid, last_bid_time := now E\<rparr>) \<and>
    tval (\<lambda>r. amount (br_amount r)) (bidrefunds (ns S')) (newname, high_bidder cur) =
      tval (\<lambda>r. amount (br_amount r)) (bidrefunds (ns S)) (newname, high_bidder cur) + high_bid cur"
  using assms(1,4)
proof (rule bidname_cases)
  fix cur' r es
  assume b: "0 < amount bid" and "fmlookup (namebids (ns S)) newname = Some cur'" and pos: "0 < high_bid cur'"
    and ten: "tdiv (high_bid cur') 10 < i64 (amount bid - high_bid cur')" and ne: "high_bidder cur' \<noteq> bidder"
    and r: "case fmlookup (bidrefunds (ns S)) (newname, high_bidder cur') of
         Some r0 \<Rightarrow> is_i64 (amount (br_amount r0) + high_bid cur') \<longrightarrow> amount (br_amount r) = amount (br_amount r0) + high_bid cur'
       | None \<Rightarrow> amount (br_amount r) = high_bid cur'"
    and S': "S' = emit (bid_transfer E bidder newname bid # es) S\<lparr>ns := (ns S)\<lparr>
        bidrefunds := fmupd (newname, high_bidder cur') r (bidrefunds (ns S)),
        namebids := fmupd newname (cur'\<lparr>high_bidder := bidder, high_bid := amount bid, last_bid_time := now E\<rparr>)
          (namebids (ns S))\<rparr>\<rparr>"
  then have c: "cur' = cur" using assms(5) by simp
  note P = names_parts [OF assms(2)] and D = names_invD [OF assms(2)]
  have cap: "open_bids (ns S) + refunds_due (ns S) + amount bid \<le> core_cap" using assms(3) D(3) by (simp add: names_owed_def)
  have cb: "high_bid cur \<le> open_bids (ns S)" using P(3) [OF assms(5)] pos c by (simp add: open_bid_def)
  have "i64 (amount bid - high_bid cur) = amount bid - high_bid cur"
    using b cb cap P(1,2) pos c by (intro i64_small) (auto simp: core_cap_def)
  then have "high_bid cur div 10 < amount bid - high_bid cur" using ten pos c by (simp add: tdiv_def)
  then have "11 * high_bid cur < 10 * amount bid"
    using div_mult_mod_eq [of "high_bid cur" 10] pos_mod_bound [of 10 "high_bid cur"] by linarith
  moreover have "is_i64 (amount (br_amount r0) + high_bid cur)"
    if "fmlookup (bidrefunds (ns S)) (newname, high_bidder cur) = Some r0" for r0
    using P(4) [OF that] D(2) [OF that] cb cap b pos c by (simp add: is_i64_def core_cap_def)
  ultimately show ?thesis using r pos ne c S' by (auto split: option.split_asm)
qed (use assms(5) in simp)

theorem outbidding_rules_witness:
  "\<exists>S'. bidname no_accounts bob short_name (coins 1200) auction_state = Inr S' \<and>
     tval (\<lambda>r. amount (br_amount r)) (bidrefunds (ns S')) (short_name, alice) = 1000"
proof -
  have "case bidname no_accounts bob short_name (coins 1200) auction_state of Inr S' \<Rightarrow> True | Inl _ \<Rightarrow> False"
    by code_simp
  then obtain S' where r: "bidname no_accounts bob short_name (coins 1200) auction_state = Inr S'"
    by (auto split: sum.splits)
  then show ?thesis
    using outbidding_rules [OF no_accounts_ok auction_state_inv(1) _ r auction_rows(1)]
    by (simp add: auction_state_inv(2) auction_rows(2) core_cap_def)
qed

text \<open>
  C27: What a block closes is the highest open auction, once its last bid has stood for more than a
  day and the chain has been activated for more than fourteen; the winner's bid is marked as won, all other bids stay, and nothing is sent.
\<close>

theorem highest_auction_closes:
  assumes "names_inv S" and "ns (close_auction E t S) \<noteq> ns S"
  shows "\<exists>n b. fmlookup (namebids (ns S)) n = Some b \<and> 0 < high_bid b \<and>
    (\<forall>m c. fmlookup (namebids (ns S)) m = Some c \<longrightarrow> high_bid c \<le> high_bid b) \<and>
    useconds_per_day < i64 (now E - last_bid_time b) \<and>
    0 < thresh_activated_stake_time (gstate (vs S)) \<and>
    14 * useconds_per_day < i64 (now E - thresh_activated_stake_time (gstate (vs S))) \<and>
    ns (close_auction E t S) = (ns S)\<lparr>namebids := fmupd n (b\<lparr>high_bid := - high_bid b\<rparr>) (namebids (ns S))\<rparr>"
proof -
  let ?thresh = "thresh_activated_stake_time (gstate (vs S))"
  obtain b where b: "highest_open_bid (ns S) = Some b" "useconds_per_day < i64 (now E - last_bid_time b)" and
    a: "0 < ?thresh" "14 * useconds_per_day < i64 (now E - ?thresh)" and
    N: "ns (close_auction E t S) = (ns S)\<lparr>namebids := fmupd (nb_newname b)
      (b\<lparr>high_bid := i64 (- high_bid b)\<rparr>) (namebids (ns S))\<rparr>"
    using assms(2) by (auto simp: close_auction_def set_gstate_def Let_def split: option.splits if_splits)
  note H = highest_open_bid_law [OF assms(1) b(1)]
  obtain n where n: "fmlookup (namebids (ns S)) n = Some b" using H(1) by blast
  have "i64 (- high_bid b) = - high_bid b"
    using names_invD(1) [OF assms(1) n] H(2) by (intro i64_small) (auto simp: core_cap_def)
  then show ?thesis using n H(2,3) b(2) a N names_invD(1) [OF assms(1) n] by (intro exI [of _ n] exI [of _ b]) simp
qed

definition closing_state :: system_state where
  "closing_state = set_gstate (\<lambda>g. g\<lparr>thresh_activated_stake_time := 1\<rparr>) auction_state"

theorem highest_auction_closes_witness:
  "\<exists>n b. fmlookup (namebids (ns closing_state)) n = Some b \<and> high_bid b = 1000 \<and>
     fmlookup (namebids (ns (close_auction ref_env 5 closing_state))) n = Some (b\<lparr>high_bid := - high_bid b\<rparr>)"
proof -
  have n: "ns closing_state = ns auction_state" "rx closing_state = rx auction_state"
    by (simp_all add: closing_state_def set_gstate_def)
  have "map high_bid (rows (namebids (ns (close_auction ref_env 5 closing_state)))) = [- 1000]" by code_simp
  moreover have "map high_bid (rows (namebids (ns closing_state))) = [1000]" by code_simp
  ultimately have "ns (close_auction ref_env 5 closing_state) \<noteq> ns closing_state" by auto
  then obtain m b where "fmlookup (namebids (ns closing_state)) m = Some b"
    "ns (close_auction ref_env 5 closing_state) =
      (ns closing_state)\<lparr>namebids := fmupd m (b\<lparr>high_bid := - high_bid b\<rparr>) (namebids (ns closing_state))\<rparr>"
    using highest_auction_closes [of closing_state ref_env 5] names_cong(1) [OF n] auction_state_inv(1) by blast
  then show ?thesis unfolding n by (auto simp: auction_state_def split: if_splits)
qed

section \<open>Who may create an account\<close>

text \<open>The letter of a name at a position, counted from its end: a dot is 0.\<close>

definition letter :: "name \<Rightarrow> nat \<Rightarrow> name" where
  "letter n i = drop_bit (5 * i + 4) n AND 0x1f"

lemma has_dot_iff: "has_dot n tmp \<longleftrightarrow> (\<exists>i<n. drop_bit (5 * i) tmp AND 0x1f = 0)"
proof (induction n arbitrary: tmp)
  case (Suc n)
  have "(\<exists>i<Suc n. drop_bit (5 * i) tmp AND 0x1f = 0) \<longleftrightarrow>
      tmp AND 0x1f = 0 \<or> (\<exists>i<n. drop_bit (5 * Suc i) tmp AND 0x1f = 0)"
    by (subst Ex_less_Suc2) simp
  then show ?case using Suc.IH [of "drop_bit 5 tmp"] by (simp add: add.commute)
qed simp

text \<open>
  C28: An account whose name has a dot among its first twelve characters (short names are padded with
  dots) is created, except by the system account itself, only by the winner of the closed auction for a
  top-level name, whose bid is spent by it, or by the account of the suffix. Other names are free,
  and a creation never touches the bids but in the first case.
\<close>

theorem account_name_rules:
  assumes "newaccount E creator newact S = Inr S'"
  shows "(if creator \<noteq> get_self E \<and> (\<exists>i<12. letter newact i = 0)
     then if name_suffix E newact = newact
       then \<exists>b. fmlookup (namebids (ns S)) newact = Some b \<and> high_bidder b = creator \<and> high_bid b < 0 \<and>
         ns S' = (ns S)\<lparr>namebids := fmdrop newact (namebids (ns S))\<rparr>
       else creator = name_suffix E newact \<and> ns S' = ns S
     else ns S' = ns S)"
proof -
  obtain N where c: "claim_name E creator newact (ns S) = Inr N" and S': "ns S' = N"
    using assms by (auto simp: newaccount_def)
  have "has_dot 12 (drop_bit 4 newact) \<longleftrightarrow> (\<exists>i<12. letter newact i = 0)"
    by (simp add: has_dot_iff letter_def)
  then show ?thesis using c S' by (auto simp: claim_name_def Let_def split: if_splits)
qed

text \<open>\<open>alice\<close> has won the auction for a short name: she can create the account, which spends her bid; \<open>bob\<close> cannot.\<close>

definition won_state :: system_state where
  "won_state = auction_state\<lparr>ns := (ns auction_state)\<lparr>namebids := fmupd short_name
     \<lparr>nb_newname = short_name, high_bidder = alice, high_bid = - 1000, last_bid_time = 0\<rparr> fmempty\<rparr>\<rparr>"

lemma short_name_dot: "\<exists>i<12. letter short_name i = 0"
  by (rule exI [of _ 0]) (simp add: letter_def short_name_def)

theorem account_name_rules_witness:
  "(\<exists>S'. newaccount ref_env alice short_name won_state = Inr S' \<and> fmlookup (namebids (ns S')) short_name = None) \<and>
   (\<forall>S'. newaccount ref_env bob short_name won_state \<noteq> Inr S')"
proof
  have u: "alice \<noteq> get_self ref_env" "bob \<noteq> get_self ref_env" "name_suffix ref_env short_name = short_name"
    by (simp_all add: alice_def bob_def ref_env_def eosio_account_def)
  have "case newaccount ref_env alice short_name won_state of Inr S' \<Rightarrow> True | Inl _ \<Rightarrow> False" by code_simp
  then obtain S' where r: "newaccount ref_env alice short_name won_state = Inr S'" by (auto split: sum.splits)
  from account_name_rules [OF r] u short_name_dot r
  show "\<exists>S'. newaccount ref_env alice short_name won_state = Inr S' \<and> fmlookup (namebids (ns S')) short_name = None"
    by auto
  show "\<forall>S'. newaccount ref_env bob short_name won_state \<noteq> Inr S'"
  proof (intro allI notI)
    fix S' assume "newaccount ref_env bob short_name won_state = Inr S'"
    from account_name_rules [OF this] u short_name_dot show False by (auto simp: won_state_def)
  qed
qed

end
