(* ===== verification/Stake_Laws.thy ===== *)
theory Stake_Laws
  imports Escrow Demo Rex_Conservation
begin

text \<open>
  Staking: what \<open>eosio.stake\<close> holds for the accounts is what is delegated and what is on its way
  back. Delegating moves exactly the tokens that the refund of the owner does not cover,
  undelegating moves none and starts a refund, which pays after three days.
\<close>

section \<open>What is owed\<close>

definition db_stake :: "delegated_bandwidth \<Rightarrow> int" where
  "db_stake d = amount (db_net_weight d) + amount (db_cpu_weight d)"

definition rr_due :: "refund_request \<Rightarrow> int" where
  "rr_due r = amount (net_amount r) + amount (cpu_amount r)"

definition delegated :: "system_state \<Rightarrow> int" where
  "delegated S = tsum db_stake (delband (rs S))"

definition refunding :: "system_state \<Rightarrow> int" where
  "refunding S = tsum rr_due (refunds (rs S))"

definition stake_owed :: "system_state \<Rightarrow> int" where
  "stake_owed S = delegated S + refunding S"

definition db_ok :: "(name \<times> name, delegated_bandwidth) table \<Rightarrow> bool" where
  "db_ok t \<longleftrightarrow> (\<forall>k d. fmlookup t k = Some d \<longrightarrow> 0 \<le> amount (db_net_weight d) \<and> 0 \<le> amount (db_cpu_weight d))"

definition rr_ok :: "(name, refund_request) table \<Rightarrow> bool" where
  "rr_ok t \<longleftrightarrow> (\<forall>a r. fmlookup t a = Some r \<longrightarrow> rr_owner r = a \<and> a \<noteq> stake_account \<and>
     0 \<le> amount (net_amount r) \<and> 0 \<le> amount (cpu_amount r) \<and> symbol (net_amount r) = symbol (cpu_amount r))"

definition stake_inv :: "system_state \<Rightarrow> bool" where
  "stake_inv S \<longleftrightarrow> db_ok (delband (rs S)) \<and> rr_ok (refunds (rs S))"

lemma db_okD: "db_ok t \<Longrightarrow> fmlookup t k = Some d \<Longrightarrow> 0 \<le> amount (db_net_weight d) \<and> 0 \<le> amount (db_cpu_weight d)"
  unfolding db_ok_def by blast

lemma rr_okD:
  assumes "rr_ok t" "fmlookup t a = Some r"
  shows "rr_owner r = a" "a \<noteq> stake_account" "0 \<le> amount (net_amount r)" "0 \<le> amount (cpu_amount r)"
    "symbol (net_amount r) = symbol (cpu_amount r)"
  using assms unfolding rr_ok_def by blast+

lemma stake_parts:
  assumes "stake_inv S"
  shows "0 \<le> delegated S" "0 \<le> refunding S"
    "fmlookup (delband (rs S)) k = Some d \<Longrightarrow> db_stake d \<le> delegated S"
    "fmlookup (refunds (rs S)) a = Some r \<Longrightarrow> rr_due r \<le> refunding S"
proof -
  have I: "db_ok (delband (rs S))" "rr_ok (refunds (rs S))" using assms by (simp_all add: stake_inv_def)
  have d: "0 \<le> db_stake d" if "fmlookup (delband (rs S)) k = Some d" for k d
    using db_okD [OF I(1) that] by (simp add: db_stake_def)
  have r: "0 \<le> rr_due r" if "fmlookup (refunds (rs S)) a = Some r" for a r
    using rr_okD [OF I(2) that] by (simp add: rr_due_def)
  show "0 \<le> delegated S" unfolding delegated_def by (rule tsum_nonneg) (rule d)
  show "0 \<le> refunding S" unfolding refunding_def by (rule tsum_nonneg) (rule r)
  show "db_stake d \<le> delegated S" if "fmlookup (delband (rs S)) k = Some d"
    using tval_le_tsum [of "delband (rs S)" db_stake k] d that by (simp add: delegated_def)
  show "rr_due r \<le> refunding S" if "fmlookup (refunds (rs S)) a = Some r"
    using tval_le_tsum [of "refunds (rs S)" rr_due a] r that by (simp add: refunding_def)
qed

section \<open>Steps that leave the stakes alone\<close>

definition stake_quiet :: "system_state \<Rightarrow> system_state \<Rightarrow> bool" where
  "stake_quiet S S' \<longleftrightarrow> delband (rs S') = delband (rs S) \<and> refunds (rs S') = refunds (rs S) \<and>
     (\<exists>es. effects S' = effects S @ es \<and> moved stake_account es = 0)"

lemma stake_quiet_refl [simp]: "stake_quiet S S"
  by (auto simp: stake_quiet_def)

lemma stake_quiet_trans [trans]: "stake_quiet S S1 \<Longrightarrow> stake_quiet S1 S2 \<Longrightarrow> stake_quiet S S2"
  unfolding stake_quiet_def by (metis append_assoc add_0 moved_simps(3))

lemma stake_quietI:
  "delband (rs S') = delband (rs S) \<Longrightarrow> refunds (rs S') = refunds (rs S) \<Longrightarrow> effects S' = effects S @ es \<Longrightarrow>
    moved stake_account es = 0 \<Longrightarrow> stake_quiet S S'"
  unfolding stake_quiet_def by blast

lemma stake_quiet_inv: "stake_quiet S S' \<Longrightarrow> stake_inv S' = stake_inv S"
  by (simp add: stake_quiet_def stake_inv_def)

lemma stake_quiet_balanced: "stake_quiet S S' \<Longrightarrow> balanced stake_account stake_owed S S'"
  unfolding stake_quiet_def balanced_def stake_owed_def delegated_def refunding_def by auto

lemma stake_quiet_upd [simp]:
  "stake_quiet S (T\<lparr>rx := X\<rparr>) = stake_quiet S T" "stake_quiet S (T\<lparr>vs := V\<rparr>) = stake_quiet S T"
  "stake_quiet (S\<lparr>rx := X\<rparr>) T = stake_quiet S T" "stake_quiet (S\<lparr>vs := V\<rparr>) T = stake_quiet S T"
  by (simp_all add: stake_quiet_def)

lemma stake_quiet_emit: "moved stake_account es = 0 \<Longrightarrow> stake_quiet S (emit es S)"
  by (rule stake_quietI [of _ _ es]) simp_all

lemma update_resource_limits_quiet:
  assumes "update_resource_limits E w dn dc S = Inr S'"
  shows "stake_quiet S S'"
proof (cases "dc = 0 \<and> dn = 0")
  case True
  then show ?thesis using assms by (simp add: update_resource_limits_def)
next
  case False
  let ?nm = "managed_flag (vs S) w net_managed" and ?cm = "managed_flag (vs S) w cpu_managed"
  obtain tot R where R: "(if \<not> (?nm \<and> ?cm) then
             bindE (get_resource_limits w (rs S)) (\<lambda>(ram, net, cpu).
             Inr (set_resource_limits w ram
               (if ?nm then net else amount (ur_net_weight tot))
               (if ?cm then cpu else amount (ur_cpu_weight tot)) (rs S)))
           else Inr (rs S)) = Inr R" and
    S': "S' = S\<lparr>rs := R\<lparr>userres :=
          (if ur_is_empty tot then fmdrop w (userres R) else fmupd w tot (userres R))\<rparr>\<rparr>"
    using assms False unfolding update_resource_limits_def Let_def if_not_P [OF False] bindE_eq_Inr sum.inject
    by blast
  have "delband R = delband (rs S) \<and> refunds R = refunds (rs S)"
    using R by (cases "\<not> (?nm \<and> ?cm)") auto
  then show ?thesis unfolding S' by (auto simp: stake_quiet_def)
qed

lemma limits_for_quiet: "limits_for E k w d S = Inr S' \<Longrightarrow> stake_quiet S S'"
  by (cases k) (auto simp: limits_for_def dest: update_resource_limits_quiet)

lemma on_vs_quiet: "on_vs f S = Inr S' \<Longrightarrow> stake_quiet S S'"
  by (auto simp: on_vs_def)

lemma channel_quiet:
  assumes "a \<noteq> stake_account" "channel_to_rex E a q S = Inr S'"
  shows "stake_quiet S S'"
proof (cases "rex_available (rx S) \<and> rexpool (rx S) \<noteq> None")
  case True
  then obtain es where "S' = emit es (S\<lparr>rx := rx S'\<rparr>)" "moved stake_account es = 0"
    using assms by (auto simp: channel_to_rex_def)
  then show ?thesis using stake_quiet_emit [of es "S\<lparr>rx := rx S'\<rparr>"] by simp
qed (use assms in \<open>auto simp: channel_to_rex_def split: option.splits\<close>)

lemma run_loans_quiet: "run_loans E k n S = Inr S' \<Longrightarrow> stake_quiet S S'"
proof (induction n arbitrary: S)
  case (Suc n)
  show ?case
  proof (cases "first_of (index_by by_expr (loans k (rx S)))")
    case (Some loan)
    show ?thesis
    proof (cases "now E < expiration loan")
      case False
      then obtain d X S1 where "limits_for E k (l_receiver loan) d (S\<lparr>rx := X\<rparr>) = Inr S1"
        "run_loans E k n S1 = Inr S'"
        using Suc.prems Some by fastforce
      then show ?thesis using Suc.IH limits_for_quiet stake_quiet_trans stake_quiet_upd(3) by blast
    qed (use Suc.prems Some in simp)
  qed (use Suc.prems in simp)
qed simp

lemma run_orders_quiet: "run_orders E core n os X = Inr (es, X') \<Longrightarrow> moved a es = 0"
proof (induction E core n os X arbitrary: es X' rule: run_orders.induct)
  case (3 E core n order rest X)
  show ?case
  proof (cases "is_open order \<and> fmlookup (rexbalance X) (o_owner order) \<noteq> None")
    case True
    then obtain out X1 where f: "fill_rex_order E core (o_owner order) (rex_requested order) X = Inr (out, X1)"
      using 3(4) by auto
    show ?thesis
    proof (cases "success out")
      case ok: True
      let ?X = "X1\<lparr>rexorders := fmupd (o_owner order) (close_order
                (order\<lparr>proceeds := set_amt (amount (oo_proceeds out)) (proceeds order),
                stake_change := set_amt (amount (oo_stake_change out)) (stake_change order)\<rparr>)) (rexorders X1)\<rparr>"
      obtain fs where "run_orders E core n rest ?X = Inr (fs, X')" "moved a es = moved a fs"
        using 3(4) True f ok by (auto simp: Let_def)
      then show ?thesis using 3(2) [OF _ _ f refl ok refl refl] True by auto
    next
      case False
      then show ?thesis using 3(3,4) True f by auto
    qed
  next
    case False
    show ?thesis using 3(1) [of es X'] 3(4) False by (cases "is_open order") auto
  qed
qed simp_all

lemma runrex_quiet:
  assumes "runrex E n S = Inr S'"
  shows "stake_quiet S S'"
proof -
  obtain S1 S2 S3 es X and pool :: rex_pool where
    1: "(if 0 < amount (namebid_proceeds pool) then
          bindE (channel_to_rex E names_account (namebid_proceeds pool) S) (\<lambda>S.
          bindE (the_pool (rx S)) (\<lambda>rt.
          Inr (S\<lparr>rx := (rx S)\<lparr>rexpool :=
            Some (rt\<lparr>namebid_proceeds := set_amt 0 (namebid_proceeds rt)\<rparr>)\<rparr>\<rparr>)))
        else Inr S) = Inr S1" and
    2: "run_loans E Cpu_loan n S1 = Inr S2" "run_loans E Net_loan n S2 = Inr S3" and
    3: "run_orders E (core_symbol S3) n (index_by by_time (rexorders (rx S3))) (rx S3) = Inr (es, X)" and
    S': "S' = emit es (S3\<lparr>rx := X\<rparr>)"
    using assms unfolding runrex_def bindE_eq_Inr by (clarsimp cong: if_cong)
  have "stake_quiet S S1" using 1 channel_quiet [of names_account] by (auto split: if_splits)
  also have "stake_quiet S1 S2" using 2(1) by (rule run_loans_quiet)
  also have "stake_quiet S2 S3" using 2(2) by (rule run_loans_quiet)
  also have "stake_quiet S3 S'" using stake_quiet_emit [OF run_orders_quiet [OF 3], of "S3\<lparr>rx := X\<rparr>"] S' by simp
  finally show ?thesis .
qed

lemma update_rex_account_frame:
  assumes run: "update_rex_account E w p d force S = Inr (q, S')"
  shows "S' = S\<lparr>vs := vs S', rx := rx S'\<rparr>"
proof (cases "\<exists>r. fmlookup (rexorders (rx S)) w = Some r \<and> \<not> is_open r")
  case True
  then obtain r where r: "fmlookup (rexorders (rx S)) w = Some r" "\<not> is_open r" by blast
  show ?thesis using run r by (auto simp: update_rex_account_def Let_def split: if_splits dest!: on_vs_frame)
next
  case False
  then show ?thesis using run
    by (auto simp: update_rex_account_def Let_def split: option.splits if_splits dest!: on_vs_frame)
qed

lemma update_rex_account_quiet:
  assumes "update_rex_account E w p d force S = Inr (q, S')"
  shows "stake_quiet S S'"
  by (subst update_rex_account_frame [OF assms]) simp

lemma update_rex_stake_quiet: "update_rex_stake E w S = Inr S' \<Longrightarrow> stake_quiet S S'"
  by (auto simp: update_rex_stake_def Let_def split: option.splits if_splits)

section \<open>The parts of a change of stake\<close>

lemma add_asset_Inr:
  assumes "lib_ok E" "is_i64 (amount a + amount b)" "add_asset E a b = Inr c"
  shows "amount c = amount a + amount b" "symbol a = symbol b" "symbol c = symbol a"
  using assms(3) by (simp_all add: add_asset_lib [OF assms(1,2)])

lemma small_is_i64: "0 \<le> w \<Longrightarrow> w \<le> core_cap \<Longrightarrow> - (2 ^ 63) < d \<Longrightarrow> d \<le> core_cap \<Longrightarrow> is_i64 (w + d)"
  by (simp add: is_i64_def core_cap_def)

lemma change_delband_law:
  assumes E: "lib_ok E" and X: "db_ok (delband R)" "tsum db_stake (delband R) \<le> core_cap"
    and d: "- (2 ^ 63) < amount dnet" "amount dnet \<le> core_cap" "- (2 ^ 63) < amount dcpu" "amount dcpu \<le> core_cap"
    and run: "change_delband E a w dnet dcpu R = Inr R'"
  shows "db_ok (delband R')" "tsum db_stake (delband R') = tsum db_stake (delband R) + amount dnet + amount dcpu"
    "refunds R' = refunds R" "- core_cap \<le> amount dnet" "- core_cap \<le> amount dcpu"
proof -
  let ?t = "delband R" and ?k = "(a, w)"
  obtain b where
    b: "(case fmlookup ?t ?k of
          None \<Rightarrow> Inr \<lparr>db_from = a, db_to = w, db_net_weight = dnet, db_cpu_weight = dcpu\<rparr>
        | Some dbo \<Rightarrow>
            bindE (add_asset E (db_net_weight dbo) dnet) (\<lambda>net.
            bindE (add_asset E (db_cpu_weight dbo) dcpu) (\<lambda>cpu.
            Inr (dbo\<lparr>db_net_weight := net, db_cpu_weight := cpu\<rparr>)))) = Inr b" and
    g: "0 \<le> amount (db_net_weight b)" "0 \<le> amount (db_cpu_weight b)" and
    R': "R' = R\<lparr>delband := (if db_is_empty b then fmdrop ?k ?t else fmupd ?k b ?t)\<rparr>"
    using run by (auto simp: change_delband_def)
  let ?net = "tval (\<lambda>d. amount (db_net_weight d)) ?t ?k" and ?cpu = "tval (\<lambda>d. amount (db_cpu_weight d)) ?t ?k"
  have v: "amount (db_net_weight b) = ?net + amount dnet" "amount (db_cpu_weight b) = ?cpu + amount dcpu"
    "tval db_stake ?t ?k = ?net + ?cpu" "0 \<le> ?net" "0 \<le> ?cpu" "?net + ?cpu \<le> core_cap"
  proof -
    have le: "tval db_stake ?t ?k \<le> tsum db_stake ?t"
      by (rule tval_le_tsum) (use db_okD [OF X(1)] in \<open>simp add: db_stake_def\<close>)
    show s: "tval db_stake ?t ?k = ?net + ?cpu" by (simp add: tval_def db_stake_def split: option.split)
    show n: "0 \<le> ?net" "0 \<le> ?cpu" using db_okD [OF X(1)] by (simp_all add: tval_def split: option.split)
    show c: "?net + ?cpu \<le> core_cap" using le s X(2) by simp
    have "is_i64 (?net + amount dnet)" "is_i64 (?cpu + amount dcpu)"
      by (rule small_is_i64; use n c d in simp)+
    then show "amount (db_net_weight b) = ?net + amount dnet" "amount (db_cpu_weight b) = ?cpu + amount dcpu"
      using b by (auto split: option.split_asm dest!: add_asset_Inr(1) [OF E, rotated])
  qed
  show "db_ok (delband R')" using X(1) g unfolding R' by (auto simp: db_ok_def)
  have "db_is_empty b \<Longrightarrow> db_stake b = 0" by (simp add: db_is_empty_def db_stake_def)
  then show "tsum db_stake (delband R') = tsum db_stake ?t + amount dnet + amount dcpu"
    using v unfolding R' by (cases "db_is_empty b") (simp_all add: db_stake_def)
  show "refunds R' = refunds R" unfolding R' by simp
  show "- core_cap \<le> amount dnet" "- core_cap \<le> amount dcpu" using v g by linarith+
qed

lemma change_totals_frame:
  assumes "change_totals E w dnet dcpu V R = Inr R'"
  shows "delband R' = delband R" "refunds R' = refunds R"
proof -
  let ?nm = "managed_flag V w net_managed" and ?cm = "managed_flag V w cpu_managed" and ?rm = "managed_flag V w ram_managed"
  obtain tot R1 where R: "(if \<not> (?nm \<and> ?cm) then
          bindE (get_resource_limits w R) (\<lambda>(ram, net, cpu).
          Inr (set_resource_limits w
            (if ?rm then ram else max (i64 (ram_bytes tot + ram_gift_bytes)) ram)
            (if ?nm then net else amount (ur_net_weight tot))
            (if ?cm then cpu else amount (ur_cpu_weight tot)) R))
        else Inr R) = Inr R1" and
    R': "R' = R1\<lparr>userres := (if ur_is_empty tot then fmdrop w (userres R1) else fmupd w tot (userres R1))\<rparr>"
    using assms unfolding change_totals_def Let_def bindE_eq_Inr sum.inject by blast
  have "delband R1 = delband R \<and> refunds R1 = refunds R"
    using R by (cases "\<not> (?nm \<and> ?cm)") auto
  then show "delband R' = delband R" "refunds R' = refunds R" unfolding R' by simp_all
qed

text \<open>
  Against a refund \<open>r\<close> (zero when there is none) a change \<open>d\<close> leaves a refund and what is still
  to be paid: neither is negative, and what is paid is the change of both stake and refund.
\<close>

lemma offset_refund_law:
  assumes E: "lib_ok E" and r: "0 \<le> amount r" "amount r \<le> core_cap" and d: "- core_cap \<le> amount d" "amount d \<le> core_cap"
    and run: "offset_refund E r d = Inr (r', n)"
  shows "amount r' = max 0 (amount r - amount d)" "amount n = max 0 (amount d - amount r)"
    "symbol r' = symbol r" "symbol r = symbol d" "symbol n = symbol d"
proof -
  have i: "is_i64 (amount r - amount d)" "is_i64 (- (amount r - amount d))" using r d by (auto simp: is_i64_def core_cap_def)
  obtain x where x: "symbol r = symbol d" "x = \<lparr>amount = amount r - amount d, symbol = symbol r\<rparr>"
    "(if amount x < 0 then (set_amt 0 x, asset_neg E x) else (x, set_amt 0 d)) = (r', n)"
    using run unfolding offset_refund_def bindE_eq_Inr sub_asset_lib [OF E i(1)] sum.inject by blast
  have n: "asset_neg E x = \<lparr>amount = - amount x, symbol = symbol x\<rparr>"
    using neg_asset_lib [OF E, of x] i(2) x(2) by simp
  show "amount r' = max 0 (amount r - amount d)" "amount n = max 0 (amount d - amount r)"
    "symbol r' = symbol r" "symbol r = symbol d" "symbol n = symbol d"
    using x(1,3) unfolding n by (auto simp: x(2) split: if_splits)
qed

lemma start_refund_law:
  assumes E: "lib_ok E" and d: "- core_cap \<le> amount d" "amount d \<le> core_cap" and core: "core = Inr (symbol d)"
    and run: "start_refund E core d = Inr (r', n)"
  shows "amount r' = max 0 (- amount d)" "amount n = max 0 (amount d)" "symbol r' = symbol d" "symbol n = symbol d"
proof -
  have "is_i64 (- amount d)" using d by (simp add: is_i64_def core_cap_def)
  from neg_asset_lib [OF E this]
  have n: "asset_neg E d = \<lparr>amount = - amount d, symbol = symbol d\<rparr>" .
  show "amount r' = max 0 (- amount d)" "amount n = max 0 (amount d)" "symbol r' = symbol d" "symbol n = symbol d"
    using run unfolding start_refund_def n by (auto simp: core new_asset_lib [OF E] split: if_splits)
qed

text \<open>What the refund of an account holds for either side.\<close>

definition net_due :: "(name, refund_request) table \<Rightarrow> name \<Rightarrow> int" where
  "net_due = tval (\<lambda>r. amount (net_amount r))"

definition cpu_due :: "(name, refund_request) table \<Rightarrow> name \<Rightarrow> int" where
  "cpu_due = tval (\<lambda>r. amount (cpu_amount r))"

lemma dues:
  assumes "rr_ok t" "tsum rr_due t \<le> core_cap"
  shows "tval rr_due t a = net_due t a + cpu_due t a" "0 \<le> net_due t a" "0 \<le> cpu_due t a"
    "net_due t a + cpu_due t a \<le> core_cap"
proof -
  show s: "tval rr_due t a = net_due t a + cpu_due t a"
    by (simp add: tval_def rr_due_def net_due_def cpu_due_def split: option.split)
  show "0 \<le> net_due t a" "0 \<le> cpu_due t a"
    using rr_okD [OF assms(1)] by (simp_all add: tval_def net_due_def cpu_due_def split: option.split)
  have "tval rr_due t a \<le> tsum rr_due t"
    by (rule tval_le_tsum) (use rr_okD [OF assms(1)] in \<open>simp add: rr_due_def\<close>)
  then show "net_due t a + cpu_due t a \<le> core_cap" using s assms(2) by simp
qed

text \<open>
  The refund after a change: each side is what the change leaves of it, and what is left of the
  change is to be paid. A change that does not touch the refund is paid whole.
\<close>

definition refund_stepped ::
    "env \<Rightarrow> name \<Rightarrow> int \<Rightarrow> int \<Rightarrow> int \<Rightarrow> int \<Rightarrow> (name, refund_request) table \<Rightarrow> (name, refund_request) table \<Rightarrow> bool" where
  "refund_stepped E a dnet dcpu net cpu T T' \<longleftrightarrow>
     net_due T' a = max 0 (net_due T a - dnet) \<and> cpu_due T' a = max 0 (cpu_due T a - dcpu) \<and>
     net = max 0 (dnet - net_due T a) \<and> cpu = max 0 (dcpu - cpu_due T a) \<and>
     (\<forall>b. b \<noteq> a \<longrightarrow> fmlookup T' b = fmlookup T b) \<and>
     (dnet < 0 \<or> dcpu < 0 \<longrightarrow> (\<exists>r. fmlookup T' a = Some r \<and> request_time r = now_sec E))"

lemma change_refund_touched:
  assumes E: "lib_ok E" and T: "rr_ok T" "tsum rr_due T \<le> core_cap" and a: "a \<noteq> stake_account"
    and n: "- core_cap \<le> amount dnet" "amount dnet \<le> core_cap" and c: "- core_cap \<le> amount dcpu" "amount dcpu \<le> core_cap"
    and s: "symbol dnet = symbol dcpu" "core = Inr (symbol dnet)"
    and touch: "self \<or> i64 (amount dnet + amount dcpu) < 0"
    and run: "change_refund E core a self dnet dcpu T = Inr (net, cpu, need, T')"
  shows "rr_ok T' \<and> refund_stepped E a (amount dnet) (amount dcpu) (amount net) (amount cpu) T T' \<and>
    tsum rr_due T' = tsum rr_due T + amount net + amount cpu - amount dnet - amount dcpu \<and> symbol net = symbol cpu"
proof (cases "fmlookup T a")
  case None
  show ?thesis
  proof (cases "amount dnet < 0 \<or> amount dcpu < 0")
    case True
    then obtain rnet rcpu where
      r: "start_refund E core dnet = Inr (rnet, net)" "start_refund E core dcpu = Inr (rcpu, cpu)" and
      T': "T' = fmupd a \<lparr>rr_owner = a, request_time = now_sec E, net_amount = rnet, cpu_amount = rcpu\<rparr> T"
      using run touch None by (auto simp: change_refund_def)
    note N = start_refund_law [OF E n s(2) r(1)] and C = start_refund_law [OF E c _ r(2)]
    show ?thesis using N C s T(1) a None unfolding T'
      by (auto simp: rr_ok_def refund_stepped_def net_due_def cpu_due_def rr_due_def)
  next
    case False
    then have "net = dnet" "cpu = dcpu" "T' = T" using run touch None by (auto simp: change_refund_def)
    then show ?thesis using False None s T(1)
      by (auto simp: refund_stepped_def net_due_def cpu_due_def)
  qed
next
  case (Some req)
  note D = rr_okD [OF T(1) Some]
  have due: "net_due T a = amount (net_amount req)" "cpu_due T a = amount (cpu_amount req)"
    using Some by (simp_all add: net_due_def cpu_due_def)
  have le: "amount (net_amount req) \<le> core_cap" "amount (cpu_amount req) \<le> core_cap"
    using dues [OF T, of a] due by linarith+
  let ?t = "if amount dnet < 0 \<or> amount dcpu < 0 then now_sec E else request_time req"
  obtain rnet rcpu where
    r: "offset_refund E (net_amount req) dnet = Inr (rnet, net)" "offset_refund E (cpu_amount req) dcpu = Inr (rcpu, cpu)" and
    T': "T' = (let req = req\<lparr>request_time := ?t, net_amount := rnet, cpu_amount := rcpu\<rparr> in
      if rr_is_empty req then fmdrop a T else fmupd a req T)"
    using run touch Some by (auto simp: change_refund_def Let_def split: if_splits)
  note N = offset_refund_law [OF E D(3) le(1) n r(1)] and C = offset_refund_law [OF E D(4) le(2) c r(2)]
  let ?req = "req\<lparr>request_time := ?t, net_amount := rnet, cpu_amount := rcpu\<rparr>"
  have ok: "rr_owner ?req = a" "0 \<le> amount (net_amount ?req)" "0 \<le> amount (cpu_amount ?req)"
    "symbol (net_amount ?req) = symbol (cpu_amount ?req)" using D N C s(1) by simp_all
  have sy: "symbol net = symbol cpu" using N(5) C(5) s(1) by simp
  have rr: "tval rr_due T a = amount (net_amount req) + amount (cpu_amount req)" using Some by (simp add: rr_due_def)
  show ?thesis
  proof (cases "rr_is_empty ?req")
    case True
    then have z: "amount rnet = 0" "amount rcpu = 0" and T': "T' = fmdrop a T" using T' by (simp_all add: rr_is_empty_def)
    have "\<not> amount dnet < 0" "\<not> amount dcpu < 0" using z N(1) C(1) D(3,4) by auto
    then show ?thesis using T(1) T' z N(1,2) C(1,2) sy due rr Some
      by (auto simp: rr_ok_def refund_stepped_def net_due_def cpu_due_def)
  next
    case False
    then have T': "T' = fmupd a ?req T" using T' by simp
    then show ?thesis using T(1) N(1,2) C(1,2) sy due rr ok a Some
      by (auto simp: rr_ok_def refund_stepped_def net_due_def cpu_due_def rr_due_def)
  qed
qed

lemma change_refund_untouched:
  assumes "\<not> (self \<or> i64 (amount dnet + amount dcpu) < 0)"
    and "change_refund E core a self dnet dcpu T = Inr (net, cpu, need, T')"
  shows "net = dnet" "cpu = dcpu" "T' = T" "\<not> need"
  using assms by (simp_all add: change_refund_def)

section \<open>Changing a stake\<close>

text \<open>What \<open>changebw\<close> is made of, for a source other than \<open>eosio.stake\<close>.\<close>

lemma changebw_parts:
  assumes run: "changebw E a w dnet dcpu transfer S = Inr S'" and src: "a \<noteq> stake_account"
  obtains R1 R2 net cpu need T es S1 S2 both where
    "add_asset E dnet dcpu = Inr both"
    "max (i64 \<bar>amount dnet\<bar>) (i64 \<bar>amount dcpu\<bar>) \<le> i64 \<bar>amount both\<bar>"
    "change_delband E (if transfer then w else a) w dnet dcpu (rs S) = Inr R1"
    "change_totals E w dnet dcpu (vs S) R1 = Inr R2"
    "change_refund E (core_symbol S) (if transfer then w else a)
       (\<not> transfer \<and> (if transfer then w else a) = w) dnet dcpu (refunds R2) = Inr (net, cpu, need, T)"
    "settle_stake E a (if transfer then w else a) net cpu need = Inr es"
    "S1 = emit es (S\<lparr>rs := R2\<lparr>refunds := T\<rparr>\<rparr>)" "stake_quiet S1 S'" "effects S' = effects S1"
proof -
  let ?a = "if transfer then w else a"
  obtain both R1 R2 S1 S2 where
    1: "add_asset E dnet dcpu = Inr both" "max (i64 \<bar>amount dnet\<bar>) (i64 \<bar>amount dcpu\<bar>) \<le> i64 \<bar>amount both\<bar>"
      "change_delband E ?a w dnet dcpu (rs S) = Inr R1" "change_totals E w dnet dcpu (vs S) R1 = Inr R2" and
    2: "(if stake_account \<noteq> a then
          bindE (change_refund E (core_symbol S) ?a (\<not> transfer \<and> ?a = w) dnet dcpu (refunds R2))
            (\<lambda>(net, cpu, need_deferred_trx, T).
          bindE (settle_stake E a ?a net cpu need_deferred_trx) (\<lambda>es.
          Inr (emit es (S\<lparr>rs := R2\<lparr>refunds := T\<rparr>\<rparr>))))
        else Inr (S\<lparr>rs := R2\<rparr>)) = Inr S1" and
    3: "update_rex_stake E ?a S1 = Inr S2" "on_vs (update_voting_power E ?a both) S2 = Inr S'"
    using run unfolding changebw_steps by blast
  have "stake_quiet S1 S'" using update_rex_stake_quiet [OF 3(1)] on_vs_quiet [OF 3(2)] by (rule stake_quiet_trans)
  moreover have "effects S' = effects S1"
    using 3 by (auto simp: update_rex_stake_def on_vs_def Let_def split: option.splits if_splits)
  moreover obtain net cpu need T es where "change_refund E (core_symbol S) ?a (\<not> transfer \<and> ?a = w) dnet dcpu (refunds R2) =
      Inr (net, cpu, need, T)" "settle_stake E a ?a net cpu need = Inr es" "S1 = emit es (S\<lparr>rs := R2\<lparr>refunds := T\<rparr>\<rparr>)"
    using 2 src by auto
  ultimately show ?thesis using that [OF 1] by blast
qed

lemma settle_stake_moved:
  assumes E: "lib_ok E" and a: "a \<noteq> stake_account" and n: "0 \<le> amount net" "amount net \<le> core_cap"
    and c: "0 \<le> amount cpu" "amount cpu \<le> core_cap"
    and run: "settle_stake E a b net cpu need = Inr es"
  shows "moved stake_account es = amount net + amount cpu"
    "w \<noteq> stake_account \<Longrightarrow> moved w es = (if w = a then - (amount net + amount cpu) else 0)"
proof -
  have i: "is_i64 (amount net + amount cpu)" using n c by (simp add: is_i64_def core_cap_def)
  show "moved stake_account es = amount net + amount cpu"
    "w \<noteq> stake_account \<Longrightarrow> moved w es = (if w = a then - (amount net + amount cpu) else 0)"
    using run a n(1) c(1) by (auto simp: settle_stake_def add_asset_lib [OF E i])
qed

text \<open>
  A change of stake in either direction. \<open>fresh\<close> is what it adds to the stakes, zero when undelegating.
\<close>

definition change_fits :: "name \<Rightarrow> asset \<Rightarrow> asset \<Rightarrow> system_state \<Rightarrow> bool" where
  "change_fits a dnet dcpu S \<longleftrightarrow> a \<noteq> stake_account \<and> core_symbol S = Inr (symbol dnet) \<and>
     - (2 ^ 63) < amount dnet \<and> - (2 ^ 63) < amount dcpu \<and>
     (0 \<le> amount dnet \<and> 0 \<le> amount dcpu \<and> stake_owed S + amount dnet + amount dcpu \<le> core_cap \<or>
      amount dnet \<le> 0 \<and> amount dcpu \<le> 0 \<and> amount dnet + amount dcpu < 0 \<and> stake_owed S \<le> core_cap)"

text \<open>
  What is left to pay after a request under way has been used, and the rows after it: both are as
  given unless the request is touched.
\<close>

lemma change_refund_law:
  assumes E: "lib_ok E" and T: "rr_ok T" "tsum rr_due T \<le> core_cap" and i: "is_i64 (amount dnet + amount dcpu)"
    and src: "own \<or> amount dnet + amount dcpu < 0 \<longrightarrow> a \<noteq> stake_account"
    and b: "- core_cap \<le> amount dnet" "amount dnet \<le> core_cap" "- core_cap \<le> amount dcpu" "amount dcpu \<le> core_cap"
    and sy: "symbol dnet = symbol dcpu" and cs: "core = Inr (symbol dnet)"
    and sg: "0 \<le> amount dnet \<and> 0 \<le> amount dcpu \<or> amount dnet + amount dcpu < 0"
    and rf: "change_refund E core a own dnet dcpu T = Inr (net, cpu, need, T')"
  shows "rr_ok T' \<and> 0 \<le> amount net \<and> 0 \<le> amount cpu \<and> amount net \<le> core_cap \<and> amount cpu \<le> core_cap \<and>
    tsum rr_due T' = tsum rr_due T + amount net + amount cpu - amount dnet - amount dcpu \<and>
    (if own \<or> amount dnet + amount dcpu < 0
     then refund_stepped E a (amount dnet) (amount dcpu) (amount net) (amount cpu) T T'
     else amount net = amount dnet \<and> amount cpu = amount dcpu \<and> T' = T)"
proof (cases "own \<or> amount dnet + amount dcpu < 0")
  case True
  then have t: "own \<or> i64 (amount dnet + amount dcpu) < 0" by (auto simp: i64_id [OF i])
  note c = change_refund_touched [OF E T src [rule_format, OF True] b sy cs t rf]
  have m: "amount net = max 0 (amount dnet - net_due T a)" "amount cpu = max 0 (amount dcpu - cpu_due T a)"
    using c by (simp_all add: refund_stepped_def)
  have "0 \<le> core_cap" by (simp add: core_cap_def)
  then have "0 \<le> amount net \<and> 0 \<le> amount cpu \<and> amount net \<le> core_cap \<and> amount cpu \<le> core_cap"
    using m b dues(2,3) [OF T, of a] by simp
  with c True show ?thesis by simp
next
  case False
  then have nt: "\<not> (own \<or> i64 (amount dnet + amount dcpu) < 0)" by (auto simp: i64_id [OF i])
  from change_refund_untouched [OF nt rf] False sg T b show ?thesis by auto
qed

lemma changebw_law:
  assumes E: "lib_ok E" and X: "stake_inv S" and f: "change_fits a dnet dcpu S"
    and tr: "transfer \<longrightarrow> 0 \<le> amount dnet + amount dcpu"
    and run: "changebw E a w dnet dcpu transfer S = Inr S'"
  obtains net cpu es where "stake_inv S'" "effects S' = effects S @ es" "moved stake_account es = net + cpu"
    "stake_owed S' = stake_owed S + net + cpu" "0 \<le> net" "0 \<le> cpu"
    "if (\<not> transfer \<and> a = w) \<or> amount dnet + amount dcpu < 0
     then refund_stepped E a (amount dnet) (amount dcpu) net cpu (refunds (rs S)) (refunds (rs S'))
     else net = amount dnet \<and> cpu = amount dcpu \<and> refunds (rs S') = refunds (rs S)"
    "delegated S' = delegated S + amount dnet + amount dcpu"
proof -
  let ?a = "if transfer then w else a"
  have I: "db_ok (delband (rs S))" "rr_ok (refunds (rs S))" using X by (simp_all add: stake_inv_def)
  note P = stake_parts [OF X]
  have src: "a \<noteq> stake_account" and cs: "core_symbol S = Inr (symbol dnet)"
    and lo: "- (2 ^ 63) < amount dnet" "- (2 ^ 63) < amount dcpu"
    and sg: "0 \<le> amount dnet \<and> 0 \<le> amount dcpu \<and> stake_owed S + amount dnet + amount dcpu \<le> core_cap \<or>
      amount dnet \<le> 0 \<and> amount dcpu \<le> 0 \<and> amount dnet + amount dcpu < 0 \<and> stake_owed S \<le> core_cap"
    using f by (simp_all add: change_fits_def)
  have hi: "amount dnet \<le> core_cap" "amount dcpu \<le> core_cap" "stake_owed S \<le> core_cap"
    using sg P(1,2) by (auto simp: stake_owed_def core_cap_def)
  have cap: "tsum db_stake (delband (rs S)) \<le> core_cap" "tsum rr_due (refunds (rs S)) \<le> core_cap"
    using hi(3) P(1,2) by (simp_all add: stake_owed_def delegated_def refunding_def)
  show thesis
  proof (rule changebw_parts [OF run src])
    fix R1 R2 net cpu need T es S1 S2 both
    assume ad: "add_asset E dnet dcpu = Inr both"
      and db: "change_delband E ?a w dnet dcpu (rs S) = Inr R1" and ct: "change_totals E w dnet dcpu (vs S) R1 = Inr R2"
      and rf: "change_refund E (core_symbol S) ?a (\<not> transfer \<and> ?a = w) dnet dcpu (refunds R2) = Inr (net, cpu, need, T)"
      and st: "settle_stake E a ?a net cpu need = Inr es"
      and S1: "S1 = emit es (S\<lparr>rs := R2\<lparr>refunds := T\<rparr>\<rparr>)" and q: "stake_quiet S1 S'"
    note B = change_delband_law [OF E I(1) cap(1) lo(1) hi(1) lo(2) hi(2) db]
    have R2: "delband R2 = delband R1" "refunds R2 = refunds (rs S)" using change_totals_frame [OF ct] B(3) by simp_all
    have i: "is_i64 (amount dnet + amount dcpu)" using B(4,5) hi by (simp add: is_i64_def core_cap_def)
    have sy: "symbol dnet = symbol dcpu" using add_asset_Inr(2) [OF E i ad] .
    let ?touch = "(\<not> transfer \<and> a = w) \<or> amount dnet + amount dcpu < 0"
    have un: "?touch \<Longrightarrow> ?a = a" "(\<not> transfer \<and> ?a = w) = (\<not> transfer \<and> a = w)" using tr by auto
    have "0 \<le> amount dnet \<and> 0 \<le> amount dcpu \<or> amount dnet + amount dcpu < 0"
      and "?touch \<longrightarrow> ?a \<noteq> stake_account" using sg un(1) src by auto
    from change_refund_law [OF E I(2) cap(2) i this(2) [folded un(2)] B(4) hi(1) B(5) hi(2) sy cs this(1) rf [unfolded R2]] un
    have "rr_ok T \<and> 0 \<le> amount net \<and> 0 \<le> amount cpu \<and> amount net \<le> core_cap \<and> amount cpu \<le> core_cap \<and>
      tsum rr_due T = tsum rr_due (refunds (rs S)) + amount net + amount cpu - amount dnet - amount dcpu \<and>
      (if ?touch then refund_stepped E a (amount dnet) (amount dcpu) (amount net) (amount cpu) (refunds (rs S)) T
       else amount net = amount dnet \<and> amount cpu = amount dcpu \<and> T = refunds (rs S))" by auto
    then have c: "rr_ok T" "0 \<le> amount net" "0 \<le> amount cpu" "amount net \<le> core_cap" "amount cpu \<le> core_cap"
      "tsum rr_due T = tsum rr_due (refunds (rs S)) + amount net + amount cpu - amount dnet - amount dcpu"
      "if ?touch then refund_stepped E a (amount dnet) (amount dcpu) (amount net) (amount cpu) (refunds (rs S)) T
       else amount net = amount dnet \<and> amount cpu = amount dcpu \<and> T = refunds (rs S)" by blast+
    note mv = settle_stake_moved(1) [OF E src c(2,4,3,5) st]
    obtain fs where fs: "effects S' = effects S1 @ fs" "moved stake_account fs = 0"
      and S': "delband (rs S') = delband R1" "refunds (rs S') = T"
      using q R2 S1 by (auto simp: stake_quiet_def)
    have "delegated S' = delegated S + amount dnet + amount dcpu" using B(2) by (simp add: delegated_def S')
    then show thesis
      using fs S1 mv c B(1)
      by (intro that [of "es @ fs" "amount net" "amount cpu"])
        (simp_all add: stake_inv_def S' stake_owed_def refunding_def)
  qed
qed

section \<open>The actions\<close>

lemma delegatebw_change:
  assumes E: "lib_ok E" and X: "stake_inv S" "a \<noteq> stake_account" "stake_owed S + amount net + amount cpu \<le> core_cap"
    and run: "delegatebw E a w net cpu transfer S = Inr S'"
  shows "change_fits a net cpu S" "0 < amount net + amount cpu" "changebw E a w net cpu transfer S = Inr S'"
    "transfer \<Longrightarrow> a \<noteq> w"
proof -
  have g: "core_symbol S = Inr (symbol net)" "0 \<le> amount cpu" "0 \<le> amount net" "0 < i64 (amount net + amount cpu)"
    and c: "changebw E a w net cpu transfer S = Inr S'" "\<not> transfer \<or> a \<noteq> w"
    using run by (auto simp: delegatebw_def new_asset_lib [OF E] le_asset_lib [OF E])
  have "is_i64 (amount net + amount cpu)"
    using g X(3) stake_parts(1,2) [OF X(1)] by (simp add: stake_owed_def is_i64_def core_cap_def)
  then show "0 < amount net + amount cpu" using g(4) by (simp add: i64_id)
  show "change_fits a net cpu S" using g X by (simp add: change_fits_def)
  show "changebw E a w net cpu transfer S = Inr S'" "transfer \<Longrightarrow> a \<noteq> w" using c by auto
qed

lemma undelegatebw_change:
  assumes E: "lib_ok E" and X: "stake_inv S" "a \<noteq> stake_account" "stake_owed S \<le> core_cap"
    and w: "amount net < 2 ^ 63" "amount cpu < 2 ^ 63"
    and run: "undelegatebw E a r net cpu S = Inr S'"
  shows "0 \<le> amount net" "0 \<le> amount cpu" "amount (asset_neg E net) = - amount net"
    "amount (asset_neg E cpu) = - amount cpu" "0 < amount net + amount cpu"
    "change_fits a (asset_neg E net) (asset_neg E cpu) S"
    "changebw E a r (asset_neg E net) (asset_neg E cpu) False S = Inr S'" "core_symbol S = Inr (symbol net)"
proof -
  have g: "core_symbol S = Inr (symbol net)" "0 \<le> amount cpu" "0 \<le> amount net" "0 < i64 (amount cpu + amount net)"
    and c: "changebw E a r (asset_neg E net) (asset_neg E cpu) False S = Inr S'"
    using run by (auto simp: undelegatebw_def new_asset_lib [OF E] le_asset_lib [OF E])
  have n: "asset_neg E net = \<lparr>amount = - amount net, symbol = symbol net\<rparr>"
    "asset_neg E cpu = \<lparr>amount = - amount cpu, symbol = symbol cpu\<rparr>"
    using g w by (auto intro!: neg_asset_lib [OF E] simp: is_i64_def)
  have "amount cpu + amount net \<noteq> 0" using g(4) by (auto simp: i64_def)
  then show p: "0 < amount net + amount cpu" using g by linarith
  show "0 \<le> amount net" "0 \<le> amount cpu" "core_symbol S = Inr (symbol net)" using g by simp_all
  show "amount (asset_neg E net) = - amount net" "amount (asset_neg E cpu) = - amount cpu" by (simp_all add: n)
  show "change_fits a (asset_neg E net) (asset_neg E cpu) S" using g X w p by (simp add: change_fits_def n)
  show "changebw E a r (asset_neg E net) (asset_neg E cpu) False S = Inr S'" by (rule c)
qed

lemma delegatebw_law:
  assumes E: "lib_ok E" and X: "stake_inv S" "a \<noteq> stake_account" "stake_owed S + amount net + amount cpu \<le> core_cap"
    and run: "delegatebw E a w net cpu transfer S = Inr S'"
  shows "stake_inv S'" "balanced stake_account stake_owed S S'"
proof -
  note C = delegatebw_change [OF E X run]
  have "stake_inv S' \<and> balanced stake_account stake_owed S S'"
    by (rule changebw_law [OF E X(1) C(1) _ C(3)]) (use C(2) in \<open>auto intro: balancedI\<close>)
  then show "stake_inv S'" "balanced stake_account stake_owed S S'" by simp_all
qed

lemma undelegatebw_law:
  assumes E: "lib_ok E" and X: "stake_inv S" "a \<noteq> stake_account" "stake_owed S \<le> core_cap"
    and w: "amount net < 2 ^ 63" "amount cpu < 2 ^ 63"
    and run: "undelegatebw E a r net cpu S = Inr S'"
  shows "stake_inv S'" "balanced stake_account stake_owed S S'"
proof -
  note C = undelegatebw_change [OF E X w run]
  have "stake_inv S' \<and> balanced stake_account stake_owed S S'"
    by (rule changebw_law [OF E X(1) C(6) _ C(7)]) (auto intro: balancedI)
  then show "stake_inv S'" "balanced stake_account stake_owed S S'" by simp_all
qed

lemma refund_row:
  assumes E: "lib_ok E" and X: "stake_inv S" "stake_owed S \<le> core_cap"
    and r: "fmlookup (refunds (rs S)) a = Some req"
  shows "add_asset E (net_amount req) (cpu_amount req) = Inr q \<longleftrightarrow>
    q = \<lparr>amount = rr_due req, symbol = symbol (net_amount req)\<rparr>" "0 \<le> rr_due req"
proof -
  have I: "rr_ok (refunds (rs S))" using X by (simp add: stake_inv_def)
  note D = rr_okD [OF I r]
  have c: "rr_due req \<le> core_cap" using stake_parts(1) [OF X(1)] stake_parts(4) [OF X(1) r] X(2) by (simp add: stake_owed_def)
  show z: "0 \<le> rr_due req" using D(3,4) by (simp add: rr_due_def)
  have i: "is_i64 (amount (net_amount req) + amount (cpu_amount req))" "in_range (rr_due req)"
    using c z by (auto simp: rr_due_def is_i64_def in_range_def core_cap_def asset_max_def)
  show "add_asset E (net_amount req) (cpu_amount req) = Inr q \<longleftrightarrow>
      q = \<lparr>amount = rr_due req, symbol = symbol (net_amount req)\<rparr>"
    using i(2) D(5) by (simp add: add_asset_lib [OF E i(1)] rr_due_def)
qed

definition refund_transfer :: "name \<Rightarrow> refund_request \<Rightarrow> effect" where
  "refund_transfer a req = Token_transfer [active_of stake_account, active_of a] stake_account a
     \<lparr>amount = rr_due req, symbol = symbol (net_amount req)\<rparr> ''unstake''"

lemma refund_Inr:
  assumes E: "lib_ok E" and X: "stake_inv S" "stake_owed S \<le> core_cap"
  shows "refund E a S = Inr S' \<longleftrightarrow> has_auth E a \<and> (\<exists>req. fmlookup (refunds (rs S)) a = Some req \<and>
    i64 (request_time req * 1000000 + refund_delay_sec * 1000000) \<le> now E \<and>
    S' = emit [refund_transfer a req] (S\<lparr>rs := (rs S)\<lparr>refunds := fmdrop a (refunds (rs S))\<rparr>\<rparr>))"
proof -
  have "rr_owner req = a" if "fmlookup (refunds (rs S)) a = Some req" for req
    using rr_okD(1) [OF _ that] X(1) by (simp add: stake_inv_def)
  then show ?thesis using refund_row(1) [OF E X] by (auto simp: refund_def refund_transfer_def)
qed

lemma refund_law:
  assumes E: "lib_ok E" and X: "stake_inv S" "stake_owed S \<le> core_cap" and run: "refund E a S = Inr S'"
  shows "stake_inv S'" "balanced stake_account stake_owed S S'"
proof -
  obtain req where r: "fmlookup (refunds (rs S)) a = Some req" and
    S': "S' = emit [refund_transfer a req] (S\<lparr>rs := (rs S)\<lparr>refunds := fmdrop a (refunds (rs S))\<rparr>\<rparr>)"
    using run by (auto simp: refund_Inr [OF E X])
  have "a \<noteq> stake_account" using rr_okD(2) [OF _ r] X(1) by (simp add: stake_inv_def)
  then show "balanced stake_account stake_owed S S'"
    using r by (intro balancedI [of _ _ "[refund_transfer a req]"])
      (simp_all add: S' refund_transfer_def stake_owed_def delegated_def refunding_def)
  show "stake_inv S'" using X(1) by (auto simp: S' stake_inv_def rr_ok_def)
qed

lemma take_delband_law:
  assumes X: "db_ok (delband R)" "tsum db_stake (delband R) \<le> core_cap" and g: "0 \<le> amount net" "0 \<le> amount cpu"
    and run: "take_delband a w net cpu R = Inr R'"
  shows "db_ok (delband R')" "tsum db_stake (delband R') = tsum db_stake (delband R) - amount net - amount cpu"
    "refunds R' = refunds R" "amount net + amount cpu \<le> core_cap"
proof -
  let ?t = "delband R" and ?k = "(a, w)"
  obtain d where d: "fmlookup ?t ?k = Some d" "amount net \<le> amount (db_net_weight d)" "amount cpu \<le> amount (db_cpu_weight d)" and
    R': "R' = (let dbw = d\<lparr>db_net_weight := inc_amt (- amount net) (db_net_weight d),
                   db_cpu_weight := inc_amt (- amount cpu) (db_cpu_weight d)\<rparr> in
      R\<lparr>delband := (if db_is_empty dbw then fmdrop ?k ?t else fmupd ?k dbw ?t)\<rparr>)"
    using run by (auto simp: take_delband_def Let_def)
  have "tval db_stake ?t ?k \<le> tsum db_stake ?t"
    by (rule tval_le_tsum) (use db_okD [OF X(1)] in \<open>simp add: db_stake_def\<close>)
  then have s: "db_stake d \<le> core_cap" using d(1) X(2) by simp
  note n = db_okD [OF X(1) d(1)]
  have i: "i64 (amount (db_net_weight d) - amount net) = amount (db_net_weight d) - amount net"
    "i64 (amount (db_cpu_weight d) - amount cpu) = amount (db_cpu_weight d) - amount cpu"
    using n s d g by (auto intro!: i64_small simp: db_stake_def core_cap_def)
  show "refunds R' = refunds R" "db_ok (delband R')"
    using X(1) d i unfolding R' Let_def by (auto simp: db_ok_def)
  show "tsum db_stake (delband R') = tsum db_stake ?t - amount net - amount cpu"
    using d i by (auto simp: R' Let_def db_is_empty_def db_stake_def)
  show "amount net + amount cpu \<le> core_cap" using s d by (simp add: db_stake_def)
qed

lemma unstaketorex_law:
  assumes E: "lib_ok E" and X: "stake_inv S" "stake_owed S \<le> core_cap"
    and run: "unstaketorex E a w net cpu S = Inr S'"
  shows "stake_inv S'" "balanced stake_account stake_owed S S'"
proof -
  obtain R S0 pay recv X2 S1 z q S2 where
    g: "0 \<le> amount net" "0 \<le> amount cpu" and
    db: "take_delband a w net cpu (rs S) = Inr R" and
    s0: "update_resource_limits E w (i64 (- amount net)) (i64 (- amount cpu)) (S\<lparr>rs := R\<rparr>) = Inr S0" and
    p: "add_asset E net cpu = Inr pay" and
    r: "runrex E 2 ((emit [Token_transfer [active_of stake_account] stake_account rex_account pay
           ''buy REX with staked tokens''] S0)\<lparr>rx := X2\<rparr>) = Inr S1" and
    u: "update_rex_account E a z z True S1 = Inr (q, S2)" and S': "S' = emit [Rex_buyresult recv] S2"
    using run by (auto simp: unstaketorex_def Let_def)
  let ?t = "Token_transfer [active_of stake_account] stake_account rex_account pay ''buy REX with staked tokens''"
  note P = stake_parts [OF X(1)]
  have I: "db_ok (delband (rs S))" "rr_ok (refunds (rs S))" using X by (simp_all add: stake_inv_def)
  have cap: "tsum db_stake (delband (rs S)) \<le> core_cap" using X(2) P by (simp add: stake_owed_def delegated_def)
  note D = take_delband_law [OF I(1) cap g db]
  have i: "is_i64 (amount net + amount cpu)" using D(4) g by (simp add: is_i64_def core_cap_def)
  have pay: "amount pay = amount net + amount cpu" using add_asset_Inr(1) [OF E i p] .
  have q0: "stake_quiet (S\<lparr>rs := R\<rparr>) S0" by (rule update_resource_limits_quiet [OF s0])
  have "stake_quiet (emit [?t] S0) S1" using runrex_quiet [OF r] by simp
  also have "stake_quiet S1 S2" by (rule update_rex_account_quiet [OF u])
  also have "stake_quiet S2 S'" unfolding S' by (rule stake_quiet_emit) simp
  finally have q1: "stake_quiet (emit [?t] S0) S'" .
  from q0 q1 obtain es fs where es: "effects S0 = effects S @ es" "moved stake_account es = 0"
    "effects S' = effects S0 @ [?t] @ fs" "moved stake_account fs = 0" and
    t: "delband (rs S') = delband R" "refunds (rs S') = refunds (rs S)"
    using D(3) by (auto simp: stake_quiet_def)
  show "stake_inv S'" using D(1) I(2) t by (simp add: stake_inv_def)
  show "balanced stake_account stake_owed S S'"
    using es D(2) t pay by (intro balancedI [of _ _ "es @ [?t] @ fs"])
      (simp_all add: stake_owed_def delegated_def refunding_def)
qed

section \<open>Staking as an escrow\<close>

datatype stake_action =
    Delegatebw name name asset asset bool
  | Undelegatebw name name asset asset
  | Refund name
  | Unstake_to_rex name name asset asset

fun stake_exec :: "env \<Rightarrow> stake_action \<Rightarrow> system_state \<Rightarrow> system_state res" where
  "stake_exec E (Delegatebw a w net cpu transfer) S = delegatebw E a w net cpu transfer S"
| "stake_exec E (Undelegatebw a w net cpu) S = undelegatebw E a w net cpu S"
| "stake_exec E (Refund a) S = refund E a S"
| "stake_exec E (Unstake_to_rex a w net cpu) S = unstaketorex E a w net cpu S"

text \<open>The stakes stay within the supply; the escrow account does not stake for itself.\<close>

fun stake_fits :: "stake_action \<Rightarrow> system_state \<Rightarrow> bool" where
  "stake_fits (Delegatebw a w net cpu transfer) S \<longleftrightarrow>
     a \<noteq> stake_account \<and> stake_owed S + amount net + amount cpu \<le> core_cap"
| "stake_fits (Undelegatebw a w net cpu) S \<longleftrightarrow>
     a \<noteq> stake_account \<and> stake_owed S \<le> core_cap \<and> amount net < 2 ^ 63 \<and> amount cpu < 2 ^ 63"
| "stake_fits _ S \<longleftrightarrow> stake_owed S \<le> core_cap"

lemma stake_exec_law:
  assumes "lib_ok E" "stake_inv S" "stake_fits x S" "stake_exec E x S = Inr S'"
  shows "stake_inv S'" "balanced stake_account stake_owed S S'"
  using assms
  by (cases x; auto dest: delegatebw_law undelegatebw_law refund_law unstaketorex_law)+

interpretation stake_escrow: funded_escrow stake_account stake_owed stake_inv stake_fits stake_exec
    "token_deliver E" "\<lambda>T. bal T c" "\<lambda>T. lib_ok E \<and> token_inv T" "in_currency c" for E c
  by unfold_locales (erule (3) stake_exec_law(1), rule balanced_covered, erule (3) stake_exec_law(2))

section \<open>Properties\<close>

text \<open>
  C29: The staking escrow stays solvent: if \<open>eosio.stake\<close> holds all tokens delegated and all refunds
  under way, then after any history of staking actions whose transfers the token contract has
  carried out it still does.
\<close>

theorem stake_stays_solvent:
  assumes "lib_ok E" and "token_inv T" and "stake_inv S" and "stake_owed S \<le> bal T c stake_account"
    and "history stake_exec stake_fits S S'" and "effects S' = effects S @ es" and "\<forall>e\<in>set es. in_currency c e"
    and "deliver_all (token_deliver E) es T = Inr T'"
  shows "stake_owed S' \<le> bal T' c stake_account"
  by (rule stake_escrow.stays_solvent [OF assms(3) _ assms(4-8)]) (use assms(1,2) in simp)

definition dave :: name where "dave = 0x49af280000000000"

lemma dave_accounts [simp]: "dave \<noteq> stake_account" "stake_account \<noteq> dave" "dave \<noteq> b1_account" "dave \<noteq> rex_account"
  by (simp_all add: dave_def account_defs)

definition staking_state :: system_state where
  "staking_state = demo_state\<lparr>vs := demo_voting\<lparr>
       voters := fmupd dave ((new_voter dave)\<lparr>staked := 500\<rparr>) fmempty,
       gstate := demo_gstate\<lparr>total_activated_stake := 2000000000000\<rparr>\<rparr>,
     rs := \<lparr>userres = fmupd dave \<lparr>ur_owner = dave, ur_net_weight = coins 300, ur_cpu_weight = coins 200, ram_bytes = 0\<rparr> fmempty,
       delband = fmupd (dave, dave) \<lparr>db_from = dave, db_to = dave, db_net_weight = coins 300, db_cpu_weight = coins 200\<rparr> fmempty,
       refunds = fmempty, limits = fmupd alice (1000, 0, 0) (fmupd dave (1000, 300, 200) fmempty)\<rparr>\<rparr>"

definition staking_bank :: token_state where
  "staking_bank =
     \<lparr>accounts = fmupd (stake_account, sym_code eos) \<lparr>balance = coins 500\<rparr>
        (fmupd (dave, sym_code eos) \<lparr>balance = coins 500\<rparr> fmempty),
      stats = fmupd (sym_code eos) \<lparr>supply = coins 1000, max_supply = coins 5000000, issuer = eosio_account\<rparr> fmempty,
      notified = []\<rparr>"

lemma staking_state_inv: "stake_inv staking_state" "stake_owed staking_state = 500" "effects staking_state = []"
  by (auto simp: staking_state_def stake_inv_def db_ok_def rr_ok_def stake_owed_def delegated_def refunding_def
      db_stake_def split: if_splits)

lemma staking_bank_inv: "token_inv staking_bank"
  by (auto simp: token_inv_def staking_bank_def stats_ok_def accounts_ok_def supply_ok_def circulating_def
      held_in_def code_of_def in_range_def asset_max_def split: if_splits)

theorem stake_stays_solvent_witness:
  "\<exists>S' T'. history stake_exec stake_fits staking_state S' \<and>
     deliver_all (token_deliver ref_env) (effects S') staking_bank = Inr T' \<and>
     stake_owed S' \<le> bal T' (sym_code eos) stake_account"
proof -
  let ?x = "Delegatebw dave dave (coins 40) (coins 0) False"
  let ?es = "[Cancel_deferred (uint dave),
    Token_transfer [active_of dave] dave stake_account (coins 40) ''stake bandwidth'']"
  have "case stake_exec ref_env ?x staking_state of Inr S' \<Rightarrow> effects S' = ?es | Inl _ \<Rightarrow> False"
    by code_simp
  then obtain S' where S': "stake_exec ref_env ?x staking_state = Inr S'" "effects S' = ?es"
    by (auto split: sum.splits)
  have h: "history stake_exec stake_fits staking_state S'"
    by (rule history_act [where exec = stake_exec, OF history_start ref_env_ok _ S'(1)])
      (simp add: staking_state_inv core_cap_def)
  have "case deliver_all (token_deliver ref_env) ?es staking_bank of Inr _ \<Rightarrow> True | Inl _ \<Rightarrow> False"
    by code_simp
  then obtain T' where T': "deliver_all (token_deliver ref_env) ?es staking_bank = Inr T'"
    by (auto split: sum.splits)
  have "stake_owed S' \<le> bal T' (sym_code eos) stake_account"
    by (rule stake_stays_solvent [OF ref_env_ok staking_bank_inv staking_state_inv(1) _ h _ _ T'])
      (use S' in \<open>simp_all add: staking_state_inv code_of_def bal_def staking_bank_def\<close>)
  then show ?thesis using h T' S' by auto
qed

text \<open>
  C31: Delegating takes from the account exactly what its refund does not cover: delegating to itself
  first takes back the refund under way, side by side for network and processor time, and pays the
  rest; delegating to somebody else is paid whole and leaves the refund as it is.
\<close>

theorem delegating_charges_the_rest:
  assumes "lib_ok E" and "stake_inv S" and "a \<noteq> stake_account" and "stake_owed S + amount net + amount cpu \<le> core_cap"
    and "delegatebw E a w net cpu transfer S = Inr S'"
  shows "delegated S' = delegated S + amount net + amount cpu \<and>
    (\<exists>es. effects S' = effects S @ es \<and> moved stake_account es =
      (if a = w then max 0 (amount net - net_due (refunds (rs S)) a) + max 0 (amount cpu - cpu_due (refunds (rs S)) a)
       else amount net + amount cpu)) \<and>
    net_due (refunds (rs S')) a = (if a = w then max 0 (net_due (refunds (rs S)) a - amount net) else net_due (refunds (rs S)) a) \<and>
    cpu_due (refunds (rs S')) a = (if a = w then max 0 (cpu_due (refunds (rs S)) a - amount cpu) else cpu_due (refunds (rs S)) a)"
proof -
  note C = delegatebw_change [OF assms]
  have t: "(\<not> transfer \<and> a = w) \<or> amount net + amount cpu < 0 \<longleftrightarrow> a = w" using C(2,4) by auto
  show ?thesis
    by (rule changebw_law [OF assms(1,2) C(1) _ C(3), unfolded t])
      (use C(2) in \<open>auto simp: refund_stepped_def split: if_splits\<close>)
qed

definition refunding_state :: system_state where
  "refunding_state = staking_state\<lparr>rs := (rs staking_state)\<lparr>refunds := fmupd dave
     \<lparr>rr_owner = dave, request_time = 1599900000, net_amount = coins 70, cpu_amount = coins 10\<rparr> fmempty\<rparr>\<rparr>"

lemma refunding_state_inv: "stake_inv refunding_state" "stake_owed refunding_state = 580" "effects refunding_state = []"
  using staking_state_inv by (auto simp: refunding_state_def stake_inv_def rr_ok_def stake_owed_def delegated_def
      refunding_def rr_due_def staking_state_def)

theorem delegating_charges_the_rest_witness:
  "\<exists>S'. delegatebw ref_env dave dave (coins 40) (coins 30) False refunding_state = Inr S' \<and>
     moved stake_account (effects S') = 20 \<and> net_due (refunds (rs S')) dave = 30"
proof -
  have "case delegatebw ref_env dave dave (coins 40) (coins 30) False refunding_state of Inr _ \<Rightarrow> True | Inl _ \<Rightarrow> False"
    by code_simp
  then obtain S' where r: "delegatebw ref_env dave dave (coins 40) (coins 30) False refunding_state = Inr S'"
    by (auto split: sum.splits)
  have d: "net_due (refunds (rs refunding_state)) dave = 70" "cpu_due (refunds (rs refunding_state)) dave = 10"
    by (simp_all add: refunding_state_def net_due_def cpu_due_def)
  show ?thesis
    using r delegating_charges_the_rest [OF ref_env_ok refunding_state_inv(1) _ _ r]
    by (auto simp: refunding_state_inv core_cap_def d)
qed

text \<open>
  C30: Tokens undelegated come back: undelegating moves no token and starts the three days of the
  refund anew; once they have passed, and as long as the request stands, the refund action of the
  owner succeeds, pays all that was requested, at least what was undelegated, and closes the request.
\<close>

theorem undelegated_tokens_return:
  assumes "lib_ok E" and "stake_inv S" and "a \<noteq> stake_account" and "stake_owed S \<le> core_cap"
    and "amount net < 2 ^ 63" and "amount cpu < 2 ^ 63"
    and "undelegatebw E a w net cpu S = Inr S'"
    and "lib_ok F" and "has_auth F a" and "stake_inv T" and "stake_owed T \<le> core_cap"
    and "fmlookup (refunds (rs T)) a = fmlookup (refunds (rs S')) a"
    and "(now_sec E + 259200) * 1000000 \<le> now F"
  shows "\<exists>T' q. refund F a T = Inr T' \<and> fmlookup (refunds (rs T')) a = None \<and>
    effects T' = effects T @ [Token_transfer [active_of stake_account, active_of a] stake_account a q ''unstake''] \<and>
    amount q = net_due (refunds (rs S)) a + cpu_due (refunds (rs S)) a + amount net + amount cpu"
proof -
  note C = undelegatebw_change [OF assms(1-7)]
  note D = dues(2,3) [of "refunds (rs S)" a]
  have I: "rr_ok (refunds (rs S))" "tsum rr_due (refunds (rs S)) \<le> core_cap"
    using assms(2,4) stake_parts(1) [OF assms(2)] by (simp_all add: stake_inv_def stake_owed_def refunding_def)
  have r: "\<exists>r. fmlookup (refunds (rs S')) a = Some r \<and> request_time r = now_sec E \<and>
      rr_due r = net_due (refunds (rs S)) a + cpu_due (refunds (rs S)) a + amount net + amount cpu"
    by (rule changebw_law [OF assms(1,2) C(6) _ C(7)])
      (use C D [OF I] in \<open>auto simp: refund_stepped_def rr_due_def net_due_def cpu_due_def\<close>)
  then obtain r where r: "fmlookup (refunds (rs T)) a = Some r" "request_time r = now_sec E"
    "rr_due r = net_due (refunds (rs S)) a + cpu_due (refunds (rs S)) a + amount net + amount cpu"
    using assms(12) by auto
  have "0 \<le> now_sec E" "now_sec E < 2 ^ 32" by (simp_all add: now_sec_def u32_def)
  then have "i64 (request_time r * 1000000 + refund_delay_sec * 1000000) = (now_sec E + 259200) * 1000000"
    by (subst i64_id) (simp_all add: r(2) is_i64_def refund_delay_sec_def seconds_per_day_def algebra_simps)
  then show ?thesis
    using r assms(9,13) by (auto simp: refund_Inr [OF assms(8,10,11)] refund_transfer_def)
qed

theorem undelegated_tokens_return_witness:
  "\<exists>S' T'. undelegatebw ref_env dave dave (coins 100) (coins 0) staking_state = Inr S' \<and>
     refund (ref_env\<lparr>now := 1600259200000000\<rparr>) dave S' = Inr T' \<and> fmlookup (refunds (rs T')) dave = None"
proof -
  have "case undelegatebw ref_env dave dave (coins 100) (coins 0) staking_state of
      Inr S' \<Rightarrow> moved stake_account (effects S') = 0 | Inl _ \<Rightarrow> False"
    by code_simp
  then obtain S' where r: "undelegatebw ref_env dave dave (coins 100) (coins 0) staking_state = Inr S'"
    "moved stake_account (effects S') = 0"
    by (auto split: sum.splits)
  have cap: "stake_owed staking_state \<le> core_cap" by (simp add: staking_state_inv core_cap_def)
  note L = undelegatebw_law [OF ref_env_ok staking_state_inv(1) dave_accounts(1) cap _ _ r(1)]
  have S': "stake_inv S'" "stake_owed S' \<le> core_cap"
    using L r(2) by (auto simp: balanced_def staking_state_inv core_cap_def)
  let ?F = "ref_env\<lparr>now := 1600259200000000\<rparr>"
  have F: "lib_ok ?F" "has_auth ?F dave" "(now_sec ref_env + 259200) * 1000000 \<le> now ?F"
    by (simp_all add: lib_ok_def ref_env_def now_sec_def u32_def)
  have "\<exists>T'. refund ?F dave S' = Inr T' \<and> fmlookup (refunds (rs T')) dave = None"
    using undelegated_tokens_return [OF ref_env_ok staking_state_inv(1) dave_accounts(1) cap _ _ r(1) F(1,2) S' refl F(3)]
    by auto
  then show ?thesis using r(1) by blast
qed

text \<open>
  C32: Delegating to another account while a refund is under way leaves the refund due but drops the
  transaction that would have paid it: the only other effect is the transfer of the stake. With the
  transfer flag the transaction that is dropped is the receiver's, who has no part in the action.
\<close>

theorem delegating_elsewhere_unschedules_refund:
  assumes "lib_ok E" and "stake_inv S" and "a \<noteq> stake_account" and "stake_owed S + amount net + amount cpu \<le> core_cap"
    and "a \<noteq> w" and "delegatebw E a w net cpu transfer S = Inr S'"
  shows "refunds (rs S') = refunds (rs S) \<and> effects S' = effects S @ [Cancel_deferred (uint (if transfer then w else a)),
    Token_transfer [active_of a] a stake_account \<lparr>amount = amount net + amount cpu, symbol = symbol net\<rparr> ''stake bandwidth'']"
proof -
  note C = delegatebw_change [OF assms(1-4,6)]
  have lo: "0 \<le> amount net" "0 \<le> amount cpu" "amount net + amount cpu \<le> core_cap"
    using C(1,2) stake_parts(1,2) [OF assms(2)] assms(4) by (auto simp: change_fits_def stake_owed_def)
  then have i: "is_i64 (amount net + amount cpu)" by (simp add: is_i64_def core_cap_def)
  have n: "\<not> ((\<not> transfer \<and> (if transfer then w else a) = w) \<or> i64 (amount net + amount cpu) < 0)"
    using assms(5) lo by (simp add: i64_id [OF i])
  show ?thesis
  proof (rule changebw_parts [OF C(3) assms(3)])
    fix R1 R2 nt cp need T es S1
    assume db: "change_delband E (if transfer then w else a) w net cpu (rs S) = Inr R1"
      and ct: "change_totals E w net cpu (vs S) R1 = Inr R2"
      and rf: "change_refund E (core_symbol S) (if transfer then w else a)
        (\<not> transfer \<and> (if transfer then w else a) = w) net cpu (refunds R2) = Inr (nt, cp, need, T)"
      and st: "settle_stake E a (if transfer then w else a) nt cp need = Inr es"
      and S1: "S1 = emit es (S\<lparr>rs := R2\<lparr>refunds := T\<rparr>\<rparr>)" and q: "stake_quiet S1 S'" "effects S' = effects S1"
    have "refunds R1 = refunds (rs S)" using db by (auto simp: change_delband_def)
    moreover note change_totals_frame(2) [OF ct] change_refund_untouched [OF n rf] add_asset_lib [OF assms(1) i]
    ultimately show ?thesis using st q S1 C(2) by (auto simp: settle_stake_def stake_quiet_def)
  qed
qed

theorem delegating_elsewhere_unschedules_refund_witness:
  "\<exists>S'. delegatebw ref_env alice dave (coins 40) (coins 30) True refunding_state = Inr S' \<and>
     net_due (refunds (rs S')) dave = 70 \<and> hd (effects S') = Cancel_deferred (uint dave) \<and> length (effects S') = 2"
proof -
  have "case delegatebw ref_env alice dave (coins 40) (coins 30) True refunding_state of Inr _ \<Rightarrow> True | Inl _ \<Rightarrow> False"
    by code_simp
  then obtain S' where r: "delegatebw ref_env alice dave (coins 40) (coins 30) True refunding_state = Inr S'"
    by (auto split: sum.splits)
  have d: "net_due (refunds (rs refunding_state)) dave = 70" "alice \<noteq> dave" "alice \<noteq> stake_account"
    by (simp_all add: refunding_state_def net_due_def dave_def alice_def stake_account_def)
  show ?thesis
    using r delegating_elsewhere_unschedules_refund [OF ref_env_ok refunding_state_inv(1) d(3) _ d(2) r]
    by (simp add: refunding_state_inv core_cap_def d(1))
qed

end
