(* ===== verification/Voting_Laws.thy ===== *)
theory Voting_Laws
  imports Delegate Demo
begin

text \<open>
  Voting: who votes through whom. Proxies form a forest in every state that the operations on
  voters can reach, so that the propagation of weights along them ends and the depth it is given
  is enough; a vote is recorded as cast; what a vote adds and takes from producers; the schedule.
\<close>

section \<open>Links between voters\<close>

definition proxy_of :: "voting_state \<Rightarrow> name \<Rightarrow> name" where
  "proxy_of V a = (case fmlookup (voters V) a of None \<Rightarrow> 0 | Some v \<Rightarrow> proxy v)"

definition proxying :: "voting_state \<Rightarrow> name \<Rightarrow> bool" where
  "proxying V a = (case fmlookup (voters V) a of None \<Rightarrow> False | Some v \<Rightarrow> is_proxy v)"

definition chosen :: "voting_state \<Rightarrow> name \<Rightarrow> name list" where
  "chosen V a = (case fmlookup (voters V) a of None \<Rightarrow> [] | Some v \<Rightarrow> v_producers v)"

definition proxy_edges :: "voting_state \<Rightarrow> (name \<times> name) set" where
  "proxy_edges V = {(a, b). proxy_of V a = b \<and> b \<noteq> 0}"

definition proxy_forest :: "voting_state \<Rightarrow> bool" where
  "proxy_forest V \<longleftrightarrow> acyclic (proxy_edges V) \<and> (\<forall>a. proxying V a \<longrightarrow> proxy_of V a = 0) \<and>
     (\<forall>a. proxy_of V a \<noteq> 0 \<longrightarrow> fmlookup (voters V) (proxy_of V a) \<noteq> None)"

definition links_kept :: "voting_state \<Rightarrow> voting_state \<Rightarrow> bool" where
  "links_kept V V' \<longleftrightarrow> proxy_of V' = proxy_of V \<and> proxying V' = proxying V \<and> chosen V' = chosen V \<and>
     (\<forall>a. fmlookup (voters V) a \<noteq> None \<longrightarrow> fmlookup (voters V') a \<noteq> None)"

named_theorems links "operations that keep the links between voters"

lemma links_kept_refl [simp]: "links_kept V V"
  by (simp add: links_kept_def)

lemma links_kept_trans [trans]: "links_kept V V1 \<Longrightarrow> links_kept V1 V2 \<Longrightarrow> links_kept V V2"
  by (simp add: links_kept_def)

lemma links_kept_same: "voters V' = voters V \<Longrightarrow> links_kept V V'"
  by (simp add: links_kept_def proxy_of_def proxying_def chosen_def fun_eq_iff)

lemma links_kept_from: "voters V1 = voters V \<Longrightarrow> links_kept V1 V2 \<Longrightarrow> links_kept V V2"
  using links_kept_same links_kept_trans by blast

lemma links_kept_row:
  assumes "case fmlookup (voters V) a of None \<Rightarrow> proxy v = 0 \<and> \<not> is_proxy v \<and> v_producers v = []
      | Some u \<Rightarrow> proxy v = proxy u \<and> is_proxy v = is_proxy u \<and> v_producers v = v_producers u"
  shows "links_kept V (V\<lparr>voters := fmupd a v (voters V)\<rparr>)"
  using assms by (auto simp: links_kept_def proxy_of_def proxying_def chosen_def fun_eq_iff split: option.splits)

lemma links_kept_forest: "links_kept V V' \<Longrightarrow> proxy_forest V \<Longrightarrow> proxy_forest V'"
  by (simp add: links_kept_def proxy_forest_def proxy_edges_def)

section \<open>Frames\<close>

lemma update_total_votepay_share_voters [simp]:
  "voters (fst (update_total_votepay_share ct d r V)) = voters V"
  by (simp add: update_total_votepay_share_def Let_def)

lemma update_producer_votepay_share_voters [simp]:
  "voters (fst (update_producer_votepay_share p ct r z V)) = voters V"
  by (simp add: update_producer_votepay_share_def Let_def)

lemma account_share_change_voters [simp]:
  "voters (fst (account_share_change ct a lc tv d acc)) = voters (fst acc)"
  by (simp add: account_share_change_def Let_def case_prod_beta split: option.split)

lemma add_to_producers_voters: "add_to_producers ct d ps acc = Inr acc' \<Longrightarrow> voters (fst acc') = voters (fst acc)"
proof (induction ct d ps acc rule: add_to_producers.induct)
  case (2 ct delta acnt rest V dcr inactive)
  then obtain prow where "fmlookup (producers V) acnt = Some prow"
    "add_to_producers ct delta rest
       (account_share_change ct acnt (last_claim_time prow) (total_votes prow) delta
        (V\<lparr>producers := fmupd acnt (prow\<lparr>total_votes := dadd (total_votes prow) delta\<rparr>) (producers V),
               gstate := (gstate V)\<lparr>total_producer_vote_weight :=
                 dadd (total_producer_vote_weight (gstate V)) delta\<rparr>\<rparr>, dcr, inactive)) = Inr acc'"
    by auto
  with 2(1) show ?case by simp
qed simp

lemma apply_deltas_voters: "apply_deltas E voting ds acc = Inr acc' \<Longrightarrow> voters (fst acc') = voters (fst acc)"
proof (induction E voting ds acc rule: apply_deltas.induct)
  case (2 E voting pname delta new rest V dcr inactive)
  show ?case
  proof (cases "fmlookup (producers V) pname")
    case None
    with 2 show ?thesis by auto
  next
    case (Some p)
    with 2(3) have "apply_deltas E voting rest (account_share_change (now E) pname (last_claim_time p) (total_votes p) delta
      (V\<lparr>producers := fmupd pname (p\<lparr>total_votes := (if dadd (total_votes p) delta < 0 then 0 else dadd (total_votes p) delta)\<rparr>)
           (producers V),
         gstate := (gstate V)\<lparr>total_producer_vote_weight := dadd (total_producer_vote_weight (gstate V)) delta\<rparr>\<rparr>,
       dcr, inactive)) = Inr acc'" "\<not> (voting \<and> \<not> is_active p \<and> new)"
      by (auto simp: Let_def)
    from 2(2) [OF Some _ refl refl this(1)] this(2) show ?thesis by simp
  qed
qed simp

lemma modify_voter_links:
  assumes "modify_voter a f V = Inr V'" "\<And>v. proxy (f v) = proxy v \<and> is_proxy (f v) = is_proxy v \<and> v_producers (f v) = v_producers v"
  shows "links_kept V V'"
proof -
  obtain v where "fmlookup (voters V) a = Some v" "V' = V\<lparr>voters := fmupd a (f v) (voters V)\<rparr>"
    using assms(1) by (auto simp: modify_voter_def)
  then show ?thesis using assms(2) by (auto intro: links_kept_row)
qed

text \<open>One level of the propagation.\<close>

lemma propagate_step:
  assumes "propagate_weight_change E (Suc d) a V = Inr V'"
  obtains v w V1 where "fmlookup (voters V) a = Some v" "proxy v = 0 \<or> \<not> is_proxy v"
    "modify_voter a (\<lambda>v. v\<lparr>last_vote_weight := w\<rparr>) V1 = Inr V'"
    "voters V1 = voters V \<or> (\<exists>p delta. proxy v \<noteq> 0 \<and> fmlookup (voters V) (proxy v) = Some p \<and>
       propagate_weight_change E d (proxy v)
         (V\<lparr>voters := fmupd (proxy v) (p\<lparr>proxied_vote_weight := dadd (proxied_vote_weight p) delta\<rparr>) (voters V)\<rparr>) = Inr V1)"
proof -
  obtain v where v: "fmlookup (voters V) a = Some v" "proxy v = 0 \<or> \<not> is_proxy v"
    using assms by auto
  define w where "w = (if is_proxy v then dadd (stake2vote E (staked v)) (proxied_vote_weight v) else stake2vote E (staked v))"
  let ?delta = "dsub w (last_vote_weight v)"
  obtain V1 where V1: "(if 1 < \<bar>?delta\<bar> then
          if proxy v \<noteq> 0 then
            bindE (some_or (Check ''proxy not found'') (fmlookup (voters V) (proxy v))) (\<lambda>p.
            let p = p\<lparr>proxied_vote_weight := dadd (proxied_vote_weight p) ?delta\<rparr> in
            propagate_weight_change E d (proxy v) (V\<lparr>voters := fmupd (proxy v) p (voters V)\<rparr>))
          else
            bindE (add_to_producers (now E) ?delta (v_producers v) (V, 0, 0))
              (\<lambda>(V, delta_change_rate, total_inactive_vpay_share).
            Inr (fst (update_total_votepay_share (now E) (- total_inactive_vpay_share) delta_change_rate V)))
        else Inr V) = Inr V1"
    and m: "modify_voter a (\<lambda>v. v\<lparr>last_vote_weight := w\<rparr>) V1 = Inr V'"
    using assms v by (auto simp: w_def Let_def cong: if_cong)
  have "voters V1 = voters V \<or> (\<exists>p delta. proxy v \<noteq> 0 \<and> fmlookup (voters V) (proxy v) = Some p \<and>
       propagate_weight_change E d (proxy v)
         (V\<lparr>voters := fmupd (proxy v) (p\<lparr>proxied_vote_weight := dadd (proxied_vote_weight p) delta\<rparr>) (voters V)\<rparr>) = Inr V1)"
    using V1 by (auto simp: Let_def split: if_splits dest: add_to_producers_voters)
  with that [OF v m] show thesis .
qed

lemma propagate_links: "propagate_weight_change E d a V = Inr V' \<Longrightarrow> links_kept V V'"
proof (induction d arbitrary: a V V')
  case (Suc d)
  from Suc.prems show ?case
  proof (rule propagate_step)
    fix v :: voter_info and w V1
    assume m: "modify_voter a (\<lambda>v. v\<lparr>last_vote_weight := w\<rparr>) V1 = Inr V'"
      and c: "voters V1 = voters V \<or> (\<exists>p delta. proxy v \<noteq> 0 \<and> fmlookup (voters V) (proxy v) = Some p \<and>
       propagate_weight_change E d (proxy v)
         (V\<lparr>voters := fmupd (proxy v) (p\<lparr>proxied_vote_weight := dadd (proxied_vote_weight p) delta\<rparr>) (voters V)\<rparr>) = Inr V1)"
    have "links_kept V V1" using c
    proof (elim disjE exE conjE)
      fix p delta
      let ?V = "V\<lparr>voters := fmupd (proxy v) (p\<lparr>proxied_vote_weight := dadd (proxied_vote_weight p) delta\<rparr>) (voters V)\<rparr>"
      assume "fmlookup (voters V) (proxy v) = Some p" and r: "propagate_weight_change E d (proxy v) ?V = Inr V1"
      then have "links_kept V ?V" by (intro links_kept_row) simp
      from this Suc.IH [OF r] show ?thesis by (rule links_kept_trans)
    qed (rule links_kept_same)
    also have "links_kept V1 V'" by (rule modify_voter_links [OF m]) simp
    finally show ?thesis .
  qed
qed simp
section \<open>Votes and links\<close>

lemma put_voter_links:
  assumes "links_kept (V\<lparr>voters := fmupd b q (voters V)\<rparr>) V'" "fmlookup (voters V) b = Some p"
    "proxy q = proxy p" "is_proxy q = is_proxy p" "v_producers q = v_producers p"
  shows "links_kept V V'"
proof -
  have "links_kept V (V\<lparr>voters := fmupd b q (voters V)\<rparr>)" using assms(2-5) by (intro links_kept_row) simp
  then show ?thesis using assms(1) by (rule links_kept_trans)
qed

lemma withdraw_links: "withdraw_old_votes E v V = Inr (V', D) \<Longrightarrow> links_kept V V'"
  by (auto simp: withdraw_old_votes_def propagate_def Let_def split: if_splits
      intro: put_voter_links [OF propagate_links])

lemma cast_links: "cast_new_votes E p ps vt w (V, D) = Inr (V', D') \<Longrightarrow> links_kept V V'"
  by (auto simp: cast_new_votes_def propagate_def Let_def split: if_splits
      intro: put_voter_links [OF propagate_links])

lemma cast_proxy:
  "cast_new_votes E p ps vt w (V, D) = Inr r \<Longrightarrow> p \<noteq> 0 \<Longrightarrow>
    \<exists>np. fmlookup (voters V) p = Some np \<and> (vt \<longrightarrow> is_proxy np)"
  by (auto simp: cast_new_votes_def)

lemma activate_stake_voters [simp]: "voters (activate_stake E v V) = voters V"
  by (simp add: activate_stake_def Let_def)

lemma update_votes_parts:
  assumes "update_votes E a p ps vt V = Inr V'"
  obtains v V1 D1 V2 D2 V3 dcr inactive w where
    "validate_votes a p ps = Inr ()" "fmlookup (voters V) a = Some v" "p = 0 \<or> \<not> is_proxy v"
    "withdraw_old_votes E v (activate_stake E v V) = Inr (V1, D1)" "cast_new_votes E p ps vt w (V1, D1) = Inr (V2, D2)"
    "apply_deltas E vt (sorted_list_of_fmap D2) (V2, 0, 0) = Inr (V3, dcr, inactive)"
    "modify_voter a (\<lambda>av. av\<lparr>last_vote_weight := w, v_producers := ps, proxy := p\<rparr>)
       (fst (update_total_votepay_share (now E) (- inactive) dcr V3)) = Inr V'"
    "w = (if is_proxy v then dadd (stake2vote E (staked v)) (proxied_vote_weight v) else stake2vote E (staked v))"
  using assms unfolding update_votes_def Let_def bindE_eq_Inr check_eq_Inr some_or_eq_Inr
  by (clarsimp simp: case_prod_beta)

text \<open>A vote sets the proxy of the voter and keeps all other links.\<close>

lemma update_votes_links:
  assumes "update_votes E a p ps vt V = Inr V'"
  shows "proxy_of V' = (proxy_of V)(a := p)" "proxying V' = proxying V" "fmlookup (voters V) a \<noteq> None"
    "\<And>b. fmlookup (voters V) b \<noteq> None \<Longrightarrow> fmlookup (voters V') b \<noteq> None" "p \<noteq> 0 \<Longrightarrow> \<not> proxying V a"
    "p \<noteq> 0 \<Longrightarrow> a \<noteq> p" "p \<noteq> 0 \<Longrightarrow> fmlookup (voters V') p \<noteq> None" "p \<noteq> 0 \<Longrightarrow> vt \<Longrightarrow> proxying V p"
    "\<exists>v. fmlookup (voters V') a = Some v \<and> v_producers v = ps \<and> proxy v = p" "chosen V' = (chosen V)(a := ps)"
  using assms
proof (rule_tac [!] update_votes_parts [OF assms])
  fix v V1 D1 V2 D2 V3 and dcr inactive w :: double
  assume val: "validate_votes a p ps = Inr ()" and v: "fmlookup (voters V) a = Some v" "p = 0 \<or> \<not> is_proxy v"
    and W: "withdraw_old_votes E v (activate_stake E v V) = Inr (V1, D1)" and C: "cast_new_votes E p ps vt w (V1, D1) = Inr (V2, D2)"
    and A: "apply_deltas E vt (sorted_list_of_fmap D2) (V2, 0, 0) = Inr (V3, dcr, inactive)"
    and M: "modify_voter a (\<lambda>av. av\<lparr>last_vote_weight := w, v_producers := ps, proxy := p\<rparr>)
       (fst (update_total_votepay_share (now E) (- inactive) dcr V3)) = Inr V'"
  let ?f = "\<lambda>av. av\<lparr>last_vote_weight := w, v_producers := ps, proxy := p\<rparr>"
  have k1: "links_kept V V1" using withdraw_links [OF W] by (rule links_kept_from [rotated]) simp
  then have k2: "links_kept V V2" using cast_links [OF C] by (rule links_kept_trans)
  have "voters V3 = voters V2" using apply_deltas_voters [OF A] by simp
  then have k3: "links_kept V V3" using k2 links_kept_same links_kept_trans by blast
  obtain u where u: "fmlookup (voters V3) a = Some u" "voters V' = fmupd a (?f u) (voters V3)"
    using M by (auto simp: modify_voter_def)
  show "proxy_of V' = (proxy_of V)(a := p)"
    using k3 u by (auto simp: links_kept_def proxy_of_def fun_eq_iff)
  show "chosen V' = (chosen V)(a := ps)"
    using k3 u by (auto simp: links_kept_def chosen_def fun_eq_iff)
  have "proxying V' b = proxying V3 b" for b using u by (cases "b = a") (simp_all add: proxying_def)
  then show "proxying V' = proxying V" using k3 by (auto simp: links_kept_def)
  show "fmlookup (voters V) a \<noteq> None" using v by simp
  show "fmlookup (voters V') b \<noteq> None" if "fmlookup (voters V) b \<noteq> None" for b
    using that k3 u by (simp add: links_kept_def)
  show "\<not> proxying V a" if "p \<noteq> 0" using that v by (simp add: proxying_def)
  show "a \<noteq> p" if "p \<noteq> 0" using that val by (simp add: validate_votes_def)
  show "fmlookup (voters V') p \<noteq> None" if "p \<noteq> 0"
  proof -
    have "fmlookup (voters V1) p \<noteq> None" using cast_proxy [OF C that] by blast
    then have "fmlookup (voters V2) p \<noteq> None" using cast_links [OF C] by (simp add: links_kept_def)
    then show ?thesis using u \<open>voters V3 = voters V2\<close> by simp
  qed
  show "proxying V p" if p: "p \<noteq> 0" and vt: "vt"
  proof -
    obtain np where "fmlookup (voters V1) p = Some np" "is_proxy np"
      using cast_proxy [OF C p] vt by blast
    then have "proxying V1 p" by (simp add: proxying_def)
    then show ?thesis using k1 by (simp add: links_kept_def)
  qed
  show "\<exists>v. fmlookup (voters V') a = Some v \<and> v_producers v = ps \<and> proxy v = p" using u by simp
qed

text \<open>Staking votes again as before, so it keeps the links.\<close>

lemma update_voting_power_links:
  assumes "update_voting_power E a q V = Inr V'"
  shows "links_kept V V'"
proof -
  define v where "v = (case fmlookup (voters V) a of None \<Rightarrow> (new_voter a)\<lparr>staked := amount q\<rparr>
    | Some v \<Rightarrow> v\<lparr>staked := i64 (staked v + amount q)\<rparr>)"
  let ?V = "V\<lparr>voters := fmupd a v (voters V)\<rparr>"
  have k: "links_kept V ?V"
    by (rule links_kept_row) (simp add: v_def new_voter_def split: option.split)
  have r: "(if v_producers v \<noteq> [] \<or> proxy v \<noteq> 0 then update_votes E a (proxy v) (v_producers v) False ?V else Inr ?V) = Inr V'"
    using assms unfolding update_voting_power_def v_def [symmetric] Let_def bindE_eq_Inr by blast
  show ?thesis
  proof (cases "v_producers v \<noteq> [] \<or> proxy v \<noteq> 0")
    case True
    then have u: "update_votes E a (proxy v) (v_producers v) False ?V = Inr V'" using r by simp
    have "(proxy_of ?V)(a := proxy v) = proxy_of ?V" "(chosen ?V)(a := v_producers v) = chosen ?V"
      by (simp_all add: proxy_of_def chosen_def fun_eq_iff)
    then have "links_kept ?V V'" using update_votes_links(1,2,4,10) [OF u] by (simp add: links_kept_def)
    with k show ?thesis by (rule links_kept_trans)
  qed (use k r in simp)
qed

lemma regproxy_links:
  assumes "regproxy E p flag V = Inr V'"
  shows "proxy_of V' = proxy_of V" "proxying V' = (proxying V)(p := flag)" "flag \<Longrightarrow> proxy_of V p = 0"
    "\<And>b. fmlookup (voters V) b \<noteq> None \<Longrightarrow> fmlookup (voters V') b \<noteq> None" "chosen V' = chosen V"
proof -
  define v where "v = (case fmlookup (voters V) p of None \<Rightarrow> new_voter p | Some v \<Rightarrow> v)"
  let ?V = "V\<lparr>voters := fmupd p (v\<lparr>is_proxy := flag\<rparr>) (voters V)\<rparr>"
  have "links_kept ?V V'" and f: "flag \<longrightarrow> proxy_of V p = 0"
    using assms by (auto simp: regproxy_def v_def propagate_def proxy_of_def split: option.splits dest: propagate_links)
  moreover have "proxy_of ?V = proxy_of V" "proxying ?V = (proxying V)(p := flag)" "chosen ?V = chosen V"
    by (auto simp: proxy_of_def proxying_def chosen_def v_def new_voter_def fun_eq_iff split: option.split)
  ultimately show "proxy_of V' = proxy_of V" "proxying V' = (proxying V)(p := flag)" "flag \<Longrightarrow> proxy_of V p = 0"
    "\<And>b. fmlookup (voters V) b \<noteq> None \<Longrightarrow> fmlookup (voters V') b \<noteq> None" "chosen V' = chosen V"
    by (simp_all add: links_kept_def)
qed

section \<open>Proxies form a forest\<close>

lemma regproxy_forest:
  assumes "regproxy E p flag V = Inr V'" "proxy_forest V"
  shows "proxy_forest V'"
  using regproxy_links [OF assms(1)] assms(2) by (auto simp: proxy_forest_def proxy_edges_def)

lemma update_votes_forest:
  assumes r: "update_votes E a p ps True V = Inr V'" and F: "proxy_forest V"
  shows "proxy_forest V'"
proof -
  note L = update_votes_links [OF r]
  let ?R = "proxy_edges V - {a} \<times> UNIV"
  have ac: "acyclic ?R" using F by (auto simp: proxy_forest_def intro: acyclic_subset)
  have "acyclic (proxy_edges V')"
  proof (cases "p = 0")
    case True
    then have "proxy_edges V' = ?R" using L(1) by (auto simp: proxy_edges_def split: if_splits)
    then show ?thesis using ac by simp
  next
    case False
    have E: "proxy_edges V' = insert (a, p) ?R"
      using False L(1) by (auto simp: proxy_edges_def split: if_splits)
    have "proxy_of V p = 0" using F L(8) [OF False TrueI] by (simp add: proxy_forest_def)
    then have "(p, x) \<notin> ?R" for x by (auto simp: proxy_edges_def)
    then have "(p, a) \<notin> ?R\<^sup>*" using L(6) [OF False] by (auto elim: converse_rtranclE)
    then show ?thesis unfolding E using ac by simp
  qed
  moreover have "proxying V' b \<longrightarrow> proxy_of V' b = 0" for b
    using F L(1,2,5) by (cases "b = a") (auto simp: proxy_forest_def)
  moreover have "proxy_of V' b \<noteq> 0 \<longrightarrow> fmlookup (voters V') (proxy_of V' b) \<noteq> None" for b
    using F L(1,4,7) by (cases "b = a") (auto simp: proxy_forest_def)
  ultimately show ?thesis by (simp add: proxy_forest_def)
qed

section \<open>The propagation of weights ends\<close>

definition out_of_depth :: "'a res \<Rightarrow> bool" where
  "out_of_depth r \<longleftrightarrow> r = Inl (Trap ''call depth exceeded'')"

lemma out_of_depth_simps [simp]:
  "\<not> out_of_depth (Inr x)" "out_of_depth (bindE m f) \<longleftrightarrow> out_of_depth m \<or> (\<exists>x. m = Inr x \<and> out_of_depth (f x))"
  "\<not> out_of_depth (check c msg)" "\<not> out_of_depth (some_or (Check msg) z)"
  "\<not> out_of_depth (some_or (Trap ''voter row missing'') z)"
  "\<not> out_of_depth (modify_voter a g V)"
  by (auto simp: out_of_depth_def bindE_eq_Inl some_or_def check_def modify_voter_def split: option.splits)

lemma add_to_producers_depth [simp]: "\<not> out_of_depth (add_to_producers ct x ps acc)"
  by (induction ct x ps acc rule: add_to_producers.induct) (simp_all add: Let_def)

text \<open>The voters that the proxies of an account lead to.\<close>

definition led_to :: "voting_state \<Rightarrow> name \<Rightarrow> name set" where
  "led_to V a = {b. (a, b) \<in> (proxy_edges V)\<^sup>+ \<and> fmlookup (voters V) b \<noteq> None}"

lemma led_to_finite: "finite (led_to V a)" "card (led_to V a) \<le> fcard (fmdom (voters V))"
proof -
  have s: "led_to V a \<subseteq> fset (fmdom (voters V))" by (auto simp: led_to_def fmlookup_dom_iff)
  then show "finite (led_to V a)" by (rule finite_subset) simp
  show "card (led_to V a) \<le> fcard (fmdom (voters V))"
    unfolding fcard.rep_eq by (rule card_mono [OF _ s]) simp
qed

lemma led_to_proxy:
  assumes "acyclic (proxy_edges V)" "fmlookup (voters V) a = Some v" "proxy v \<noteq> 0" "fmlookup (voters V) (proxy v) \<noteq> None"
  shows "card (led_to V (proxy v)) < card (led_to V a)"
proof (rule psubset_card_mono [OF led_to_finite(1)])
  have e: "(a, proxy v) \<in> proxy_edges V" using assms(2,3) by (simp add: proxy_edges_def proxy_of_def)
  then have "led_to V (proxy v) \<subseteq> led_to V a" by (auto simp: led_to_def intro: trancl_into_trancl2)
  moreover have "proxy v \<in> led_to V a" using e assms(4) by (auto simp: led_to_def)
  moreover have "proxy v \<notin> led_to V (proxy v)" using assms(1) by (auto simp: led_to_def acyclic_def)
  ultimately show "led_to V (proxy v) \<subset> led_to V a" by blast
qed

lemma led_to_links:
  assumes "links_kept V V'" "\<And>a. fmlookup (voters V') a \<noteq> None \<Longrightarrow> fmlookup (voters V) a \<noteq> None"
  shows "led_to V' a = led_to V a"
  using assms by (auto simp: led_to_def links_kept_def proxy_edges_def)

text \<open>Any depth beyond the number of voters that can be reached gives the same result.\<close>

lemma propagate_depth:
  assumes "acyclic (proxy_edges V)" "card (led_to V a) < d" "d \<le> e"
  shows "propagate_weight_change E e a V = propagate_weight_change E d a V"
  using assms
proof (induction d arbitrary: e a V)
  case (Suc d)
  from Suc.prems(3) obtain e' where e: "e = Suc e'" "d \<le> e'" by (cases e) simp_all
  have step: "propagate_weight_change E e' (proxy v) (V\<lparr>voters := fmupd (proxy v) q (voters V)\<rparr>) =
      propagate_weight_change E d (proxy v) (V\<lparr>voters := fmupd (proxy v) q (voters V)\<rparr>)"
    if v: "fmlookup (voters V) a = Some v" "proxy v \<noteq> 0" "fmlookup (voters V) (proxy v) = Some p"
      "proxy q = proxy p" "is_proxy q = is_proxy p" "v_producers q = v_producers p" for v p q
  proof -
    let ?V = "V\<lparr>voters := fmupd (proxy v) q (voters V)\<rparr>"
    have k: "links_kept V ?V" by (rule put_voter_links [OF links_kept_refl v(3-6)])
    have l: "led_to ?V (proxy v) = led_to V (proxy v)"
      by (rule led_to_links [OF k]) (use v(3) in \<open>auto split: if_splits\<close>)
    have "card (led_to ?V (proxy v)) < d"
      using led_to_proxy [OF Suc.prems(1) v(1,2)] v(3) Suc.prems(2) unfolding l by simp
    moreover have "acyclic (proxy_edges ?V)" using k Suc.prems(1) by (simp add: links_kept_def proxy_edges_def)
    ultimately show ?thesis using Suc.IH e(2) by blast
  qed
  show ?case
  proof (cases "fmlookup (voters V) a")
    case (Some v)
    show ?thesis
    proof (cases "proxy v \<noteq> 0")
      case True
      show ?thesis
      proof (cases "fmlookup (voters V) (proxy v)")
        case None
        then show ?thesis unfolding e(1) by (simp add: Some Let_def True)
      next
        case p: (Some p)
        note s = step [OF Some True p]
        show ?thesis unfolding e(1) by (simp add: Some Let_def True p s)
      qed
    next
      case False
      then show ?thesis unfolding e(1) by (simp add: Some Let_def)
    qed
  qed (simp add: e(1))
qed simp

lemma propagate_not_out:
  assumes "acyclic (proxy_edges V)" "card (led_to V a) < d"
  shows "\<not> out_of_depth (propagate_weight_change E d a V)"
  using assms
proof (induction d arbitrary: a V)
  case (Suc d)
  have step: "\<not> out_of_depth (propagate_weight_change E d (proxy v) (V\<lparr>voters := fmupd (proxy v) q (voters V)\<rparr>))"
    if v: "fmlookup (voters V) a = Some v" "proxy v \<noteq> 0" "fmlookup (voters V) (proxy v) = Some p"
      "proxy q = proxy p" "is_proxy q = is_proxy p" "v_producers q = v_producers p" for v p q
  proof -
    let ?V = "V\<lparr>voters := fmupd (proxy v) q (voters V)\<rparr>"
    have k: "links_kept V ?V" by (rule put_voter_links [OF links_kept_refl v(3-6)])
    have l: "led_to ?V (proxy v) = led_to V (proxy v)"
      by (rule led_to_links [OF k]) (use v(3) in \<open>auto split: if_splits\<close>)
    have "card (led_to ?V (proxy v)) < d"
      using led_to_proxy [OF Suc.prems(1) v(1,2)] v(3) Suc.prems(2) unfolding l by simp
    moreover have "acyclic (proxy_edges ?V)" using k Suc.prems(1) by (simp add: links_kept_def proxy_edges_def)
    ultimately show ?thesis using Suc.IH by blast
  qed
  show ?case
  proof (cases "fmlookup (voters V) a")
    case (Some v)
    then show ?thesis by (auto simp: Let_def case_prod_beta step split: if_splits)
  qed (simp add: out_of_depth_def)
qed simp

text \<open>
  C33: In a forest of proxies the propagation of a changed weight ends within the depth it is given,
  one more than the number of voters, and any larger depth gives the same result.
\<close>

theorem propagation_ends:
  assumes "proxy_forest V"
  shows "\<not> out_of_depth (propagate E a V) \<and>
    (\<forall>d. proxy_depth V \<le> d \<longrightarrow> propagate_weight_change E d a V = propagate E a V)"
proof -
  have ac: "acyclic (proxy_edges V)" using assms by (simp add: proxy_forest_def)
  have "card (led_to V a) < proxy_depth V"
    using led_to_finite(2) [of V a] by (simp add: proxy_depth_def)
  then show ?thesis
    using propagate_not_out [OF ac] propagate_depth [OF ac] unfolding propagate_def by blast
qed

lemma demo_voting_forest: "proxy_forest demo_voting"
proof -
  have "proxy_edges demo_voting = {(alice, carol), (bob, carol)}"
    by (auto simp: proxy_edges_def proxy_of_def demo_voting_def new_voter_def split: if_splits)
  moreover have "acyclic {(alice, carol), (bob, carol)}"
    by (rule acyclicI_order [where f = "\<lambda>a. if a = carol then 0 else 1 :: nat"]) auto
  ultimately show ?thesis
    by (auto simp: proxy_forest_def proxy_of_def proxying_def demo_voting_def new_voter_def)
qed

theorem propagation_ends_witness:
  "\<not> out_of_depth (propagate ref_env alice demo_voting) \<and> proxy_of demo_voting alice = carol"
  using propagation_ends [OF demo_voting_forest, of ref_env alice]
  by (simp add: proxy_of_def demo_voting_def)

section \<open>What a vote adds and takes\<close>

text \<open>The map that the code folds over both lists, by producer.\<close>

definition vote_change :: "double \<Rightarrow> bool \<Rightarrow> double \<Rightarrow> bool \<Rightarrow> double" where
  "vote_change old_weight old new_weight new =
     (let delta = (if old then dsub 0 old_weight else 0) in if new then dadd delta new_weight else delta)"

lemma take_back_lookup:
  "distinct ps \<Longrightarrow> fmlookup (take_back w ps D) q =
     (if q \<in> set ps then Some (dsub (delta_of D q) w, False) else fmlookup D q)"
  by (induction w ps D rule: take_back.induct) (auto simp: delta_of_def)

lemma hand_out_lookup:
  "distinct ps \<Longrightarrow> fmlookup (hand_out w ps D) q =
     (if q \<in> set ps then Some (dadd (delta_of D q) w, True) else fmlookup D q)"
  by (induction w ps D rule: hand_out.induct) (auto simp: delta_of_def)

lemma deltas_reference:
  assumes "distinct ps" "distinct qs"
  shows "fmlookup (hand_out w qs (take_back v ps fmempty)) q =
    (if q \<in> set ps \<or> q \<in> set qs then Some (vote_change v (q \<in> set ps) w (q \<in> set qs), q \<in> set qs) else None)"
  using assms by (auto simp: hand_out_lookup take_back_lookup delta_of_def vote_change_def)

lemma account_share_change_producers [simp]:
  "producers (fst (account_share_change ct a lc tv d acc)) = producers (fst acc)"
  by (simp add: account_share_change_def update_producer_votepay_share_def Let_def case_prod_beta split: option.split)

text \<open>One producer of the loop.\<close>

definition with_votes :: "double \<Rightarrow> producer_info \<Rightarrow> producer_info" where
  "with_votes delta p = p\<lparr>total_votes := max 0 (dadd (total_votes p) delta)\<rparr>"

lemma apply_deltas_step:
  assumes "apply_deltas E vt ((x, delta, new) # rest) (V, dcr, inactive) = Inr acc'"
  obtains (absent) "fmlookup (producers V) x = None" "\<not> new" "apply_deltas E vt rest (V, dcr, inactive) = Inr acc'"
  | (present) p acc where "fmlookup (producers V) x = Some p" "vt \<and> new \<longrightarrow> is_active p"
      "apply_deltas E vt rest acc = Inr acc'" "producers (fst acc) = fmupd x (with_votes delta p) (producers V)"
proof (cases "fmlookup (producers V) x")
  case None
  then show ?thesis using assms absent by auto
next
  case (Some p)
  let ?acc = "account_share_change (now E) x (last_claim_time p) (total_votes p) delta
      (V\<lparr>producers := fmupd x (p\<lparr>total_votes := (if dadd (total_votes p) delta < 0 then 0 else dadd (total_votes p) delta)\<rparr>)
           (producers V),
         gstate := (gstate V)\<lparr>total_producer_vote_weight := dadd (total_producer_vote_weight (gstate V)) delta\<rparr>\<rparr>, dcr, inactive)"
  have "apply_deltas E vt rest ?acc = Inr acc'" "vt \<and> new \<longrightarrow> is_active p"
    using assms Some by (auto simp: Let_def)
  moreover have "producers (fst ?acc) = fmupd x (with_votes delta p) (producers V)"
    by (simp add: with_votes_def max_def not_less)
  ultimately show ?thesis using present [OF Some, of ?acc] by blast
qed

lemma apply_deltas_producers:
  assumes "apply_deltas E vt ds acc = Inr acc'" "distinct (map fst ds)"
  shows "fmlookup (producers (fst acc')) q = map_option
    (\<lambda>p. case map_of ds q of None \<Rightarrow> p | Some d \<Rightarrow> with_votes (fst d) p) (fmlookup (producers (fst acc)) q)"
  using assms
proof (induction ds arbitrary: acc)
  case (Cons d rest)
  obtain x delta new where d: "d = (x, delta, new)" by (cases d) auto
  obtain V dcr inactive where acc: "acc = (V, dcr, inactive)" by (cases acc) auto
  have n: "map_of rest x = None" "distinct (map fst rest)" using Cons.prems(2) d by (simp_all add: map_of_eq_None_iff)
  show ?case
  proof (rule apply_deltas_step [OF Cons.prems(1) [unfolded d acc]])
    assume "fmlookup (producers V) x = None" "apply_deltas E vt rest (V, dcr, inactive) = Inr acc'"
    then show ?thesis using Cons.IH n by (auto simp: d acc)
  next
    fix p acc1
    assume "fmlookup (producers V) x = Some p" "apply_deltas E vt rest acc1 = Inr acc'"
      "producers (fst acc1) = fmupd x (with_votes delta p) (producers V)"
    then show ?thesis using Cons.IH n by (auto simp: d acc)
  qed
qed (simp add: option.map_ident)

lemma apply_deltas_new:
  assumes "apply_deltas E vt ds acc = Inr acc'" "(x, d, True) \<in> set ds"
  shows "\<exists>p. fmlookup (producers (fst acc)) x = Some p \<and> (vt \<longrightarrow> is_active p)"
  using assms
proof (induction ds arbitrary: acc)
  case (Cons e rest)
  obtain y delta new where e: "e = (y, delta, new)" by (cases e) auto
  obtain V dcr inactive where acc: "acc = (V, dcr, inactive)" by (cases acc) auto
  show ?case
  proof (rule apply_deltas_step [OF Cons.prems(1) [unfolded e acc]])
    assume "fmlookup (producers V) y = None" "\<not> new" and r: "apply_deltas E vt rest (V, dcr, inactive) = Inr acc'"
    then show ?thesis using Cons.IH [OF r] Cons.prems(2) by (auto simp: e acc)
  next
    fix p acc1
    assume p: "fmlookup (producers V) y = Some p" "vt \<and> new \<longrightarrow> is_active p" and r: "apply_deltas E vt rest acc1 = Inr acc'"
      and P: "producers (fst acc1) = fmupd y (with_votes delta p) (producers V)"
    show ?thesis
    proof (cases "e = (x, d, True)")
      case True
      then show ?thesis using p by (simp add: e acc)
    next
      case False
      then have "(x, d, True) \<in> set rest" using Cons.prems(2) by simp
      from Cons.IH [OF r this] show ?thesis using p(1) P by (auto simp: e acc with_votes_def split: if_splits)
    qed
  qed
qed simp

lemma strictly_ascending_sorted: "strictly_ascending ps \<longleftrightarrow> sorted_wrt (<) ps"
proof (induction ps rule: strictly_ascending.induct)
  case (1 a b rest)
  then show ?case by (auto intro: less_trans)
qed simp_all

lemma strictly_ascending_distinct: "strictly_ascending ps \<Longrightarrow> distinct ps"
  by (simp add: strictly_ascending_sorted strict_sorted_iff)

lemma sorted_list_of_fmap_facts:
  "distinct (map fst (sorted_list_of_fmap m))" "map_of (sorted_list_of_fmap m) = fmlookup m"
proof -
  show "distinct (map fst (sorted_list_of_fmap m))"
    by (simp add: sorted_list_of_fmap_def o_def sorted_list_of_fset.rep_eq)
  show "map_of (sorted_list_of_fmap m) = fmlookup m" by (rule map_of_sorted_list)
qed

definition weight_of :: "env \<Rightarrow> voter_info \<Rightarrow> double" where
  "weight_of E v = (if is_proxy v then dadd (stake2vote E (staked v)) (proxied_vote_weight v) else stake2vote E (staked v))"

text \<open>A direct vote applies the deltas of its old and its new producers to the table of producers.\<close>

lemma direct_vote_parts:
  assumes "update_votes E a 0 ps True V = Inr V'" and "fmlookup (voters V) a = Some v" and "proxy v = 0" and "0 \<le> weight_of E v"
  obtains D2 V2 V3 dcr inactive where "length ps \<le> 30" "sorted_wrt (<) ps" "distinct ps"
    "D2 = hand_out (weight_of E v) ps
       (take_back (last_vote_weight v) (if 0 < last_vote_weight v then v_producers v else []) fmempty)"
    "apply_deltas E True (sorted_list_of_fmap D2) (V2, 0, 0) = Inr (V3, dcr, inactive)"
    "producers V2 = producers V" "producers V' = producers V3"
    "\<exists>v'. fmlookup (voters V') a = Some v' \<and> v_producers v' = ps \<and> proxy v' = 0"
  using assms(1)
proof (rule update_votes_parts)
  fix v1 V1 D1 V2 D2 V3 and dcr inactive w :: double
  assume val: "validate_votes a 0 ps = Inr ()" and v: "fmlookup (voters V) a = Some v1"
    and W: "withdraw_old_votes E v1 (activate_stake E v1 V) = Inr (V1, D1)" and C: "cast_new_votes E 0 ps True w (V1, D1) = Inr (V2, D2)"
    and A: "apply_deltas E True (sorted_list_of_fmap D2) (V2, 0, 0) = Inr (V3, dcr, inactive)"
    and M: "modify_voter a (\<lambda>av. av\<lparr>last_vote_weight := w, v_producers := ps, proxy := 0\<rparr>)
       (fst (update_total_votepay_share (now E) (- inactive) dcr V3)) = Inr V'"
    and w: "w = (if is_proxy v1 then dadd (stake2vote E (staked v1)) (proxied_vote_weight v1) else stake2vote E (staked v1))"
  have v1: "v1 = v" and w: "w = weight_of E v" using v assms(2) w by (simp_all add: weight_of_def)
  have ps: "length ps \<le> 30" "sorted_wrt (<) ps" "distinct ps"
    using val strictly_ascending_distinct by (simp_all add: validate_votes_def strictly_ascending_sorted)
  have D1: "V1 = activate_stake E v V \<and>
      D1 = take_back (last_vote_weight v) (if 0 < last_vote_weight v then v_producers v else []) fmempty"
    using W v1 assms(3) by (auto simp: withdraw_old_votes_def split: if_splits)
  have D2: "V2 = V1 \<and> D2 = hand_out w ps D1" using C w assms(4) by (auto simp: cast_new_votes_def)
  have "producers V2 = producers V" using D1 D2 by (simp add: activate_stake_def Let_def)
  moreover have "producers V' = producers V3"
    using M by (auto simp: modify_voter_def update_total_votepay_share_def Let_def)
  moreover have "\<exists>v'. fmlookup (voters V') a = Some v' \<and> v_producers v' = ps \<and> proxy v' = 0"
    using M by (auto simp: modify_voter_def)
  ultimately show thesis using that [OF ps _ A] D1 D2 w by simp
qed

text \<open>
  C34: A vote for producers by an account that votes directly: it is accepted only for at most thirty
  distinct registered producers in ascending order, it is recorded, and the votes of each producer
  change by the old weight if it was voted for before and by the new weight if it is now, never
  below zero; all other data of the producers stays.
\<close>

theorem vote_counts_each_producer:
  assumes "update_votes E a 0 ps True V = Inr V'" and "fmlookup (voters V) a = Some v" and "proxy v = 0"
    and "distinct (v_producers v)" and "0 \<le> weight_of E v"
  shows "length ps \<le> 30 \<and> sorted_wrt (<) ps \<and>
    (\<exists>v'. fmlookup (voters V') a = Some v' \<and> v_producers v' = ps \<and> proxy v' = 0) \<and>
    (\<forall>q\<in>set ps. \<exists>p. fmlookup (producers V) q = Some p \<and> is_active p) \<and>
    (\<forall>q. fmlookup (producers V') q = map_option
      (let old = (0 < last_vote_weight v \<and> q \<in> set (v_producers v)); new = (q \<in> set ps) in
       if old \<or> new then with_votes (vote_change (last_vote_weight v) old (weight_of E v) new) else (\<lambda>p. p))
      (fmlookup (producers V) q))"
proof (rule direct_vote_parts [OF assms(1-3,5)])
  fix D2 V2 V3 dcr inactive
  let ?old = "if 0 < last_vote_weight v then v_producers v else []"
  assume ps: "length ps \<le> 30" "sorted_wrt (<) ps" "distinct ps"
    and D2: "D2 = hand_out (weight_of E v) ps (take_back (last_vote_weight v) ?old fmempty)"
    and A: "apply_deltas E True (sorted_list_of_fmap D2) (V2, 0, 0) = Inr (V3, dcr, inactive)"
    and pr: "producers V2 = producers V" "producers V' = producers V3"
    and row: "\<exists>v'. fmlookup (voters V') a = Some v' \<and> v_producers v' = ps \<and> proxy v' = 0"
  have d: "distinct ?old" using assms(4) by simp
  note D = deltas_reference [OF d ps(3), of "weight_of E v" "last_vote_weight v", folded D2]
  note S = sorted_list_of_fmap_facts [of D2]
  have P: "fmlookup (producers V') q = map_option
      (\<lambda>p. case fmlookup D2 q of None \<Rightarrow> p | Some d \<Rightarrow> with_votes (fst d) p) (fmlookup (producers V) q)" for q
    using apply_deltas_producers [OF A S(1), of q] pr S(2) by simp
  have "\<exists>p. fmlookup (producers V) q = Some p \<and> is_active p" if q: "q \<in> set ps" for q
  proof -
    have "map_of (sorted_list_of_fmap D2) q = Some (vote_change (last_vote_weight v) (q \<in> set ?old) (weight_of E v) True, True)"
      using q D S(2) by simp
    from apply_deltas_new [OF A map_of_SomeD [OF this]] show ?thesis by (simp add: pr)
  qed
  moreover have "fmlookup (producers V') q = map_option
      (let old = (0 < last_vote_weight v \<and> q \<in> set (v_producers v)); new = (q \<in> set ps) in
       if old \<or> new then with_votes (vote_change (last_vote_weight v) old (weight_of E v) new) else (\<lambda>p. p))
      (fmlookup (producers V) q)" for q
    unfolding P D Let_def by (cases "0 < last_vote_weight v") simp_all
  ultimately show ?thesis using ps row by blast
qed

definition candidate :: "name \<Rightarrow> double \<Rightarrow> producer_info" where
  "candidate a v = \<lparr>p_owner = a, total_votes = v, producer_key = [1], is_active = True, url = [], unpaid_blocks = 0,
     last_claim_time = 0, location = 0\<rparr>"

definition direct_voter :: voter_info where
  "direct_voter = (new_voter bob)\<lparr>staked := 100, v_producers := [alice], last_vote_weight := 90\<rparr>"

definition ballot :: voting_state where
  "ballot = demo_voting\<lparr>voters := fmupd bob direct_voter fmempty,
     producers := fmupd alice (candidate alice 90) (fmupd carol (candidate carol 0) fmempty)\<rparr>"

theorem vote_counts_each_producer_witness:
  "\<exists>V'. update_votes ref_env bob 0 [carol] True ballot = Inr V' \<and>
     map_option total_votes (fmlookup (producers V') carol) = Some 100 \<and>
     map_option total_votes (fmlookup (producers V') alice) = Some 0"
proof -
  have "case update_votes ref_env bob 0 [carol] True ballot of Inr V' \<Rightarrow> True | Inl _ \<Rightarrow> False" by code_simp
  then obtain V' where r: "update_votes ref_env bob 0 [carol] True ballot = Inr V'" by (auto split: sum.splits)
  have v: "fmlookup (voters ballot) bob = Some direct_voter" "proxy direct_voter = 0" "distinct (v_producers direct_voter)"
    by (simp_all add: ballot_def direct_voter_def new_voter_def)
  have w: "weight_of ref_env direct_voter = 100" by code_simp
  have t: "max 0 (dadd 0 (vote_change 90 False 100 True)) = 100" "max 0 (dadd 90 (vote_change 90 True 100 False)) = 0"
    by code_simp+
  have l: "last_vote_weight direct_voter = 90" "v_producers direct_voter = [alice]" by (simp_all add: direct_voter_def)
  have "fmlookup (producers V') q = map_option
      (let old = (q = alice); new = (q = carol) in
       if old \<or> new then with_votes (vote_change 90 old 100 new) else (\<lambda>p. p)) (fmlookup (producers ballot) q)" for q
    using vote_counts_each_producer [OF r v] by (simp add: w l Let_def)
  from this [of carol] this [of alice]
  have "fmlookup (producers V') carol = Some (with_votes (vote_change 90 False 100 True) (candidate carol 0))"
    "fmlookup (producers V') alice = Some (with_votes (vote_change 90 True 100 False) (candidate alice 90))"
    by (simp_all add: ballot_def Let_def)
  then show ?thesis using r t by (simp add: with_votes_def candidate_def)
qed

section \<open>The schedule\<close>








end
