(* ===== verification/Pay_Laws.thy ===== *)
theory Pay_Laws
  imports Pay Escrow Demo Rex_Laws
begin

text \<open>
  Producer pay: how inflation is divided, that the per-block and per-vote buckets are backed by
  the accounts \<open>eosio.bpay\<close> and \<open>eosio.vpay\<close>, that the unpaid blocks of the producers add up to
  the global count, and how often rewards can be claimed.
\<close>

section \<open>The division of new tokens\<close>

lemma tdiv_bounds:
  assumes "0 \<le> n" "0 < d"
  shows "d * tdiv n d \<le> n" "n < d * tdiv n d + d" "0 \<le> tdiv n d"
proof -
  have t: "tdiv n d = n div d" by (rule tdiv_nonneg [OF assms])
  have "n mod d < d" "0 \<le> n mod d" "d * (n div d) + n mod d = n" using assms by simp_all
  then show "d * tdiv n d \<le> n" "n < d * tdiv n d + d" unfolding t by linarith+
  show "0 \<le> tdiv n d" unfolding t using assms by (simp add: pos_imp_zdiv_nonneg_iff)
qed

lemma inflation_split_law:
  assumes n: "0 \<le> n" "n < 2 ^ 63" and run: "inflation_split n = (s, b, v)"
  shows "s + b + v = n" "0 \<le> s" "0 \<le> b" "0 \<le> v" "5 * (b + v) \<le> n" "n < 5 * (b + v) + 5"
    "4 * b \<le> b + v" "b + v < 4 * b + 4"
proof -
  let ?p = "tdiv n 5"
  note P = tdiv_bounds [OF n(1), of 5] and B = tdiv_bounds [of ?p 4]
  have i: "i64 (n - ?p) = n - ?p" "i64 (?p - tdiv ?p 4) = ?p - tdiv ?p 4"
    using n P B by (auto intro!: i64_id simp: is_i64_def)
  have r: "s = n - ?p" "b = tdiv ?p 4" "v = ?p - tdiv ?p 4"
    using run i by (simp_all add: inflation_split_def Let_def inflation_pay_factor_def votepay_factor_def)
  show "s + b + v = n" "0 \<le> s" "0 \<le> b" "0 \<le> v" "5 * (b + v) \<le> n" "n < 5 * (b + v) + 5"
    "4 * b \<le> b + v" "b + v < 4 * b + 4"
    using P B unfolding r by simp_all
qed

lemma dbl_to_i64_bounds: "dbl_to_i64 x = Inr n \<Longrightarrow> 0 \<le> x \<Longrightarrow> 0 \<le> n \<and> n < 2 ^ 63"
  by (auto simp: dbl_to_i64_def truncate_rat_def Let_def is_i64_def split: if_splits)

lemma rnd_nonneg: "0 \<le> x \<Longrightarrow> 0 \<le> rnd x"
  by (rule b64.round_nonneg)

lemma new_tokens_nonneg:
  assumes "0 \<le> t" "0 < usecs" "new_tokens_since t usecs = Inr n"
  shows "0 \<le> n" "n < 2 ^ 63"
proof -
  have "0 \<le> ddiv (dmul (dmul continuous_rate (dbl t)) (dbl usecs)) (dbl useconds_per_year)"
    using assms(1,2) unfolding ddiv_def dmul_def dbl_def continuous_rate_def
    by (intro rnd_nonneg divide_nonneg_nonneg mult_nonneg_nonneg) (simp_all add: useconds_per_year_def seconds_per_year_def)
  from dbl_to_i64_bounds [OF assms(3) [unfolded new_tokens_since_def] this]
  show "0 \<le> n" "n < 2 ^ 63" by simp_all
qed
section \<open>What the producers are owed\<close>

definition unpaid_sum :: "voting_state \<Rightarrow> int" where
  "unpaid_sum V = tsum unpaid_blocks (producers V)"

text \<open>
  The books of the pay: the blocks of the producers add up to the global count, the buckets are not
  overdrawn.
\<close>

definition pay_inv :: "system_state \<Rightarrow> bool" where
  "pay_inv S \<longleftrightarrow> unpaid_sum (vs S) = total_unpaid_blocks (gstate (vs S)) \<and>
     (\<forall>a p. fmlookup (producers (vs S)) a = Some p \<longrightarrow> 0 \<le> unpaid_blocks p) \<and>
     total_unpaid_blocks (gstate (vs S)) < 2 ^ 32 \<and> 0 \<le> perblock_bucket (gstate (vs S))"

lemma pay_invD:
  assumes "pay_inv S"
  shows "unpaid_sum (vs S) = total_unpaid_blocks (gstate (vs S))"
    "fmlookup (producers (vs S)) a = Some p \<Longrightarrow> 0 \<le> unpaid_blocks p"
    "total_unpaid_blocks (gstate (vs S)) < 2 ^ 32" "0 \<le> perblock_bucket (gstate (vs S))"
    "fmlookup (producers (vs S)) a = Some p \<Longrightarrow> unpaid_blocks p \<le> total_unpaid_blocks (gstate (vs S))"
    "0 \<le> total_unpaid_blocks (gstate (vs S))"
proof -
  show s: "unpaid_sum (vs S) = total_unpaid_blocks (gstate (vs S))"
    "fmlookup (producers (vs S)) a = Some p \<Longrightarrow> 0 \<le> unpaid_blocks p"
    "total_unpaid_blocks (gstate (vs S)) < 2 ^ 32" "0 \<le> perblock_bucket (gstate (vs S))" for a p
    using assms unfolding pay_inv_def by blast+
  show "unpaid_blocks p \<le> total_unpaid_blocks (gstate (vs S))" if "fmlookup (producers (vs S)) a = Some p"
    using tval_le_tsum [of "producers (vs S)" unpaid_blocks a] s(1,2) that by (simp add: unpaid_sum_def)
  show "0 \<le> total_unpaid_blocks (gstate (vs S))"
    using s(1) tsum_nonneg [of "producers (vs S)" unpaid_blocks] s(2) by (simp add: unpaid_sum_def)
qed

text \<open>A block is counted once for its producer and once in the total.\<close>

lemma count_block_inv:
  assumes X: "pay_inv S" "total_unpaid_blocks (gstate (vs S)) < 2 ^ 32 - 1"
  shows "pay_inv (count_block E p S)"
proof -
  let ?S = "if last_pervote_bucket_fill (gstate (vs S)) = 0
           then set_gstate (\<lambda>g. g\<lparr>last_pervote_bucket_fill := now E\<rparr>) S else S"
  have s: "producers (vs ?S) = producers (vs S)" "total_unpaid_blocks (gstate (vs ?S)) = total_unpaid_blocks (gstate (vs S))"
    "perblock_bucket (gstate (vs ?S)) = perblock_bucket (gstate (vs S))" by (simp_all add: set_gstate_def)
  then have ok: "pay_inv ?S" using X(1) by (simp add: pay_inv_def unpaid_sum_def)
  show ?thesis
  proof (cases "fmlookup (producers (vs S)) p")
    case None
    then have "count_block E p S = ?S" using s by (simp add: count_block_def Let_def split: option.split)
    then show ?thesis using ok by simp
  next
    case (Some row)
    note D = pay_invD(2) [OF X(1) Some] pay_invD(5) [OF X(1) Some]
    have u: "u32 (unpaid_blocks row + 1) = unpaid_blocks row + 1"
      "u32 (total_unpaid_blocks (gstate (vs S)) + 1) = total_unpaid_blocks (gstate (vs S)) + 1"
      using D X(2) by (auto intro!: u32_id)
    let ?T = "count_block E p S"
    have t: "producers (vs ?T) = fmupd p (row\<lparr>unpaid_blocks := unpaid_blocks row + 1\<rparr>) (producers (vs S))"
      "total_unpaid_blocks (gstate (vs ?T)) = total_unpaid_blocks (gstate (vs S)) + 1"
      "perblock_bucket (gstate (vs ?T)) = perblock_bucket (gstate (vs S))"
      using Some u by (simp_all add: count_block_def Let_def set_gstate_def)
    show ?thesis
      using X D Some unfolding pay_inv_def unpaid_sum_def t by auto
  qed
qed

lemma update_elected_producers_frame:
  assumes "update_elected_producers E t V = (V', es)"
  shows "producers V' = producers V" "total_unpaid_blocks (gstate V') = total_unpaid_blocks (gstate V)"
    "perblock_bucket (gstate V') = perblock_bucket (gstate V)" "pervote_bucket (gstate V') = pervote_bucket (gstate V)"
    "moved a es = 0"
  using assms by (auto simp: update_elected_producers_def Let_def split: if_splits)

lemma close_auction_frame [simp]:
  "producers (vs (close_auction E t S)) = producers (vs S)"
  "total_unpaid_blocks (gstate (vs (close_auction E t S))) = total_unpaid_blocks (gstate (vs S))"
  "perblock_bucket (gstate (vs (close_auction E t S))) = perblock_bucket (gstate (vs S))"
  "pervote_bucket (gstate (vs (close_auction E t S))) = pervote_bucket (gstate (vs S))"
  "effects (close_auction E t S) = effects S"
  by (simp_all add: close_auction_def set_gstate_def Let_def split: option.split)

lemma onblock_pay:
  assumes X: "pay_inv S" "total_unpaid_blocks (gstate (vs S)) < 2 ^ 32 - 1" and run: "onblock E t p S = Inr S'"
  shows "pay_inv S'" "perblock_bucket (gstate (vs S')) = perblock_bucket (gstate (vs S))"
    "pervote_bucket (gstate (vs S')) = pervote_bucket (gstate (vs S))"
    "\<exists>es. effects S' = effects S @ es \<and> (\<forall>a. moved a es = 0)"
proof -
  let ?S = "S\<lparr>vs := (vs S)\<lparr>gstate2 := (gstate2 (vs S))\<lparr>last_block_num := t\<rparr>\<rparr>\<rparr>" and ?C = "count_block E p"
  have ok: "pay_inv ?S" "total_unpaid_blocks (gstate (vs ?S)) < 2 ^ 32 - 1" using X by (simp_all add: pay_inv_def unpaid_sum_def)
  note c = count_block_inv [OF ok]
  have b: "perblock_bucket (gstate (vs (?C ?S))) = perblock_bucket (gstate (vs S))"
    "pervote_bucket (gstate (vs (?C ?S))) = pervote_bucket (gstate (vs S))" "effects (?C ?S) = effects S"
    by (auto simp: count_block_def set_gstate_def Let_def split: option.split)
  obtain V es where u: "update_elected_producers E t (vs (?C ?S)) = (V, es)" by fastforce
  note F = update_elected_producers_frame [OF u]
  let ?T = "emit es ((?C ?S)\<lparr>vs := V\<rparr>)"
  have T: "pay_inv ?T" using c F by (simp add: pay_inv_def unpaid_sum_def)
  have "S' \<in> {?S, ?C ?S, ?T, close_auction E t ?T}"
    using run u by (auto simp: onblock_def Let_def split: if_splits)
  then have "(S' = ?S \<or> S' = ?C ?S) \<and> effects S' = effects S \<or> (S' = ?T \<or> S' = close_auction E t ?T) \<and> effects S' = effects S @ es"
    using b by auto
  moreover have "pay_inv (close_auction E t ?T)" using T by (simp add: pay_inv_def unpaid_sum_def)
  moreover have "perblock_bucket (gstate (vs ?T)) = perblock_bucket (gstate (vs S))"
    "pervote_bucket (gstate (vs ?T)) = pervote_bucket (gstate (vs S))" using F b by simp_all
  ultimately have "pay_inv S' \<and> perblock_bucket (gstate (vs S')) = perblock_bucket (gstate (vs S)) \<and>
      pervote_bucket (gstate (vs S')) = pervote_bucket (gstate (vs S)) \<and> (effects S' = effects S @ [] \<or> effects S' = effects S @ es)"
    using c ok(1) T b(1,2) by (elim disjE conjE) simp_all
  then show "pay_inv S'" "perblock_bucket (gstate (vs S')) = perblock_bucket (gstate (vs S))"
    "pervote_bucket (gstate (vs S')) = pervote_bucket (gstate (vs S))"
    "\<exists>es. effects S' = effects S @ es \<and> (\<forall>a. moved a es = 0)"
    using F(5) moved_simps(1) by metis+
qed

section \<open>Filling the buckets\<close>

lemma fill_buckets_law:
  assumes E: "lib_ok E" and T: "token_inv T" and self: "get_self E \<notin> {bpay_account, vpay_account}"
    and g: "is_i64 (pervote_bucket (gstate (vs S)))" "is_i64 (perblock_bucket (gstate (vs S)))"
    and run: "fill_buckets E T S = Inr S1"
  obtains b v es t where "0 \<le> b" "0 \<le> v" "b \<le> 2 ^ 62" "v \<le> 2 ^ 62"
    "S1 = emit es (set_gstate (\<lambda>g. g\<lparr>pervote_bucket := i64 (pervote_bucket g + v),
       perblock_bucket := i64 (perblock_bucket g + b), last_pervote_bucket_fill := t\<rparr>) S)"
    "moved bpay_account es = b" "moved vpay_account es = v"
proof -
  obtain cs amt where cs: "core_symbol S = Inr cs" and sup: "get_supply T (sym_code cs) = Inr amt"
    using run by (auto simp: fill_buckets_def)
  let ?g = "gstate (vs S)" and ?u = "i64 (now E - last_pervote_bucket_fill (gstate (vs S)))"
  show thesis
  proof (cases "0 < ?u \<and> 0 < last_pervote_bucket_fill ?g")
    case False
    then have S1: "S1 = S" using run cs sup by (auto simp: fill_buckets_def Let_def)
    show thesis
      by (intro that [of 0 0 "[]" "last_pervote_bucket_fill ?g"])
        (use g in \<open>simp_all add: S1 emit_def set_gstate_def i64_id\<close>)
  next
    case True
    obtain n where n: "new_tokens_since (amount amt) ?u = Inr n"
      using run cs sup True by (auto simp: fill_buckets_def Let_def)
    obtain s b v where sp: "inflation_split n = (s, b, v)" by (cases "inflation_split n") auto
    let ?es = "\<lambda>q qs qb qv. [Token_issue [active_of (get_self E)] (get_self E) q ''issue tokens for producer pay and savings'',
          Token_transfer [active_of (get_self E)] (get_self E) saving_account qs ''unallocated inflation'',
          Token_transfer [active_of (get_self E)] (get_self E) bpay_account qb ''fund per-block bucket'',
          Token_transfer [active_of (get_self E)] (get_self E) vpay_account qv ''fund per-vote bucket'']"
    obtain q qs qb qv where
      q: "new_asset E n cs = Inr q" "new_asset E s cs = Inr qs" "new_asset E b cs = Inr qb" "new_asset E v cs = Inr qv" and
      S1: "S1 = emit (?es q qs qb qv) (set_gstate (\<lambda>g. g\<lparr>pervote_bucket := i64 (pervote_bucket g + v),
             perblock_bucket := i64 (perblock_bucket g + b),
             last_pervote_bucket_fill := now E\<rparr>) S)"
      using run cs sup True n sp by (auto simp: fill_buckets_def Let_def)
    obtain st where "fmlookup (stats T) (sym_code cs) = Some st" "amt = currency_stats.supply st"
      using sup by (auto simp: get_supply_def)
    then have "0 \<le> amount amt" using token_invD(1) [OF T] by (simp add: stats_ok_def)
    note N = new_tokens_nonneg [OF this conjunct1 [OF True] n]
    note L = inflation_split_law [OF N sp]
    have a: "amount qb = b" "amount qv = v" "n \<le> 2 ^ 62"
      using q by (auto simp: new_asset_lib [OF E] in_range_def asset_max_def)
    have d: "bpay_account \<noteq> vpay_account" "vpay_account \<noteq> bpay_account" "saving_account \<noteq> bpay_account"
      "saving_account \<noteq> vpay_account" by (simp_all add: account_defs)
    show thesis
      by (rule that [OF L(3,4) _ _ S1]) (use L a self d in auto)
  qed
qed

section \<open>A claim\<close>

lemma update_total_votepay_share_frame [simp]:
  "gstate (fst (update_total_votepay_share ct d r V)) = gstate V"
  "producers (fst (update_total_votepay_share ct d r V)) = producers V"
  by (simp_all add: update_total_votepay_share_def Let_def)

lemma update_producer_votepay_share_frame [simp]:
  "gstate (fst (update_producer_votepay_share p ct r z V)) = gstate V"
  "producers (fst (update_producer_votepay_share p ct r z V)) = producers V"
  by (simp_all add: update_producer_votepay_share_def Let_def)

lemma vote_pay_frame: "vote_pay E p n c V = Inr (x, V') \<Longrightarrow> gstate V' = gstate V \<and> producers V' = producers V"
  using update_total_votepay_share_frame [of "now E" 0 0 V]
  by (auto simp: vote_pay_def Let_def case_prod_beta split: if_splits)

lemma claim_share_frame: "claim_share E w p V = (u, share, V') \<Longrightarrow> gstate V' = gstate V \<and> producers V' = producers V"
  by (auto simp: claim_share_def Let_def case_prod_beta)

lemma claimrewards_parts:
  assumes run: "claimrewards E T w S = Inr S'"
  obtains p S1 pay0 pay es where "fmlookup (producers (vs S)) w = Some p" "is_active p"
    "useconds_per_day < i64 (now E - last_claim_time p)" "fill_buckets E T S = Inr S1"
    "pay = (if pay0 < min_pervote_daily_pay then 0 else pay0)"
    "producers (vs S') = fmupd w (p\<lparr>last_claim_time := now E, unpaid_blocks := 0\<rparr>) (producers (vs S1))"
    "gstate (vs S') = (gstate (vs S1))\<lparr>pervote_bucket := i64 (pervote_bucket (gstate (vs S1)) - pay),
       perblock_bucket := i64 (perblock_bucket (gstate (vs S1)) - block_pay p (vs S1)),
       total_unpaid_blocks := u32 (total_unpaid_blocks (gstate (vs S1)) - unpaid_blocks p)\<rparr>"
    "pay_effects E (core_symbol S1) w (block_pay p (vs S1)) pay = Inr es" "effects S' = effects S1 @ es"
proof -
  obtain p S1 where p: "fmlookup (producers (vs S)) w = Some p" "fill_buckets E T S = Inr S1"
    and g: "is_active p" "useconds_per_day < i64 (now E - last_claim_time p)"
    using run by (auto simp: claimrewards_def Let_def)
  obtain u share V where c: "claim_share E w p (vs S1) = (u, share, V)" by (cases "claim_share E w p (vs S1)") auto
  note C = claim_share_frame [OF c]
  have b: "block_pay p V = block_pay p (vs S1)" using C by (simp add: block_pay_def Let_def)
  obtain pay0 V1 where v: "vote_pay E p share (i64 (last_claim_time p + 3 * useconds_per_day) \<le> now E) V = Inr (pay0, V1)"
    using run p c by (auto simp: claimrewards_def Let_def)
  note F = vote_pay_frame [OF v]
  let ?pay = "if pay0 < min_pervote_daily_pay then 0 else pay0"
  obtain es where e: "pay_effects E (core_symbol S1) w (block_pay p (vs S1)) ?pay = Inr es" and
    S': "S' = emit es (S1\<lparr>vs := (fst (update_total_votepay_share (now E) (- share) (if u then total_votes p else 0)
        (V1\<lparr>gstate := (gstate V1)\<lparr>pervote_bucket := i64 (pervote_bucket (gstate V1) - ?pay),
               perblock_bucket := i64 (perblock_bucket (gstate V1) - block_pay p (vs S1)),
               total_unpaid_blocks := u32 (total_unpaid_blocks (gstate V1) - unpaid_blocks p)\<rparr>\<rparr>)))
        \<lparr>producers := fmupd w (p\<lparr>last_claim_time := now E, unpaid_blocks := 0\<rparr>) (producers V1)\<rparr>\<rparr>)"
    using run p c v b by (auto simp: claimrewards_def Let_def)
  show thesis
    by (rule that [OF p(1) g p(2) refl _ _ e]) (use F C in \<open>simp_all add: S'\<close>)
qed

lemma pay_effects_moved:
  assumes E: "lib_ok E" and w: "w \<notin> {bpay_account, vpay_account}" and run: "pay_effects E core w b v = Inr es"
  shows "moved bpay_account es = - max 0 b" "moved vpay_account es = - max 0 v" "moved w es = max 0 b + max 0 v"
    "b \<le> 2 ^ 62" "v \<le> 2 ^ 62"
proof -
  have d: "bpay_account \<noteq> vpay_account" "vpay_account \<noteq> bpay_account" by (simp_all add: account_defs)
  show "moved bpay_account es = - max 0 b" "moved vpay_account es = - max 0 v" "moved w es = max 0 b + max 0 v"
    "b \<le> 2 ^ 62" "v \<le> 2 ^ 62"
    using run w d by (auto simp: pay_effects_def new_asset_lib [OF E] in_range_def asset_max_def split: if_splits)
qed

text \<open>A claim changes the voting tables and nothing else, and moves tokens between five accounts only.\<close>

lemma fill_buckets_frame:
  assumes "fill_buckets E T S = Inr S1"
  shows "\<exists>f es. S1 = emit es (set_gstate f S) \<and> (\<forall>g. max_ram_size (f g) = max_ram_size g \<and>
      total_ram_bytes_reserved (f g) = total_ram_bytes_reserved g \<and> total_ram_stake (f g) = total_ram_stake g) \<and>
    (\<forall>a. a \<notin> {get_self E, saving_account, bpay_account, vpay_account} \<longrightarrow> moved a es = 0)"
proof -
  obtain cs amt where cs: "core_symbol S = Inr cs" "get_supply T (sym_code cs) = Inr amt"
    using assms by (auto simp: fill_buckets_def)
  let ?g = "gstate (vs S)" and ?u = "i64 (now E - last_pervote_bucket_fill (gstate (vs S)))"
  show ?thesis
  proof (cases "0 < ?u \<and> 0 < last_pervote_bucket_fill ?g")
    case False
    then have "S1 = emit [] (set_gstate (\<lambda>g. g) S)" using assms cs by (auto simp: fill_buckets_def Let_def emit_def set_gstate_def)
    then show ?thesis by (intro exI [of _ "\<lambda>g. g"] exI [of _ "[]"]) simp
  next
    case True
    obtain n where n: "new_tokens_since (amount amt) ?u = Inr n"
      using assms cs True by (auto simp: fill_buckets_def Let_def)
    obtain s b v where sp: "inflation_split n = (s, b, v)" by (cases "inflation_split n") auto
    obtain q qs qb qv where
      S1: "S1 = emit [Token_issue [active_of (get_self E)] (get_self E) q ''issue tokens for producer pay and savings'',
          Token_transfer [active_of (get_self E)] (get_self E) saving_account qs ''unallocated inflation'',
          Token_transfer [active_of (get_self E)] (get_self E) bpay_account qb ''fund per-block bucket'',
          Token_transfer [active_of (get_self E)] (get_self E) vpay_account qv ''fund per-vote bucket'']
          (set_gstate (\<lambda>g. g\<lparr>pervote_bucket := i64 (pervote_bucket g + v),
             perblock_bucket := i64 (perblock_bucket g + b), last_pervote_bucket_fill := now E\<rparr>) S)"
      using assms cs True n sp by (auto simp: fill_buckets_def Let_def)
    show ?thesis unfolding S1 by (rule exI, rule exI, rule conjI [OF refl]) auto
  qed
qed

lemma claimrewards_frame:
  assumes "claimrewards E T w S = Inr S'"
  shows "\<exists>V es. S' = emit es (S\<lparr>vs := V\<rparr>) \<and> max_ram_size (gstate V) = max_ram_size (gstate (vs S)) \<and>
      total_ram_bytes_reserved (gstate V) = total_ram_bytes_reserved (gstate (vs S)) \<and>
      total_ram_stake (gstate V) = total_ram_stake (gstate (vs S)) \<and>
    (\<forall>a. a \<notin> {get_self E, saving_account, bpay_account, vpay_account, w} \<longrightarrow> moved a es = 0)"
proof -
  obtain p S1 where p: "fmlookup (producers (vs S)) w = Some p" "fill_buckets E T S = Inr S1"
    using assms by (auto simp: claimrewards_def Let_def)
  obtain u share V where c: "claim_share E w p (vs S1) = (u, share, V)" by (cases "claim_share E w p (vs S1)") auto
  obtain pay0 V1 where v: "vote_pay E p share (i64 (last_claim_time p + 3 * useconds_per_day) \<le> now E) V = Inr (pay0, V1)"
    using assms p c by (auto simp: claimrewards_def Let_def)
  have g: "gstate V1 = gstate (vs S1)" using vote_pay_frame [OF v] claim_share_frame [OF c] by simp
  obtain core b pay es where e: "pay_effects E core w b pay = Inr es" and S': "S' = emit es (S1\<lparr>vs := vs S'\<rparr>)"
    using assms p c v by (auto simp: claimrewards_def Let_def)
  have V2: "max_ram_size (gstate (vs S')) = max_ram_size (gstate V1)" "total_ram_stake (gstate (vs S')) = total_ram_stake (gstate V1)"
    "total_ram_bytes_reserved (gstate (vs S')) = total_ram_bytes_reserved (gstate V1)"
    using assms p c v by (auto simp: claimrewards_def Let_def)
  obtain f fs where f: "S1 = emit fs (set_gstate f S)"
    "\<And>g. max_ram_size (f g) = max_ram_size g \<and> total_ram_bytes_reserved (f g) = total_ram_bytes_reserved g \<and>
      total_ram_stake (f g) = total_ram_stake g"
    "\<And>a. a \<notin> {get_self E, saving_account, bpay_account, vpay_account} \<Longrightarrow> moved a fs = 0"
    using fill_buckets_frame [OF p(2)] by blast
  have m: "moved a es = 0" if "a \<notin> {bpay_account, vpay_account, w}" for a
    using e that by (auto simp: pay_effects_def split: if_splits)
  have "S' = emit (fs @ es) (S\<lparr>vs := vs S'\<rparr>)" by (subst S') (simp add: f(1) emit_def set_gstate_def)
  moreover have "gstate (vs S1) = f (gstate (vs S))" by (simp add: f(1) set_gstate_def)
  ultimately show ?thesis
    using V2 g f(2) f(3) m by (intro exI [of _ "vs S'"] exI [of _ "fs @ es"]) auto
qed

lemma block_pay_bounds:
  assumes "0 \<le> perblock_bucket (gstate V)" "0 \<le> unpaid_blocks p" "unpaid_blocks p \<le> total_unpaid_blocks (gstate V)"
    and "perblock_bucket (gstate V) * unpaid_blocks p < 2 ^ 63"
  shows "0 \<le> block_pay p V" "block_pay p V \<le> perblock_bucket (gstate V)"
    "block_pay p V = perblock_bucket (gstate V) * unpaid_blocks p div total_unpaid_blocks (gstate V)"
proof -
  let ?b = "perblock_bucket (gstate V)" and ?n = "unpaid_blocks p" and ?t = "total_unpaid_blocks (gstate V)"
  have m: "0 \<le> ?b * ?n" using assms by simp
  then have i: "i64 (?b * ?n) = ?b * ?n" using assms(4) by (intro i64_id) (simp add: is_i64_def)
  show e: "block_pay p V = ?b * ?n div ?t"
  proof (cases "0 < ?t")
    case True
    then show ?thesis using m by (simp add: block_pay_def Let_def i tdiv_nonneg)
  next
    case False
    then have "?n = 0" "?t = 0" using assms(2,3) by auto
    then show ?thesis by (simp add: block_pay_def Let_def)
  qed
  show "0 \<le> block_pay p V"
  proof (cases "0 < ?t")
    case True
    then show ?thesis unfolding e using m by (simp add: pos_imp_zdiv_nonneg_iff)
  qed (simp add: block_pay_def Let_def)
  show "block_pay p V \<le> ?b"
  proof (cases "0 < ?t")
    case True
    have "?b * ?n \<le> ?b * ?t" using assms(1,3) by (rule mult_left_mono [rotated])
    then have "?b * ?n div ?t \<le> ?b * ?t div ?t" using True by (rule zdiv_mono1)
    then show ?thesis unfolding e using True by simp
  qed (use assms(1) in \<open>simp add: block_pay_def Let_def\<close>)
qed

section \<open>Properties\<close>

text \<open>
  New tokens are divided without remainder: four fifths, rounded up, to the savings, of the rest a
  quarter, rounded down, to the per-block and what remains to the per-vote bucket; no part is negative.
\<close>

lemma inflation_is_divided_exactly:
  assumes "0 \<le> n" and "n < 2 ^ 63" and "inflation_split n = (savings, per_block, per_vote)"
  shows "savings + per_block + per_vote = n \<and> 0 \<le> savings \<and> 0 \<le> per_block \<and> 0 \<le> per_vote \<and>
    per_block + per_vote = n div 5 \<and> per_block = n div 5 div 4"
proof -
  note L = inflation_split_law [OF assms]
  have "per_block + per_vote = n div 5" using L(5,6) by (intro int_div_pos_eq [symmetric, where r = "n - 5 * (per_block + per_vote)"]) simp_all
  moreover have "per_block = (per_block + per_vote) div 4"
    using L(7,8) by (intro int_div_pos_eq [symmetric, where r = "per_block + per_vote - 4 * per_block"]) simp_all
  ultimately show ?thesis using L by simp
qed

text \<open>The effect of a claim on the books of the pay.\<close>

lemma claim_law:
  assumes "lib_ok E" and "token_inv T" and "get_self E \<notin> {bpay_account, vpay_account}" and "w \<notin> {bpay_account, vpay_account}"
    and "pay_inv S" and "\<bar>pervote_bucket (gstate (vs S))\<bar> \<le> core_cap" and "perblock_bucket (gstate (vs S)) \<le> core_cap"
    and "\<And>S1 p. fill_buckets E T S = Inr S1 \<Longrightarrow> fmlookup (producers (vs S)) w = Some p \<Longrightarrow>
      perblock_bucket (gstate (vs S1)) * unpaid_blocks p < 2 ^ 63"
    and "claimrewards E T w S = Inr S'"
  shows "pay_inv S' \<and> (\<exists>es. effects S' = effects S @ es \<and>
    perblock_bucket (gstate (vs S')) = perblock_bucket (gstate (vs S)) + moved bpay_account es \<and>
    pervote_bucket (gstate (vs S')) = pervote_bucket (gstate (vs S)) + moved vpay_account es) \<and>
    (\<exists>p. fmlookup (producers (vs S)) w = Some p \<and>
      fmlookup (producers (vs S')) w = Some (p\<lparr>last_claim_time := now E, unpaid_blocks := 0\<rparr>) \<and>
      total_unpaid_blocks (gstate (vs S')) = total_unpaid_blocks (gstate (vs S)) - unpaid_blocks p)"
  using assms(9)
proof (rule claimrewards_parts)
  fix p S1 pay0 pay es
  assume p: "fmlookup (producers (vs S)) w = Some p" and fb: "fill_buckets E T S = Inr S1"
    and pay: "pay = (if pay0 < min_pervote_daily_pay then 0 else pay0)"
    and P: "producers (vs S') = fmupd w (p\<lparr>last_claim_time := now E, unpaid_blocks := 0\<rparr>) (producers (vs S1))"
    and G: "gstate (vs S') = (gstate (vs S1))\<lparr>pervote_bucket := i64 (pervote_bucket (gstate (vs S1)) - pay),
       perblock_bucket := i64 (perblock_bucket (gstate (vs S1)) - block_pay p (vs S1)),
       total_unpaid_blocks := u32 (total_unpaid_blocks (gstate (vs S1)) - unpaid_blocks p)\<rparr>"
    and es: "pay_effects E (core_symbol S1) w (block_pay p (vs S1)) pay = Inr es" "effects S' = effects S1 @ es"
  let ?g = "gstate (vs S)"
  note D = pay_invD [OF assms(5)]
  have g: "is_i64 (pervote_bucket ?g)" "is_i64 (perblock_bucket ?g)"
    using assms(6,7) D(4) by (auto simp: is_i64_def core_cap_def)
  obtain b v fs t where f: "0 \<le> b" "0 \<le> v" "b \<le> 2 ^ 62" "v \<le> 2 ^ 62"
    "S1 = emit fs (set_gstate (\<lambda>g. g\<lparr>pervote_bucket := i64 (pervote_bucket g + v),
       perblock_bucket := i64 (perblock_bucket g + b), last_pervote_bucket_fill := t\<rparr>) S)"
    "moved bpay_account fs = b" "moved vpay_account fs = v"
    by (rule fill_buckets_law [OF assms(1,2,3) g fb])
  have i: "i64 (pervote_bucket ?g + v) = pervote_bucket ?g + v" "i64 (perblock_bucket ?g + b) = perblock_bucket ?g + b"
    using f(1-4) assms(6,7) D(4) by (auto intro!: i64_id simp: is_i64_def core_cap_def)
  have S1: "pervote_bucket (gstate (vs S1)) = pervote_bucket ?g + v" "perblock_bucket (gstate (vs S1)) = perblock_bucket ?g + b"
    "total_unpaid_blocks (gstate (vs S1)) = total_unpaid_blocks ?g" "producers (vs S1) = producers (vs S)" "effects S1 = effects S @ fs"
    unfolding f(5) by (simp_all add: set_gstate_def i)
  have B: "0 \<le> block_pay p (vs S1)" "block_pay p (vs S1) \<le> perblock_bucket (gstate (vs S1))"
    by (rule block_pay_bounds; use S1 f(1) D p assms(8) [OF fb p] in simp)+
  note M = pay_effects_moved [OF assms(1,4) es(1)]
  have py: "0 \<le> pay" using pay by (simp add: min_pervote_daily_pay_def)
  have j: "i64 (pervote_bucket (gstate (vs S1)) - pay) = pervote_bucket ?g + v - pay"
    "i64 (perblock_bucket (gstate (vs S1)) - block_pay p (vs S1)) = perblock_bucket ?g + b - block_pay p (vs S1)"
    using f(1-4) assms(6,7) D(4) S1 B py M(5) by (auto intro!: i64_id simp: is_i64_def core_cap_def)
  have u: "u32 (total_unpaid_blocks ?g - unpaid_blocks p) = total_unpaid_blocks ?g - unpaid_blocks p"
    using D(2,5) [OF p] D(3) by (intro u32_id) auto
  have lt: "total_unpaid_blocks ?g - unpaid_blocks p < 2 ^ 32" using D(2) [OF p] D(3) by linarith
  have "pay_inv S'"
    unfolding pay_inv_def unpaid_sum_def P G
    using D lt p S1 j u B by (auto simp: unpaid_sum_def)
  moreover have "effects S' = effects S @ (fs @ es)" using es(2) S1 by simp
  moreover have "perblock_bucket (gstate (vs S')) = perblock_bucket ?g + moved bpay_account (fs @ es)"
    "pervote_bucket (gstate (vs S')) = pervote_bucket ?g + moved vpay_account (fs @ es)"
    using f(6,7) M(1,2) B py j unfolding G by simp_all
  ultimately show ?thesis using p P G S1 u by auto
qed

text \<open>
  C36: A claim of rewards keeps the books: both buckets change by exactly what moves into and out of
  the accounts that back them, and the blocks paid are taken off the producer and off the total.
\<close>

theorem claims_keep_the_books:
  assumes "lib_ok E" and "token_inv T" and "get_self E \<notin> {bpay_account, vpay_account}" and "w \<notin> {bpay_account, vpay_account}"
    and "pay_inv S" and "\<bar>pervote_bucket (gstate (vs S))\<bar> \<le> core_cap" and "perblock_bucket (gstate (vs S)) \<le> core_cap"
    and "\<And>S1 p. fill_buckets E T S = Inr S1 \<Longrightarrow> fmlookup (producers (vs S)) w = Some p \<Longrightarrow>
      perblock_bucket (gstate (vs S1)) * unpaid_blocks p < 2 ^ 63"
    and "claimrewards E T w S = Inr S'"
  shows "pay_inv S' \<and> (\<exists>es. effects S' = effects S @ es \<and>
    perblock_bucket (gstate (vs S')) = perblock_bucket (gstate (vs S)) + moved bpay_account es \<and>
    pervote_bucket (gstate (vs S')) = pervote_bucket (gstate (vs S)) + moved vpay_account es) \<and>
    (\<exists>p. fmlookup (producers (vs S)) w = Some p \<and>
      fmlookup (producers (vs S')) w = Some (p\<lparr>last_claim_time := now E, unpaid_blocks := 0\<rparr>) \<and>
      total_unpaid_blocks (gstate (vs S')) = total_unpaid_blocks (gstate (vs S)) - unpaid_blocks p)"
  by (rule claim_law [OF assms])

definition pay_state :: system_state where
  "pay_state = demo_state\<lparr>vs := demo_voting\<lparr>
     producers := fmupd alice \<lparr>p_owner = alice, total_votes = 0, producer_key = [1], is_active = True, url = [],
         unpaid_blocks = 30, last_claim_time = 1500000000000000, location = 0\<rparr>
       (fmupd bob \<lparr>p_owner = bob, total_votes = 0, producer_key = [2], is_active = True, url = [],
         unpaid_blocks = 10, last_claim_time = 0, location = 0\<rparr> fmempty),
     gstate := demo_gstate\<lparr>total_activated_stake := 2000000000000, total_unpaid_blocks := 40, perblock_bucket := 1000,
       last_pervote_bucket_fill := 0\<rparr>,
     gstate3 := (gstate3 demo_voting)\<lparr>last_vpay_state_update := 1600000000000000\<rparr>\<rparr>\<rparr>"

definition pay_bank :: token_state where
  "pay_bank = \<lparr>accounts = fmupd (bpay_account, sym_code eos) \<lparr>balance = coins 10000000000000\<rparr> fmempty,
     stats = fmupd (sym_code eos) \<lparr>supply = coins 10000000000000, max_supply = coins 100000000000000, issuer = eosio_account\<rparr> fmempty,
     notified = []\<rparr>"

lemma pay_state_inv: "pay_inv pay_state"
  by (auto simp: pay_inv_def unpaid_sum_def pay_state_def demo_gstate_def demo_state_def split: if_splits)

lemma pay_state_rows:
  "pervote_bucket (gstate (vs pay_state)) = 0" "perblock_bucket (gstate (vs pay_state)) = 1000" "effects pay_state = []"
  "fmlookup (producers (vs pay_state)) alice = Some p \<Longrightarrow> unpaid_blocks p = 30 \<and> last_claim_time p = 1500000000000000"
  "fill_buckets ref_env pay_bank pay_state = Inr S1 \<Longrightarrow> S1 = pay_state"
  by (auto simp: pay_state_def demo_gstate_def demo_state_def fill_buckets_def)

lemma pay_bank_inv: "token_inv pay_bank"
  by (auto simp: token_inv_def pay_bank_def stats_ok_def accounts_ok_def supply_ok_def circulating_def
      held_in_def code_of_def in_range_def asset_max_def split: if_splits)

lemma pay_run: "\<exists>S'. claimrewards ref_env pay_bank alice pay_state = Inr S'"
proof -
  have "case claimrewards ref_env pay_bank alice pay_state of Inr S' \<Rightarrow> True | Inl _ \<Rightarrow> False" by code_simp
  then show ?thesis by (auto split: sum.splits)
qed

lemma pay_accounts: "alice \<notin> {bpay_account, vpay_account}" "get_self ref_env \<notin> {bpay_account, vpay_account}"
  by (simp_all add: alice_def account_defs ref_env_def)

theorem claims_keep_the_books_witness:
  "\<exists>S'. claimrewards ref_env pay_bank alice pay_state = Inr S' \<and> total_unpaid_blocks (gstate (vs S')) = 10 \<and>
     perblock_bucket (gstate (vs S')) = 1000 + moved bpay_account (effects S')"
proof -
  obtain S' where r: "claimrewards ref_env pay_bank alice pay_state = Inr S'" using pay_run by blast
  have "perblock_bucket (gstate (vs S1)) * unpaid_blocks p < 2 ^ 63"
    if "fill_buckets ref_env pay_bank pay_state = Inr S1" "fmlookup (producers (vs pay_state)) alice = Some p" for S1 p
    using pay_state_rows(4) [OF that(2)] pay_state_rows(5) [OF that(1)] by (simp add: pay_state_rows)
  from claims_keep_the_books [OF ref_env_ok pay_bank_inv pay_accounts(2,1) pay_state_inv _ _ this r]
  have "total_unpaid_blocks (gstate (vs S')) = total_unpaid_blocks (gstate (vs pay_state)) - 30 \<and>
      perblock_bucket (gstate (vs S')) = 1000 + moved bpay_account (effects S')"
    by (auto simp: pay_state_rows core_cap_def)
  then show ?thesis using r by (simp add: pay_state_def)
qed

text \<open>
  C37: A producer that has claimed its rewards cannot claim again within a day: as long as its row
  stands as the claim left it, another claim fails, whatever else has happened.
\<close>

theorem rewards_once_a_day:
  assumes "claimrewards E T w S = Inr S'" and "fmlookup (producers (vs S'')) w = fmlookup (producers (vs S')) w"
    and "now E \<le> now F" and "now F \<le> now E + 86400000000"
  shows "\<exists>e. claimrewards F T' w S'' = Inl e"
  using assms(1)
proof (rule claimrewards_parts)
  fix p S1
  assume "producers (vs S') = fmupd w (p\<lparr>last_claim_time := now E, unpaid_blocks := 0\<rparr>) (producers (vs S1))"
  then have row: "fmlookup (producers (vs S'')) w = Some (p\<lparr>last_claim_time := now E, unpaid_blocks := 0\<rparr>)"
    using assms(2) by simp
  have d: "i64 (now F - now E) \<le> useconds_per_day"
    using assms(3,4) by (subst i64_id) (auto simp: is_i64_def useconds_per_day_def seconds_per_day_def)
  show ?thesis
  proof (cases "claimrewards F T' w S''")
    case (Inr S3)
    then show ?thesis by (rule claimrewards_parts) (use row d in auto)
  qed blast
qed

theorem rewards_once_a_day_witness:
  "\<exists>S' e. claimrewards ref_env pay_bank alice pay_state = Inr S' \<and> claimrewards ref_env pay_bank alice S' = Inl e"
proof -
  obtain S' where r: "claimrewards ref_env pay_bank alice pay_state = Inr S'" using pay_run by blast
  from rewards_once_a_day [OF r refl, of ref_env pay_bank] r show ?thesis by auto
qed

end
