(* ===== verification/Admin.thy ===== *)
theory Admin
  imports Pay
begin

text \<open>
  The privileged actions (\<open>eosio.system.cpp\<close>): initialisation, chain parameters, and the limits
  the system manages by hand. \<open>setacctram\<close>, \<open>setacctnet\<close> and \<open>setacctcpu\<close> have the same shape:
  \<open>Some n\<close> puts the resource under management, \<open>None\<close> gives it back.
\<close>

definition init :: "env \<Rightarrow> token_state \<Rightarrow> int \<Rightarrow> symbol \<Rightarrow> system_state \<Rightarrow> system_state res" where
  "init E T version core S =
     bindE (require_auth E (get_self E)) (\<lambda>_.
     bindE (check (version = 0) ''unsupported version for init action'') (\<lambda>_.
     bindE (check (rammarket S = None) ''system contract has already been initialized'') (\<lambda>_.
     bindE (get_supply T (sym_code core)) (\<lambda>system_token_supply.
     bindE (check (symbol system_token_supply = core)
       ''specified core symbol does not exist (precision mismatch)'') (\<lambda>_.
     bindE (check (0 < amount system_token_supply) ''system token supply must be greater than 0'') (\<lambda>_.
     Inr (emit [Token_open [active_of (get_self E)] rex_account core (get_self E)]
       (S\<lparr>rammarket := Some
          \<lparr>es_supply = \<lparr>amount = 100000000000000, symbol = ramcore_symbol\<rparr>,
           base = \<lparr>c_balance = \<lparr>amount = i64 (free_ram (gstate (vs S))), symbol = ram_symbol\<rparr>, weight = 1 / 2\<rparr>,
           quote = \<lparr>c_balance = \<lparr>amount = tdiv (amount system_token_supply) 1000, symbol = core\<rparr>,
             weight = 1 / 2\<rparr>\<rparr>\<rparr>))))))))"

definition setparams :: "env \<Rightarrow> blockchain_parameters \<Rightarrow> system_state \<Rightarrow> system_state res" where
  "setparams E params S =
     bindE (require_auth E (get_self E)) (\<lambda>_.
     let S = set_gstate (\<lambda>g. g\<lparr>parameters := params\<rparr>) S in
     bindE (check (3 \<le> max_authority_depth params) ''max_authority_depth should be at least 3'') (\<lambda>_.
     Inr (emit [Set_blockchain_parameters (max_authority_depth params # other_parameters params)] S)))"

definition setpriv :: "env \<Rightarrow> name \<Rightarrow> int \<Rightarrow> system_state \<Rightarrow> system_state res" where
  "setpriv E acct ispriv S =
     bindE (require_auth E (get_self E)) (\<lambda>_. Inr (emit [Set_privileged acct ispriv] S))"

definition activate :: "env \<Rightarrow> bytes \<Rightarrow> system_state \<Rightarrow> system_state res" where
  "activate E feature_digest S =
     bindE (require_auth E (get_self E)) (\<lambda>_. Inr (emit [Preactivate_feature feature_digest] S))"

definition updtrevision :: "env \<Rightarrow> int \<Rightarrow> voting_state \<Rightarrow> voting_state res" where
  "updtrevision E new_rev V =
     bindE (require_auth E (get_self E)) (\<lambda>_.
     bindE (check (revision (gstate2 V) < 255) ''can not increment revision'') (\<lambda>_.
     bindE (check (new_rev = revision (gstate2 V) + 1) ''can only increment revision by one'') (\<lambda>_.
     bindE (check (new_rev \<le> 1) ''specified revision is not yet supported by the code'') (\<lambda>_.
     Inr (V\<lparr>gstate2 := (gstate2 V)\<lparr>revision := new_rev\<rparr>\<rparr>)))))"

definition onerror :: "system_state \<Rightarrow> system_state res" where
  "onerror S = bindE (check False ''the onerror action cannot be called directly'') (\<lambda>_. Inr S)"

section \<open>Managed limits\<close>

definition setalimits :: "env \<Rightarrow> name \<Rightarrow> int \<Rightarrow> int \<Rightarrow> int \<Rightarrow> system_state \<Rightarrow> system_state res" where
  "setalimits E acct ram net cpu S =
     bindE (require_auth E (get_self E)) (\<lambda>_.
     bindE (check (fmlookup (userres (rs S)) acct = None) ''only supports unlimited accounts'') (\<lambda>_.
     bindE (check (\<not> (managed_flag (vs S) acct ram_managed \<or> managed_flag (vs S) acct net_managed \<or>
         managed_flag (vs S) acct cpu_managed))
       ''cannot use setalimits on an account with managed resources'') (\<lambda>_.
     Inr (S\<lparr>rs := set_resource_limits acct ram net cpu (rs S)\<rparr>))))"

definition set_flag :: "name \<Rightarrow> flags1_fields \<Rightarrow> bool \<Rightarrow> voting_state \<Rightarrow> voting_state" where
  "set_flag acct f val V =
     (let v = (case fmlookup (voters V) acct of None \<Rightarrow> new_voter acct | Some v \<Rightarrow> v)
      in V\<lparr>voters := fmupd acct (v\<lparr>flags1 := set_field (flags1 v) f val\<rparr>) (voters V)\<rparr>)"

definition setacctram :: "env \<Rightarrow> name \<Rightarrow> int option \<Rightarrow> system_state \<Rightarrow> system_state res" where
  "setacctram E acct new_bytes S =
     bindE (require_auth E (get_self E)) (\<lambda>_.
     bindE (get_resource_limits acct (rs S)) (\<lambda>(current_ram, current_net, current_cpu).
     bindE
       (case new_bytes of
          None \<Rightarrow>
            bindE (check (managed_flag (vs S) acct ram_managed) ''RAM of account is already unmanaged'') (\<lambda>_.
            Inr (case fmlookup (userres (rs S)) acct of
                   None \<Rightarrow> ram_gift_bytes | Some r \<Rightarrow> i64 (ram_gift_bytes + ram_bytes r)))
        | Some b \<Rightarrow>
            bindE (check (0 \<le> b) ''not allowed to set RAM limit to unlimited'') (\<lambda>_. Inr b)) (\<lambda>ram.
     Inr (S\<lparr>vs := set_flag acct ram_managed (new_bytes \<noteq> None) (vs S),
            rs := set_resource_limits acct ram current_net current_cpu (rs S)\<rparr>))))"

definition setacctnet :: "env \<Rightarrow> name \<Rightarrow> int option \<Rightarrow> system_state \<Rightarrow> system_state res" where
  "setacctnet E acct net_weight S =
     bindE (require_auth E (get_self E)) (\<lambda>_.
     bindE (get_resource_limits acct (rs S)) (\<lambda>(current_ram, current_net, current_cpu).
     bindE
       (case net_weight of
          None \<Rightarrow>
            bindE (check (managed_flag (vs S) acct net_managed)
              ''Network bandwidth of account is already unmanaged'') (\<lambda>_.
            Inr (case fmlookup (userres (rs S)) acct of None \<Rightarrow> 0 | Some r \<Rightarrow> amount (ur_net_weight r)))
        | Some w \<Rightarrow> bindE (check (- 1 \<le> w) ''invalid value for net_weight'') (\<lambda>_. Inr w)) (\<lambda>net.
     Inr (S\<lparr>vs := set_flag acct net_managed (net_weight \<noteq> None) (vs S),
            rs := set_resource_limits acct current_ram net current_cpu (rs S)\<rparr>))))"

definition setacctcpu :: "env \<Rightarrow> name \<Rightarrow> int option \<Rightarrow> system_state \<Rightarrow> system_state res" where
  "setacctcpu E acct cpu_weight S =
     bindE (require_auth E (get_self E)) (\<lambda>_.
     bindE (get_resource_limits acct (rs S)) (\<lambda>(current_ram, current_net, current_cpu).
     bindE
       (case cpu_weight of
          None \<Rightarrow>
            bindE (check (managed_flag (vs S) acct cpu_managed) ''CPU bandwidth of account is already unmanaged'') (\<lambda>_.
            Inr (case fmlookup (userres (rs S)) acct of None \<Rightarrow> 0 | Some r \<Rightarrow> amount (ur_cpu_weight r)))
        | Some w \<Rightarrow> bindE (check (- 1 \<le> w) ''invalid value for cpu_weight'') (\<lambda>_. Inr w)) (\<lambda>cpu.
     Inr (S\<lparr>vs := set_flag acct cpu_managed (cpu_weight \<noteq> None) (vs S),
            rs := set_resource_limits acct current_ram current_net cpu (rs S)\<rparr>))))"

end
