(* ===== verification/Frames.thy ===== *)
theory Frames
  imports Rex_Spec Ram_Laws Names_Laws Stake_Laws Voting_Laws Pay_Laws Admin
begin

text \<open>
  What each component leaves alone of the others: the relations that a step of one of them keeps
  when it does not touch the books of memory, producer pay, auctions or stakes.
\<close>

section \<open>Voting and the books\<close>

text \<open>The fields of the global state that keep books of tokens and memory.\<close>

definition ledgers :: "voting_state \<Rightarrow> int list" where
  "ledgers V = (let g = gstate V in [max_ram_size g, total_ram_bytes_reserved g, total_ram_stake g,
     pervote_bucket g, perblock_bucket g, total_unpaid_blocks g])"

definition unpaid_ok :: "voting_state \<Rightarrow> bool" where
  "unpaid_ok V \<longleftrightarrow> (\<forall>a p. fmlookup (producers V) a = Some p \<longrightarrow> 0 \<le> unpaid_blocks p)"

definition books_kept :: "voting_state \<Rightarrow> voting_state \<Rightarrow> bool" where
  "books_kept V V' \<longleftrightarrow> ledgers V' = ledgers V \<and> unpaid_sum V' = unpaid_sum V \<and> (unpaid_ok V \<longrightarrow> unpaid_ok V')"

lemma books_kept_refl [simp]: "books_kept V V"
  by (simp add: books_kept_def)

lemma books_kept_trans [trans]: "books_kept V V1 \<Longrightarrow> books_kept V1 V2 \<Longrightarrow> books_kept V V2"
  by (simp add: books_kept_def)

lemma books_kept_same: "gstate V' = gstate V \<Longrightarrow> producers V' = producers V \<Longrightarrow> books_kept V V'"
  by (simp add: books_kept_def ledgers_def unpaid_sum_def unpaid_ok_def)

lemma books_kept_gstate: "ledgers V' = ledgers V \<Longrightarrow> producers V' = producers V \<Longrightarrow> books_kept V V'"
  by (simp add: books_kept_def unpaid_sum_def unpaid_ok_def)

lemma drop_upd_same [simp]: "fmdrop k (fmupd k v t) = fmdrop k t"
  by (rule fmap_ext) simp

lemma books_kept_row:
  assumes "ledgers V' = ledgers V" and r: "fmdrop a (producers V') = fmdrop a (producers V)"
    and u: "tval unpaid_blocks (producers V') a = tval unpaid_blocks (producers V) a"
  shows "books_kept V V'"
proof -
  have "tsum unpaid_blocks (fmdrop a (producers V')) = tsum unpaid_blocks (fmdrop a (producers V))" using r by simp
  then have s: "unpaid_sum V' = unpaid_sum V" using u by (simp add: unpaid_sum_def)
  have "unpaid_ok V'" if ok: "unpaid_ok V"
    unfolding unpaid_ok_def
  proof (intro allI impI)
    fix b p assume p: "fmlookup (producers V') b = Some p"
    show "0 \<le> unpaid_blocks p"
    proof (cases "b = a")
      case True
      have "0 \<le> tval unpaid_blocks (producers V) a"
        using ok by (auto simp: unpaid_ok_def tval_def split: option.split)
      then show ?thesis using u p True by simp
    next
      case False
      have "fmlookup (fmdrop a (producers V)) b = Some p" unfolding r [symmetric] using p False by simp
      then show ?thesis using ok False by (simp add: unpaid_ok_def)
    qed
  qed
  then show ?thesis using assms(1) s by (simp add: books_kept_def)
qed

lemma update_total_share_books [simp]: "books_kept V (fst (update_total_votepay_share ct d r V'')) = books_kept V V''"
  by (simp add: books_kept_def ledgers_def unpaid_sum_def unpaid_ok_def)

lemma account_share_change_books [simp]:
  "books_kept V (fst (account_share_change ct a lc tv d acc)) = books_kept V (fst acc)"
  by (simp add: account_share_change_def update_producer_votepay_share_def Let_def case_prod_beta
      books_kept_def ledgers_def unpaid_sum_def unpaid_ok_def split: option.split)

lemma add_to_producers_books: "add_to_producers ct d ps acc = Inr acc' \<Longrightarrow> books_kept (fst acc) (fst acc')"
proof (induction ct d ps acc rule: add_to_producers.induct)
  case (2 ct delta acnt rest V dcr inactive)
  then obtain prow where p: "fmlookup (producers V) acnt = Some prow" by auto
  let ?V = "V\<lparr>producers := fmupd acnt (prow\<lparr>total_votes := dadd (total_votes prow) delta\<rparr>) (producers V),
       gstate := (gstate V)\<lparr>total_producer_vote_weight := dadd (total_producer_vote_weight (gstate V)) delta\<rparr>\<rparr>"
  let ?acc = "account_share_change ct acnt (last_claim_time prow) (total_votes prow) delta (?V, dcr, inactive)"
  have "books_kept V ?V" by (rule books_kept_row [where a = acnt]) (simp_all add: ledgers_def p Let_def)
  then have "books_kept V (fst ?acc)" by simp
  moreover have "books_kept (fst ?acc) (fst acc')"
    using 2(1) [OF _ refl, of prow] 2(2) p by (simp add: Let_def)
  ultimately have "books_kept V (fst acc')" by (rule books_kept_trans)
  then show ?case by simp
qed simp

lemma apply_deltas_books: "apply_deltas E voting ds acc = Inr acc' \<Longrightarrow> books_kept (fst acc) (fst acc')"
proof (induction E voting ds acc rule: apply_deltas.induct)
  case (2 E voting pname delta new rest V dcr inactive)
  show ?case
  proof (cases "fmlookup (producers V) pname")
    case None
    with 2 show ?thesis by auto
  next
    case (Some p)
    let ?votes = "dadd (total_votes p) delta"
    let ?V = "V\<lparr>producers := fmupd pname (p\<lparr>total_votes := (if ?votes < 0 then 0 else ?votes)\<rparr>) (producers V),
         gstate := (gstate V)\<lparr>total_producer_vote_weight := dadd (total_producer_vote_weight (gstate V)) delta\<rparr>\<rparr>"
    let ?acc = "account_share_change (now E) pname (last_claim_time p) (total_votes p) delta (?V, dcr, inactive)"
    have "books_kept V ?V" by (rule books_kept_row [where a = pname]) (simp_all add: ledgers_def Some Let_def)
    then have "books_kept V (fst ?acc)" by simp
    moreover have "apply_deltas E voting rest ?acc = Inr acc'"
      using 2(3) Some by (auto simp: Let_def)
    then have "books_kept (fst ?acc) (fst acc')"
      using 2(2) [OF Some _ refl refl] 2(3) Some by (auto simp: Let_def)
    ultimately have "books_kept V (fst acc')" by (rule books_kept_trans)
    then show ?thesis by simp
  qed
qed simp

lemma voters_books [simp]: "books_kept V (V'\<lparr>voters := t\<rparr>) = books_kept V V'" "books_kept (V\<lparr>voters := t\<rparr>) V' = books_kept V V'"
  by (simp_all add: books_kept_def ledgers_def unpaid_sum_def unpaid_ok_def)

lemma modify_voter_books: "modify_voter a f V = Inr V' \<Longrightarrow> books_kept V V'"
  by (auto simp: modify_voter_def)

lemma propagate_books: "propagate_weight_change E d a V = Inr V' \<Longrightarrow> books_kept V V'"
proof (induction d arbitrary: a V V')
  case (Suc d)
  obtain v where v: "fmlookup (voters V) a = Some v" using Suc.prems by auto
  define w where "w = (if is_proxy v then dadd (stake2vote E (staked v)) (proxied_vote_weight v) else stake2vote E (staked v))"
  obtain V1 where m: "modify_voter a (\<lambda>v. v\<lparr>last_vote_weight := w\<rparr>) V1 = Inr V'"
    and c: "(if 1 < \<bar>dsub w (last_vote_weight v)\<bar> then
          if proxy v \<noteq> 0 then
            bindE (some_or (Check ''proxy not found'') (fmlookup (voters V) (proxy v))) (\<lambda>p.
            let p = p\<lparr>proxied_vote_weight :=
                  dadd (proxied_vote_weight p) (dsub w (last_vote_weight v))\<rparr> in
            propagate_weight_change E d (proxy v)
              (V\<lparr>voters := fmupd (proxy v) p (voters V)\<rparr>))
          else
            bindE (add_to_producers (now E) (dsub w (last_vote_weight v))
              (v_producers v) (V, 0, 0)) (\<lambda>(V, delta_change_rate, total_inactive_vpay_share).
            Inr (fst (update_total_votepay_share (now E) (- total_inactive_vpay_share) delta_change_rate V)))
        else Inr V) = Inr V1"
    using Suc.prems unfolding propagate_weight_change.simps v some_or_simps bindE_simps bindE_eq_Inr Let_def w_def by blast
  have "books_kept V V1"
    using c Suc.IH by (fastforce simp: Let_def dest: add_to_producers_books split: if_splits)
  then show ?case using modify_voter_books [OF m] books_kept_trans by blast
qed simp

lemma withdraw_books: "withdraw_old_votes E v V = Inr (V', D) \<Longrightarrow> books_kept V V'"
  by (auto simp: withdraw_old_votes_def propagate_def Let_def split: if_splits dest: propagate_books)

lemma cast_books: "cast_new_votes E p ps vt w (V, D) = Inr (V', D') \<Longrightarrow> books_kept V V'"
  by (auto simp: cast_new_votes_def propagate_def Let_def split: if_splits dest: propagate_books)

lemma activate_stake_books [simp]: "books_kept V (activate_stake E v V)"
  by (rule books_kept_gstate) (simp_all add: activate_stake_def ledgers_def Let_def)

lemma update_votes_books:
  assumes "update_votes E a p ps vt V = Inr V'"
  shows "books_kept V V'"
  using assms
proof (rule update_votes_parts)
  fix v V1 D1 V2 D2 V3 and dcr inactive w :: double
  assume "withdraw_old_votes E v (activate_stake E v V) = Inr (V1, D1)" "cast_new_votes E p ps vt w (V1, D1) = Inr (V2, D2)"
    and a: "apply_deltas E vt (sorted_list_of_fmap D2) (V2, 0, 0) = Inr (V3, dcr, inactive)"
    and m: "modify_voter a (\<lambda>av. av\<lparr>last_vote_weight := w, v_producers := ps, proxy := p\<rparr>)
       (fst (update_total_votepay_share (now E) (- inactive) dcr V3)) = Inr V'"
  then have "books_kept V V1" "books_kept V1 V2"
    using withdraw_books cast_books books_kept_trans activate_stake_books by blast+
  moreover have "books_kept V2 V3" using apply_deltas_books [OF a] by simp
  moreover have "books_kept V3 V'"
    using modify_voter_books [OF m] by (simp add: books_kept_def ledgers_def unpaid_sum_def unpaid_ok_def)
  ultimately show ?thesis using books_kept_trans by blast
qed

lemma update_voting_power_books: "update_voting_power E a q V = Inr V' \<Longrightarrow> books_kept V V'"
  by (auto simp: update_voting_power_def Let_def split: option.splits if_splits dest: update_votes_books)

lemma regproxy_books: "regproxy E p flag V = Inr V' \<Longrightarrow> books_kept V V'"
  by (auto simp: regproxy_def propagate_def split: option.splits dest: propagate_books)

lemma unregprod_books: "unregprod E p V = Inr V' \<Longrightarrow> books_kept V V'"
  by (auto simp: unregprod_def deactivate_def ledgers_def Let_def intro!: books_kept_row [where a = p])

lemma rmvproducer_books: "rmvproducer E p V = Inr V' \<Longrightarrow> books_kept V V'"
  by (auto simp: rmvproducer_def deactivate_def ledgers_def Let_def intro!: books_kept_row [where a = p])

lemma updtrevision_books: "updtrevision E n V = Inr V' \<Longrightarrow> books_kept V V'"
  by (auto simp: updtrevision_def intro: books_kept_same)

lemma set_flag_books [simp]: "books_kept V (set_flag a f b V)"
  by (simp add: set_flag_def Let_def)

lemma regproducer_books:
  assumes "regproducer E p k u l V = Inr V'"
  shows "books_kept V V'"
proof (cases "fmlookup (producers V) p")
  case None
  then show ?thesis using assms by (auto simp: regproducer_def Let_def ledgers_def intro!: books_kept_row [where a = p])
next
  case (Some r)
  define q where "q = r\<lparr>producer_key := k, is_active := True, url := u, location := l,
       last_claim_time := (if last_claim_time r = 0 then now E else last_claim_time r)\<rparr>"
  let ?V = "V\<lparr>producers := fmupd p q (producers V)\<rparr>"
  have "books_kept V ?V" by (rule books_kept_row [where a = p]) (simp_all add: Some ledgers_def Let_def q_def)
  moreover have "books_kept ?V V'"
    using assms Some unfolding regproducer_def Let_def q_def [symmetric]
    by (cases "fmlookup (producers2 V) p") (auto simp: q_def [symmetric] intro: books_kept_same)
  ultimately show ?thesis by (rule books_kept_trans)
qed


section \<open>Steps beside the books\<close>

definition bytes_kept :: "resource_state \<Rightarrow> resource_state \<Rightarrow> bool" where
  "bytes_kept R R' \<longleftrightarrow> bytes_held R' = bytes_held R \<and> (bytes_ok R \<longrightarrow> bytes_ok R') \<and>
     (\<forall>w. tval ram_bytes (userres R') w = tval ram_bytes (userres R) w)"

definition promises :: "rex_state \<Rightarrow> int" where
  "promises X = pool_field namebid_proceeds X"

text \<open>The accounts whose tokens are spoken for, but \<open>eosio.rex\<close> and \<open>eosio.stake\<close>.\<close>

definition still_accounts :: "name set" where
  "still_accounts = {ram_account, bpay_account, vpay_account}"

text \<open>
  A step that leaves the books of memory, pay and auctions alone; proceeds promised to the pool may
  be moved there.
\<close>

definition calm :: "system_state \<Rightarrow> system_state \<Rightarrow> bool" where
  "calm S S' \<longleftrightarrow> books_kept (vs S) (vs S') \<and> bytes_kept (rs S) (rs S') \<and> rammarket S' = rammarket S \<and> ns S' = ns S \<and>
     (0 \<le> promises (rx S) \<longrightarrow> 0 \<le> promises (rx S')) \<and>
     (\<exists>es. effects S' = effects S @ es \<and> (\<forall>a\<in>still_accounts. moved a es = 0) \<and>
        promises (rx S') \<le> promises (rx S) + moved names_account es)"

text \<open>One that leaves the stakes alone, too.\<close>

definition still :: "system_state \<Rightarrow> system_state \<Rightarrow> bool" where
  "still S S' \<longleftrightarrow> calm S S' \<and> stake_quiet S S'"

lemma bytes_kept_simps [simp]: "bytes_kept R R"
  by (simp add: bytes_kept_def)

lemma bytes_kept_trans: "bytes_kept R R1 \<Longrightarrow> bytes_kept R1 R2 \<Longrightarrow> bytes_kept R R2"
  by (simp add: bytes_kept_def)

lemma bytes_kept_userres: "userres R' = userres R \<Longrightarrow> bytes_kept R R'"
  by (simp add: bytes_kept_def bytes_held_def bytes_ok_def)

lemma bytes_kept_row:
  assumes "fmdrop w (userres R') = fmdrop w (userres R)" "tval ram_bytes (userres R') w = tval ram_bytes (userres R) w"
  shows "bytes_kept R R'"
proof -
  have "tsum ram_bytes (fmdrop w (userres R')) = tsum ram_bytes (fmdrop w (userres R))" using assms(1) by simp
  then have s: "bytes_held R' = bytes_held R" using assms(2) by (simp add: bytes_held_def)
  have "bytes_ok R'" if ok: "bytes_ok R"
    unfolding bytes_ok_def
  proof (intro allI impI)
    fix b r assume r: "fmlookup (userres R') b = Some r"
    show "0 \<le> ram_bytes r"
    proof (cases "b = w")
      case True
      have "0 \<le> tval ram_bytes (userres R) w" using ok by (auto simp: bytes_ok_def tval_def split: option.split)
      then show ?thesis using assms(2) r True by simp
    next
      case False
      have "fmlookup (fmdrop w (userres R)) b = Some r" unfolding assms(1) [symmetric] using r False by simp
      then show ?thesis using ok False by (auto simp: bytes_ok_def)
    qed
  qed
  moreover have "tval ram_bytes (userres R') b = tval ram_bytes (userres R) b" for b
  proof (cases "b = w")
    case False
    have "fmlookup (fmdrop w (userres R')) b = fmlookup (fmdrop w (userres R)) b" using assms(1) by simp
    then show ?thesis using False by (simp add: tval_def)
  qed (use assms(2) in simp)
  ultimately show ?thesis using s by (simp add: bytes_kept_def)
qed

lemma calm_refl [simp]: "calm S S"
  by (auto simp: calm_def)

lemma calm_trans [trans]:
  assumes "calm S S1" "calm S1 S2"
  shows "calm S S2"
proof -
  from assms obtain es fs where
    "effects S1 = effects S @ es" "\<forall>a\<in>still_accounts. moved a es = 0" "promises (rx S1) \<le> promises (rx S) + moved names_account es"
    "effects S2 = effects S1 @ fs" "\<forall>a\<in>still_accounts. moved a fs = 0" "promises (rx S2) \<le> promises (rx S1) + moved names_account fs"
    unfolding calm_def by blast
  then have "effects S2 = effects S @ es @ fs \<and> (\<forall>a\<in>still_accounts. moved a (es @ fs) = 0) \<and>
      promises (rx S2) \<le> promises (rx S) + moved names_account (es @ fs)" by simp
  moreover have "books_kept (vs S) (vs S2)" "bytes_kept (rs S) (rs S2)"
    using assms books_kept_trans bytes_kept_trans unfolding calm_def by blast+
  moreover have "rammarket S2 = rammarket S" "ns S2 = ns S" "0 \<le> promises (rx S) \<longrightarrow> 0 \<le> promises (rx S2)"
    using assms unfolding calm_def by simp_all
  ultimately show ?thesis unfolding calm_def by blast
qed

lemma still_refl [simp]: "still S S"
  by (simp add: still_def)

lemma still_trans [trans]: "still S S1 \<Longrightarrow> still S1 S2 \<Longrightarrow> still S S2"
  unfolding still_def using calm_trans stake_quiet_trans by blast

lemma still_calm: "still S S' \<Longrightarrow> calm S S'"
  by (simp add: still_def)

lemma calm_rs: "bytes_kept (rs S) R \<Longrightarrow> calm S (S\<lparr>rs := R\<rparr>)"
  by (auto simp: calm_def)

lemma still_rs:
  "bytes_kept (rs S) R \<Longrightarrow> delband R = delband (rs S) \<Longrightarrow> refunds R = refunds (rs S) \<Longrightarrow> still S (S\<lparr>rs := R\<rparr>)"
  by (auto simp: still_def calm_rs intro: stake_quietI [of _ _ "[]"])

lemma still_vs: "books_kept (vs S) V \<Longrightarrow> still S (S\<lparr>vs := V\<rparr>)"
  by (auto simp: still_def calm_def)

lemma still_rx: "promises X = promises (rx S) \<Longrightarrow> still S (S\<lparr>rx := X\<rparr>)"
  by (auto simp: still_def calm_def)

lemma still_emit:
  "\<forall>a\<in>insert stake_account (insert names_account still_accounts). moved a es = 0 \<Longrightarrow> still S (emit es S)"
  by (auto simp: still_def calm_def intro: stake_quiet_emit)

lemma on_vs_still: "on_vs f S = Inr S' \<Longrightarrow> (\<And>V. f (vs S) = Inr V \<Longrightarrow> books_kept (vs S) V) \<Longrightarrow> still S S'"
  by (auto simp: on_vs_def intro: still_vs)

lemma on_rx_still: "on_rx f S = Inr S' \<Longrightarrow> (\<And>X. f (rx S) = Inr X \<Longrightarrow> promises X = promises (rx S)) \<Longrightarrow> still S S'"
  by (auto simp: on_rx_def intro: still_rx)

section \<open>Steps of the REX\<close>

lemma update_resource_limits_bytes:
  assumes "update_resource_limits E w dn dc S = Inr S'"
  shows "bytes_kept (rs S) (rs S')"
proof (cases "dc = 0 \<and> dn = 0")
  case True
  then show ?thesis using assms by (simp add: update_resource_limits_def)
next
  case False
  let ?nm = "managed_flag (vs S) w net_managed" and ?cm = "managed_flag (vs S) w cpu_managed"
  obtain tot R where
    tot: "(case fmlookup (userres (rs S)) w of
             None \<Rightarrow>
               bindE (check (0 \<le> dn \<and> 0 \<le> dc) ''logic error, should not occur'') (\<lambda>_.
               bindE (core_symbol S) (\<lambda>cs.
               bindE (new_asset E dn cs) (\<lambda>net.
               bindE (new_asset E dc cs) (\<lambda>cpu.
               Inr \<lparr>ur_owner = w, ur_net_weight = net, ur_cpu_weight = cpu, ram_bytes = 0\<rparr>))))
           | Some tot \<Rightarrow>
               Inr (tot\<lparr>ur_net_weight := inc_amt dn (ur_net_weight tot),
                        ur_cpu_weight := inc_amt dc (ur_cpu_weight tot)\<rparr>)) = Inr tot" and
    R: "(if \<not> (?nm \<and> ?cm) then
             bindE (get_resource_limits w (rs S)) (\<lambda>(ram, net, cpu).
             Inr (set_resource_limits w ram
               (if ?nm then net else amount (ur_net_weight tot))
               (if ?cm then cpu else amount (ur_cpu_weight tot)) (rs S)))
           else Inr (rs S)) = Inr R" and
    S': "S' = S\<lparr>rs := R\<lparr>userres :=
          (if ur_is_empty tot then fmdrop w (userres R) else fmupd w tot (userres R))\<rparr>\<rparr>"
    using assms False unfolding update_resource_limits_def Let_def if_not_P [OF False] bindE_eq_Inr sum.inject
    by blast
  have u: "userres R = userres (rs S)" using R by (cases "\<not> (?nm \<and> ?cm)") auto
  have b: "ram_bytes tot = tval ram_bytes (userres (rs S)) w" using tot by (auto split: option.splits)
  have "ur_is_empty tot \<Longrightarrow> ram_bytes tot = 0" by (simp add: ur_is_empty_def)
  then show ?thesis unfolding S' using b u by (intro bytes_kept_row [where w = w]) (auto simp: tval_def)
qed

lemma update_resource_limits_still:
  assumes "update_resource_limits E w dn dc S = Inr S'"
  shows "still S S'"
proof -
  obtain R where R: "S' = S\<lparr>rs := R\<rparr>" using update_resource_limits_frame [OF assms] by blast
  show ?thesis
    using update_resource_limits_bytes [OF assms] update_resource_limits_quiet [OF assms] unfolding R
    by (auto simp: still_def intro: calm_rs)
qed

lemma limits_for_still: "limits_for E k w d S = Inr S' \<Longrightarrow> still S S'"
  by (cases k) (auto simp: limits_for_def dest: update_resource_limits_still)


lemma transfer_fund_promises:
  "transfer_to_fund core w q X = Inr X' \<Longrightarrow> promises X' = promises X"
  "transfer_from_fund E core w q X = Inr X' \<Longrightarrow> promises X' = promises X"
  by (auto simp: transfer_to_fund_def transfer_from_fund_def promises_def pool_field_def Let_def split: option.splits)

lemma fund_pools:
  "transfer_to_fund core w q X = Inr X' \<Longrightarrow> rexpool X' = rexpool X"
  by (auto simp: transfer_to_fund_def Let_def split: option.splits)

lemma on_vs_power: "on_vs (update_voting_power E w q) T = Inr S' \<Longrightarrow> books_kept (vs T) (vs S') \<and> rx S' = rx T"
  by (auto simp: on_vs_def dest: update_voting_power_books)

lemma update_rex_account_parts:
  assumes run: "update_rex_account E w p d force S = Inr (q, S')"
  shows "books_kept (vs S) (vs S')" "rexpool (rx S') = rexpool (rx S)"
proof -
  have "books_kept (vs S) (vs S') \<and> rexpool (rx S') = rexpool (rx S)"
  proof (cases "\<exists>r. fmlookup (rexorders (rx S)) w = Some r \<and> \<not> is_open r")
    case True
    then obtain r where r: "fmlookup (rexorders (rx S)) w = Some r" "\<not> is_open r" by blast
    show ?thesis using run r by (auto simp: update_rex_account_def Let_def split: if_splits dest!: on_vs_power fund_pools)
  next
    case False
    then show ?thesis using run
      by (auto simp: update_rex_account_def Let_def split: option.splits if_splits dest!: on_vs_power fund_pools)
  qed
  then show "books_kept (vs S) (vs S')" "rexpool (rx S') = rexpool (rx S)" by simp_all
qed

lemma promises_pool: "rexpool X' = rexpool X \<Longrightarrow> promises X' = promises X"
  by (simp add: promises_def pool_field_def)

lemma fill_rex_order_promises: "fill_rex_order E core w q X = Inr (r, X') \<Longrightarrow> promises X' = promises X"
  by (auto simp: fill_rex_order_def promises_def pool_field_def set_rexbal_def the_pool_def Let_def split: if_splits)

lemma expired_loan_promises:
  assumes "process_expired_loan E core l X = Inr (renewed, d, X')"
  shows "promises X' = promises X"
proof -
  obtain p0 p1 rented funded where p: "rexpool X = Some p0" "remove_loan_from_rex_pool l p0 = Inr p1"
    and r: "(if funded \<and> amount (l_payment l) < rented \<and> rex_loans_available (X\<lparr>rexpool := Some p1\<rparr>) then
       Inr (Some (fst (update_renewed_loan rented l)), snd (update_renewed_loan rented l),
         X\<lparr>rexpool := Some (add_loan_to_rex_pool (l_payment l) rented False p1)\<rparr>)
     else
       bindE (if 0 < amount (l_balance l) then transfer_to_fund core (l_from l) (l_balance l) (X\<lparr>rexpool := Some p1\<rparr>)
              else Inr (X\<lparr>rexpool := Some p1\<rparr>)) (\<lambda>X. Inr (None, i64 (- amount (total_staked l)), X))) =
      Inr (renewed, d, X')"
    using assms by (auto simp: process_expired_loan_def the_pool_def Let_def case_prod_beta cong: if_cong)
  have "namebid_proceeds p1 = namebid_proceeds p0" using p(2) by (auto simp: remove_loan_from_rex_pool_def Let_def)
  then have k: "promises (X\<lparr>rexpool := Some p1\<rparr>) = promises X" using p(1) by (simp add: promises_def pool_field_def)
  have "promises (X\<lparr>rexpool := Some (add_loan_to_rex_pool q n b p1)\<rparr>) = promises (X\<lparr>rexpool := Some p1\<rparr>)" for q n b
    by (simp add: promises_def pool_field_def add_loan_to_rex_pool_def Let_def)
  then show ?thesis using r k by (auto split: if_splits dest!: fund_pools promises_pool)
qed

lemma run_loans_still: "run_loans E k n S = Inr S' \<Longrightarrow> still S S'"
proof (induction n arbitrary: S)
  case (Suc n)
  show ?case
  proof (cases "first_of (index_by by_expr (loans k (rx S)))")
    case (Some loan)
    show ?thesis
    proof (cases "now E < expiration loan")
      case False
      then obtain renewed d X t S1 where p: "process_expired_loan E (core_symbol S) loan (rx S) = Inr (renewed, d, X)"
        and l: "limits_for E k (l_receiver loan) d (S\<lparr>rx := set_loans k t X\<rparr>) = Inr S1"
        and r: "run_loans E k n S1 = Inr S'"
        using Suc.prems Some by fastforce
      have "promises (set_loans k t X) = promises (rx S)"
        using expired_loan_promises [OF p] by (simp add: promises_def)
      then have "still S (S\<lparr>rx := set_loans k t X\<rparr>)" by (rule still_rx)
      also have "still (S\<lparr>rx := set_loans k t X\<rparr>) S1" using limits_for_still [OF l] .
      also have "still S1 S'" using Suc.IH [OF r] .
      finally show ?thesis .
    qed (use Suc.prems Some in simp)
  qed (use Suc.prems in simp)
qed simp

lemma run_orders_promises: "run_orders E core n os X = Inr (es, X') \<Longrightarrow> promises X' = promises X"
proof (induction E core n os X arbitrary: es X' rule: run_orders.induct)
  case (3 E core n order rest X)
  show ?case
  proof (cases "is_open order \<and> fmlookup (rexbalance X) (o_owner order) \<noteq> None")
    case True
    then obtain out X1 where f: "fill_rex_order E core (o_owner order) (rex_requested order) X = Inr (out, X1)"
      using 3(4) by auto
    note P = fill_rex_order_promises [OF f]
    show ?thesis
    proof (cases "success out")
      case ok: True
      let ?X = "X1\<lparr>rexorders := fmupd (o_owner order) (close_order
                (order\<lparr>proceeds := set_amt (amount (oo_proceeds out)) (proceeds order),
                stake_change := set_amt (amount (oo_stake_change out)) (stake_change order)\<rparr>)) (rexorders X1)\<rparr>"
      obtain fs where "run_orders E core n rest ?X = Inr (fs, X')"
        using 3(4) True f ok by (auto simp: Let_def)
      then have "promises X' = promises ?X" using 3(2) [OF _ _ f refl ok refl refl] True by auto
      then show ?thesis using P by (simp add: promises_def pool_field_def)
    next
      case False
      then show ?thesis using 3(3,4) True f P by auto
    qed
  next
    case False
    show ?thesis using 3(1) [of es X'] 3(4) False by (cases "is_open order") auto
  qed
qed simp_all

lemma distinct_still [simp]:
  "rex_account \<notin> still_accounts" "names_account \<notin> still_accounts" "stake_account \<notin> still_accounts"
  "ramfee_account \<notin> still_accounts" "eosio_account \<notin> still_accounts"
  by (simp_all add: still_accounts_def account_defs)

lemma proceeds_still:
  assumes "(if 0 < amount (namebid_proceeds p) then
          bindE (channel_to_rex E names_account (namebid_proceeds p) S) (\<lambda>S.
          bindE (the_pool (rx S)) (\<lambda>rt.
          Inr (S\<lparr>rx := (rx S)\<lparr>rexpool :=
            Some (rt\<lparr>namebid_proceeds := set_amt 0 (namebid_proceeds rt)\<rparr>)\<rparr>\<rparr>)))
        else Inr S) = Inr S1" "rexpool (rx S) = Some p"
  shows "still S S1"
proof (cases "0 < amount (namebid_proceeds p) \<and> rex_available (rx S)")
  case True
  let ?n = "namebid_proceeds p"
  let ?t = "Token_transfer [active_of names_account] names_account rex_account ?n
              (''transfer from '' @ name_to_string E names_account @ '' to eosio.rex'')"
  let ?p = "p\<lparr>total_unlent := inc_amt (amount ?n) (total_unlent p), total_lendable := inc_amt (amount ?n) (total_lendable p),
    namebid_proceeds := set_amt 0 ?n\<rparr>"
  have S1: "S1 = emit [?t] S\<lparr>rx := (rx S)\<lparr>rexpool := Some ?p\<rparr>\<rparr>"
    using assms True by (auto simp: channel_to_rex_def the_pool_def emit_def)
  have "\<forall>a\<in>still_accounts. rex_account \<noteq> a \<and> names_account \<noteq> a" using distinct_still by blast
  then have "calm S S1" using assms(2) by (auto simp: calm_def S1 promises_def pool_field_def)
  moreover have "stake_quiet S S1" by (rule stake_quietI [of _ _ "[?t]"]) (simp_all add: S1)
  ultimately show ?thesis by (simp add: still_def)
next
  case False
  then have "S1 = S \<or> 0 < amount (namebid_proceeds p) \<and>
      S1 = S\<lparr>rx := (rx S)\<lparr>rexpool := Some (p\<lparr>namebid_proceeds := set_amt 0 (namebid_proceeds p)\<rparr>)\<rparr>\<rparr>"
    using assms by (auto simp: channel_to_rex_def the_pool_def split: if_splits)
  then show ?thesis using assms(2) by (auto simp: still_def calm_def promises_def pool_field_def)
qed

lemma runrex_still:
  assumes "runrex E n S = Inr S'"
  shows "still S S'"
proof -
  obtain S1 S2 S3 es X and pool :: rex_pool where
    0: "rexpool (rx S) = Some pool" and
    1: "(if 0 < amount (namebid_proceeds pool) then
          bindE (channel_to_rex E names_account (namebid_proceeds pool) S) (\<lambda>S.
          bindE (the_pool (rx S)) (\<lambda>rt.
          Inr (S\<lparr>rx := (rx S)\<lparr>rexpool :=
            Some (rt\<lparr>namebid_proceeds := set_amt 0 (namebid_proceeds rt)\<rparr>)\<rparr>\<rparr>)))
        else Inr S) = Inr S1" and
    2: "run_loans E Cpu_loan n S1 = Inr S2" "run_loans E Net_loan n S2 = Inr S3" and
    3: "run_orders E (core_symbol S3) n (index_by by_time (rexorders (rx S3))) (rx S3) = Inr (es, X)" and
    S': "S' = emit es (S3\<lparr>rx := X\<rparr>)"
    using assms unfolding runrex_def bindE_eq_Inr the_pool_def by (clarsimp cong: if_cong)
  have "still S S1" using proceeds_still [OF 1 0] .
  also have "still S1 S2" using run_loans_still [OF 2(1)] .
  also have "still S2 S3" using run_loans_still [OF 2(2)] .
  also have "still S3 (S3\<lparr>rx := X\<rparr>)" by (rule still_rx) (rule run_orders_promises [OF 3])
  also have "still (S3\<lparr>rx := X\<rparr>) S'" unfolding S' by (rule still_emit) (use run_orders_quiet [OF 3] in simp)
  finally show ?thesis .
qed

lemma update_rex_account_still:
  assumes "update_rex_account E w p d force S = Inr (q, S')"
  shows "still S S'"
proof -
  have "still S (S\<lparr>vs := vs S'\<rparr>)" by (rule still_vs) (rule update_rex_account_parts(1) [OF assms])
  also have "still (S\<lparr>vs := vs S'\<rparr>) (S\<lparr>vs := vs S'\<rparr>\<lparr>rx := rx S'\<rparr>)"
    by (rule still_rx) (use promises_pool [OF update_rex_account_parts(2) [OF assms]] in simp)
  also have "S\<lparr>vs := vs S'\<rparr>\<lparr>rx := rx S'\<rparr> = S'" using update_rex_account_frame [OF assms] by simp
  finally show ?thesis .
qed

lemma refresh_rex_stake_pool: "refresh_rex_stake E core w X = Inr (d, X') \<Longrightarrow> rexpool X' = rexpool X"
  by (auto simp: refresh_rex_stake_def set_rexbal_def split: option.splits if_splits)

lemma update_rex_stake_still:
  assumes "update_rex_stake E w S = Inr S'"
  shows "still S S'"
proof -
  obtain d X where r: "refresh_rex_stake E (core_symbol S) w (rx S) = Inr (d, X)"
    using assms by (auto simp: update_rex_stake_def Let_def)
  have S': "S' = S\<lparr>rx := X\<rparr> \<or> (\<exists>v. S' = S\<lparr>rx := X\<rparr>\<lparr>vs := (vs S)\<lparr>voters := v\<rparr>\<rparr>)"
    using assms r by (cases "fmlookup (voters (vs S)) w"; cases "d = 0") (auto simp: update_rex_stake_def Let_def)
  have "still S (S\<lparr>rx := X\<rparr>)" by (rule still_rx) (rule promises_pool [OF refresh_rex_stake_pool [OF r]])
  moreover have "still (S\<lparr>rx := X\<rparr>) (S\<lparr>rx := X\<rparr>\<lparr>vs := (vs S)\<lparr>voters := v\<rparr>\<rparr>)" for v by (rule still_vs) simp
  ultimately show ?thesis using S' still_trans by blast
qed

section \<open>The actions of the REX\<close>

lemma add_to_rex_pool_promises:
  "lib_ok E \<Longrightarrow> add_to_rex_pool E core q X = Inr (r, X') \<Longrightarrow> promises X' = promises X"
  by (cases "rexpool X"; cases "rex_available X")
    (auto simp: add_to_rex_pool_def promises_def pool_field_def Let_def new_asset_lib)

lemma add_to_rex_balance_pool: "add_to_rex_balance E core w q r X = Inr (d, X') \<Longrightarrow> rexpool X' = rexpool X"
  by (auto simp: add_to_rex_balance_def set_rexbal_def Let_def case_prod_beta)

lemma enqueue_order_pool: "enqueue_order E core w q X = Inr (n, X') \<Longrightarrow> rexpool X' = rexpool X"
  by (auto simp: enqueue_order_def Let_def split: option.splits)

lemma put_rexbal_still [simp]: "still S (put_rexbal w rb S)"
  by (auto simp: put_rexbal_def set_rexbal_def intro!: still_rx promises_pool)

end
