(* ===== verification/Rex_Frames.thy ===== *)
theory Rex_Frames
  imports Frames
begin

text \<open>
  The actions of the REX leave the books of all other components alone: memory, producer pay and
  stakes are untouched, and auction proceeds only move to the pool they were promised to.
\<close>

text \<open>The accounts on which the contract holds tokens of others. They do not act as users.\<close>

definition escrows :: "name set" where
  "escrows = {rex_account, names_account, stake_account, ram_account, bpay_account, vpay_account}"

lemma user_distinct:
  assumes "w \<notin> escrows"
  shows "w \<noteq> rex_account" "w \<noteq> names_account" "w \<noteq> stake_account" "w \<noteq> ram_account" "w \<notin> still_accounts"
    "rex_account \<noteq> w" "names_account \<noteq> w" "stake_account \<noteq> w" "ram_account \<noteq> w"
  using assms by (auto simp: escrows_def still_accounts_def)

lemma rex_transfer_still:
  assumes "w \<notin> escrows" "{from, to} = {w, rex_account}"
  shows "still S (emit [Token_transfer ps from to q m] S)"
  by (rule still_emit) (use assms user_distinct [OF assms(1)] distinct_still in \<open>auto simp: doubleton_eq_iff\<close>)

lemma result_still [simp]:
  "still S (emit [] S)" "still S (emit [Rex_buyresult q] S)" "still S (emit [Rex_sellresult q] S)" "still S (emit [Rex_rentresult q] S)"
  by (rule still_emit; simp)+

lemma deposit_still:
  assumes "w \<notin> escrows" "deposit E w q S = Inr S'"
  shows "still S S'"
proof -
  let ?t = "Token_transfer [active_of w] w rex_account q ''deposit to REX fund''"
  have "still S (emit [?t] S)" by (rule rex_transfer_still [OF assms(1)]) simp
  also have "on_rx (transfer_to_fund (core_symbol S) w q) (emit [?t] S) = Inr S'"
    using assms(2) by (auto simp: deposit_def)
  then have "still (emit [?t] S) S'" by (rule on_rx_still) (rule transfer_fund_promises(1))
  finally show ?thesis .
qed

lemma withdraw_still:
  assumes "w \<notin> escrows" "withdraw E w q S = Inr S'"
  shows "still S S'"
proof -
  let ?t = "Token_transfer [active_of rex_account] rex_account w q ''withdraw from REX fund''"
  obtain z r S1 S2 where u: "update_rex_account E w z z False S = Inr (r, S1)"
    and f: "on_rx (transfer_from_fund E (core_symbol S1) w q) S1 = Inr S2" and S': "S' = emit [?t] S2"
    using assms(2) by (auto simp: withdraw_def)
  have "still S S1" using u by (rule update_rex_account_still)
  also have "still S1 S2" using f by (rule on_rx_still) (rule transfer_fund_promises(2))
  also have "still S2 S'" unfolding S' by (rule rex_transfer_still [OF assms(1)]) auto
  finally show ?thesis .
qed

text \<open>What buying does after the payment is taken.\<close>

lemma purchase_still:
  assumes "lib_ok E" "add_to_rex_pool E core pay (rx S) = Inr (recv, X1)" "add_to_rex_balance E core w pay recv X1 = Inr (delta, X2)"
    and "runrex E n (S\<lparr>rx := X2\<rparr>) = Inr S1" "update_rex_account E w z d force S1 = Inr (q, S2)"
  shows "still S (emit [Rex_buyresult recv] S2)"
proof -
  have "promises X2 = promises (rx S)"
    using add_to_rex_pool_promises [OF assms(1,2)] promises_pool [OF add_to_rex_balance_pool [OF assms(3)]] by simp
  then have "still S (S\<lparr>rx := X2\<rparr>)" by (rule still_rx)
  also have "still (S\<lparr>rx := X2\<rparr>) S1" using assms(4) by (rule runrex_still)
  also have "still S1 S2" using assms(5) by (rule update_rex_account_still)
  also have "still S2 (emit [Rex_buyresult recv] S2)" by simp
  finally show ?thesis .
qed

lemma buyrex_still:
  assumes E: "lib_ok E" and run: "buyrex E w q S = Inr S'"
  shows "still S S'"
proof -
  obtain X0 recv X1 delta X2 S1 z r S2 where
    x: "transfer_from_fund E (core_symbol S) w q (rx S) = Inr X0"
      "add_to_rex_pool E (core_symbol S) q (rx (S\<lparr>rx := X0\<rparr>)) = Inr (recv, X1)"
      "add_to_rex_balance E (core_symbol S) w q recv X1 = Inr (delta, X2)"
      "runrex E 2 (S\<lparr>rx := X0\<rparr>\<lparr>rx := X2\<rparr>) = Inr S1" "update_rex_account E w z delta False S1 = Inr (r, S2)"
    and S': "S' = emit [Rex_buyresult recv] S2"
    using run by (auto simp: buyrex_def)
  have "still S (S\<lparr>rx := X0\<rparr>)" by (rule still_rx) (rule transfer_fund_promises(2) [OF x(1)])
  also have "still (S\<lparr>rx := X0\<rparr>) S'" unfolding S' by (rule purchase_still [OF E x(2-5)])
  finally show ?thesis .
qed

lemma take_delband_userres: "take_delband w r net cpu R = Inr R' \<Longrightarrow> userres R' = userres R"
  by (auto simp: take_delband_def Let_def)

text \<open>The one action of the REX that takes from the stakes.\<close>

lemma unstaketorex_calm:
  assumes E: "lib_ok E" and run: "unstaketorex E w receiver net cpu S = Inr S'"
  shows "calm S S'"
proof -
  obtain R S0 pay where r: "take_delband w receiver net cpu (rs S) = Inr R"
    and s0: "update_resource_limits E receiver (i64 (- amount net)) (i64 (- amount cpu)) (S\<lparr>rs := R\<rparr>) = Inr S0"
    and run: "(let S = emit [Token_transfer [active_of stake_account] stake_account rex_account pay
           ''buy REX with staked tokens''] S0 in
     bindE (add_to_rex_pool E (core_symbol S) pay (rx S)) (\<lambda>(rex_received, X).
     bindE (add_to_rex_balance E (core_symbol S) w pay rex_received X) (\<lambda>(_, X).
     bindE (runrex E 2 (S\<lparr>rx := X\<rparr>)) (\<lambda>S.
     bindE (zero_core E S) (\<lambda>zero.
     bindE (update_rex_account E w zero zero True S) (\<lambda>(_, S).
     Inr (emit [Rex_buyresult rex_received] S))))))) = Inr S'"
    using run unfolding unstaketorex_def bindE_eq_Inr by blast
  let ?t = "Token_transfer [active_of stake_account] stake_account rex_account pay ''buy REX with staked tokens''"
  let ?S = "emit [?t] S0"
  obtain recv X1 delta X2 S1 z q S2 where
    x: "add_to_rex_pool E (core_symbol ?S) pay (rx ?S) = Inr (recv, X1)"
      "add_to_rex_balance E (core_symbol ?S) w pay recv X1 = Inr (delta, X2)"
      "runrex E 2 (?S\<lparr>rx := X2\<rparr>) = Inr S1" "update_rex_account E w z z True S1 = Inr (q, S2)"
    and S': "S' = emit [Rex_buyresult recv] S2"
    using run unfolding Let_def bindE_eq_Inr by clarsimp
  have "calm S (S\<lparr>rs := R\<rparr>)" by (rule calm_rs) (rule bytes_kept_userres [OF take_delband_userres [OF r]])
  also have "calm (S\<lparr>rs := R\<rparr>) S0" by (rule still_calm [OF update_resource_limits_still [OF s0]])
  also have "calm S0 ?S"
    using distinct_still by (auto simp: calm_def)
  also have "calm ?S S'" unfolding S' by (rule still_calm [OF purchase_still [OF E x]])
  finally show ?thesis .
qed


lemma sellrex_still:
  assumes run: "sellrex E w q S = Inr S'"
  shows "still S S'"
proof -
  obtain S1 rb core order X r S3 n X' where
    r: "runrex E 2 S = Inr S1" and
    f: "fill_rex_order E core w q (set_rexbal w rb (rx S1)) = Inr (order, X)" and
    u: "update_rex_account E w (oo_proceeds order) (oo_stake_change order) False (S1\<lparr>rx := X\<rparr>) = Inr (r, S3)" and
    n: "(if \<not> success order then
          bindE (check (w \<noteq> b1_account) ''b1 sellrex orders should not be queued'') (\<lambda>_.
          enqueue_order E (core_symbol S3) w q (rx S3))
        else Inr (amount r, rx S3)) = Inr (n, X')" and
    S': "S' = emit (if success order then [Rex_sellresult (oo_proceeds order)] else []) (S3\<lparr>rx := X'\<rparr>)"
    using run unfolding sellrex_def Let_def put_rexbal_def bindE_eq_Inr by clarsimp
  have "promises X = promises (rx S1)"
    using fill_rex_order_promises [OF f] by (simp add: promises_def pool_field_def set_rexbal_def)
  then have x: "still S1 (S1\<lparr>rx := X\<rparr>)" by (rule still_rx)
  have "still S S1" using r by (rule runrex_still)
  also note x
  also have "still (S1\<lparr>rx := X\<rparr>) S3" using u by (rule update_rex_account_still)
  also have "rexpool X' = rexpool (rx S3)" using n by (auto split: if_splits dest: enqueue_order_pool)
  then have "still S3 (S3\<lparr>rx := X'\<rparr>)" by (intro still_rx promises_pool)
  also have "still (S3\<lparr>rx := X'\<rparr>) S'" unfolding S' by simp
  finally show ?thesis .
qed

lemma cnclrexorder_still: "on_rx (cnclrexorder E w) S = Inr S' \<Longrightarrow> still S S'"
  by (erule on_rx_still) (auto simp: cnclrexorder_def intro: promises_pool)

lemma new_loan_promises:
  "rexpool X = Some p \<Longrightarrow> promises (set_loans k t (X\<lparr>rexpool := Some (add_loan_to_rex_pool pay n b p)\<rparr>)) = promises X"
  by (simp add: promises_def add_loan_to_rex_pool_def pool_field_def Let_def)

lemma rent_loan_still:
  assumes E: "lib_ok E" and run: "rent_loan E k w receiver pay fund S = Inr S'"
  shows "still S S'"
  using E run
proof (rule rent_loan_parts)
  fix S1 both X2 p rented cs tab
  assume r: "runrex E 2 S = Inr S1" and f: "transfer_from_fund E (core_symbol S1) w both (rx S1) = Inr X2"
    and p: "rexpool X2 = Some p" and
    l: "limits_for E k receiver rented (emit [Rex_rentresult \<lparr>amount = rented, symbol = cs\<rparr>]
      (S1\<lparr>rx := set_loans k tab (X2\<lparr>rexpool := Some (add_loan_to_rex_pool pay rented True p)\<rparr>)\<rparr>)) = Inr S'"
  let ?X = "set_loans k tab (X2\<lparr>rexpool := Some (add_loan_to_rex_pool pay rented True p)\<rparr>)"
  have "still S S1" using r by (rule runrex_still)
  also have "still S1 (S1\<lparr>rx := ?X\<rparr>)"
    using new_loan_promises [OF p] transfer_fund_promises(2) [OF f] by (intro still_rx) simp
  also have "still (S1\<lparr>rx := ?X\<rparr>) (emit [Rex_rentresult \<lparr>amount = rented, symbol = cs\<rparr>] (S1\<lparr>rx := ?X\<rparr>))" by simp
  also have "still (emit [Rex_rentresult \<lparr>amount = rented, symbol = cs\<rparr>] (S1\<lparr>rx := ?X\<rparr>)) S'"
    using l by (rule limits_for_still)
  finally show ?thesis .
qed

lemma loan_fund_promises:
  "fund_rex_loan E core k w n q X = Inr X' \<Longrightarrow> promises X' = promises X"
  "defund_rex_loan E core k w n q X = Inr X' \<Longrightarrow> promises X' = promises X"
  by (auto simp: fund_rex_loan_def defund_rex_loan_def promises_def dest!: transfer_fund_promises [unfolded promises_def])

lemma fund_loan_still: "fund_loan E k w n q S = Inr S' \<Longrightarrow> still S S'"
  by (auto simp: fund_loan_def elim!: on_rx_still dest: loan_fund_promises)

lemma defund_loan_still: "defund_loan E k w n q S = Inr S' \<Longrightarrow> still S S'"
  by (auto simp: defund_loan_def elim!: on_rx_still dest: loan_fund_promises)

lemma updaterex_still:
  assumes run: "updaterex E w S = Inr S'"
  shows "still S S'"
proof -
  obtain S1 rb z d r S2 rb' where r: "runrex E 2 S = Inr S1"
    and u: "update_rex_account E w z d True (put_rexbal w rb S1) = Inr (r, S2)" and S': "S' = put_rexbal w rb' S2"
    using run by (auto simp: updaterex_def Let_def)
  have "still S S1" using r by (rule runrex_still)
  also have "still S1 (put_rexbal w rb S1)" by simp
  also have "still (put_rexbal w rb S1) S2" using u by (rule update_rex_account_still)
  also have "still S2 S'" by (simp add: S')
  finally show ?thesis .
qed

lemma setrex_still: "setrex E q S = Inr S' \<Longrightarrow> still S S'"
  by (auto simp: setrex_def the_pool_def promises_def pool_field_def intro!: still_rx)

lemma rexexec_still: "rexexec E w n S = Inr S' \<Longrightarrow> still S S'"
  by (auto simp: rexexec_def intro: runrex_still)

text \<open>Maintenance, settling of the account, and a new row: the frame of the actions on maturities.\<close>

lemma settled_row_still:
  assumes "runrex E n S = Inr S1" "update_rex_account E w z d force S1 = Inr (r, S2)"
  shows "still S (put_rexbal w rb S2)"
  using runrex_still [OF assms(1)] update_rex_account_still [OF assms(2)] put_rexbal_still still_trans by blast

lemma consolidate_still: "consolidate E w S = Inr S' \<Longrightarrow> still S S'"
  by (auto simp: consolidate_def intro: settled_row_still)

lemma mvtosavings_still: "mvtosavings E w q S = Inr S' \<Longrightarrow> still S S'"
  by (auto simp: mvtosavings_def Let_def case_prod_beta intro: settled_row_still)

lemma mvfrsavings_still:
  assumes run: "mvfrsavings E w q S = Inr S'"
  shows "still S S'"
proof -
  obtain S1 rb z d r where r: "runrex E 2 S = Inr S1"
    and u: "update_rex_account E w z d False (put_rexbal w rb S1) = Inr (r, S')"
    using run by (auto simp: mvfrsavings_def Let_def case_prod_beta)
  have "still S S1" using r by (rule runrex_still)
  also have "still S1 (put_rexbal w rb S1)" by simp
  also have "still (put_rexbal w rb S1) S'" using u by (rule update_rex_account_still)
  finally show ?thesis .
qed

lemma closerex_still:
  assumes run: "closerex E w S = Inr S'"
  shows "still S S'"
proof -
  obtain S1 z r S2 where r: "(if rex_system_initialized (rx S) then runrex E 2 S else Inr S) = Inr S1"
    and u: "update_rex_account E w z z False S1 = Inr (r, S2)"
    and d: "on_rx (drop_balance w) (S2\<lparr>rx := drop_fund w (rx S2)\<rparr>) = Inr S'"
    using run unfolding closerex_def bindE_eq_Inr by (clarsimp cong: if_cong)
  have "still S S1" using r by (auto split: if_splits intro: runrex_still)
  also have "still S1 S2" using u by (rule update_rex_account_still)
  also have "still S2 (S2\<lparr>rx := drop_fund w (rx S2)\<rparr>)"
    by (intro still_rx promises_pool) (simp add: drop_fund_def split: option.split)
  also have "still (S2\<lparr>rx := drop_fund w (rx S2)\<rparr>) S'"
    using d by (rule on_rx_still) (auto simp: drop_balance_def intro: promises_pool split: option.splits)
  finally show ?thesis .
qed

text \<open>All of them.\<close>

fun rex_user :: "rex_action \<Rightarrow> name" where
  "rex_user (Deposit w q) = w"
| "rex_user (Withdraw w q) = w"
| "rex_user _ = eosio_account"

fun takes_stake :: "rex_action \<Rightarrow> bool" where
  "takes_stake (Unstaketorex w r net cpu) \<longleftrightarrow> True"
| "takes_stake _ \<longleftrightarrow> False"

lemma rex_exec_still:
  assumes "lib_ok E" "rex_user a \<notin> escrows" "\<not> takes_stake a" "rex_exec E a S = Inr S'"
  shows "still S S'"
  using assms
  by (cases a)
    (auto simp: rentcpu_def rentnet_def fundcpuloan_def fundnetloan_def defcpuloan_def defnetloan_def
      intro: deposit_still withdraw_still buyrex_still sellrex_still cnclrexorder_still rent_loan_still fund_loan_still
        defund_loan_still updaterex_still setrex_still rexexec_still consolidate_still mvtosavings_still
        mvfrsavings_still closerex_still)

lemma rex_exec_calm:
  assumes "lib_ok E" "rex_user a \<notin> escrows" "rex_exec E a S = Inr S'"
  shows "calm S S'"
proof (cases "takes_stake a")
  case True
  then show ?thesis using assms by (cases a) (auto intro: unstaketorex_calm)
next
  case False
  then show ?thesis using rex_exec_still [OF assms(1,2) _ assms(3)] still_calm by blast
qed

end
