(* ===== verification/Cross.thy ===== *)
theory Cross
  imports Rex_Frames
begin

text \<open>
  What the memory market, auctions, staking, voting, pay and the privileged actions leave alone of
  the books of each other and of the REX; fees of the market are the only tokens that cross, and
  they arrive in the pool.
\<close>

section \<open>The books apart\<close>

definition memory_of :: "voting_state \<Rightarrow> int \<times> int \<times> int" where
  "memory_of V = (max_ram_size (gstate V), total_ram_bytes_reserved (gstate V), total_ram_stake (gstate V))"

definition pay_kept :: "voting_state \<Rightarrow> voting_state \<Rightarrow> bool" where
  "pay_kept V V' \<longleftrightarrow> pervote_bucket (gstate V') = pervote_bucket (gstate V) \<and>
     perblock_bucket (gstate V') = perblock_bucket (gstate V) \<and>
     total_unpaid_blocks (gstate V') = total_unpaid_blocks (gstate V) \<and> unpaid_sum V' = unpaid_sum V \<and>
     (unpaid_ok V \<longrightarrow> unpaid_ok V')"

lemma books_parts: "books_kept V V' \<longleftrightarrow> memory_of V' = memory_of V \<and> pay_kept V V'"
  by (auto simp: books_kept_def ledgers_def memory_of_def pay_kept_def Let_def)

lemma pay_inv_alt: "pay_inv S \<longleftrightarrow> unpaid_sum (vs S) = total_unpaid_blocks (gstate (vs S)) \<and> unpaid_ok (vs S) \<and>
     total_unpaid_blocks (gstate (vs S)) < 2 ^ 32 \<and> 0 \<le> perblock_bucket (gstate (vs S))"
  by (simp add: pay_inv_def unpaid_ok_def)

lemma pay_kept_inv: "pay_kept (vs S) (vs S') \<Longrightarrow> pay_inv S \<Longrightarrow> pay_inv S'"
  by (simp add: pay_inv_alt pay_kept_def)

text \<open>A step that leaves pay, auctions and stakes alone and is sound for the REX.\<close>

definition beside :: "system_state \<Rightarrow> system_state \<Rightarrow> bool" where
  "beside S S' \<longleftrightarrow> pay_kept (vs S) (vs S') \<and> ns S' = ns S \<and> promises (rx S') = promises (rx S) \<and>
     (\<exists>es. effects S' = effects S @ es \<and> (\<forall>a\<in>{bpay_account, vpay_account, names_account}. moved a es = 0))"

definition apart :: "system_state \<Rightarrow> system_state \<Rightarrow> bool" where
  "apart S S' \<longleftrightarrow> beside S S' \<and> stake_quiet S S' \<and> sound S S'"

lemma pay_kept_refl [simp]: "pay_kept V V"
  by (simp add: pay_kept_def)

lemma pay_kept_same: "gstate V' = gstate V \<Longrightarrow> producers V' = producers V \<Longrightarrow> pay_kept V V'"
  using books_kept_same books_parts by blast

lemma pay_kept_trans: "pay_kept V V1 \<Longrightarrow> pay_kept V1 V2 \<Longrightarrow> pay_kept V V2"
  by (simp add: pay_kept_def)

lemma beside_trans:
  assumes "beside S S1" "beside S1 S2"
  shows "beside S S2"
proof -
  let ?A = "{bpay_account, vpay_account, names_account}"
  from assms obtain es fs where e: "effects S1 = effects S @ es" "\<forall>a\<in>?A. moved a es = 0"
    "effects S2 = effects S1 @ fs" "\<forall>a\<in>?A. moved a fs = 0"
    unfolding beside_def by blast
  then have "effects S2 = effects S @ es @ fs \<and> (\<forall>a\<in>?A. moved a (es @ fs) = 0)" by simp
  moreover have "pay_kept (vs S) (vs S2)" "ns S2 = ns S" "promises (rx S2) = promises (rx S)"
    using assms pay_kept_trans unfolding beside_def by (blast, simp_all)
  ultimately show ?thesis unfolding beside_def by blast
qed

lemma apart_trans [trans]: "apart S S1 \<Longrightarrow> apart S1 S2 \<Longrightarrow> apart S S2"
  unfolding apart_def using beside_trans stake_quiet_trans sound_trans by blast

lemma apart_inv: "apart S S' \<Longrightarrow> rex_inv (rx S')"
  by (simp add: apart_def sound_def)

text \<open>A step on the tables of the market, and one that sends effects.\<close>

lemma apart_market:
  assumes "rex_inv (rx S)" "pay_kept (vs S) V" "delband R = delband (rs S)" "refunds R = refunds (rs S)"
  shows "apart S (S\<lparr>rammarket := M, vs := V, rs := R\<rparr>)"
  using assms by (auto simp: apart_def beside_def intro: sound_same stake_quietI [of _ _ "[]"])

lemma apart_emit:
  assumes "rex_inv (rx S)" "\<forall>a\<in>escrows - {ram_account}. moved a es = 0"
  shows "apart S (emit es S)"
  using assms by (auto simp: apart_def beside_def escrows_def account_defs intro!: sound_emit [of _ _ es] stake_quiet_emit)

lemma channel_apart:
  assumes X: "rex_inv (rx S)" "rex_claims (rx S) + amount q \<le> core_cap" "0 \<le> amount q" and a: "a \<notin> escrows"
    and run: "channel_to_rex E a q S = Inr S'"
  shows "apart S S'"
proof (cases "rex_available (rx S) \<and> (\<exists>p. rexpool (rx S) = Some p)")
  case False
  then have "S' = S" using run by (auto simp: channel_to_rex_def split: option.splits)
  then show ?thesis using X(1) by (auto simp: apart_def beside_def pay_kept_def intro: sound_same)
next
  case True
  then obtain p where p: "rexpool (rx S) = Some p" "rex_available (rx S)" by blast
  note I = inv_parts [OF X(1)]
  note D = rex_okD [OF I(1)] and B = owed_bounds [OF I(1)]
  let ?n = "amount q"
  have ok: "pool_ok (staked_sum (cpu_loans (rx S)) + staked_sum (net_loans (rx S))) p" using D(5) p(1) by blast
  have "0 \<le> pool_field namebid_proceeds (rx S)" using ok p(1) by (simp add: pool_ok_def pool_field_def)
  then have le: "amount (total_lendable p) + ?n \<le> core_cap"
    using B(8) X(2) p(1) by (simp add: rex_claims_def pool_field_def)
  have w: "i64 (amount (total_lendable p) + ?n) = amount (total_lendable p) + ?n"
    "i64 (amount (total_unlent p) + ?n) = amount (total_unlent p) + ?n"
    using le ok X(3) by (auto intro!: i64_small simp: pool_ok_def core_cap_def)
  let ?t = "Token_transfer [active_of a] a rex_account q (''transfer from '' @ name_to_string E a @ '' to eosio.rex'')"
  let ?p = "p\<lparr>total_unlent := inc_amt ?n (total_unlent p), total_lendable := inc_amt ?n (total_lendable p)\<rparr>"
  let ?X = "(rx S)\<lparr>rexpool := Some ?p\<rparr>"
  have S': "S' = emit [?t] (S\<lparr>rx := ?X\<rparr>)" using run p by (auto simp: channel_to_rex_def)
  have R: "0 < amount (total_rex p)" using p by (simp add: rex_available_def)
  have "rex_ok ?X" using D ok w X(3) by (simp add: rex_ok_def funds_ok_def orders_ok_def pool_ok_def)
  moreover have "holdings_ok ?X"
    by (rule holdings_ok_pool [OF I(2)]) (use w p(1) X(3) R in \<open>auto simp: pool_field_def\<close>)
  moreover have "orders_backed ?X" by (rule orders_backed_frame [OF I(3)]) simp_all
  moreover have "promise_ok ?X" using I(4) p(1) by (simp add: promise_ok_def pool_field_def)
  ultimately have inv: "rex_inv ?X" by (simp add: rex_inv_def)
  have owed: "rex_owed ?X = rex_owed (rx S) + ?n" using p(1) w by (simp add: rex_owed_def sum_defs)
  note u = user_distinct [OF a]
  have "sound S S'" by (rule sound_emit [of _ _ "[?t]"]) (use inv owed u in \<open>simp_all add: S'\<close>)
  moreover have "stake_quiet S S'" by (rule stake_quietI [of _ _ "[?t]"]) (use u in \<open>simp_all add: S'\<close>)
  moreover have "beside S S'"
    using p(1) a by (auto simp: beside_def S' pay_kept_def promises_def pool_field_def escrows_def account_defs)
  ultimately show ?thesis by (simp add: apart_def)
qed


section \<open>The memory market\<close>

lemma update_ram_supply_parts:
  assumes "update_ram_supply E S = Inr S'"
  shows "\<exists>M V. S' = S\<lparr>rammarket := M, vs := V, rs := rs S\<rparr> \<and> pay_kept (vs S) V"
proof (cases "block_slot E \<le> last_ram_increase (gstate2 (vs S))")
  case True
  then have "S' = S" using assms by (simp add: update_ram_supply_def)
  then show ?thesis by (intro exI [of _ "rammarket S"] exI [of _ "vs S"]) simp
next
  case False
  let ?V = "\<lambda>n. (vs S)\<lparr>gstate := (gstate (vs S))\<lparr>max_ram_size := n\<rparr>,
    gstate2 := (gstate2 (vs S))\<lparr>last_ram_increase := block_slot E\<rparr>\<rparr>"
  obtain n m where "S' = S\<lparr>rammarket := m, vs := ?V n\<rparr>"
    using assms False by (auto simp: update_ram_supply_def Let_def set_gstate_def)
  moreover have "pay_kept (vs S) (?V n)" by (simp add: pay_kept_def unpaid_sum_def unpaid_ok_def)
  ultimately show ?thesis by auto
qed

lemma update_ram_supply_apart:
  assumes "rex_inv (rx S)" "update_ram_supply E S = Inr S'"
  shows "apart S S'" "rx S' = rx S"
proof -
  obtain M V where S': "S' = S\<lparr>rammarket := M, vs := V, rs := rs S\<rparr>" and V: "pay_kept (vs S) V"
    using update_ram_supply_parts [OF assms(2)] by blast
  show "apart S S'" unfolding S' by (rule apart_market [OF assms(1) V]) simp_all
  show "rx S' = rx S" by (simp add: S')
qed

text \<open>A fee sent to the fee account and on to the pool.\<close>

lemma fee_apart:
  assumes X: "rex_inv (rx S)" "rex_claims (rx S) + amount fee \<le> core_cap" and w: "w \<notin> escrows"
    and run: "(if 0 < amount fee then channel_to_rex E ramfee_account fee (emit [Token_transfer ps w ramfee_account fee memo] S)
      else Inr S) = Inr S'"
  shows "apart S S'"
proof (cases "0 < amount fee")
  case True
  let ?S = "emit [Token_transfer ps w ramfee_account fee memo] S"
  have f: "ramfee_account \<notin> escrows" by (simp add: escrows_def account_defs)
  have "apart S ?S" by (rule apart_emit [OF X(1)]) (use w f in auto)
  moreover have "apart ?S S'" by (rule channel_apart [OF _ _ _ f]) (use X True run in simp_all)
  ultimately show ?thesis by (rule apart_trans)
next
  case False
  then have "S' = S" using run by simp
  then show ?thesis using X(1) apart_market [of S "vs S" "rs S" "rammarket S"] by simp
qed

lemma trade_pay_kept:
  "pay_kept V (V\<lparr>gstate := (gstate V)\<lparr>total_ram_bytes_reserved := r, total_ram_stake := s\<rparr>\<rparr>)"
  by (simp add: pay_kept_def unpaid_sum_def unpaid_ok_def)

lemma buyram_apart:
  assumes E: "lib_ok E" and X: "rex_inv (rx S)" "rex_claims (rx S) + half_percent (amount q) \<le> core_cap"
    and w: "payer \<notin> escrows" and run: "buyram E payer receiver q S = Inr S'"
  shows "apart S S'"
proof -
  let ?f = "set_amt (half_percent (amount q)) q" and ?q = "inc_amt (- amount (set_amt (half_percent (amount q)) q)) q"
  let ?t = "Token_transfer [active_of payer, active_of ram_account] payer ram_account ?q ''buy ram''"
  obtain S1 S2 M r s R a n V0 R0 where
    1: "update_ram_supply E S = Inr S1" and
    4: "(if 0 < amount ?f then
          channel_to_rex E ramfee_account ?f
            (emit [Token_transfer [active_of payer] payer ramfee_account ?f ''ram fee''] (emit [?t] S1))
        else Inr (emit [?t] S1)) = Inr S2" and
    9: "set_ram_limit a n V0 ((rs S2)\<lparr>userres := R0\<rparr>) = Inr R" and
    10: "S' = S2\<lparr>rammarket := M,
      vs := (vs S2)\<lparr>gstate := (gstate (vs S2))\<lparr>total_ram_bytes_reserved := r, total_ram_stake := s\<rparr>\<rparr>, rs := R\<rparr>"
    using run by (auto simp: buyram_def Let_def the_market_def set_gstate_def)
  note A = update_ram_supply_apart [OF X(1) 1]
  have i1: "rex_inv (rx S1)" by (rule apart_inv [OF A(1)])
  note A(1)
  also have "apart S1 (emit [?t] S1)" by (rule apart_emit [OF i1]) (use w in \<open>auto simp: escrows_def account_defs\<close>)
  also have "apart (emit [?t] S1) S2" by (rule fee_apart [OF _ _ w 4]) (use X i1 A(2) in simp_all)
  finally have s2: "apart S S2" .
  also have "apart S2 S'"
    unfolding 10 by (rule apart_market [OF apart_inv [OF s2] trade_pay_kept]) (use set_ram_limit_frame [OF 9] in simp_all)
  finally show ?thesis .
qed

lemma sellram_apart:
  assumes E: "lib_ok E" and X: "rex_inv (rx S)" "ram_inv S" "ram_small S"
    and c: "\<And>m. rammarket S = Some m \<Longrightarrow> rex_claims (rx S) + quote_of m \<le> core_cap"
    and w: "w \<notin> escrows" and run: "sellram E w n S = Inr S'"
  shows "apart S S'"
proof -
  let ?t = "\<lambda>out. Token_transfer [active_of ram_account, active_of w] ram_account w out ''sell ram''"
  let ?S = "\<lambda>S1 m' r s R. S1\<lparr>rammarket := Some m', vs := (vs S1)\<lparr>gstate := (gstate (vs S1))\<lparr>total_ram_bytes_reserved := r,
                   total_ram_stake := s\<rparr>\<rparr>, rs := R\<rparr>"
  obtain S1 row m out m' R a k V0 R0 r s cs where
    1: "update_ram_supply E S = Inr S1" and
    row: "0 < n" "fmlookup (userres (rs S1)) w = Some row" "n \<le> ram_bytes row" "rammarket S1 = Some m" "core_symbol S1 = Inr cs" and
    2: "set_ram_limit a k V0 ((rs S1)\<lparr>userres := R0\<rparr>) = Inr R" and
    d: "direct_convert E \<lparr>amount = n, symbol = ram_symbol\<rparr> cs m = Inr (out, m')" "1 < amount out" and
    3: "(if 0 < half_percent (amount out) then
           bindE (new_asset E (half_percent (amount out)) cs) (\<lambda>q.
           channel_to_rex E ramfee_account q
             (emit [Token_transfer [active_of w] w ramfee_account q ''sell ram fee''] (emit [?t out] (?S S1 m' r s R))))
         else Inr (emit [?t out] (?S S1 m' r s R))) = Inr S'"
    using run
    by (auto simp: sellram_def Let_def the_market_def set_gstate_def new_asset_lib [OF E] cong: if_cong)
  note A = update_ram_supply_apart [OF X(1) 1] and U = update_ram_supply_law [OF X(2,3) 1]
  note C = sellram_convert [OF E X(2,3) 1 row d(1)]
  have i1: "rex_inv (rx S1)" by (rule apart_inv [OF A(1)])
  let ?S1 = "?S S1 m' r s R" and ?h = "half_percent (amount out)"
  let ?f = "\<lparr>amount = ?h, symbol = cs\<rparr>"
  have "?h \<le> amount out" "0 < ?h"
    using half_percent_law [of "amount out"] C d(2) by simp_all
  moreover have "rex_claims (rx S) + quote_of m \<le> core_cap" using c U row(4) by auto
  ultimately have b: "rex_claims (rx S1) + ?h \<le> core_cap" using C(9) A(2) by simp
  note A(1)
  also have "apart S1 ?S1"
    by (rule apart_market [OF i1 trade_pay_kept]) (use set_ram_limit_frame [OF 2] in simp_all)
  finally have s1: "apart S ?S1" .
  also have "apart ?S1 (emit [?t out] ?S1)"
    by (rule apart_emit [OF apart_inv [OF s1]]) (use w in \<open>auto simp: escrows_def account_defs\<close>)
  finally have s2: "apart S (emit [?t out] ?S1)" .
  also have "apart (emit [?t out] ?S1) S'"
    by (rule fee_apart [where fee = ?f, OF apart_inv [OF s2] _ w])
      (use 3 b \<open>0 < ?h\<close> in \<open>auto simp: new_asset_lib [OF E]\<close>)
  finally show ?thesis .
qed

lemma setram_apart:
  assumes "rex_inv (rx S)" "setram E n S = Inr S'"
  shows "apart S S'"
proof -
  obtain M where S': "S' = S\<lparr>rammarket := M, vs := (vs S)\<lparr>gstate := (gstate (vs S))\<lparr>max_ram_size := n\<rparr>\<rparr>, rs := rs S\<rparr>"
    using assms(2) by (auto simp: setram_def set_gstate_def Let_def)
  show ?thesis unfolding S'
    by (rule apart_market [OF assms(1)]) (simp_all add: pay_kept_def unpaid_sum_def unpaid_ok_def)
qed

lemma setramrate_apart:
  assumes "rex_inv (rx S)" "setramrate E n S = Inr S'"
  shows "apart S S'"
proof -
  obtain S1 where 1: "update_ram_supply E S = Inr S1" and
    S': "S' = S1\<lparr>rammarket := rammarket S1, vs := (vs S1)\<lparr>gstate2 := (gstate2 (vs S1))\<lparr>new_ram_per_block := n\<rparr>\<rparr>, rs := rs S1\<rparr>"
    using assms(2) by (auto simp: setramrate_def)
  note A = update_ram_supply_apart [OF assms(1) 1]
  have "apart S1 S'" unfolding S'
    by (rule apart_market [OF apart_inv [OF A(1)]]) (simp_all add: pay_kept_same)
  with A(1) show ?thesis by (rule apart_trans)
qed


text \<open>The fees that a trade may bring stay, with the claims of the REX, within the supply.\<close>

fun fees_fit :: "ram_action \<Rightarrow> system_state \<Rightarrow> bool" where
  "fees_fit (Buyram payer receiver q) S \<longleftrightarrow> payer \<notin> escrows \<and> rex_claims (rx S) + half_percent (amount q) \<le> core_cap"
| "fees_fit (Buyrambytes payer receiver n) S \<longleftrightarrow> payer \<notin> escrows \<and>
     (\<forall>m cost c2. rammarket S = Some m \<and> get_bancor_input (base_of m) (quote_of m) n = Inr cost \<and>
        dbl_to_i64 (ddiv (dbl cost) (rnd (995 / 1000))) = Inr c2 \<longrightarrow> rex_claims (rx S) + half_percent c2 \<le> core_cap)"
| "fees_fit (Sellram w n) S \<longleftrightarrow> w \<notin> escrows \<and> (\<forall>m. rammarket S = Some m \<longrightarrow> rex_claims (rx S) + quote_of m \<le> core_cap)"
| "fees_fit _ S \<longleftrightarrow> True"

lemma ram_exec_apart:
  assumes E: "lib_ok E" and X: "rex_inv (rx S)" "ram_inv S" and f: "ram_fits a S" "fees_fit a S" and run: "ram_exec E a S = Inr S'"
  shows "apart S S'"
proof (cases a)
  case (Buyram payer receiver q)
  then show ?thesis using f run by (intro buyram_apart [OF E X(1)]) auto
next
  case (Buyrambytes payer receiver n)
  then have "buyrambytes E payer receiver n S = Inr S'" using run by simp
  with E show ?thesis
  proof (rule buyrambytes_parts)
    fix m cost c2 cs
    assume c: "rammarket S = Some m" "get_bancor_input (base_of m) (quote_of m) n = Inr cost"
      "dbl_to_i64 (ddiv (dbl cost) (rnd (995 / 1000))) = Inr c2"
      and b: "buyram E payer receiver \<lparr>amount = c2, symbol = cs\<rparr> S = Inr S'"
    show ?thesis by (rule buyram_apart [OF E X(1) _ _ b]) (use f(2) Buyrambytes c in auto)
  qed
next
  case (Sellram w n)
  then show ?thesis using f run by (intro sellram_apart [OF E X]) auto
next
  case (Setram n)
  then show ?thesis using run setram_apart [OF X(1)] by simp
next
  case (Setramrate n)
  then show ?thesis using run setramrate_apart [OF X(1)] by simp
qed

section \<open>Steps off the market\<close>

definition off_market :: "system_state \<Rightarrow> system_state \<Rightarrow> bool" where
  "off_market S S' \<longleftrightarrow> memory_of (vs S') = memory_of (vs S) \<and> rammarket S' = rammarket S \<and> bytes_kept (rs S) (rs S') \<and>
     (\<exists>es. effects S' = effects S @ es \<and> moved ram_account es = 0)"

lemma off_market_law:
  assumes "off_market S S'" "ram_inv S"
  shows "ram_inv S'" "balanced ram_account ram_stake S S'"
  using assms by (auto simp: off_market_def ram_inv_def memory_of_def bytes_kept_def market_ok_def ram_stake_def balanced_def)

lemma calm_off_market: "calm S S' \<Longrightarrow> off_market S S'"
  by (auto simp: calm_def off_market_def books_parts still_accounts_def)

lemma calm_pay:
  assumes "calm S S'" "pay_inv S"
  shows "pay_inv S'" "balanced bpay_account (\<lambda>S. perblock_bucket (gstate (vs S))) S S'"
    "balanced vpay_account (\<lambda>S. pervote_bucket (gstate (vs S))) S S'"
  using assms pay_kept_inv by (auto simp: calm_def books_parts still_accounts_def pay_kept_def balanced_def)

lemma calm_names:
  assumes "calm S S'" "names_inv S"
  shows "names_inv S'" "covered names_account names_owed S S'"
  using assms by (auto simp: calm_def names_inv_def names_owed_def covered_def promises_def)

lemma beside_pay:
  assumes "beside S S'" "pay_inv S"
  shows "pay_inv S'" "balanced bpay_account (\<lambda>S. perblock_bucket (gstate (vs S))) S S'"
    "balanced vpay_account (\<lambda>S. pervote_bucket (gstate (vs S))) S S'"
  using assms pay_kept_inv by (auto simp: beside_def pay_kept_def balanced_def)

lemma beside_names:
  assumes "beside S S'" "names_inv S"
  shows "names_inv S'" "balanced names_account names_owed S S'"
  using assms by (auto simp: beside_def names_inv_def names_owed_def balanced_def promises_def)

end
