(* ===== verification/Cross_Groups.thy ===== *)
theory Cross_Groups
  imports Cross
begin

text \<open>
  Staking, auctions, voting, pay and the privileged actions, as seen from the books they do not keep.
\<close>

section \<open>Staking\<close>

lemma change_delband_userres: "change_delband E a w dnet dcpu R = Inr R' \<Longrightarrow> userres R' = userres R"
  by (auto simp: change_delband_def)

lemma change_totals_bytes:
  assumes "change_totals E w dnet dcpu V R = Inr R'"
  shows "bytes_kept R R'"
proof -
  let ?nm = "managed_flag V w net_managed" and ?cm = "managed_flag V w cpu_managed" and ?rm = "managed_flag V w ram_managed"
  obtain tot R1 where
    tot: "(case fmlookup (userres R) w of
          None \<Rightarrow> Inr \<lparr>ur_owner = w, ur_net_weight = dnet, ur_cpu_weight = dcpu, ram_bytes = 0\<rparr>
        | Some tot \<Rightarrow>
            bindE (add_asset E (ur_net_weight tot) dnet) (\<lambda>net.
            bindE (add_asset E (ur_cpu_weight tot) dcpu) (\<lambda>cpu.
            Inr (tot\<lparr>ur_net_weight := net, ur_cpu_weight := cpu\<rparr>)))) = Inr tot" and
    R: "(if \<not> (?nm \<and> ?cm) then
          bindE (get_resource_limits w R) (\<lambda>(ram, net, cpu).
          Inr (set_resource_limits w
            (if ?rm then ram else max (i64 (ram_bytes tot + ram_gift_bytes)) ram)
            (if ?nm then net else amount (ur_net_weight tot))
            (if ?cm then cpu else amount (ur_cpu_weight tot)) R))
        else Inr R) = Inr R1" and
    R': "R' = R1\<lparr>userres := (if ur_is_empty tot then fmdrop w (userres R1) else fmupd w tot (userres R1))\<rparr>"
    using assms unfolding change_totals_def Let_def bindE_eq_Inr sum.inject by blast
  have u: "userres R1 = userres R" using R by (cases "\<not> (?nm \<and> ?cm)") auto
  have b: "ram_bytes tot = tval ram_bytes (userres R) w" using tot by (auto split: option.splits)
  have "ur_is_empty tot \<Longrightarrow> ram_bytes tot = 0" by (simp add: ur_is_empty_def)
  then show ?thesis unfolding R' using b u by (intro bytes_kept_row [where w = w]) (auto simp: tval_def)
qed

lemma settle_stake_others:
  assumes "settle_stake E a b net cpu need = Inr es" "w \<noteq> a" "w \<noteq> stake_account"
  shows "moved w es = 0"
  using assms by (auto simp: settle_stake_def)

text \<open>The vote stake of REX is not REX: refreshing it is sound.\<close>

lemma update_rex_stake_sound:
  assumes X: "rex_inv (rx S)" and run: "update_rex_stake E w S = Inr S'"
  shows "sound S S'"
proof -
  obtain d X where r: "refresh_rex_stake E (core_symbol S) w (rx S) = Inr (d, X)"
    using run by (auto simp: update_rex_stake_def Let_def)
  have S': "rx S' = X" "effects S' = effects S"
    using run r by (auto simp: update_rex_stake_def Let_def split: option.splits if_splits)
  show ?thesis
  proof (cases "X = rx S")
    case True
    then show ?thesis using X S' by (intro sound_same) simp_all
  next
    case False
    then obtain rb v where rb: "fmlookup (rexbalance (rx S)) w = Some rb" and
      x: "X = set_rexbal w (rb\<lparr>vote_stake := v\<rparr>) (rx S)"
      using r by (auto simp: refresh_rex_stake_def split: option.splits if_splits)
    note R = restaked_row [OF X rb]
    have "sound S (put_rexbal w (rb\<lparr>vote_stake := v\<rparr>) S)" by (rule put_rexbal_sound(1) [OF X rb R])
    then show ?thesis
      by (rule sound_trans) (rule sound_same, use S' x X row_replaced(1) [OF X rb R] in \<open>simp_all add: put_rexbal_def\<close>)
  qed
qed

lemma on_vs_sound: "rex_inv (rx S) \<Longrightarrow> on_vs f S = Inr S' \<Longrightarrow> sound S S'"
  by (auto simp: on_vs_def intro: sound_same)

lemma changebw_cross:
  assumes X: "rex_inv (rx S)" and a: "a \<notin> escrows" and run: "changebw E a w dnet dcpu transfer S = Inr S'"
  shows "calm S S'" "sound S S'"
proof -
  let ?a = "if transfer then w else a"
  note u = user_distinct [OF a]
  obtain both R1 R2 S1 S2 where
    db: "change_delband E ?a w dnet dcpu (rs S) = Inr R1" and ct: "change_totals E w dnet dcpu (vs S) R1 = Inr R2" and
    2: "(if stake_account \<noteq> a then
          bindE (change_refund E (core_symbol S) ?a (\<not> transfer \<and> ?a = w) dnet dcpu (refunds R2))
            (\<lambda>(net, cpu, need_deferred_trx, T).
          bindE (settle_stake E a ?a net cpu need_deferred_trx) (\<lambda>es.
          Inr (emit es (S\<lparr>rs := R2\<lparr>refunds := T\<rparr>\<rparr>))))
        else Inr (S\<lparr>rs := R2\<rparr>)) = Inr S1" and
    3: "update_rex_stake E ?a S1 = Inr S2" "on_vs (update_voting_power E ?a both) S2 = Inr S'"
    using run unfolding changebw_steps by blast
  obtain net cpu need T es where st: "settle_stake E a ?a net cpu need = Inr es"
    and S1: "S1 = emit es (S\<lparr>rs := R2\<lparr>refunds := T\<rparr>\<rparr>)"
    using 2 u by auto
  have bk: "bytes_kept (rs S) R2"
    using bytes_kept_userres [OF change_delband_userres [OF db]] change_totals_bytes [OF ct] by (rule bytes_kept_trans)
  then have bk: "bytes_kept (rs S) (R2\<lparr>refunds := T\<rparr>)" by (simp add: bytes_kept_def bytes_held_def bytes_ok_def)
  have m: "moved b es = 0" if "b \<noteq> a" "b \<noteq> stake_account" for b using settle_stake_others [OF st that] .
  have "\<forall>b\<in>still_accounts. moved b es = 0" using m u(5) distinct_still(3) by metis
  then have "calm S S1" using bk m [of names_account] u by (auto simp: calm_def S1)
  also have "calm S1 S2" by (rule still_calm [OF update_rex_stake_still [OF 3(1)]])
  also have "calm S2 S'" by (rule still_calm [OF on_vs_still [OF 3(2)]]) (rule update_voting_power_books)
  finally show "calm S S'" .
  have s1: "sound S S1"
    by (rule sound_emit [of _ _ es]) (use X m [of rex_account] u in \<open>simp_all add: S1\<close>)
  have s2: "sound S1 S2" by (rule update_rex_stake_sound [OF sound_inv [OF s1] 3(1)])
  have "sound S2 S'" by (rule on_vs_sound [OF sound_inv [OF s2] 3(2)])
  then show "sound S S'" using s1 s2 sound_trans by blast
qed

lemma refund_cross:
  assumes E: "lib_ok E" and X: "rex_inv (rx S)" "stake_inv S" and a: "a \<notin> escrows"
    and run: "refund E a S = Inr S'"
  shows "calm S S'" "sound S S'"
proof -
  obtain req q where r: "fmlookup (refunds (rs S)) a = Some req"
    and S': "S' = emit [Token_transfer [active_of stake_account, active_of (rr_owner req)] stake_account (rr_owner req) q
         ''unstake''] (S\<lparr>rs := (rs S)\<lparr>refunds := fmdrop a (refunds (rs S))\<rparr>\<rparr>)"
    using run by (auto simp: refund_def)
  note u = user_distinct [OF a]
  have o: "rr_owner req = a" using rr_okD(1) [OF _ r] X(2) by (simp add: stake_inv_def)
  have "bytes_kept (rs S) ((rs S)\<lparr>refunds := fmdrop a (refunds (rs S))\<rparr>)" by (rule bytes_kept_userres) simp
  moreover have "\<forall>b\<in>still_accounts. a \<noteq> b \<and> stake_account \<noteq> b" using u(5) distinct_still(3) by metis
  ultimately show "calm S S'" using u by (auto simp: calm_def S' o)
  let ?t = "Token_transfer [active_of stake_account, active_of a] stake_account a q ''unstake''"
  show "sound S S'"
    by (rule sound_emit [of _ _ "[?t]"]) (use X(1) u in \<open>simp_all add: S' o\<close>)
qed

fun stake_user :: "stake_action \<Rightarrow> name" where
  "stake_user (Delegatebw a w net cpu transfer) = a"
| "stake_user (Undelegatebw a w net cpu) = a"
| "stake_user (Refund a) = a"
| "stake_user (Unstake_to_rex a w net cpu) = rex_account"

lemma stake_exec_cross:
  assumes E: "lib_ok E" and X: "rex_inv (rx S)" "stake_inv S" and a: "stake_user x \<notin> escrows"
    and run: "stake_exec E x S = Inr S'"
  shows "calm S S'" "sound S S'"
proof -
  have "calm S S' \<and> sound S S'"
  proof (cases x)
    case (Delegatebw b w net cpu transfer)
    then have "changebw E b w net cpu transfer S = Inr S'" using run by (auto simp: delegatebw_def)
    then show ?thesis using changebw_cross [OF X(1)] a Delegatebw by auto
  next
    case (Undelegatebw b w net cpu)
    then have "changebw E b w (asset_neg E net) (asset_neg E cpu) False S = Inr S'" using run by (auto simp: undelegatebw_def)
    then show ?thesis using changebw_cross [OF X(1)] a Undelegatebw by auto
  next
    case (Refund b)
    then show ?thesis using refund_cross [OF E X] a run by auto
  next
    case (Unstake_to_rex b w net cpu)
    then show ?thesis using a by (simp add: escrows_def)
  qed
  then show "calm S S'" "sound S S'" by simp_all
qed


section \<open>Auctions and blocks\<close>

text \<open>A step that leaves market, stakes and pay alone and is sound for the REX.\<close>

definition off_names :: "system_state \<Rightarrow> system_state \<Rightarrow> bool" where
  "off_names S S' \<longleftrightarrow> off_market S S' \<and> stake_quiet S S' \<and> sound S S' \<and> pay_kept (vs S) (vs S') \<and>
     (\<exists>es. effects S' = effects S @ es \<and> moved bpay_account es = 0 \<and> moved vpay_account es = 0)"

lemma off_namesI:
  assumes "rex_inv (rx S)" "bytes_kept (rs S) R" "delband R = delband (rs S)" "refunds R = refunds (rs S)"
    and "\<forall>a\<in>escrows - {names_account}. moved a es = 0"
  shows "off_names S (emit es (S\<lparr>ns := N, rs := R\<rparr>))"
proof -
  have d: "{rex_account, stake_account, ram_account, bpay_account, vpay_account} \<subseteq> escrows - {names_account}"
    by (auto simp: escrows_def account_defs)
  then have m: "moved rex_account es = 0" "moved stake_account es = 0" "moved ram_account es = 0"
    "moved bpay_account es = 0" "moved vpay_account es = 0" using assms(5) by auto
  have "sound S (emit es (S\<lparr>ns := N, rs := R\<rparr>))" by (rule sound_emit [of _ _ es]) (use assms(1) m in simp_all)
  moreover have "stake_quiet S (emit es (S\<lparr>ns := N, rs := R\<rparr>))" by (rule stake_quietI [of _ _ es]) (use assms m in simp_all)
  ultimately show ?thesis using assms(2) m by (auto simp: off_names_def off_market_def)
qed

lemma bidname_cross:
  assumes E: "lib_ok E" and X: "rex_inv (rx S)" and b: "bidder \<notin> escrows" and run: "bidname E bidder newname bid S = Inr S'"
  shows "off_names S S'"
proof -
  let ?t = "Token_transfer [active_of bidder] bidder names_account bid (''bid name '' @ name_to_string E newname)"
  obtain N es where S': "S' = emit (?t # es) (S\<lparr>ns := N, rs := rs S\<rparr>)" and m: "\<forall>a. moved a es = 0"
  proof (cases "fmlookup (namebids (ns S)) newname")
    case None
    then show ?thesis using run that [of "[]" "ns S'"] by (auto simp: bidname_def emit_def Let_def)
  next
    case (Some cur)
    let ?did = "deferred_id newname (uint (high_bidder cur))"
    let ?es = "[Cancel_deferred ?did, Send_deferred ?did bidder 0 (Trx_bidrefund (high_bidder cur) newname) False]"
    show ?thesis using run Some that [of ?es] by (auto simp: bidname_def emit_def Let_def)
  qed
  show ?thesis unfolding S' by (rule off_namesI [OF X]) (use b m in auto)
qed

lemma bidrefund_cross:
  assumes X: "rex_inv (rx S)" and b: "bidder \<notin> escrows" and run: "bidrefund E bidder newname S = Inr S'"
  shows "off_names S S'"
proof -
  obtain q m N where S': "S' = emit [Token_transfer [active_of names_account, active_of bidder] names_account bidder q m]
      (S\<lparr>ns := N, rs := rs S\<rparr>)"
    using run by (auto simp: bidrefund_def)
  show ?thesis unfolding S' by (rule off_namesI [OF X]) (use b in auto)
qed

lemma newaccount_cross:
  assumes X: "rex_inv (rx S)" and run: "newaccount E creator newact S = Inr S'"
  shows "off_names S S'"
proof -
  obtain z where n: "fmlookup (userres (rs S)) newact = None" and
    S': "S' = emit [] (S\<lparr>ns := ns S', rs := set_resource_limits newact 0 0 0
      ((rs S)\<lparr>userres := fmupd newact \<lparr>ur_owner = newact, ur_net_weight = z, ur_cpu_weight = z, ram_bytes = 0\<rparr> (userres (rs S))\<rparr>)\<rparr>)"
    using run by (auto simp: newaccount_def emit_def)
  show ?thesis
    by (subst S', rule off_namesI [OF X]) (use n in \<open>auto simp: set_resource_limits_def intro!: bytes_kept_row [where w = newact]\<close>)
qed

lemma namebid_channel_inv:
  assumes X: "rex_inv X" and n: "0 \<le> n" "pool_field namebid_proceeds X + n \<le> core_cap"
  shows "rex_inv (channel_namebid_to_rex n X)" "rex_owed (channel_namebid_to_rex n X) = rex_owed X"
proof -
  have "rex_inv (channel_namebid_to_rex n X) \<and> rex_owed (channel_namebid_to_rex n X) = rex_owed X"
  proof (cases "rex_available X \<and> (\<exists>p. rexpool X = Some p)")
    case False
    then have "channel_namebid_to_rex n X = X" by (auto simp: channel_namebid_to_rex_def split: option.split)
    then show ?thesis using X by simp
  next
    case True
    then obtain p where p: "rexpool X = Some p" "rex_available X" by blast
    let ?X = "X\<lparr>rexpool := Some (p\<lparr>namebid_proceeds := inc_amt n (namebid_proceeds p)\<rparr>)\<rparr>"
    note I = inv_parts [OF X] and D = rex_okD [OF inv_parts(1) [OF X]]
    have ok: "pool_ok (staked_sum (cpu_loans X) + staked_sum (net_loans X)) p" using D(5) p(1) by blast
    have i: "i64 (amount (namebid_proceeds p) + n) = amount (namebid_proceeds p) + n"
      using n ok p(1) by (intro i64_small) (auto simp: pool_ok_def pool_field_def core_cap_def)
    have "rex_ok ?X" using D ok i n(1) by (simp add: rex_ok_def funds_ok_def orders_ok_def pool_ok_def)
    moreover have "holdings_ok ?X" by (rule holdings_ok_pool [OF I(2)]) (use p(1) in \<open>auto simp: pool_field_def\<close>)
    moreover have "orders_backed ?X" by (rule orders_backed_frame [OF I(3)]) simp_all
    moreover have "promise_ok ?X" using p by (simp add: promise_ok_def pool_field_def rex_available_def)
    moreover have "rex_owed ?X = rex_owed X" using p(1) by (simp add: rex_owed_def sum_defs)
    moreover have "channel_namebid_to_rex n X = ?X" using p by (simp add: channel_namebid_to_rex_def)
    ultimately show ?thesis by (simp add: rex_inv_def)
  qed
  then show "rex_inv (channel_namebid_to_rex n X)" "rex_owed (channel_namebid_to_rex n X) = rex_owed X" by simp_all
qed

lemma closed_state:
  assumes "highest_open_bid (ns S) = Some b"
  shows "close_auction E t S = S \<or> close_auction E t S = S\<lparr>rx := channel_namebid_to_rex (high_bid b) (rx S),
      ns := (ns S)\<lparr>namebids := fmupd (nb_newname b) (b\<lparr>high_bid := i64 (- high_bid b)\<rparr>) (namebids (ns S))\<rparr>,
      vs := (vs S)\<lparr>gstate := (gstate (vs S))\<lparr>last_name_close := t\<rparr>\<rparr>\<rparr>"
  unfolding close_auction_def assms option.case Let_def set_gstate_def by simp

lemma close_auction_cross:
  assumes X: "rex_inv (rx S)" "names_inv S" "names_owed S \<le> core_cap"
  shows "off_names S (close_auction E t S)"
proof (cases "close_auction E t S = S")
  case True
  have "off_names S (emit [] (S\<lparr>ns := ns S, rs := rs S\<rparr>))" by (rule off_namesI [OF X(1)]) simp_all
  then show ?thesis unfolding True by (simp add: emit_def)
next
  case False
  then obtain b where b: "highest_open_bid (ns S) = Some b"
    by (cases "highest_open_bid (ns S)") (simp_all add: close_auction_def)
  let ?N = "(ns S)\<lparr>namebids := fmupd (nb_newname b) (b\<lparr>high_bid := i64 (- high_bid b)\<rparr>) (namebids (ns S))\<rparr>"
  have S': "close_auction E t S = S\<lparr>rx := channel_namebid_to_rex (high_bid b) (rx S), ns := ?N,
      vs := (vs S)\<lparr>gstate := (gstate (vs S))\<lparr>last_name_close := t\<rparr>\<rparr>\<rparr>"
    using False closed_state [OF b, of E t] by blast
  note H = highest_open_bid_law [OF X(2) b] and P = names_parts [OF X(2)]
  obtain n where n: "fmlookup (namebids (ns S)) n = Some b" using H(1) by blast
  have "open_bid b = high_bid b" using H(2) by (simp add: open_bid_def)
  then have "pool_field namebid_proceeds (rx S) + high_bid b \<le> core_cap"
    using X(3) P(2) P(3) [OF n] by (simp add: names_owed_def)
  note C = namebid_channel_inv [OF X(1) less_imp_le [OF H(2)] this]
  have "sound S (close_auction E t S)" by (rule sound_emit [of _ _ "[]"]) (use C in \<open>simp_all add: S'\<close>)
  moreover have "pay_kept (vs S) ((vs S)\<lparr>gstate := (gstate (vs S))\<lparr>last_name_close := t\<rparr>\<rparr>)"
    by (simp add: pay_kept_def unpaid_sum_def unpaid_ok_def)
  moreover have "stake_quiet S (close_auction E t S)" by (rule stake_quietI [of _ _ "[]"]) (simp_all add: S')
  ultimately show ?thesis unfolding off_names_def by (simp add: off_market_def S' memory_of_def)
qed

lemma count_block_vs: "\<exists>V. count_block E p S = S\<lparr>vs := V\<rparr> \<and> memory_of V = memory_of (vs S)"
proof -
  let ?S = "if last_pervote_bucket_fill (gstate (vs S)) = 0
           then set_gstate (\<lambda>g. g\<lparr>last_pervote_bucket_fill := now E\<rparr>) S else S"
  have s: "\<exists>V. ?S = S\<lparr>vs := V\<rparr> \<and> memory_of V = memory_of (vs S)"
    by (auto simp: set_gstate_def memory_of_def intro: exI [of _ "vs S"])
  then obtain V where V: "?S = S\<lparr>vs := V\<rparr>" "memory_of V = memory_of (vs S)" by blast
  show ?thesis
    unfolding count_block_def Let_def V(1)
    by (cases "fmlookup (producers V) p") (use V(2) in \<open>auto simp: set_gstate_def memory_of_def\<close>)
qed

lemma onblock_cross:
  assumes X: "rex_inv (rx S)" "names_inv S" "names_owed S \<le> core_cap" and run: "onblock E t p S = Inr S'"
  shows "off_market S S'" "stake_quiet S S'" "sound S S'"
proof -
  let ?S = "S\<lparr>vs := (vs S)\<lparr>gstate2 := (gstate2 (vs S))\<lparr>last_block_num := t\<rparr>\<rparr>\<rparr>"
  obtain V where V: "count_block E p ?S = S\<lparr>vs := V\<rparr>" "memory_of V = memory_of (vs S)"
    using count_block_vs [of E p ?S] by (auto simp: memory_of_def)
  obtain V' es where u: "update_elected_producers E t V = (V', es)" by fastforce
  have e: "memory_of V' = memory_of (vs S)" "\<forall>a. moved a es = 0"
    using u V(2) update_elected_producers_frame(5) [OF u]
    by (auto simp: update_elected_producers_def memory_of_def Let_def split: if_splits)
  obtain W fs where W: "memory_of W = memory_of (vs S)" "\<forall>a. moved a fs = 0"
    and S': "S' = emit fs (S\<lparr>vs := W\<rparr>) \<or> S' = close_auction E t (emit fs (S\<lparr>vs := W\<rparr>))"
  proof -
    have "S' = emit [] (S\<lparr>vs := (vs S)\<lparr>gstate2 := (gstate2 (vs S))\<lparr>last_block_num := t\<rparr>\<rparr>\<rparr>) \<or> S' = emit [] (S\<lparr>vs := V\<rparr>) \<or>
        S' = emit es (S\<lparr>vs := V'\<rparr>) \<or> S' = close_auction E t (emit es (S\<lparr>vs := V'\<rparr>))"
      using run V(1) u by (auto simp: onblock_def Let_def emit_def split: if_splits)
    moreover have "memory_of ((vs S)\<lparr>gstate2 := (gstate2 (vs S))\<lparr>last_block_num := t\<rparr>\<rparr>) = memory_of (vs S)"
      by (simp add: memory_of_def)
    ultimately show ?thesis using that V(2) e moved_simps(1) by metis
  qed
  let ?T = "emit fs (S\<lparr>vs := W\<rparr>)"
  have a: "off_market S ?T" "stake_quiet S ?T"
    using W by (auto simp: off_market_def intro: stake_quietI [of _ _ fs])
  have b: "sound S ?T" by (rule sound_emit [of _ _ fs]) (use X(1) W(2) in simp_all)
  have "rex_inv (rx ?T)" "names_inv ?T" "names_owed ?T \<le> core_cap" using X by (simp_all add: names_inv_def names_owed_def)
  note c = close_auction_cross [OF this, of E t, unfolded off_names_def]
  have "off_market S (close_auction E t ?T)" using a(1) c bytes_kept_trans unfolding off_market_def by fastforce
  then show "off_market S S'" using a(1) S' by blast
  show "stake_quiet S S'" using a(2) c S' stake_quiet_trans by blast
  show "sound S S'" using b c S' sound_trans by blast
qed

end
