(* ===== verification/System_Actions.thy ===== *)
theory System_Actions
  imports Cross_Groups
begin

text \<open>
  The system contract as a whole: its actions as one function, the invariant of all its books, and
  that every action keeps it and never makes the contract owe more out of an escrow account than
  the tokens it moves in.
\<close>

section \<open>Voting\<close>

datatype vote_action =
    Regproducer name bytes string int
  | Unregprod name
  | Rmvproducer name
  | Voteproducer name name "name list"
  | Regproxy name bool
  | Updtrevision int

fun vote_exec :: "env \<Rightarrow> vote_action \<Rightarrow> system_state \<Rightarrow> system_state res" where
  "vote_exec E (Regproducer p key u l) S = on_vs (regproducer E p key u l) S"
| "vote_exec E (Unregprod p) S = on_vs (unregprod E p) S"
| "vote_exec E (Rmvproducer p) S = on_vs (rmvproducer E p) S"
| "vote_exec E (Voteproducer w prox prods) S = voteproducer E w prox prods S"
| "vote_exec E (Regproxy p flag) S = on_vs (regproxy E p flag) S"
| "vote_exec E (Updtrevision n) S = on_vs (updtrevision E n) S"

lemma voteproducer_cross:
  assumes X: "rex_inv (rx S)" and run: "voteproducer E w prox prods S = Inr S'"
  shows "still S S'" "sound S S'"
proof -
  obtain S1 where 1: "update_rex_stake E w S = Inr S1" and 2: "on_vs (update_votes E w prox prods True) S1 = Inr S'"
    using run by (auto simp: voteproducer_def split: option.splits if_splits)
  have "still S S1" by (rule update_rex_stake_still [OF 1])
  also have "still S1 S'" using 2 by (rule on_vs_still) (rule update_votes_books)
  finally show "still S S'" .
  have "sound S S1" by (rule update_rex_stake_sound [OF X 1])
  then show "sound S S'" using on_vs_sound [OF _ 2] sound_inv sound_trans by blast
qed

lemma vote_exec_cross:
  assumes X: "rex_inv (rx S)" and run: "vote_exec E a S = Inr S'"
  shows "still S S'" "sound S S'"
proof -
  have "still S S' \<and> sound S S'"
  proof (cases a)
    case (Voteproducer w prox prods)
    then show ?thesis using voteproducer_cross [OF X] run by simp
  qed (use run on_vs_sound [OF X] in \<open>auto elim!: on_vs_still
      dest: regproducer_books unregprod_books rmvproducer_books regproxy_books updtrevision_books\<close>)
  then show "still S S'" "sound S S'" by simp_all
qed


section \<open>Privileged actions\<close>

datatype admin_action =
    Init int symbol
  | Setparams blockchain_parameters
  | Setpriv name int
  | Activate bytes
  | Setalimits name int int int
  | Setacctram name "int option"
  | Setacctnet name "int option"
  | Setacctcpu name "int option"
  | Setabi name bytes
  | Onerror

fun admin_exec :: "env \<Rightarrow> token_state \<Rightarrow> admin_action \<Rightarrow> system_state \<Rightarrow> system_state res" where
  "admin_exec E T (Init version core) S = init E T version core S"
| "admin_exec E T (Setparams ps) S = setparams E ps S"
| "admin_exec E T (Setpriv a p) S = setpriv E a p S"
| "admin_exec E T (Activate d) S = activate E d S"
| "admin_exec E T (Setalimits a ram net cpu) S = setalimits E a ram net cpu S"
| "admin_exec E T (Setacctram a n) S = setacctram E a n S"
| "admin_exec E T (Setacctnet a n) S = setacctnet E a n S"
| "admin_exec E T (Setacctcpu a n) S = setacctcpu E a n S"
| "admin_exec E T (Setabi a abi) S = Inr (setabi E a abi S)"
| "admin_exec E T Onerror S = onerror S"

lemma managed_limits_still:
  assumes "S' = S\<lparr>vs := set_flag a f b (vs S), rs := set_resource_limits a ram net cpu (rs S)\<rparr>"
  shows "still S S'"
proof -
  have "still S (S\<lparr>vs := set_flag a f b (vs S)\<rparr>)" by (rule still_vs) simp
  also have "still (S\<lparr>vs := set_flag a f b (vs S)\<rparr>) S'"
    unfolding assms by (rule still_rs [of "S\<lparr>vs := set_flag a f b (vs S)\<rparr>", simplified]) (simp_all add: bytes_kept_userres)
  finally show ?thesis .
qed

lemma admin_exec_cross:
  assumes X: "rex_inv (rx S)" "ram_inv S" and run: "admin_exec E T a S = Inr S'"
  shows "still S S'" "sound S S'"
proof -
  have q: "still S S' \<and> sound S S'"
  proof (cases a)
    case (Init version core)
    then show ?thesis using run X(2) by (auto simp: init_def ram_inv_def)
  next
    case (Setparams ps)
    let ?S = "S\<lparr>vs := (vs S)\<lparr>gstate := (gstate (vs S))\<lparr>parameters := ps\<rparr>\<rparr>\<rparr>"
    let ?es = "[Set_blockchain_parameters (max_authority_depth ps # other_parameters ps)]"
    have S': "S' = emit ?es ?S" using run Setparams by (auto simp: setparams_def set_gstate_def)
    have "still S ?S" by (rule still_vs) (simp add: books_kept_gstate ledgers_def Let_def)
    also have "still ?S S'" unfolding S' by (rule still_emit) simp
    finally show ?thesis using X(1) by (auto simp: S' intro: sound_emit [of _ _ ?es])
  next
    case (Setpriv b p)
    then show ?thesis using run X(1)
      by (auto simp: setpriv_def intro!: still_emit intro: sound_emit [of _ _ "[Set_privileged b p]"])
  next
    case (Activate d)
    then show ?thesis using run X(1)
      by (auto simp: activate_def intro!: still_emit intro: sound_emit [of _ _ "[Preactivate_feature d]"])
  next
    case (Setalimits b ram net cpu)
    then have S': "S' = S\<lparr>rs := set_resource_limits b ram net cpu (rs S)\<rparr>" using run by (auto simp: setalimits_def)
    have "still S S'" unfolding S' by (rule still_rs) (simp_all add: bytes_kept_userres)
    then show ?thesis using X(1) by (simp add: S' sound_same)
  next
    case (Setacctram b n)
    then obtain ram net cpu where S': "S' = S\<lparr>vs := set_flag b ram_managed (n \<noteq> None) (vs S),
        rs := set_resource_limits b ram net cpu (rs S)\<rparr>"
      using run by (auto simp: setacctram_def)
    show ?thesis using managed_limits_still [OF S'] X(1) by (simp add: S' sound_same)
  next
    case (Setacctnet b n)
    then obtain ram net cpu where S': "S' = S\<lparr>vs := set_flag b net_managed (n \<noteq> None) (vs S),
        rs := set_resource_limits b ram net cpu (rs S)\<rparr>"
      using run by (auto simp: setacctnet_def)
    show ?thesis using managed_limits_still [OF S'] X(1) by (simp add: S' sound_same)
  next
    case (Setacctcpu b n)
    then obtain ram net cpu where S': "S' = S\<lparr>vs := set_flag b cpu_managed (n \<noteq> None) (vs S),
        rs := set_resource_limits b ram net cpu (rs S)\<rparr>"
      using run by (auto simp: setacctcpu_def)
    show ?thesis using managed_limits_still [OF S'] X(1) by (simp add: S' sound_same)
  next
    case (Setabi b abi)
    then have S': "S' = setabi E b abi S" using run by simp
    then show ?thesis using X(1)
      by (auto simp: setabi_def still_def calm_def intro: sound_same stake_quietI [of _ _ "[]"])
  next
    case Onerror
    then show ?thesis using run by (simp add: onerror_def)
  qed
  then show "still S S'" "sound S S'" by simp_all
qed


section \<open>All actions\<close>

text \<open>
  \<open>Unstake_to_rex\<close> of the staking actions is \<open>Unstaketorex\<close> of the REX actions; here it is one of
  the latter only. Deferred refunds of stakes and bids are the actions \<open>Refund\<close> and \<open>Bidrefund\<close>.
\<close>

datatype system_action =
    Rex rex_action
  | Ram ram_action
  | Names name_action
  | Stakes stake_action
  | Votes vote_action
  | Privileged admin_action
  | Claimrewards name

fun system_exec :: "env \<Rightarrow> token_state \<Rightarrow> system_action \<Rightarrow> system_state \<Rightarrow> system_state res" where
  "system_exec E T (Rex a) S = rex_exec E a S"
| "system_exec E T (Ram a) S = ram_exec E a S"
| "system_exec E T (Names a) S = name_exec E a S"
| "system_exec E T (Stakes a) S = stake_exec E a S"
| "system_exec E T (Votes a) S = vote_exec E a S"
| "system_exec E T (Privileged a) S = admin_exec E T a S"
| "system_exec E T (Claimrewards w) S = claimrewards E T w S"

definition sys_inv :: "system_state \<Rightarrow> bool" where
  "sys_inv S \<longleftrightarrow> rex_inv (rx S) \<and> ram_inv S \<and> names_inv S \<and> stake_inv S \<and> pay_inv S"

text \<open>What the contract owes out of each escrow account.\<close>

definition escrow_owed :: "name \<Rightarrow> system_state \<Rightarrow> int" where
  "escrow_owed a S =
     (if a = rex_account then rex_owed (rx S)
      else if a = names_account then names_owed S
      else if a = stake_account then stake_owed S
      else if a = ram_account then ram_stake S
      else if a = bpay_account then perblock_bucket (gstate (vs S))
      else if a = vpay_account then pervote_bucket (gstate (vs S))
      else 0)"

lemma escrow_owed_simps [simp]:
  "escrow_owed rex_account S = rex_owed (rx S)" "escrow_owed names_account S = names_owed S"
  "escrow_owed stake_account S = stake_owed S" "escrow_owed ram_account S = ram_stake S"
  "escrow_owed bpay_account S = perblock_bucket (gstate (vs S))" "escrow_owed vpay_account S = pervote_bucket (gstate (vs S))"
  by (simp_all add: escrow_owed_def account_defs)

definition sys_sound :: "system_state \<Rightarrow> system_state \<Rightarrow> bool" where
  "sys_sound S S' \<longleftrightarrow> sys_inv S' \<and> (\<forall>a\<in>escrows. covered a (escrow_owed a) S S')"

lemma covered_cong: "covered a f S S' \<Longrightarrow> (\<And>S. g S = f S) \<Longrightarrow> covered a g S S'"
  by (simp add: covered_def)

lemma sys_soundI:
  assumes "sound S S'" "ram_inv S'" "covered ram_account ram_stake S S'" "names_inv S'" "covered names_account names_owed S S'"
    and "stake_inv S'" "covered stake_account stake_owed S S'" "pay_inv S'"
    and "covered bpay_account (\<lambda>S. perblock_bucket (gstate (vs S))) S S'"
    and "covered vpay_account (\<lambda>S. pervote_bucket (gstate (vs S))) S S'"
  shows "sys_sound S S'"
proof -
  have "covered rex_account (\<lambda>S. rex_owed (rx S)) S S'" using assms(1) by (simp add: sound_def balanced_covered)
  then have "covered a (escrow_owed a) S S'" if "a \<in> escrows" for a
    using that assms(3,5,7,9,10) unfolding escrows_def by (auto elim: covered_cong)
  then show ?thesis using assms sound_inv by (simp add: sys_sound_def sys_inv_def)
qed

text \<open>The steps of each kind.\<close>

lemma sys_invD:
  assumes "sys_inv S"
  shows "rex_inv (rx S)" "ram_inv S" "names_inv S" "stake_inv S" "pay_inv S"
  using assms by (simp_all add: sys_inv_def)

lemma calm_sys_sound:
  assumes X: "sys_inv S" and c: "calm S S'" "sound S S'" and st: "stake_inv S'" "balanced stake_account stake_owed S S'"
  shows "sys_sound S S'"
proof -
  note I = sys_invD [OF X]
  note m = off_market_law [OF calm_off_market [OF c(1)] I(2)]
  note n = calm_names [OF c(1) I(3)] and p = calm_pay [OF c(1) I(5)]
  show ?thesis
    by (rule sys_soundI [OF c(2) m(1) _ n st(1) _ p(1)]) (use m(2) st(2) p(2,3) balanced_covered in blast)+
qed

lemma still_sys_sound:
  assumes "sys_inv S" "still S S'" "sound S S'"
  shows "sys_sound S S'"
  using assms sys_invD(4) [OF assms(1)]
  by (intro calm_sys_sound) (auto simp: still_def stake_quiet_inv stake_quiet_balanced)

text \<open>The arguments stay within the bounds of their component; escrow accounts do not act as users.\<close>

fun name_user :: "name_action \<Rightarrow> name" where
  "name_user (Bidname bidder n bid) = bidder"
| "name_user (Bidrefund bidder n) = bidder"
| "name_user _ = eosio_account"

fun is_block :: "name_action \<Rightarrow> bool" where
  "is_block (Onblock t p) \<longleftrightarrow> True"
| "is_block _ \<longleftrightarrow> False"

definition claim_fits :: "env \<Rightarrow> token_state \<Rightarrow> name \<Rightarrow> system_state \<Rightarrow> bool" where
  "claim_fits E T w S \<longleftrightarrow> w \<notin> escrows \<and> get_self E \<notin> escrows \<and>
     \<bar>pervote_bucket (gstate (vs S))\<bar> \<le> core_cap \<and> perblock_bucket (gstate (vs S)) \<le> core_cap \<and>
     (\<forall>S1 p. fill_buckets E T S = Inr S1 \<longrightarrow> fmlookup (producers (vs S)) w = Some p \<longrightarrow>
        perblock_bucket (gstate (vs S1)) * unpaid_blocks p < 2 ^ 63)"

fun sys_fits :: "env \<Rightarrow> token_state \<Rightarrow> system_action \<Rightarrow> system_state \<Rightarrow> bool" where
  "sys_fits E T (Rex a) S \<longleftrightarrow> rex_ready a S \<and> rex_user a \<notin> escrows \<and> stake_owed S \<le> core_cap"
| "sys_fits E T (Ram a) S \<longleftrightarrow> ram_fits a S \<and> fees_fit a S"
| "sys_fits E T (Names a) S \<longleftrightarrow> name_fits a S \<and> name_user a \<notin> escrows \<and>
     (is_block a \<longrightarrow> total_unpaid_blocks (gstate (vs S)) < 2 ^ 32 - 1)"
| "sys_fits E T (Stakes a) S \<longleftrightarrow> stake_fits a S \<and> stake_user a \<notin> escrows"
| "sys_fits E T (Votes a) S \<longleftrightarrow> True"
| "sys_fits E T (Privileged a) S \<longleftrightarrow> True"
| "sys_fits E T (Claimrewards w) S \<longleftrightarrow> claim_fits E T w S"

lemma rex_stake_law:
  assumes "lib_ok E" "rex_inv (rx S)" "stake_inv S" "rex_user a \<notin> escrows" "stake_owed S \<le> core_cap" "rex_exec E a S = Inr S'"
  shows "stake_inv S'" "balanced stake_account stake_owed S S'"
proof -
  have "stake_inv S' \<and> balanced stake_account stake_owed S S'"
  proof (cases "takes_stake a")
    case True
    then obtain w r net cpu where "a = Unstaketorex w r net cpu" by (cases a) auto
    then show ?thesis using assms(6) stake_exec_law [OF assms(1,3), of "Unstake_to_rex w r net cpu" S'] assms(5) by simp
  next
    case False
    then have "still S S'" using rex_exec_still [OF assms(1,4) _ assms(6)] by simp
    then have "stake_quiet S S'" by (simp add: still_def)
    then show ?thesis using assms(3) stake_quiet_inv stake_quiet_balanced by blast
  qed
  then show "stake_inv S'" "balanced stake_account stake_owed S S'" by simp_all
qed

lemma ram_sys_sound:
  assumes E: "lib_ok E" and X: "sys_inv S" and f: "ram_fits a S" "fees_fit a S" and run: "ram_exec E a S = Inr S'"
  shows "sys_sound S S'"
proof -
  note I = sys_invD [OF X]
  note r = ram_exec_sound [OF E I(2) f(1) run]
  have A: "beside S S'" "stake_quiet S S'" "sound S S'"
    using ram_exec_apart [OF E I(1,2) f run] by (simp_all add: apart_def)
  note n = beside_names [OF A(1) I(3)] and p = beside_pay [OF A(1) I(5)]
  have m: "ram_inv S'" "balanced ram_account ram_stake S S'" using r by (simp_all add: ram_sound_def)
  have st: "stake_inv S'" "balanced stake_account stake_owed S S'"
    using A(2) I(4) by (simp_all add: stake_quiet_inv stake_quiet_balanced)
  show ?thesis
    by (rule sys_soundI [OF A(3) m(1) _ n(1) _ st(1) _ p(1)]) (use m n st p balanced_covered in blast)+
qed

text \<open>An action on names, given what it does to the books of pay.\<close>

lemma off_market_sys_sound:
  assumes X: "sys_inv S" and o: "off_market S S'" "stake_quiet S S'" "sound S S'"
    and n: "names_inv S'" "covered names_account names_owed S S'"
    and p: "pay_inv S'" "balanced bpay_account (\<lambda>S. perblock_bucket (gstate (vs S))) S S'"
      "balanced vpay_account (\<lambda>S. pervote_bucket (gstate (vs S))) S S'"
  shows "sys_sound S S'"
proof -
  note I = sys_invD [OF X]
  note m = off_market_law [OF o(1) I(2)]
  have st: "stake_inv S'" "balanced stake_account stake_owed S S'"
    using o(2) I(4) by (simp_all add: stake_quiet_inv stake_quiet_balanced)
  show ?thesis
    by (rule sys_soundI [OF o(3) m(1) _ n st(1) _ p(1)]) (use m st p balanced_covered in blast)+
qed

lemma off_names_pay:
  assumes "off_names S S'" "pay_inv S"
  shows "pay_inv S'" "balanced bpay_account (\<lambda>S. perblock_bucket (gstate (vs S))) S S'"
    "balanced vpay_account (\<lambda>S. pervote_bucket (gstate (vs S))) S S'"
  using assms pay_kept_inv by (auto simp: off_names_def pay_kept_def balanced_def)

lemma name_sys_sound:
  assumes E: "lib_ok E" and X: "sys_inv S" and f: "sys_fits E T (Names a) S" and run: "name_exec E a S = Inr S'"
  shows "sys_sound S S'"
proof -
  note I = sys_invD [OF X]
  have nm: "names_inv S'" "covered names_account names_owed S S'"
    using f names_escrow.exec_keeps [OF E I(3) _ run] names_escrow.exec_covers [OF E I(3) _ run] by auto
  show ?thesis
  proof (cases "is_block a")
    case True
    then obtain t p where a: "a = Onblock t p" by (cases a) auto
    then have ob: "onblock E t p S = Inr S'" and b: "total_unpaid_blocks (gstate (vs S)) < 2 ^ 32 - 1" "names_owed S \<le> core_cap"
      using run f by auto
    note pay = onblock_pay [OF I(5) b(1) ob]
    then show ?thesis
      by (intro off_market_sys_sound [OF X onblock_cross [OF I(1,3) b(2) ob] nm]) (auto simp: balanced_def)
  next
    case False
    have o: "off_names S S'"
      using f run False bidname_cross [OF E I(1)] bidrefund_cross [OF I(1)] newaccount_cross [OF I(1)]
      by (cases a) auto
    show ?thesis
      by (rule off_market_sys_sound [OF X _ _ _ nm off_names_pay [OF o I(5)]]) (use o in \<open>simp_all add: off_names_def\<close>)
  qed
qed

lemma claim_sys_sound:
  assumes E: "lib_ok E" "token_inv T" and X: "sys_inv S" and f: "claim_fits E T w S" and run: "claimrewards E T w S = Inr S'"
  shows "sys_sound S S'"
proof -
  note I = sys_invD [OF X]
  have e: "{rex_account, names_account, stake_account, ram_account} \<inter> {get_self E, saving_account, bpay_account, vpay_account, w} = {}"
    using f by (auto simp: claim_fits_def escrows_def account_defs)
  obtain V es where S': "S' = emit es (S\<lparr>vs := V\<rparr>)" "memory_of V = memory_of (vs S)"
    and m: "moved rex_account es = 0" "moved names_account es = 0" "moved stake_account es = 0" "moved ram_account es = 0"
    using claimrewards_frame [OF run] e unfolding memory_of_def by auto
  have "get_self E \<notin> {bpay_account, vpay_account}" "w \<notin> {bpay_account, vpay_account}"
    using f by (auto simp: claim_fits_def escrows_def)
  from claim_law [OF E this I(5) _ _ _ run] f
  have c: "pay_inv S'" "balanced bpay_account (\<lambda>S. perblock_bucket (gstate (vs S))) S S'"
      "balanced vpay_account (\<lambda>S. pervote_bucket (gstate (vs S))) S S'"
    unfolding claim_fits_def balanced_def by blast+
  have "off_market S S'" using S' m by (auto simp: off_market_def)
  moreover have "stake_quiet S S'" by (rule stake_quietI [of _ _ es]) (simp_all add: S' m)
  moreover have "sound S S'" by (rule sound_emit [of _ _ es]) (simp_all add: S' m I)
  moreover have "names_inv S'" "covered names_account names_owed S S'"
    using I(3) m by (auto simp: S' names_inv_def names_owed_def intro: coveredI [of _ _ es])
  ultimately show ?thesis using c by (intro off_market_sys_sound [OF X])
qed

lemma system_exec_sound:
  assumes E: "lib_ok E" "token_inv T" and X: "sys_inv S" and f: "sys_fits E T a S" and run: "system_exec E T a S = Inr S'"
  shows "sys_sound S S'"
proof (cases a)
  case (Rex x)
  then have r: "rex_exec E x S = Inr S'" and f: "rex_ready x S" "rex_user x \<notin> escrows" "stake_owed S \<le> core_cap"
    using run f by simp_all
  have s: "sound S S'" using rex_exec_sound [OF E(1) sys_invD(1) [OF X] _ _ r] f(1) by (simp add: rex_ready_def)
  show ?thesis
    by (rule calm_sys_sound [OF X rex_exec_calm [OF E(1) f(2) r] s])
      (rule rex_stake_law [OF E(1) sys_invD(1,4) [OF X] f(2,3) r])+
next
  case (Ram x)
  then show ?thesis using ram_sys_sound [OF E(1) X, of x] f run by simp
next
  case (Names x)
  then show ?thesis using name_sys_sound [OF E(1) X] f run by simp
next
  case (Stakes x)
  then have r: "stake_exec E x S = Inr S'" and f: "stake_fits x S" "stake_user x \<notin> escrows" using run f by simp_all
  show ?thesis
    by (rule calm_sys_sound [OF X stake_exec_cross [OF E(1) sys_invD(1,4) [OF X] f(2) r]])
      (rule stake_exec_law [OF E(1) sys_invD(4) [OF X] f(1) r])+
next
  case (Votes x)
  then have "vote_exec E x S = Inr S'" using run by simp
  then show ?thesis using vote_exec_cross [OF sys_invD(1) [OF X]] still_sys_sound [OF X] by blast
next
  case (Privileged x)
  then have "admin_exec E T x S = Inr S'" using run by simp
  then show ?thesis using admin_exec_cross [OF sys_invD(1,2) [OF X]] still_sys_sound [OF X] by blast
next
  case (Claimrewards w)
  then show ?thesis using claim_sys_sound [OF E X] f run by simp
qed

end
