(* ===== verification/Token_Spec.thy ===== *)
theory Token_Spec
  imports Token
begin

text \<open>
  What the token contract promises, without tables or machine integers: for each currency a symbol,
  a supply, a maximum and an issuer, and a function from holders to amounts. The contract refines
  this ledger exactly: an action succeeds if and only if the ledger allows it, and has its effect.
\<close>

section \<open>The abstract ledger\<close>

record currency =
  cur_symbol :: symbol
  cur_supply :: int
  cur_max :: int
  cur_issuer :: name

record coin_ledger =
  currencies :: "symbol_code \<Rightarrow> currency option"
  held :: "symbol_code \<Rightarrow> name \<Rightarrow> int"
  opened :: "(name \<times> symbol_code) set"

definition take_coins :: "symbol_code \<Rightarrow> name \<Rightarrow> int \<Rightarrow> coin_ledger \<Rightarrow> coin_ledger" where
  "take_coins c w n L = L\<lparr>held := (held L)(c := (held L c)(w := held L c w - n))\<rparr>"

definition put_coins :: "symbol_code \<Rightarrow> name \<Rightarrow> int \<Rightarrow> coin_ledger \<Rightarrow> coin_ledger" where
  "put_coins c w n L = L\<lparr>held := (held L)(c := (held L c)(w := held L c w + n)), opened := insert (w, c) (opened L)\<rparr>"

definition set_supply :: "symbol_code \<Rightarrow> int \<Rightarrow> coin_ledger \<Rightarrow> coin_ledger" where
  "set_supply c n L = L\<lparr>currencies := (currencies L)(c := map_option (\<lambda>k. k\<lparr>cur_supply := n\<rparr>) (currencies L c))\<rparr>"

text \<open>A quantity of a currency that an action may move, with its memo.\<close>

definition proper :: "env \<Rightarrow> asset \<Rightarrow> currency \<Rightarrow> string \<Rightarrow> bool" where
  "proper E q k memo \<longleftrightarrow> asset_is_valid E q \<and> 0 < amount q \<and> symbol q = cur_symbol k \<and> length memo \<le> 256"

fun ledger_exec :: "env \<Rightarrow> token_action \<Rightarrow> coin_ledger \<Rightarrow> coin_ledger option" where
  "ledger_exec E (Create iss m) L =
     (if has_auth E (get_self E) \<and> asset_is_valid E m \<and> 0 < amount m \<and> currencies L (sym_code (symbol m)) = None
      then Some (L\<lparr>currencies := (currencies L)(sym_code (symbol m) \<mapsto>
        \<lparr>cur_symbol = symbol m, cur_supply = 0, cur_max = amount m, cur_issuer = iss\<rparr>)\<rparr>)
      else None)"
| "ledger_exec E (Issue to q memo) L =
     (case currencies L (code_of q) of None \<Rightarrow> None | Some k \<Rightarrow>
        if proper E q k memo \<and> to = cur_issuer k \<and> has_auth E to \<and> cur_supply k + amount q \<le> cur_max k
        then Some (put_coins (code_of q) to (amount q) (set_supply (code_of q) (cur_supply k + amount q) L))
        else None)"
| "ledger_exec E (Retire q memo) L =
     (case currencies L (code_of q) of None \<Rightarrow> None | Some k \<Rightarrow>
        if proper E q k memo \<and> has_auth E (cur_issuer k) \<and> amount q \<le> held L (code_of q) (cur_issuer k)
        then Some (take_coins (code_of q) (cur_issuer k) (amount q) (set_supply (code_of q) (cur_supply k - amount q) L))
        else None)"
| "ledger_exec E (Transfer from to q memo) L =
     (case currencies L (code_of q) of None \<Rightarrow> None | Some k \<Rightarrow>
        if proper E q k memo \<and> from \<noteq> to \<and> has_auth E from \<and> is_account E to \<and> amount q \<le> held L (code_of q) from
        then Some (put_coins (code_of q) to (amount q) (take_coins (code_of q) from (amount q) L))
        else None)"
| "ledger_exec E (Open owner s payer) L =
     (case currencies L (sym_code s) of None \<Rightarrow> None | Some k \<Rightarrow>
        if has_auth E payer \<and> is_account E owner \<and> cur_symbol k = s \<and>
          ((owner, sym_code s) \<in> opened L \<or> sym_is_valid E s)
        then Some (L\<lparr>opened := insert (owner, sym_code s) (opened L)\<rparr>)
        else None)"
| "ledger_exec E (Close owner s) L =
     (if has_auth E owner \<and> (owner, sym_code s) \<in> opened L \<and> held L (sym_code s) owner = 0
      then Some (L\<lparr>opened := opened L - {(owner, sym_code s)}\<rparr>)
      else None)"

text \<open>What the tables of the contract say, read as such a ledger.\<close>

definition currency_of :: "currency_stats \<Rightarrow> currency" where
  "currency_of st = \<lparr>cur_symbol = symbol (supply st), cur_supply = amount (supply st),
     cur_max = amount (max_supply st), cur_issuer = issuer st\<rparr>"

definition view :: "token_state \<Rightarrow> coin_ledger" where
  "view T = \<lparr>currencies = (\<lambda>c. map_option currency_of (fmlookup (stats T) c)), held = bal T,
     opened = fset (fmdom (accounts T))\<rparr>"

definition outcome_of :: "'a res \<Rightarrow> 'a option" where
  "outcome_of r = (case r of Inl e \<Rightarrow> None | Inr x \<Rightarrow> Some x)"

lemma outcome_of_simps [simp]: "outcome_of (Inl e) = None" "outcome_of (Inr x) = Some x"
  by (simp_all add: outcome_of_def)

lemma currency_of_simps [simp]:
  "cur_symbol (currency_of st) = symbol (supply st)" "cur_supply (currency_of st) = amount (supply st)"
  "cur_max (currency_of st) = amount (max_supply st)" "cur_issuer (currency_of st) = issuer st"
  by (simp_all add: currency_of_def)

lemma view_simps [simp]:
  "currencies (view T) c = map_option currency_of (fmlookup (stats T) c)"
  "held (view T) = bal T" "opened (view T) = fset (fmdom (accounts T))"
  by (simp_all add: view_def)

lemma ledger_eqI:
  "currencies L = currencies L' \<Longrightarrow> held L = held L' \<Longrightarrow> opened L = opened L' \<Longrightarrow> (L::coin_ledger) = L'"
  by simp

section \<open>Balances\<close>

lemma add_balance_dom:
  "add_balance E w v p T = Inr T' \<Longrightarrow> fset (fmdom (accounts T')) = insert (w, code_of v) (fset (fmdom (accounts T)))"
  by (auto simp: add_balance_def fmdomI split: option.splits)

lemma sub_balance_dom:
  "sub_balance E w v T = Inr T' \<Longrightarrow> fset (fmdom (accounts T')) = fset (fmdom (accounts T))"
  by (auto simp: sub_balance_def fmdomI split: option.splits)

lemma add_balance_view:
  assumes "lib_ok E" "accounts_ok T" "in_range (amount v)" "add_balance E w v p T = Inr T'"
  shows "view T' = put_coins (code_of v) w (amount v) (view T)"
  using add_balance_bal [OF assms] add_balance_dom [OF assms(4)]
  by (intro ledger_eqI ext) (auto simp: put_coins_def)

lemma sub_balance_view:
  assumes "lib_ok E" "accounts_ok T" "0 \<le> amount v" "in_range (amount v)" "sub_balance E w v T = Inr T'"
  shows "view T' = take_coins (code_of v) w (amount v) (view T)"
  using sub_balance_bal [OF assms] sub_balance_dom [OF assms(5)]
  by (intro ledger_eqI ext) (auto simp: take_coins_def)

lemma supply_view:
  assumes "fmlookup (stats T) c = Some st" "symbol s = symbol (supply st)"
  shows "view (T\<lparr>stats := fmupd c (st\<lparr>supply := s\<rparr>) (stats T)\<rparr>) = set_supply c (amount s) (view T)"
  using assms by (intro ledger_eqI ext) (auto simp: set_supply_def bal_def currency_of_def)

lemma notified_view [simp]: "view (T\<lparr>notified := n\<rparr>) = view T"
  by (simp add: view_def bal_def [abs_def])

lemma holder_le_supply:
  assumes "token_inv T" "fmlookup (stats T) c = Some st"
  shows "bal T c w \<le> amount (supply st)"
proof -
  note I = token_invD [OF assms(1)]
  have nn: "0 \<le> held_in c a" if "fmlookup (accounts T) k = Some a" for k a
    using that I(2) by (cases k) (auto simp: held_in_def dest: accounts_okD)
  have "tval (held_in c) (accounts T) (w, c) \<le> circulating T c"
    unfolding circulating_def by (rule tval_le_tsum) (rule nn)
  then show ?thesis using I(3) assms(2) by (simp add: tval_held_in [OF I(2,1)] supply_ok_def)
qed

lemma stats_facts:
  assumes "token_inv T" "fmlookup (stats T) c = Some st"
  shows "0 \<le> amount (supply st)" "amount (supply st) \<le> amount (max_supply st)" "in_range (amount (max_supply st))"
    "in_range (amount (supply st))" "is_i64 (amount (max_supply st) - amount (supply st))" "code_of (supply st) = c"
proof -
  show s: "0 \<le> amount (supply st)" "amount (supply st) \<le> amount (max_supply st)" "in_range (amount (max_supply st))"
    "code_of (supply st) = c"
    using token_invD(1) [OF assms(1)] assms(2) by (auto simp: stats_ok_def)
  then show "in_range (amount (supply st))" "is_i64 (amount (max_supply st) - amount (supply st))"
    by (auto simp: in_range_def is_i64_def asset_max_def abs_le_iff)
qed

section \<open>The six actions\<close>

lemma refinesI:
  assumes "\<And>T'. r = Inr T' \<Longrightarrow> x = Some (view T')" and "\<And>L. x = Some L \<Longrightarrow> \<exists>T'. r = Inr T'"
  shows "map_option view (outcome_of r) = x"
proof (cases r)
  case (Inl e)
  then have "x = None" using assms(2) by (cases x) auto
  then show ?thesis using Inl by simp
next
  case (Inr T')
  then show ?thesis using assms(1) by simp
qed

lemma create_refines:
  assumes "lib_ok E" "token_inv T"
  shows "map_option view (outcome_of (token_exec E (Create iss m) T)) = ledger_exec E (Create iss m) (view T)"
proof (rule refinesI)
  fix T' assume "token_exec E (Create iss m) T = Inr T'"
  then have g: "has_auth E (get_self E)" "asset_is_valid E m" "0 < amount m" "fmlookup (stats T) (sym_code (symbol m)) = None"
    and T': "T' = T\<lparr>stats := fmupd (sym_code (symbol m))
      \<lparr>supply = \<lparr>amount = 0, symbol = symbol m\<rparr>, max_supply = m, issuer = iss\<rparr> (stats T)\<rparr>"
    by (auto simp: token_create_def Let_def)
  have "view T' = (view T)\<lparr>currencies := (currencies (view T))(sym_code (symbol m) \<mapsto>
        \<lparr>cur_symbol = symbol m, cur_supply = 0, cur_max = amount m, cur_issuer = iss\<rparr>)\<rparr>"
    by (intro ledger_eqI ext) (auto simp: T' bal_def currency_of_def)
  then show "ledger_exec E (Create iss m) (view T) = Some (view T')" using g by simp
next
  fix L assume "ledger_exec E (Create iss m) (view T) = Some L"
  then show "\<exists>T'. token_exec E (Create iss m) T = Inr T'"
    using assms(1) by (auto simp: token_create_def Let_def valid_asset_lib split: if_splits)
qed

lemma issue_refines:
  assumes E: "lib_ok E" and T: "token_inv T"
  shows "map_option view (outcome_of (token_exec E (Issue to q memo) T)) = ledger_exec E (Issue to q memo) (view T)"
proof (cases "fmlookup (stats T) (code_of q)")
  case None
  then have "\<exists>e. token_issue E to q memo T = Inl e"
    by (cases "token_issue E to q memo T") (auto simp: token_issue_def)
  then show ?thesis using None by auto
next
  case (Some st)
  note f = stats_facts [OF T Some]
  let ?s = "\<lparr>amount = amount (supply st) + amount q, symbol = symbol (supply st)\<rparr>"
  let ?T = "T\<lparr>stats := fmupd (code_of q) (st\<lparr>supply := ?s\<rparr>) (stats T)\<rparr>"
  have A: "accounts_ok ?T" using accounts_ok_supply_upd [OF token_invD(2) [OF T] Some] by simp
  have V: "view ?T = set_supply (code_of q) (amount (supply st) + amount q) (view T)"
    using supply_view [OF Some, of ?s] by simp
  have s: "add_asset E (supply st) q = Inr s \<longleftrightarrow>
      symbol (supply st) = symbol q \<and> in_range (amount (supply st) + amount q) \<and> s = ?s" if "in_range (amount q)" for s
    using add_asset_lib [OF E is_i64_add [OF f(4) that]] .
  show ?thesis
  proof (rule refinesI)
    fix T' assume run: "token_exec E (Issue to q memo) T = Inr T'"
    then have "token_issue E to q memo T = Inr T'" by simp
    then have g: "proper E q (currency_of st) memo" "to = issuer st" "has_auth E to"
      "amount q \<le> i64 (amount (max_supply st) - amount (supply st))" "in_range (amount q)"
      and ab: "add_balance E to q to ?T = Inr T'"
      using Some s by (auto simp: token_issue_def proper_def valid_asset_lib [OF E])
    show "ledger_exec E (Issue to q memo) (view T) = Some (view T')"
      using Some g f(5) add_balance_view [OF E A g(5) ab] V by (simp add: i64_id)
  next
    fix L assume "ledger_exec E (Issue to q memo) (view T) = Some L"
    then have g: "proper E q (currency_of st) memo" "to = issuer st" "has_auth E to"
      "amount (supply st) + amount q \<le> amount (max_supply st)"
      using Some by (auto split: if_splits)
    then have q: "in_range (amount q)" "sym_is_valid E (symbol q)" "0 < amount q" "symbol q = symbol (supply st)"
      by (auto simp: proper_def valid_asset_lib [OF E])
    have "bal T (code_of q) to \<le> amount (supply st)" using holder_le_supply [OF T Some] .
    moreover have "0 \<le> bal T (code_of q) to" using bal_nonneg [OF token_invD(2) [OF T]] .
    ultimately have r: "in_range (bal ?T (code_of q) to + amount q)" "in_range (amount (supply st) + amount q)"
      using g(4) q(3) f(1,3) by (auto simp: in_range_def abs_le_iff bal_def)
    obtain T' where "add_balance E to q to ?T = Inr T'"
      using add_balance_succeeds [OF E A q(1) _ _ r(1), of "st\<lparr>supply := ?s\<rparr>"] q(4) by auto
    then show "\<exists>T'. token_exec E (Issue to q memo) T = Inr T'"
      using Some g s [OF q(1)] q r(2) f(5) by (auto simp: token_issue_def proper_def i64_id)
  qed
qed


lemma retire_refines:
  assumes E: "lib_ok E" and T: "token_inv T"
  shows "map_option view (outcome_of (token_exec E (Retire q memo) T)) = ledger_exec E (Retire q memo) (view T)"
proof (cases "fmlookup (stats T) (code_of q)")
  case None
  then have "\<exists>e. token_retire E q memo T = Inl e"
    by (cases "token_retire E q memo T") (auto simp: token_retire_def)
  then show ?thesis using None by auto
next
  case (Some st)
  note f = stats_facts [OF T Some]
  let ?s = "\<lparr>amount = amount (supply st) - amount q, symbol = symbol (supply st)\<rparr>"
  let ?T = "T\<lparr>stats := fmupd (code_of q) (st\<lparr>supply := ?s\<rparr>) (stats T)\<rparr>"
  have A: "accounts_ok ?T" using accounts_ok_supply_upd [OF token_invD(2) [OF T] Some] by simp
  have V: "view ?T = set_supply (code_of q) (amount (supply st) - amount q) (view T)"
    using supply_view [OF Some, of ?s] by simp
  have s: "sub_asset E (supply st) q = Inr s \<longleftrightarrow>
      symbol (supply st) = symbol q \<and> in_range (amount (supply st) - amount q) \<and> s = ?s"
    if "in_range (amount q)" "0 < amount q" for s
    using sub_asset_lib [OF E is_i64_sub [OF f(1,4) less_imp_le [OF that(2)] that(1)]] .
  show ?thesis
  proof (rule refinesI)
    fix T' assume run: "token_exec E (Retire q memo) T = Inr T'"
    then have "token_retire E q memo T = Inr T'" by simp
    then have g: "proper E q (currency_of st) memo" "has_auth E (issuer st)" "in_range (amount q)" "0 \<le> amount q"
      and sb: "sub_balance E (issuer st) q ?T = Inr T'"
      using Some s by (auto simp: token_retire_def proper_def valid_asset_lib [OF E])
    have "amount q \<le> bal T (code_of q) (issuer st)"
      using sub_balance_bal(4) [OF E A g(4,3) sb] by (simp add: bal_def)
    then show "ledger_exec E (Retire q memo) (view T) = Some (view T')"
      using Some g sub_balance_view [OF E A g(4,3) sb] V by simp
  next
    fix L assume "ledger_exec E (Retire q memo) (view T) = Some L"
    then have g: "proper E q (currency_of st) memo" "has_auth E (issuer st)" "amount q \<le> bal T (code_of q) (issuer st)"
      using Some by (auto split: if_splits)
    then have q: "in_range (amount q)" "sym_is_valid E (symbol q)" "0 < amount q" "symbol q = symbol (supply st)"
      by (auto simp: proper_def valid_asset_lib [OF E])
    have r: "in_range (amount (supply st) - amount q)"
      using holder_le_supply [OF T Some, of "issuer st"] g(3) q(3) f(1,4) by (auto simp: in_range_def abs_le_iff)
    obtain T' where "sub_balance E (issuer st) q ?T = Inr T'"
      using sub_balance_succeeds [OF E A q(3,1), of "st\<lparr>supply := ?s\<rparr>" "issuer st"] q(4) g(3) by (auto simp: bal_def)
    then show "\<exists>T'. token_exec E (Retire q memo) T = Inr T'"
      using Some g s [OF q(1,3)] q r by (auto simp: token_retire_def proper_def)
  qed
qed

lemma transfer_refines:
  assumes E: "lib_ok E" and T: "token_inv T"
  shows "map_option view (outcome_of (token_exec E (Transfer from to q memo) T)) =
    ledger_exec E (Transfer from to q memo) (view T)"
proof (rule refinesI)
  let ?T = "T\<lparr>notified := notified T @ [from, to]\<rparr>"
  fix T' assume run: "token_exec E (Transfer from to q memo) T = Inr T'"
  then have "token_transfer E from to q memo T = Inr T'" by simp
  with E show "ledger_exec E (Transfer from to q memo) (view T) = Some (view T')"
  proof (rule token_transfer_Inr)
    fix st T1
    assume g: "from \<noteq> to" "has_auth E from" "is_account E to" "fmlookup (stats T) (code_of q) = Some st"
      "symbol q = symbol (supply st)" "length memo \<le> 256" and q: "in_range (amount q)" "0 < amount q"
      and sb: "sub_balance E from q ?T = Inr T1"
      and ab: "add_balance E to q (if has_auth E to then to else from) T1 = Inr T'"
    note q0 = less_imp_le [OF q(2)]
    have A: "accounts_ok ?T" using token_invD(2) [OF T] by (simp add: accounts_ok_def)
    note A1 = sub_balance_accounts_ok [OF E A q0 q(1) sb]
    have V: "view T' = put_coins (code_of q) to (amount q) (take_coins (code_of q) from (amount q) (view T))"
      using sub_balance_view [OF E A q0 q(1) sb] add_balance_view [OF E A1 q(1) ab] by simp
    have "amount q \<le> bal T (code_of q) from" using sub_balance_bal(4) [OF E A q0 q(1) sb] by (simp add: bal_def)
    moreover have "asset_is_valid E q" using run by (auto simp: token_transfer_def Let_def)
    ultimately show ?thesis using g q V by (simp add: proper_def)
  qed
next
  fix L assume "ledger_exec E (Transfer from to q memo) (view T) = Some L"
  then obtain st where st: "fmlookup (stats T) (code_of q) = Some st" "proper E q (currency_of st) memo" "from \<noteq> to"
    "has_auth E from" "is_account E to" "amount q \<le> bal T (code_of q) from"
    by (auto split: option.splits if_splits)
  then show "\<exists>T'. token_exec E (Transfer from to q memo) T = Inr T'"
    using transfer_succeeds [OF E T] by (simp add: proper_def)
qed

lemma open_refines:
  assumes E: "lib_ok E"
  shows "map_option view (outcome_of (token_exec E (Open owner s p) T)) = ledger_exec E (Open owner s p) (view T)"
proof (rule refinesI)
  fix T' assume run: "token_exec E (Open owner s p) T = Inr T'"
  have "view T' = (view T)\<lparr>opened := insert (owner, sym_code s) (opened (view T))\<rparr>"
    using run by (intro ledger_eqI ext)
      (auto simp: token_open_def new_asset_lib [OF E] bal_def fmdomI split: option.splits)
  moreover have "ledger_exec E (Open owner s p) (view T) = Some ((view T)\<lparr>opened := insert (owner, sym_code s) (opened (view T))\<rparr>)"
    using run by (auto simp: token_open_def new_asset_lib [OF E] fmdomI split: option.splits)
  ultimately show "ledger_exec E (Open owner s p) (view T) = Some (view T')" by simp
next
  fix L assume "ledger_exec E (Open owner s p) (view T) = Some L"
  then obtain st where st: "fmlookup (stats T) (sym_code s) = Some st" "symbol (supply st) = s" "has_auth E p"
    "is_account E owner" "(owner, sym_code s) \<in> fset (fmdom (accounts T)) \<or> sym_is_valid E s"
    by (auto split: option.splits if_splits)
  have "new_asset E 0 s = Inr \<lparr>amount = 0, symbol = s\<rparr>" if "fmlookup (accounts T) (owner, sym_code s) = None"
    using that st(5) by (auto simp: new_asset_lib [OF E] fmdom_notI)
  then show "\<exists>T'. token_exec E (Open owner s p) T = Inr T'"
    using st by (auto simp: token_open_def split: option.splits)
qed

lemma close_refines:
  "map_option view (outcome_of (token_exec E (Close owner s) T)) = ledger_exec E (Close owner s) (view T)"
proof (rule refinesI)
  fix T' assume run: "token_exec E (Close owner s) T = Inr T'"
  then obtain a where a: "fmlookup (accounts T) (owner, sym_code s) = Some a" "amount (balance a) = 0" "has_auth E owner"
    "T' = T\<lparr>accounts := fmdrop (owner, sym_code s) (accounts T)\<rparr>"
    by (auto simp: token_close_def)
  then have "view T' = (view T)\<lparr>opened := opened (view T) - {(owner, sym_code s)}\<rparr>"
    by (intro ledger_eqI ext) (auto simp: bal_def)
  then show "ledger_exec E (Close owner s) (view T) = Some (view T')"
    using a by (auto simp: bal_def fmdomI)
next
  fix L assume "ledger_exec E (Close owner s) (view T) = Some L"
  then have g: "has_auth E owner" "(owner, sym_code s) \<in> fset (fmdom (accounts T))" "bal T (sym_code s) owner = 0"
    by (auto split: if_splits)
  then obtain a where a: "fmlookup (accounts T) (owner, sym_code s) = Some a" by (auto simp: fmlookup_dom_iff)
  then show "\<exists>T'. token_exec E (Close owner s) T = Inr T'"
    using g by (auto simp: token_close_def bal_def)
qed

section \<open>Refinement\<close>

text \<open>
  C12: The token contract implements the ledger of unbounded amounts: in every consistent state an
  action succeeds exactly when the ledger allows it, and then its tables read as what the ledger
  becomes. No machine arithmetic of the contract ever refuses or distorts what the ledger allows.
\<close>

theorem token_refines_ledger:
  assumes "lib_ok E" and "token_inv T"
  shows "map_option view (outcome_of (token_exec E a T)) = ledger_exec E a (view T)"
proof (cases a)
  case (Create iss m) then show ?thesis using create_refines [OF assms] by blast
next
  case (Issue to q memo) then show ?thesis using issue_refines [OF assms] by blast
next
  case (Retire q memo) then show ?thesis using retire_refines [OF assms] by blast
next
  case (Transfer f t q memo) then show ?thesis using transfer_refines [OF assms] by blast
next
  case (Open owner s p) then show ?thesis using open_refines [OF assms(1)] by blast
next
  case (Close owner s) then show ?thesis using close_refines by blast
qed

theorem token_refines_ledger_witness:
  "\<exists>T'. token_exec ref_env (Retire \<lparr>amount = 650, symbol = eos\<rparr> []) demo_token = Inr T' \<and>
     currencies (view T') (sym_code eos) = Some \<lparr>cur_symbol = eos, cur_supply = 350, cur_max = 5000, cur_issuer = eosio_account\<rparr>"
proof -
  have inv: "token_inv demo_token"
    using demo_token_reachable by induction (auto intro: token_empty_inv token_exec_inv)
  let ?a = "Retire \<lparr>amount = 650, symbol = eos\<rparr> []"
  have "map_option (\<lambda>L. currencies L (sym_code eos)) (ledger_exec ref_env ?a (view demo_token)) =
      Some (Some \<lparr>cur_symbol = eos, cur_supply = 350, cur_max = 5000, cur_issuer = eosio_account\<rparr>)"
    by (simp add: demo_token_def ref_env_def eos_def code_of_def proper_def take_coins_def set_supply_def bal_def
        currency_of_def in_range_def asset_max_def account_defs)
  then show ?thesis
    using token_refines_ledger [OF ref_env_ok inv, of ?a] by (auto simp: outcome_of_def split: sum.splits)
qed


section \<open>Typing of the tables\<close>

text \<open>
  C13: In every reachable state the rows are well typed: a balance is filed under the code of its own
  symbol, has the symbol (code and precision) of an existing currency, and lies between zero and the
  supply of the currency, which lies below the currency's maximum and within the range of assets.
\<close>

theorem token_rows_are_typed:
  assumes "token_reachable T" and "fmlookup (accounts T) (w, c) = Some a"
  shows "code_of (balance a) = c \<and> (\<exists>st. fmlookup (stats T) c = Some st \<and> symbol (balance a) = symbol (supply st) \<and>
    symbol (max_supply st) = symbol (supply st) \<and> 0 \<le> amount (balance a) \<and> amount (balance a) \<le> amount (supply st) \<and>
    amount (supply st) \<le> amount (max_supply st) \<and> amount (max_supply st) \<le> asset_max)"
proof -
  have inv: "token_inv T" using assms(1) by induction (auto intro: token_empty_inv token_exec_inv)
  note a = accounts_okD [OF token_invD(2) [OF inv] assms(2)]
  obtain st where st: "fmlookup (stats T) c = Some st" "symbol (balance a) = symbol (supply st)" using a(3) by blast
  have "amount (balance a) \<le> amount (supply st)"
    using holder_le_supply [OF inv st(1), of w] assms(2) by (simp add: bal_def)
  moreover have "symbol (max_supply st) = symbol (supply st)"
    using token_invD(1) [OF inv] st(1) by (simp add: stats_ok_def)
  moreover have "code_of (balance a) = c" using stats_facts(6) [OF inv st(1)] st(2) by (simp add: code_of_def)
  moreover have "amount (max_supply st) \<le> asset_max" using stats_facts(3) [OF inv st(1)] by (simp add: in_range_def)
  ultimately show ?thesis using st a(1) stats_facts(2) [OF inv st(1)] by blast
qed

theorem token_rows_are_typed_witness:
  "\<exists>st. fmlookup (stats demo_token) (sym_code eos) = Some st \<and> 300 \<le> amount (supply st) \<and> symbol (supply st) = eos"
  using token_rows_are_typed [OF demo_token_reachable, of b1_account "sym_code eos" "\<lparr>balance = \<lparr>amount = 300, symbol = eos\<rparr>\<rparr>"]
  by (auto simp: demo_token_def eos_def)

end
