(* ===== verification/System.thy ===== *)
theory System
  imports System_Actions Token_Spec
begin

text \<open>
  The two contracts together: system actions whose inline actions the token contract carries out,
  interleaved with actions on the token contract by anyone but the escrow accounts.
\<close>

section \<open>Runs of the chain\<close>

text \<open>
  One token is in circulation. An action whose inline actions fail is rolled back as a whole, so
  that a step consists of an action and the delivery of everything that it sent.
\<close>

definition single_token :: "symbol_code \<Rightarrow> token_state \<Rightarrow> bool" where
  "single_token c T \<longleftrightarrow> (\<forall>d. fmlookup (stats T) d \<noteq> None \<longrightarrow> d = c)"

fun creates_other :: "symbol_code \<Rightarrow> token_action \<Rightarrow> bool" where
  "creates_other c (Create iss m) \<longleftrightarrow> code_of m \<noteq> c"
| "creates_other c _ \<longleftrightarrow> False"

inductive chain_run :: "symbol_code \<Rightarrow> system_state \<times> token_state \<Rightarrow> system_state \<times> token_state \<Rightarrow> bool" for c s where
  chain_start: "chain_run c s s"
| chain_system: "chain_run c s (S, T) \<Longrightarrow> lib_ok E \<Longrightarrow> sys_fits E T a S \<Longrightarrow> system_exec E T a S = Inr S' \<Longrightarrow>
    effects S' = effects S @ es \<Longrightarrow> deliver_all (token_deliver E) es T = Inr T' \<Longrightarrow> chain_run c s (S', T')"
| chain_token: "chain_run c s (S, T) \<Longrightarrow> lib_ok E \<Longrightarrow> \<forall>a\<in>escrows. \<not> has_auth E a \<Longrightarrow> \<not> creates_other c x \<Longrightarrow>
    token_exec E x T = Inr T' \<Longrightarrow> chain_run c s (S, T')"

definition chain_ok :: "symbol_code \<Rightarrow> system_state \<times> token_state \<Rightarrow> bool" where
  "chain_ok c s \<longleftrightarrow> (case s of (S, T) \<Rightarrow> sys_inv S \<and> token_inv T \<and> single_token c T \<and>
     (\<forall>a\<in>escrows. escrow_owed a S \<le> bal T c a))"

section \<open>The token contract in one currency\<close>

lemma single_token_stats: "stats T' = stats T \<Longrightarrow> single_token c T' = single_token c T"
  by (simp add: single_token_def)

lemma single_tokenD: "single_token c T \<Longrightarrow> fmlookup (stats T) d = Some st \<Longrightarrow> d = c"
  by (auto simp: single_token_def)

lemma add_balance_stats: "add_balance E w v p T = Inr T' \<Longrightarrow> stats T' = stats T"
  by (auto simp: add_balance_def split: option.splits)

lemma sub_balance_stats: "sub_balance E w v T = Inr T' \<Longrightarrow> stats T' = stats T"
  by (auto simp: sub_balance_def)

lemma single_token_exec:
  assumes E: "lib_ok E" and T: "single_token c T" and x: "\<not> creates_other c x" and run: "token_exec E x T = Inr T'"
  shows "single_token c T'"
proof -
  have kept: "single_token c (T\<lparr>stats := fmupd d st' (stats T)\<rparr>)" if "fmlookup (stats T) d = Some st" for d st st'
    using T that by (auto simp: single_token_def)
  show ?thesis
  proof (cases x)
    case (Create iss m)
    then show ?thesis using run x T by (auto simp: token_create_def Let_def single_token_def code_of_def split: if_splits)
  next
    case (Issue to q memo)
    then have "token_issue E to q memo T = Inr T'" using run by simp
    with E show ?thesis by (rule token_issue_Inr) (use kept add_balance_stats single_token_stats in blast)
  next
    case (Retire q memo)
    then have "token_retire E q memo T = Inr T'" using run by simp
    with E show ?thesis by (rule token_retire_Inr) (use kept sub_balance_stats single_token_stats in blast)
  next
    case (Transfer f to q memo)
    then show ?thesis using run T single_token_stats [of T' T c]
      by (auto simp: token_transfer_def Let_def dest!: add_balance_stats sub_balance_stats)
  next
    case (Open w s p)
    then show ?thesis using run T by (auto simp: token_open_def single_token_def split: option.splits)
  next
    case (Close w s)
    then show ?thesis using run T by (auto simp: token_close_def single_token_def)
  qed
qed

text \<open>Tokens leave an account only with its authority.\<close>

lemma outsider_balance:
  assumes E: "lib_ok E" "token_inv T" and a: "\<not> has_auth E a" and run: "token_exec E x T = Inr T'"
  shows "bal T c a \<le> bal T' c a"
proof (cases x)
  case (Create iss m)
  then show ?thesis using run by (auto simp: token_create_def Let_def bal_def)
next
  case (Issue to q memo)
  then have i: "token_issue E to q memo T = Inr T'" using run by simp
  have "0 < amount q" using token_issue_Inr [OF E(1) i] by blast
  then show ?thesis using token_issue_effect [OF E i, of c a] by simp
next
  case (Retire q memo)
  then have "token_retire E q memo T = Inr T'" using run by simp
  with E(1) show ?thesis
  proof (rule token_retire_Inr)
    fix st s
    assume h: "fmlookup (stats T) (code_of q) = Some st" "has_auth E (issuer st)"
      "sub_balance E (issuer st) q (T\<lparr>stats := fmupd (code_of q) (st\<lparr>supply := s\<rparr>) (stats T)\<rparr>) = Inr T'"
    then have "fmlookup (accounts T') (a, c) = fmlookup (accounts T) (a, c)" using a by (auto simp: sub_balance_def)
    then show ?thesis by (simp add: bal_def tval_def)
  qed
next
  case (Transfer f to q memo)
  then show ?thesis using token_transfer_effect [OF E, of f to q memo T' c a] run a by auto
next
  case (Open w s p)
  then show ?thesis using token_open_effect [OF E(1), of w s p T T' c a] run by simp
next
  case (Close w s)
  then have "fmlookup (accounts T') (a, c) = fmlookup (accounts T) (a, c)" using run a by (auto simp: token_close_def)
  then show ?thesis by (simp add: bal_def tval_def)
qed

lemma deliver_single:
  assumes E: "lib_ok E" and T: "single_token c T" and run: "token_deliver E e T = Inr T'"
  shows "in_currency c e \<and> single_token c T'"
proof -
  have ok: "lib_ok (inline_env ps E)" for ps using E by simp
  show ?thesis
  proof (cases e)
    case (Token_transfer ps f t q memo)
    then have r: "token_exec (inline_env ps E) (Transfer f t q memo) T = Inr T'" using run by simp
    then obtain st where "fmlookup (stats T) (code_of q) = Some st" by (auto simp: token_transfer_def Let_def)
    then show ?thesis using single_tokenD [OF T] single_token_exec [OF ok T _ r] Token_transfer by simp
  next
    case (Token_issue ps t q memo)
    then have r: "token_exec (inline_env ps E) (Issue t q memo) T = Inr T'" using run by simp
    then obtain st where "fmlookup (stats T) (code_of q) = Some st" by (auto simp: token_issue_def)
    then show ?thesis using single_tokenD [OF T] single_token_exec [OF ok T _ r] Token_issue by simp
  next
    case (Token_open ps owner s payer)
    then have r: "token_exec (inline_env ps E) (Open owner s payer) T = Inr T'" using run by simp
    then show ?thesis using single_token_exec [OF ok T _ r] Token_open by simp
  qed (use run T in simp_all)
qed

lemma deliver_all_single:
  "lib_ok E \<Longrightarrow> single_token c T \<Longrightarrow> deliver_all (token_deliver E) es T = Inr T' \<Longrightarrow>
    (\<forall>e\<in>set es. in_currency c e) \<and> single_token c T'"
proof (induction es arbitrary: T)
  case (Cons e es)
  then obtain T1 where "token_deliver E e T = Inr T1" "deliver_all (token_deliver E) es T1 = Inr T'" by auto
  then show ?case using Cons.IH [of T1] deliver_single [OF Cons.prems(1,2)] Cons.prems(1) by simp
qed simp

section \<open>Solvency\<close>

text \<open>One step of either kind.\<close>

lemma chain_ok_system:
  assumes ok: "chain_ok c (S, T)" and E: "lib_ok E" and f: "sys_fits E T a S" and run: "system_exec E T a S = Inr S'"
    and e: "effects S' = effects S @ es" and del: "deliver_all (token_deliver E) es T = Inr T'"
  shows "chain_ok c (S', T')"
proof -
  have I: "sys_inv S" "token_inv T" "single_token c T" "\<And>b. b \<in> escrows \<Longrightarrow> escrow_owed b S \<le> bal T c b"
    using ok by (simp_all add: chain_ok_def)
  note d = deliver_all_single [OF E I(3) del]
  have m: "token_inv T'" "bal T' c b = bal T c b + moved b es" for b
    using token_ledger.deliver_all_moves [of E T es c T' b] E del I(2) d by auto
  have s: "sys_sound S S'" by (rule system_exec_sound [OF E I(2,1) f run])
  have "escrow_owed b S' \<le> bal T' c b" if b: "b \<in> escrows" for b
  proof -
    have "covered b (escrow_owed b) S S'" using s b by (simp add: sys_sound_def)
    then have "escrow_owed b S' \<le> escrow_owed b S + moved b es" using e by (auto simp: covered_def)
    then show ?thesis using m(2) I(4) [OF b] by simp
  qed
  then show ?thesis using s m(1) d by (simp add: chain_ok_def sys_sound_def)
qed

lemma chain_ok_token:
  assumes ok: "chain_ok c (S, T)" and E: "lib_ok E" "\<forall>a\<in>escrows. \<not> has_auth E a" and x: "\<not> creates_other c x"
    and run: "token_exec E x T = Inr T'"
  shows "chain_ok c (S, T')"
proof -
  have I: "sys_inv S" "token_inv T" "single_token c T" "\<And>b. b \<in> escrows \<Longrightarrow> escrow_owed b S \<le> bal T c b"
    using ok by (simp_all add: chain_ok_def)
  have "escrow_owed b S \<le> bal T' c b" if b: "b \<in> escrows" for b
    using I(4) [OF b] outsider_balance [OF E(1) I(2) _ run, of b c] E(2) b by fastforce
  then show ?thesis
    using I(1) token_exec_inv [OF E(1) I(2) run] single_token_exec [OF E(1) I(3) x run] by (simp add: chain_ok_def)
qed

lemma chain_ok_run:
  assumes "chain_run c s s'" "chain_ok c s"
  shows "chain_ok c s'"
  using assms by (induction rule: chain_run.induct) (auto intro: chain_ok_system chain_ok_token)

text \<open>
  C1: The system contract never owes more than it holds. If at some point each of its escrow accounts
  holds what the contract owes out of it, and the books are in order, then this is so after any
  interleaving of system actions, carried out with all their inline transfers, and of actions
  on the token contract by others: for funds and pool of the REX, stakes and refunds, bids, the
  tokens paid for memory, and both buckets of producer pay.
\<close>

theorem system_stays_solvent:
  assumes "sys_inv S" and "token_inv T" and "single_token c T" and "\<forall>a\<in>escrows. escrow_owed a S \<le> bal T c a"
    and "chain_run c (S, T) (S', T')"
  shows "rex_owed (rx S') \<le> bal T' c rex_account \<and> stake_owed S' \<le> bal T' c stake_account \<and>
    names_owed S' \<le> bal T' c names_account \<and> ram_stake S' \<le> bal T' c ram_account \<and>
    perblock_bucket (gstate (vs S')) \<le> bal T' c bpay_account \<and> pervote_bucket (gstate (vs S')) \<le> bal T' c vpay_account"
proof -
  have "chain_ok c (S', T')" using chain_ok_run [OF assms(5)] assms(1-4) by (simp add: chain_ok_def)
  then have "escrow_owed a S' \<le> bal T' c a" if "a \<in> escrows" for a using that by (simp add: chain_ok_def)
  from this [of rex_account] this [of stake_account] this [of names_account] this [of ram_account]
    this [of bpay_account] this [of vpay_account]
  show ?thesis by (simp add: escrows_def)
qed

definition full_bank :: token_state where
  "full_bank =
     \<lparr>accounts = fmupd (rex_account, sym_code eos) \<lparr>balance = coins 1000500\<rparr>
        (fmupd (ram_account, sym_code eos) \<lparr>balance = coins 5000\<rparr>
        (fmupd (bob, sym_code eos) \<lparr>balance = coins 900\<rparr> fmempty)),
      stats = fmupd (sym_code eos) \<lparr>supply = coins 1006400, max_supply = coins 5000000, issuer = eosio_account\<rparr> fmempty,
      notified = []\<rparr>"

lemma full_bank_ok: "token_inv full_bank" "single_token (sym_code eos) full_bank"
proof -
  have d: "rex_account \<noteq> bob" "ram_account \<noteq> bob" by (simp_all add: account_defs bob_def)
  show "token_inv full_bank"
    using d by (auto simp: token_inv_def full_bank_def stats_ok_def accounts_ok_def supply_ok_def circulating_def
        held_in_def code_of_def in_range_def asset_max_def split: if_splits)
  show "single_token (sym_code eos) full_bank" by (simp add: single_token_def full_bank_def)
qed

lemma demo_state_books:
  "sys_inv demo_state" "names_owed demo_state = 0" "stake_owed demo_state = 0" "ram_stake demo_state = 5000"
  "perblock_bucket (gstate (vs demo_state)) = 0" "pervote_bucket (gstate (vs demo_state)) = 0"
  using demo_rex_inv demo_ram_inv
  by (simp_all add: sys_inv_def names_inv_def names_owed_def open_bids_def refunds_due_def stake_inv_def db_ok_def rr_ok_def
      stake_owed_def delegated_def refunding_def pay_inv_def unpaid_sum_def ram_stake_def
      demo_state_def demo_voting_def demo_gstate_def demo_rex_def demo_pool_def pool_field_def)

lemma demo_market: "rammarket demo_state = Some m \<Longrightarrow> quote_of m = 5000"
  by (auto simp: demo_state_def)

lemma demo_proceeds: "pool_field namebid_proceeds demo_rex = 0"
  by (simp add: pool_field_def demo_rex_def demo_pool_def)

text \<open>\<open>bob\<close> buys memory, a part of the fee goes to the REX; then sends tokens away.\<close>

theorem system_stays_solvent_witness:
  "\<exists>S' T'. chain_run (sym_code eos) (demo_state, full_bank) (S', T') \<and> ram_stake S' = 5398 \<and>
     rex_owed (rx S') = 1000502 \<and> bal T' (sym_code eos) bob = 400 \<and>
     ram_stake S' \<le> bal T' (sym_code eos) ram_account \<and> rex_owed (rx S') \<le> bal T' (sym_code eos) rex_account"
proof -
  let ?a = "Ram (Buyram bob bob (coins 400))" and ?x = "Transfer bob alice (coins 100) []"
  let ?F = "inline_env [active_of bob] ref_env"
  have "case system_exec ref_env full_bank ?a demo_state of
      Inr S' \<Rightarrow> moved ram_account (effects S') = 398 \<and> moved rex_account (effects S') = 2 \<and>
        (case deliver_all (token_deliver ref_env) (effects S') full_bank of
           Inr T1 \<Rightarrow> (case token_exec ?F ?x T1 of Inr T' \<Rightarrow> bal T' (sym_code eos) bob = 400 | Inl _ \<Rightarrow> False) | Inl _ \<Rightarrow> False)
    | Inl _ \<Rightarrow> False"
    by code_simp
  then obtain S' T1 T' where r: "system_exec ref_env full_bank ?a demo_state = Inr S'"
    "moved ram_account (effects S') = 398" "moved rex_account (effects S') = 2"
    "deliver_all (token_deliver ref_env) (effects S') full_bank = Inr T1" "token_exec ?F ?x T1 = Inr T'"
    "bal T' (sym_code eos) bob = 400"
    by (auto split: sum.splits)
  have u: "bob \<notin> escrows" by (simp add: escrows_def bob_def account_defs)
  have fit: "sys_fits ref_env full_bank ?a demo_state"
    using demo_ram_inv u
    by (simp add: buyram_fits_def half_percent_def tdiv_def rex_claims_def i64_def demo_market demo_proceeds
        core_cap_def market_max_def)
  have "chain_run (sym_code eos) (demo_state, full_bank) (S', T1)"
    by (rule chain_system [OF chain_start ref_env_ok fit r(1) _ r(4)]) simp
  then have run: "chain_run (sym_code eos) (demo_state, full_bank) (S', T')"
    by (rule chain_token [OF _ inline_env_ok [THEN iffD2, OF ref_env_ok] _ _ r(5)])
      (use u in \<open>auto simp: inline_env_def active_of_def\<close>)
  have b: "\<forall>a\<in>escrows. escrow_owed a demo_state \<le> bal full_bank (sym_code eos) a"
    by (auto simp: escrows_def demo_state_books bal_def full_bank_def)
  have x: "ram_exec ref_env (Buyram bob bob (coins 400)) demo_state = Inr S'" using r(1) by simp
  have "ram_stake S' = 5398"
    using ram_exec_sound [OF ref_env_ok demo_ram_inv(1) _ x] fit r(2) by (auto simp: ram_sound_def balanced_def demo_state_books)
  moreover have "rex_owed (rx S') = 1000502"
    using ram_exec_apart [OF ref_env_ok _ demo_ram_inv(1) _ _ x] fit r(3) demo_rex_inv
    by (auto simp: apart_def sound_def balanced_def)
  ultimately show ?thesis
    using run r(6) system_stays_solvent [OF demo_state_books(1) full_bank_ok b run] by blast
qed

end
