(* ===== verification/System_Votes.thy ===== *)
theory System_Votes
  imports System
begin

text \<open>
  Voting within the whole contract: staking, the REX and all other actions keep the links between
  voters, so that proxies form a forest in every state of the chain.
\<close>

section \<open>Actions that keep the links\<close>

definition linked :: "system_state \<Rightarrow> system_state \<Rightarrow> bool" where
  "linked S S' \<longleftrightarrow> links_kept (vs S) (vs S')"

lemma linked_refl [simp]: "linked S S"
  by (simp add: linked_def)

lemma linked_trans [trans]: "linked S S1 \<Longrightarrow> linked S1 S2 \<Longrightarrow> linked S S2"
  unfolding linked_def by (rule links_kept_trans)

lemma linked_simps [simp]:
  "linked S (S'\<lparr>rx := X\<rparr>) = linked S S'" "linked (S\<lparr>rx := X\<rparr>) S' = linked S S'"
  "linked S (S'\<lparr>rs := R\<rparr>) = linked S S'" "linked S (S'\<lparr>ns := N\<rparr>) = linked S S'"
  "linked S (S'\<lparr>rammarket := M\<rparr>) = linked S S'"
  "linked S (emit es S') = linked S S'" "linked (emit es S) S' = linked S S'"
  by (simp_all add: linked_def)

lemma linked_voters: "voters (vs S') = voters (vs S) \<Longrightarrow> linked S S'"
  by (simp add: linked_def links_kept_same)

lemma linked_put_rexbal [simp]: "linked S (put_rexbal w rb S') = linked S S'" "linked (put_rexbal w rb S) S' = linked S S'"
  by (simp_all add: put_rexbal_def)

lemma update_resource_limits_vs: "update_resource_limits E w dn dc S = Inr S' \<Longrightarrow> vs S' = vs S"
  unfolding update_resource_limits_def Let_def by (cases "dc = 0 \<and> dn = 0") auto

lemma limits_for_vs: "limits_for E k w d S = Inr S' \<Longrightarrow> vs S' = vs S"
  by (cases k) (auto simp: limits_for_def dest: update_resource_limits_vs)

lemma channel_to_rex_vs: "channel_to_rex E a q S = Inr S' \<Longrightarrow> vs S' = vs S"
  by (auto simp: channel_to_rex_def split: option.splits if_splits)

lemma run_loans_vs: "run_loans E k n S = Inr S' \<Longrightarrow> vs S' = vs S"
proof (induction n arbitrary: S)
  case (Suc n)
  show ?case
  proof (cases "first_of (index_by by_expr (loans k (rx S)))")
    case (Some loan)
    show ?thesis
    proof (cases "now E < expiration loan")
      case False
      then obtain d X S1 where l: "limits_for E k (l_receiver loan) d (S\<lparr>rx := X\<rparr>) = Inr S1" and r: "run_loans E k n S1 = Inr S'"
        using Suc.prems Some by fastforce
      show ?thesis using Suc.IH [OF r] limits_for_vs [OF l] by simp
    qed (use Suc.prems Some in simp)
  qed (use Suc.prems in simp)
qed simp

lemma runrex_vs:
  assumes "runrex E n S = Inr S'"
  shows "vs S' = vs S"
proof -
  obtain S1 S2 S3 es X and p :: rex_pool where 1: "(if 0 < amount (namebid_proceeds p) then
          bindE (channel_to_rex E names_account (namebid_proceeds p) S) (\<lambda>S.
          bindE (the_pool (rx S)) (\<lambda>rt.
          Inr (S\<lparr>rx := (rx S)\<lparr>rexpool :=
            Some (rt\<lparr>namebid_proceeds := set_amt 0 (namebid_proceeds rt)\<rparr>)\<rparr>\<rparr>)))
        else Inr S) = Inr S1"
    and 2: "run_loans E Cpu_loan n S1 = Inr S2" "run_loans E Net_loan n S2 = Inr S3" and S': "S' = emit es (S3\<lparr>rx := X\<rparr>)"
    using assms unfolding runrex_def bindE_eq_Inr the_pool_def by (clarsimp cong: if_cong)
  have "vs S1 = vs S" using 1 by (auto split: if_splits dest: channel_to_rex_vs)
  then show ?thesis using run_loans_vs [OF 2(1)] run_loans_vs [OF 2(2)] S' by simp
qed

lemma runrex_linked: "runrex E n S = Inr S' \<Longrightarrow> linked S S'"
  by (simp add: linked_def runrex_vs)

lemma update_rex_stake_linked:
  assumes "update_rex_stake E w S = Inr S'"
  shows "linked S S'"
proof -
  obtain d X where r: "refresh_rex_stake E (core_symbol S) w (rx S) = Inr (d, X)"
    using assms by (auto simp: update_rex_stake_def Let_def)
  have "vs S' = vs S \<or> (\<exists>v. fmlookup (voters (vs S)) w = Some v \<and>
      vs S' = (vs S)\<lparr>voters := fmupd w (v\<lparr>staked := i64 (staked v + d)\<rparr>) (voters (vs S))\<rparr>)"
    using assms r by (cases "fmlookup (voters (vs S)) w"; cases "d = 0") (auto simp: update_rex_stake_def Let_def)
  then show ?thesis by (auto simp: linked_def intro!: links_kept_row)
qed

lemma on_vs_power_linked: "on_vs (update_voting_power E w q) S = Inr S' \<Longrightarrow> linked S S'"
  by (auto simp: on_vs_def linked_def dest: update_voting_power_links)

lemma on_rx_linked: "on_rx f S = Inr S' \<Longrightarrow> linked S S'"
  by (auto simp: on_rx_def)

lemma update_rex_account_linked:
  assumes "update_rex_account E w z d force S = Inr (r, S')"
  shows "linked S S'"
proof -
  obtain X q where "(if force \<or> amount q \<noteq> 0 then on_vs (update_voting_power E w q) (S\<lparr>rx := X\<rparr>) else Inr (S\<lparr>rx := X\<rparr>)) = Inr S'"
    using assms by (auto simp: update_rex_account_def Let_def case_prod_beta cong: if_cong)
  then have "linked (S\<lparr>rx := X\<rparr>) S'" by (auto split: if_splits dest: on_vs_power_linked)
  then show ?thesis by simp
qed


text \<open>The actions of the REX: beside \<open>runrex\<close> and \<open>update_rex_account\<close> they write other tables.\<close>

lemma settled_linked:
  assumes "runrex E n S = Inr S1" "update_rex_account E w z d force S1 = Inr (r, S2)"
  shows "linked S S2"
  using runrex_linked [OF assms(1)] update_rex_account_linked [OF assms(2)] by (rule linked_trans)

lemma deposit_linked: "deposit E w q S = Inr S' \<Longrightarrow> linked S S'"
  by (auto simp: deposit_def dest: on_rx_linked)

lemma withdraw_linked: "withdraw E w q S = Inr S' \<Longrightarrow> linked S S'"
  by (auto simp: withdraw_def dest!: on_rx_linked update_rex_account_linked intro: linked_trans)

lemma buyrex_linked: "buyrex E w q S = Inr S' \<Longrightarrow> linked S S'"
  by (auto simp: buyrex_def dest: settled_linked)

lemma unstaketorex_linked:
  assumes "unstaketorex E w r net cpu S = Inr S'"
  shows "linked S S'"
proof -
  obtain R S0 pay es X S1 z q S2 fs where u: "update_resource_limits E r (i64 (- amount net)) (i64 (- amount cpu)) (S\<lparr>rs := R\<rparr>) = Inr S0"
    and a: "runrex E 2 (emit es S0\<lparr>rx := X\<rparr>) = Inr S1" "update_rex_account E w z z True S1 = Inr (q, S2)" and S': "S' = emit fs S2"
    using assms unfolding unstaketorex_def Let_def bindE_eq_Inr by clarsimp
  have "linked S S0" using update_resource_limits_vs [OF u] by (simp add: linked_voters)
  also have "linked S0 S2" using settled_linked [OF a] by simp
  finally show ?thesis by (simp add: S')
qed

lemma sellrex_linked:
  assumes "sellrex E w q S = Inr S'"
  shows "linked S S'"
proof -
  obtain S1 X p d r S3 es X' where a: "runrex E 2 S = Inr S1" "update_rex_account E w p d False (S1\<lparr>rx := X\<rparr>) = Inr (r, S3)"
    and S': "S' = emit es (S3\<lparr>rx := X'\<rparr>)"
    using assms unfolding sellrex_def Let_def put_rexbal_def bindE_eq_Inr by clarsimp
  have "linked S S1" using a(1) by (rule runrex_linked)
  also have "linked S1 S3" using update_rex_account_linked [OF a(2)] by simp
  finally show ?thesis by (simp add: S')
qed

lemma rent_loan_linked:
  assumes "rent_loan E k w r pay fund S = Inr S'"
  shows "linked S S'"
proof -
  obtain S1 es X n where a: "runrex E 2 S = Inr S1" "limits_for E k r n (emit es (S1\<lparr>rx := X\<rparr>)) = Inr S'"
    using assms unfolding rent_loan_def rent_rex_def Let_def by (auto; blast)
  then show ?thesis using runrex_vs [OF a(1)] limits_for_vs [OF a(2)] by (simp add: linked_voters)
qed

lemma updaterex_linked:
  assumes "updaterex E w S = Inr S'"
  shows "linked S S'"
proof -
  obtain S1 rb z d r S2 rb' where a: "runrex E 2 S = Inr S1" "update_rex_account E w z d True (put_rexbal w rb S1) = Inr (r, S2)"
    and S': "S' = put_rexbal w rb' S2"
    using assms by (auto simp: updaterex_def Let_def)
  have "linked S S1" using a(1) by (rule runrex_linked)
  also have "linked S1 S2" using update_rex_account_linked [OF a(2)] by simp
  finally show ?thesis by (simp add: S')
qed

lemma mvfrsavings_linked:
  assumes "mvfrsavings E w q S = Inr S'"
  shows "linked S S'"
proof -
  obtain S1 rb z d r where a: "runrex E 2 S = Inr S1" "update_rex_account E w z d False (put_rexbal w rb S1) = Inr (r, S')"
    using assms by (auto simp: mvfrsavings_def Let_def case_prod_beta)
  have "linked S S1" using a(1) by (rule runrex_linked)
  also have "linked S1 S'" using update_rex_account_linked [OF a(2)] by simp
  finally show ?thesis .
qed

lemma closerex_linked:
  assumes "closerex E w S = Inr S'"
  shows "linked S S'"
proof -
  obtain S1 z r S2 where a: "(if rex_system_initialized (rx S) then runrex E 2 S else Inr S) = Inr S1"
    "update_rex_account E w z z False S1 = Inr (r, S2)" "on_rx (drop_balance w) (S2\<lparr>rx := drop_fund w (rx S2)\<rparr>) = Inr S'"
    using assms unfolding closerex_def bindE_eq_Inr by (clarsimp cong: if_cong)
  have "linked S S1" using a(1) by (auto split: if_splits dest: runrex_linked)
  also have "linked S1 S2" using a(2) by (rule update_rex_account_linked)
  also have "linked S2 S'" using on_rx_linked [OF a(3)] by simp
  finally show ?thesis .
qed

lemma rex_exec_linked: "rex_exec E a S = Inr S' \<Longrightarrow> linked S S'"
  by (cases a)
    (auto simp: rentcpu_def rentnet_def fundcpuloan_def fundnetloan_def defcpuloan_def defnetloan_def fund_loan_def defund_loan_def
      setrex_def rexexec_def consolidate_def mvtosavings_def Let_def case_prod_beta
      dest: deposit_linked withdraw_linked buyrex_linked unstaketorex_linked sellrex_linked on_rx_linked rent_loan_linked
        updaterex_linked runrex_linked settled_linked mvfrsavings_linked closerex_linked)


section \<open>The other components\<close>

lemma update_ram_supply_voters: "update_ram_supply E S = Inr S' \<Longrightarrow> voters (vs S') = voters (vs S)"
  by (cases "block_slot E \<le> last_ram_increase (gstate2 (vs S))") (auto simp: update_ram_supply_def Let_def set_gstate_def)

lemma buyram_linked:
  assumes "buyram E payer receiver q S = Inr S'"
  shows "linked S S'"
proof -
  obtain S1 S2 es f fs b M g R where 1: "update_ram_supply E S = Inr S1"
    and 2: "(if b then channel_to_rex E ramfee_account f (emit fs (emit es S1)) else Inr (emit es S1)) = Inr S2"
    and S': "S' = S2\<lparr>rammarket := M, vs := (vs S2)\<lparr>gstate := g\<rparr>, rs := R\<rparr>"
    using assms by (auto simp: buyram_def Let_def set_gstate_def the_market_def)
  have "voters (vs S') = voters (vs S)"
    using update_ram_supply_voters [OF 1] 2 by (auto simp: S' split: if_splits dest: channel_to_rex_vs)
  then show ?thesis by (rule linked_voters)
qed

lemma sellram_linked:
  assumes "sellram E w n S = Inr S'"
  shows "linked S S'"
proof -
  obtain S1 es f fs b M g R where 1: "update_ram_supply E S = Inr S1"
    and 2: "(if b then bindE (new_asset E (fst f) (snd f)) (\<lambda>q. channel_to_rex E ramfee_account q
        (emit (fs q) (emit es (S1\<lparr>rammarket := M, vs := (vs S1)\<lparr>gstate := g\<rparr>, rs := R\<rparr>))))
      else Inr (emit es (S1\<lparr>rammarket := M, vs := (vs S1)\<lparr>gstate := g\<rparr>, rs := R\<rparr>))) = Inr S'"
    using assms by (auto simp: sellram_def Let_def set_gstate_def the_market_def cong: if_cong)
  have "voters (vs S') = voters (vs S)"
    using update_ram_supply_voters [OF 1] 2 by (auto split: if_splits dest: channel_to_rex_vs)
  then show ?thesis by (rule linked_voters)
qed

lemma setramrate_linked: "setramrate E n S = Inr S' \<Longrightarrow> linked S S'"
  by (rule linked_voters) (auto simp: setramrate_def dest!: update_ram_supply_voters)

lemma ram_exec_linked: "ram_exec E a S = Inr S' \<Longrightarrow> linked S S'"
  by (cases a)
    (auto simp: buyrambytes_def setram_def set_gstate_def Let_def
      dest: buyram_linked sellram_linked setramrate_linked intro: linked_voters)

lemma close_auction_voters: "voters (vs (close_auction E t S)) = voters (vs S)"
  by (simp add: close_auction_def set_gstate_def Let_def split: option.split)

lemma count_block_voters: "voters (vs (count_block E p S)) = voters (vs S)"
  by (simp add: count_block_def set_gstate_def Let_def split: option.split)

lemma update_elected_producers_voters: "update_elected_producers E t V = (V', es) \<Longrightarrow> voters V' = voters V"
  by (auto simp: update_elected_producers_def Let_def split: if_splits)

lemma name_exec_linked: "name_exec E a S = Inr S' \<Longrightarrow> linked S S'"
proof (cases a)
  case (Bidname bidder n bid)
  assume "name_exec E a S = Inr S'"
  then show ?thesis using Bidname
    by (auto simp: bidname_def Let_def split: option.splits intro!: linked_voters)
next
  case (Onblock t p)
  assume "name_exec E a S = Inr S'"
  then show ?thesis using Onblock
    by (auto simp: onblock_def Let_def close_auction_voters count_block_voters case_prod_beta
        update_elected_producers_voters [OF surjective_pairing] split: if_splits intro!: linked_voters)
qed (auto simp: bidrefund_def newaccount_def)

lemma changebw_linked:
  assumes "changebw E a w dnet dcpu transfer S = Inr S'"
  shows "linked S S'"
proof -
  let ?a = "if transfer then w else a"
  obtain both R2 S1 S2 where
    1: "(if stake_account \<noteq> a then
          bindE (change_refund E (core_symbol S) ?a (\<not> transfer \<and> ?a = w) dnet dcpu (refunds R2))
            (\<lambda>(net, cpu, need_deferred_trx, T).
          bindE (settle_stake E a ?a net cpu need_deferred_trx) (\<lambda>es.
          Inr (emit es (S\<lparr>rs := R2\<lparr>refunds := T\<rparr>\<rparr>))))
        else Inr (S\<lparr>rs := R2\<rparr>)) = Inr S1" and
    3: "update_rex_stake E ?a S1 = Inr S2" "on_vs (update_voting_power E ?a both) S2 = Inr S'"
    using assms unfolding changebw_steps by blast
  have 2: "vs S1 = vs S" using 1 by (auto split: if_splits)
  have "linked S S1" using 2 by (simp add: linked_voters)
  also have "linked S1 S2" by (rule update_rex_stake_linked [OF 3(1)])
  also have "linked S2 S'" by (rule on_vs_power_linked [OF 3(2)])
  finally show ?thesis .
qed

lemma stake_exec_linked: "stake_exec E a S = Inr S' \<Longrightarrow> linked S S'"
  by (cases a) (auto simp: delegatebw_def undelegatebw_def refund_def dest: changebw_linked unstaketorex_linked)

lemma set_flag_links [simp]: "links_kept V (set_flag a f b V)"
  by (auto simp: set_flag_def Let_def new_voter_def split: option.split intro!: links_kept_row)

lemma admin_exec_linked: "admin_exec E T a S = Inr S' \<Longrightarrow> linked S S'"
  by (cases a)
    (auto simp: init_def setparams_def setpriv_def activate_def setalimits_def setacctram_def setacctnet_def setacctcpu_def
      setabi_def onerror_def set_gstate_def linked_def Let_def intro: links_kept_same)

lemma vote_pay_voters: "vote_pay E p n c V = Inr (x, V') \<Longrightarrow> voters V' = voters V"
  using update_total_votepay_share_voters [of "now E" 0 0 V]
  by (auto simp: vote_pay_def Let_def case_prod_beta split: if_splits)

lemma claim_share_voters: "claim_share E w p V = (u, share, V') \<Longrightarrow> voters V' = voters V"
  by (auto simp: claim_share_def Let_def case_prod_beta)

lemma claimrewards_voters:
  assumes "claimrewards E T w S = Inr S'"
  shows "voters (vs S') = voters (vs S)"
proof -
  obtain p S1 where p: "fmlookup (producers (vs S)) w = Some p" "fill_buckets E T S = Inr S1"
    using assms by (auto simp: claimrewards_def Let_def)
  obtain u share V where c: "claim_share E w p (vs S1) = (u, share, V)" by (cases "claim_share E w p (vs S1)") auto
  obtain pay0 V1 where v: "vote_pay E p share (i64 (last_claim_time p + 3 * useconds_per_day) \<le> now E) V = Inr (pay0, V1)"
    using assms p c by (auto simp: claimrewards_def Let_def)
  have "voters (vs S') = voters V1" using assms p c v by (auto simp: claimrewards_def Let_def)
  moreover have "voters (vs S1) = voters (vs S)" using fill_buckets_frame [OF p(2)] by (auto simp: set_gstate_def)
  ultimately show ?thesis using vote_pay_voters [OF v] claim_share_voters [OF c] by simp
qed

lemma claimrewards_linked: "claimrewards E T w S = Inr S' \<Longrightarrow> linked S S'"
  by (rule linked_voters) (auto dest: claimrewards_voters)

section \<open>Votes\<close>

lemma vote_exec_forest:
  assumes "vote_exec E a S = Inr S'" "proxy_forest (vs S)"
  shows "proxy_forest (vs S')"
proof (cases a)
  case (Voteproducer w prox prods)
  then obtain S1 where 1: "update_rex_stake E w S = Inr S1" and 2: "update_votes E w prox prods True (vs S1) = Inr (vs S')"
    using assms(1) by (auto simp: voteproducer_def on_vs_def split: option.splits if_splits)
  have "proxy_forest (vs S1)"
    using update_rex_stake_linked [OF 1] links_kept_forest [OF _ assms(2)] by (simp add: linked_def)
  then show ?thesis using update_votes_forest [OF 2] by simp
next
  case (Regproxy p flag)
  then have "regproxy E p flag (vs S) = Inr (vs S')" using assms(1) by (auto simp: on_vs_def)
  then show ?thesis using regproxy_forest assms(2) by blast
qed (use assms links_kept_forest [OF links_kept_same] in \<open>auto simp: on_vs_def regproducer_def unregprod_def rmvproducer_def
      updtrevision_def Let_def split: option.splits if_splits\<close>)

lemma system_exec_forest:
  assumes run: "system_exec E T a S = Inr S'" and F: "proxy_forest (vs S)"
  shows "proxy_forest (vs S')"
proof (cases a)
  case (Votes x)
  then show ?thesis using vote_exec_forest run F by simp
qed (use run F links_kept_forest in \<open>auto simp: linked_def
      dest!: rex_exec_linked ram_exec_linked name_exec_linked stake_exec_linked admin_exec_linked claimrewards_linked\<close>)

text \<open>
  C5: In every state that the chain can reach, whatever actions of voting, staking, the REX and all other
  components come in between, the proxies form a forest: nobody votes through a cycle of proxies, who is
  a proxy votes for himself, and every proxy voted through is registered as a voter.
\<close>

theorem proxies_stay_a_forest:
  assumes "proxy_forest (vs S)" and "chain_run c (S, T) (S', T')"
  shows "proxy_forest (vs S')"
proof -
  have "chain_run c s s' \<Longrightarrow> proxy_forest (vs (fst s)) \<Longrightarrow> proxy_forest (vs (fst s'))" for s s'
    by (induction rule: chain_run.induct) (auto dest: system_exec_forest)
  from this [OF assms(2)] assms(1) show ?thesis by simp
qed

theorem proxies_stay_a_forest_witness:
  "\<exists>S'. chain_run (sym_code eos) (demo_state, full_bank) (S', full_bank) \<and> proxy_of (vs demo_state) bob = carol \<and>
     proxy_of (vs S') bob = 0 \<and> proxy_forest (vs S')"
proof -
  have "case system_exec ref_env full_bank (Votes (Voteproducer bob 0 [])) demo_state of
      Inr S' \<Rightarrow> proxy_of (vs S') bob = 0 \<and> effects S' = [] | Inl _ \<Rightarrow> False"
    by code_simp
  then obtain S' where r: "system_exec ref_env full_bank (Votes (Voteproducer bob 0 [])) demo_state = Inr S'"
    "proxy_of (vs S') bob = 0" "effects S' = []" by (auto split: sum.splits)
  have run: "chain_run (sym_code eos) (demo_state, full_bank) (S', full_bank)"
    by (rule chain_system [OF chain_start ref_env_ok _ r(1), where es = "[]"]) (simp_all add: r(3))
  have "proxy_forest (vs demo_state)" "proxy_of (vs demo_state) bob = carol"
    using demo_voting_forest by (simp_all add: demo_state_def demo_voting_def proxy_of_def)
  then show ?thesis using proxies_stay_a_forest [OF _ run] run r(2) by blast
qed

end
