(* ===== verification/Authority.thy ===== *)
theory Authority
  imports System_Actions
begin

text \<open>
  Who has to sign: every action of the system contract is refused without the authority of the
  account it is for.
\<close>

section \<open>Signers\<close>

text \<open>
  \<open>None\<close> where the contract itself asks for nobody's authority: refunds of bids go to the bidder whoever
  starts them, and for new accounts and interfaces the chain has checked the account's own authority.
\<close>

fun rex_signer :: "rex_action \<Rightarrow> name" where
  "rex_signer (Deposit w q) = w"
| "rex_signer (Withdraw w q) = w"
| "rex_signer (Buyrex w q) = w"
| "rex_signer (Unstaketorex w r net cpu) = w"
| "rex_signer (Sellrex w q) = w"
| "rex_signer (Cnclrexorder w) = w"
| "rex_signer (Rentcpu w r pay fund) = w"
| "rex_signer (Rentnet w r pay fund) = w"
| "rex_signer (Fundcpuloan w n q) = w"
| "rex_signer (Fundnetloan w n q) = w"
| "rex_signer (Defcpuloan w n q) = w"
| "rex_signer (Defnetloan w n q) = w"
| "rex_signer (Updaterex w) = w"
| "rex_signer (Setrex q) = eosio_account"
| "rex_signer (Rexexec w n) = w"
| "rex_signer (Consolidate w) = w"
| "rex_signer (Mvtosavings w q) = w"
| "rex_signer (Mvfrsavings w q) = w"
| "rex_signer (Closerex w) = w"

fun ram_signer :: "env \<Rightarrow> ram_action \<Rightarrow> name" where
  "ram_signer E (Buyram payer receiver q) = payer"
| "ram_signer E (Buyrambytes payer receiver n) = payer"
| "ram_signer E (Sellram w n) = w"
| "ram_signer E (Setram n) = get_self E"
| "ram_signer E (Setramrate n) = get_self E"

fun name_signer :: "env \<Rightarrow> name_action \<Rightarrow> name option" where
  "name_signer E (Bidname bidder n bid) = Some bidder"
| "name_signer E (Bidrefund bidder n) = None"
| "name_signer E (Newaccount creator n) = None"
| "name_signer E (Onblock t p) = Some (get_self E)"

fun stake_signer :: "stake_action \<Rightarrow> name" where
  "stake_signer (Delegatebw a w net cpu transfer) = a"
| "stake_signer (Undelegatebw a w net cpu) = a"
| "stake_signer (Refund a) = a"
| "stake_signer (Unstake_to_rex a w net cpu) = a"

fun vote_signer :: "env \<Rightarrow> vote_action \<Rightarrow> name" where
  "vote_signer E (Regproducer p key u l) = p"
| "vote_signer E (Unregprod p) = p"
| "vote_signer E (Rmvproducer p) = get_self E"
| "vote_signer E (Voteproducer w prox prods) = w"
| "vote_signer E (Regproxy p flag) = p"
| "vote_signer E (Updtrevision n) = get_self E"

fun admin_signer :: "env \<Rightarrow> admin_action \<Rightarrow> name option" where
  "admin_signer E (Setabi a abi) = None"
| "admin_signer E Onerror = None"
| "admin_signer E _ = Some (get_self E)"

fun signer :: "env \<Rightarrow> system_action \<Rightarrow> name option" where
  "signer E (Rex a) = Some (rex_signer a)"
| "signer E (Ram a) = Some (ram_signer E a)"
| "signer E (Names a) = name_signer E a"
| "signer E (Stakes a) = Some (stake_signer a)"
| "signer E (Votes a) = Some (vote_signer E a)"
| "signer E (Privileged a) = admin_signer E a"
| "signer E (Claimrewards w) = Some w"

section \<open>Authority\<close>

lemma rex_signed: "rex_exec E a S = Inr S' \<Longrightarrow> has_auth E (rex_signer a)"
  by (cases a)
    (auto simp: deposit_def withdraw_def buyrex_def unstaketorex_def sellrex_def on_rx_def cnclrexorder_def rentcpu_def rentnet_def
      rent_loan_def fundcpuloan_def fundnetloan_def fund_loan_def defcpuloan_def defnetloan_def defund_loan_def updaterex_def
      setrex_def rexexec_def consolidate_def mvtosavings_def mvfrsavings_def closerex_def)

lemma buyram_signed: "buyram E payer receiver q S = Inr S' \<Longrightarrow> has_auth E payer"
  by (auto simp: buyram_def)

lemma ram_signed: "ram_exec E a S = Inr S' \<Longrightarrow> has_auth E (ram_signer E a)"
  by (cases a)
    (auto simp: sellram_def setram_def setramrate_def buyrambytes_def dest: buyram_signed)

lemma name_signed: "name_exec E a S = Inr S' \<Longrightarrow> name_signer E a = Some w \<Longrightarrow> has_auth E w"
  by (cases a) (auto simp: bidname_def onblock_def)

lemma changebw_signed: "changebw E a w net cpu transfer S = Inr S' \<Longrightarrow> has_auth E a"
  by (auto simp: changebw_def)

lemma stake_signed: "stake_exec E a S = Inr S' \<Longrightarrow> has_auth E (stake_signer a)"
  by (cases a) (auto simp: delegatebw_def undelegatebw_def refund_def unstaketorex_def dest: changebw_signed)

lemma vote_signed: "vote_exec E a S = Inr S' \<Longrightarrow> has_auth E (vote_signer E a)"
  by (cases a)
    (auto simp: on_vs_def regproducer_def unregprod_def rmvproducer_def voteproducer_def regproxy_def updtrevision_def)

lemma admin_signed: "admin_exec E T a S = Inr S' \<Longrightarrow> admin_signer E a = Some w \<Longrightarrow> has_auth E w"
  by (cases a)
    (auto simp: init_def setparams_def setpriv_def activate_def setalimits_def setacctram_def setacctnet_def setacctcpu_def)

lemma system_signed: "system_exec E T a S = Inr S' \<Longrightarrow> signer E a = Some w \<Longrightarrow> has_auth E w"
  by (cases a)
    (auto simp: claimrewards_def dest: rex_signed ram_signed name_signed stake_signed vote_signed admin_signed)

text \<open>
  C4: Every action is refused without the authority of its signer: of the account whose funds, REX,
  stakes, votes or rewards it handles, or of the contract itself for the privileged ones.
\<close>

theorem unsigned_actions_fail:
  assumes "signer E a = Some w" and "\<not> has_auth E w"
  shows "\<exists>e. system_exec E T a S = Inl e"
  using system_signed [OF _ assms(1), of T S] assms(2) by (cases "system_exec E T a S") auto

theorem unsigned_actions_fail_witness:
  "\<exists>e. system_exec (inline_env [active_of bob] ref_env) demo_bank (Rex (Withdraw alice (coins 1))) demo_state = Inl e"
  by (rule unsigned_actions_fail [where w = alice]) (simp_all add: inline_env_def active_of_def)

end
