(* ===== verification/System_Live.thy ===== *)
theory System_Live
  imports System_Votes Authority
begin

text \<open>
  What solvency is for: in every state the chain can reach, tokens that have fallen due are really
  paid, because the transfer that pays them cannot fail.
\<close>

section \<open>Payments out of an escrow account\<close>

lemma escrow_pays:
  assumes E: "lib_ok E" and ok: "chain_ok c (S, T)" and b: "b \<in> escrows" "b \<in> actor ` set ps" "a \<noteq> b" "is_account E a"
    and n: "0 < amount q" "amount q \<le> escrow_owed b S" "length memo \<le> 256"
    and st: "fmlookup (stats T) c = Some st" "symbol q = symbol (supply st)" "sym_is_valid E (symbol (supply st))"
  shows "\<exists>T'. token_deliver E (Token_transfer ps b a q memo) T = Inr T' \<and> bal T' c a = bal T c a + amount q"
proof -
  let ?F = "inline_env ps E"
  have I: "token_inv T" "amount q \<le> bal T c b" using ok b(1) n(2) by (auto simp: chain_ok_def)
  have c: "code_of q = c" using token_invD(1) [OF I(1)] st by (auto simp: stats_ok_def code_of_def)
  have F: "lib_ok ?F" using E by simp
  have "in_range (bal T c b)"
    using accounts_okD(2) [OF token_invD(2) [OF I(1)]] by (cases "fmlookup (accounts T) (b, c)") (simp_all add: bal_def tval_def in_range_def asset_max_def)
  then have "in_range (amount q)" using n(1) I(2) by (auto simp: in_range_def)
  then have v: "asset_is_valid ?F q" using E st by (simp add: valid_asset_lib [OF F]) (simp add: inline_env_def)
  have "\<exists>T'. token_transfer ?F b a q memo T = Inr T'"
    by (rule transfer_succeeds [OF F I(1) _ _ _ _ st(2) v n(1,3)]) (use b c st I(2) in \<open>auto simp: inline_env_def\<close>)
  then obtain T' where T': "token_transfer ?F b a q memo T = Inr T'" by blast
  then have "bal T' c a = bal T c a + amount q" using token_transfer_effect [OF F I(1) T', of c a] c b(3) by simp
  then show ?thesis using T' by auto
qed

text \<open>An action that succeeds and, with all that it sends delivered, leaves \<open>n\<close> more tokens on an account.\<close>

definition pays ::
    "symbol_code \<Rightarrow> env \<Rightarrow> (system_state \<Rightarrow> system_state res) \<Rightarrow> name \<Rightarrow> int \<Rightarrow> system_state \<times> token_state \<Rightarrow> bool" where
  "pays c E act a n s \<longleftrightarrow> (\<exists>S' es T'. act (fst s) = Inr S' \<and> effects S' = effects (fst s) @ es \<and>
     deliver_all (token_deliver E) es (snd s) = Inr T' \<and> bal T' c a = bal (snd s) c a + n)"

lemma paysI:
  "act S = Inr S' \<Longrightarrow> effects S' = effects S @ [e] \<Longrightarrow> \<exists>T'. token_deliver E e T = Inr T' \<and> bal T' c a = bal T c a + n \<Longrightarrow>
    pays c E act a n (S, T)"
  by (fastforce simp: pays_def)

lemma refund_pays:
  assumes E: "lib_ok E" and ok: "chain_ok c (S, T)" and a: "has_auth E a" "is_account E a"
    and st: "fmlookup (stats T) c = Some st" "sym_is_valid E (symbol (supply st))"
    and cap: "stake_owed S \<le> core_cap" and r: "fmlookup (refunds (rs S)) a = Some r" "0 < rr_due r" "symbol (net_amount r) = symbol (supply st)"
    and due: "i64 (request_time r * 1000000 + 259200000000) \<le> now E"
  shows "pays c E (refund E a) a (rr_due r) (S, T)"
proof -
  have X: "stake_inv S" using ok by (simp add: chain_ok_def sys_inv_def)
  have b: "a \<noteq> stake_account" using rr_okD(2) [OF _ r(1)] X by (simp add: stake_inv_def)
  have n: "rr_due r \<le> escrow_owed stake_account S"
    using stake_parts(1) [OF X] stake_parts(4) [OF X r(1)] by (simp add: stake_owed_def)
  show ?thesis
  proof (rule paysI)
    show "refund E a S = Inr (emit [refund_transfer a r] (S\<lparr>rs := (rs S)\<lparr>refunds := fmdrop a (refunds (rs S))\<rparr>\<rparr>))"
      using refund_Inr [OF E X cap] a(1) r(1) due by (simp add: refund_delay_sec_def seconds_per_day_def)
    show "\<exists>T'. token_deliver E (refund_transfer a r) T = Inr T' \<and> bal T' c a = bal T c a + rr_due r"
      unfolding refund_transfer_def
      using escrow_pays [OF E ok, of stake_account "[active_of stake_account, active_of a]" a
        "\<lparr>amount = rr_due r, symbol = symbol (net_amount r)\<rparr>" "''unstake''" st] a(2) b n r(2,3) st
      by (simp add: escrows_def active_of_def)
  qed simp
qed

lemma bidrefund_pays:
  assumes E: "lib_ok E" and ok: "chain_ok c (S, T)" and a: "a \<noteq> names_account" "is_account E a"
    and st: "fmlookup (stats T) c = Some st" "sym_is_valid E (symbol (supply st))"
    and r: "fmlookup (bidrefunds (ns S)) (n, a) = Some r" "0 < amount (br_amount r)" "symbol (br_amount r) = symbol (supply st)"
    and l: "length (name_to_string E n) \<le> 13"
  shows "pays c E (bidrefund E a n) a (amount (br_amount r)) (S, T)"
proof -
  have X: "names_inv S" using ok by (simp add: chain_ok_def sys_inv_def)
  have d: "amount (br_amount r) \<le> escrow_owed names_account S"
    using names_parts(1) [OF X] names_parts(4) [OF X r(1)] names_invD(3) [OF X] by (simp add: names_owed_def)
  let ?m = "''refund bid on name '' @ name_to_string E n"
  let ?e = "Token_transfer [active_of names_account, active_of a] names_account a (br_amount r) ?m"
  show ?thesis
  proof (rule paysI)
    show "bidrefund E a n S = Inr (emit [?e] (S\<lparr>ns := (ns S)\<lparr>bidrefunds := fmdrop (n, a) (bidrefunds (ns S))\<rparr>\<rparr>))"
      using r(1) by (simp add: bidrefund_def)
    show "\<exists>T'. token_deliver E ?e T = Inr T' \<and> bal T' c a = bal T c a + amount (br_amount r)"
      using escrow_pays [OF E ok, of names_account "[active_of names_account, active_of a]" a "br_amount r" ?m st] a d r(2,3) st l
      by (simp add: escrows_def active_of_def)
  qed simp
qed

lemma withdraw_pays:
  assumes E: "lib_ok E" and ok: "chain_ok c (S, T)" and a: "a \<noteq> rex_account" "has_auth E a" "is_account E a"
    and st: "fmlookup (stats T) c = Some st" "core_symbol S = Inr (symbol (supply st))" "sym_is_valid E (symbol (supply st))"
    and f: "fmlookup (rexfunds (rx S)) a = Some f" "0 < amount q" "amount q \<le> amount (rf_balance f)"
      "symbol q = symbol (supply st)" "symbol (rf_balance f) = symbol (supply st)"
    and o: "\<And>r. fmlookup (rexorders (rx S)) a = Some r \<Longrightarrow> is_open r" and z: "sym_is_valid E rex_symbol"
  shows "pays c E (withdraw E a q) a (amount q) (S, T)"
proof -
  have X: "rex_inv (rx S)" using ok by (simp add: chain_ok_def sys_inv_def)
  have "amount (rf_balance f) \<le> rex_owed (rx S)"
    using owed_bounds(2) [OF inv_parts(1) [OF X]] rows_le_sums(1) [OF rex_okD(1) [OF inv_parts(1) [OF X]] f(1)] by simp
  then have d: "amount q \<le> escrow_owed rex_account S" using f(3) by simp
  let ?z = "\<lparr>amount = 0, symbol = symbol (supply st)\<rparr>"
  have "zero_core E S = Inr ?z" using st by (simp add: zero_core_def new_asset_lib [OF E] in_range_def asset_max_def)
  moreover have "\<exists>r. update_rex_account E a ?z ?z False S = Inr (r, S)"
    using o z by (auto simp: update_rex_account_def Let_def new_asset_lib [OF E] in_range_def asset_max_def split: option.split)
  moreover have "\<exists>X'. transfer_from_fund E (core_symbol S) a q (rx S) = Inr X'"
    using st f by (auto simp: transfer_from_fund_def le_asset_lib [OF E])
  ultimately obtain X' where w: "withdraw E a q S =
      Inr (emit [Token_transfer [active_of rex_account] rex_account a q ''withdraw from REX fund''] (S\<lparr>rx := X'\<rparr>))"
    using a(2) st(2) f(2,4) by (auto simp: withdraw_def on_rx_def)
  show ?thesis
  proof (rule paysI)
    show "withdraw E a q S =
        Inr (emit [Token_transfer [active_of rex_account] rex_account a q ''withdraw from REX fund''] (S\<lparr>rx := X'\<rparr>))" by (rule w)
    show "\<exists>T'. token_deliver E (Token_transfer [active_of rex_account] rex_account a q ''withdraw from REX fund'') T = Inr T' \<and>
        bal T' c a = bal T c a + amount q"
      using escrow_pays [OF E ok, of rex_account "[active_of rex_account]" a q "''withdraw from REX fund''" st] a d f(2,4) st
      by (simp add: escrows_def active_of_def)
  qed simp
qed

text \<open>
  C9: What has fallen due is paid. In every state that the chain can reach from books in order,
  the owner of a refund of stakes can collect it in full once three days have passed; what an outbid
  bidder is owed can be paid out to him by anyone; and any part of a fund of the REX can be withdrawn by
  its owner unless a filled order waits to be settled. The actions succeed, the transfers
  they send succeed, and the account has that much more.
\<close>

theorem what_is_due_is_paid:
  assumes "sys_inv S" and "token_inv T" and "single_token c T" and "\<forall>b\<in>escrows. escrow_owed b S \<le> bal T c b"
    and "chain_run c (S, T) (S1, T1)" and "stake_owed S1 \<le> core_cap"
    and "lib_ok E" and "has_auth E a" and "is_account E a" and "a \<notin> escrows"
    and "fmlookup (stats T1) c = Some st" and "core_symbol S1 = Inr (symbol (supply st))"
    and "sym_is_valid E (symbol (supply st))" and "sym_is_valid E rex_symbol"
  shows "(\<forall>r. fmlookup (refunds (rs S1)) a = Some r \<and> 0 < rr_due r \<and> symbol (net_amount r) = symbol (supply st) \<and>
      i64 (request_time r * 1000000 + 259200000000) \<le> now E \<longrightarrow> pays c E (refund E a) a (rr_due r) (S1, T1)) \<and>
    (\<forall>n r. fmlookup (bidrefunds (ns S1)) (n, a) = Some r \<and> 0 < amount (br_amount r) \<and>
      symbol (br_amount r) = symbol (supply st) \<and> length (name_to_string E n) \<le> 13 \<longrightarrow>
      pays c E (bidrefund E a n) a (amount (br_amount r)) (S1, T1)) \<and>
    (\<forall>f q. fmlookup (rexfunds (rx S1)) a = Some f \<and> 0 < amount q \<and> amount q \<le> amount (rf_balance f) \<and>
      symbol q = symbol (supply st) \<and> symbol (rf_balance f) = symbol (supply st) \<and>
      (\<forall>r. fmlookup (rexorders (rx S1)) a = Some r \<longrightarrow> is_open r) \<longrightarrow> pays c E (withdraw E a q) a (amount q) (S1, T1))"
proof -
  have ok: "chain_ok c (S1, T1)" using chain_ok_run [OF assms(5)] assms(1-4) by (simp add: chain_ok_def)
  have d: "a \<noteq> names_account" "a \<noteq> rex_account" using user_distinct [OF assms(10)] by simp_all
  note R = refund_pays [OF assms(7) ok assms(8,9) assms(11,13) assms(6)]
    and B = bidrefund_pays [OF assms(7) ok d(1) assms(9,11,13)]
    and W = withdraw_pays [OF assms(7) ok d(2) assms(8,9,11-13) _ _ _ _ _ _ assms(14)]
  show ?thesis using R B W by blast
qed

theorem what_is_due_is_paid_witness:
  "pays (sym_code eos) ref_env (withdraw ref_env bob (coins 200)) bob 200 (demo_state, full_bank)"
proof -
  have u: "bob \<notin> escrows" by (simp add: escrows_def bob_def account_defs)
  have b: "\<forall>a\<in>escrows. escrow_owed a demo_state \<le> bal full_bank (sym_code eos) a"
    by (auto simp: escrows_def demo_state_books bal_def full_bank_def)
  have e: "has_auth ref_env bob" "is_account ref_env bob" "sym_is_valid ref_env eos" "sym_is_valid ref_env rex_symbol"
    by code_simp+
  have st: "fmlookup (stats full_bank) (sym_code eos) =
      Some \<lparr>supply = coins 1006400, max_supply = coins 5000000, issuer = eosio_account\<rparr>" by (simp add: full_bank_def)
  have s: "stake_owed demo_state \<le> core_cap" "core_symbol demo_state = Inr eos"
    "fmlookup (rexfunds (rx demo_state)) bob = Some \<lparr>rf_owner = bob, rf_balance = coins 500\<rparr>"
    "fmlookup (rexorders (rx demo_state)) bob = None"
    by (simp_all add: demo_state_books core_cap_def core_symbol_def demo_rex_def) (simp add: demo_state_def)
  from what_is_due_is_paid [OF demo_state_books(1) full_bank_ok b chain_start s(1) ref_env_ok e(1,2) u st, THEN conjunct2, THEN conjunct2,
      rule_format, of "\<lparr>rf_owner = bob, rf_balance = coins 500\<rparr>" "coins 200"] s e
  show ?thesis by simp
qed

end
