(* ===== verification/Lifecycle.thy ===== *)
theory Lifecycle
  imports System_Live
begin

text \<open>
  The life of the contract object (\<open>system_contract\<close>, its constructor and destructor in
  \<open>eosio.system.cpp\<close>): between actions there are only the rows in the database. An action reads
  the three global rows, or their defaults, works on the object, and writes them back. What holds
  from the empty database on: before \<open>init\<close> no action touches anybody's tokens, after it the
  contract is solvent.
\<close>

section \<open>Rows and objects\<close>

record stored =
  st_voters :: "(name, voter_info) table"
  st_producers :: "(name, producer_info) table"
  st_producers2 :: "(name, producer_info2) table"
  st_global :: "eosio_global_state option"
  st_global2 :: "eosio_global_state2 option"
  st_global3 :: "eosio_global_state3 option"
  st_resources :: resource_state
  st_rex :: rex_state
  st_names :: names_state
  st_rammarket :: "exchange_state option"
  st_abihash :: "(name, abi_hash) table"

text \<open>The members as they are initialised; the parameters of the chain are read from the chain.\<close>

definition get_default_parameters :: "blockchain_parameters \<Rightarrow> eosio_global_state" where
  "get_default_parameters chain_parameters =
     \<lparr>parameters = chain_parameters, max_ram_size = 64 * 1024 * 1024 * 1024, total_ram_bytes_reserved = 0,
      total_ram_stake = 0, last_producer_schedule_update = 0, last_pervote_bucket_fill = 0,
      pervote_bucket = 0, perblock_bucket = 0, total_unpaid_blocks = 0, total_activated_stake = 0,
      thresh_activated_stake_time = 0, last_producer_schedule_size = 0, total_producer_vote_weight = 0,
      last_name_close = 0\<rparr>"

definition default_global2 :: eosio_global_state2 where
  "default_global2 = \<lparr>new_ram_per_block = 0, last_ram_increase = 0, last_block_num = 0,
     total_producer_votepay_share = 0, revision = 0\<rparr>"

definition default_global3 :: eosio_global_state3 where
  "default_global3 = \<lparr>last_vpay_state_update = 0, total_vpay_share_change_rate = 0\<rparr>"

definition constructor :: "blockchain_parameters \<Rightarrow> stored \<Rightarrow> system_state" where
  "constructor chain_parameters D =
     \<lparr>vs = \<lparr>voters = st_voters D, producers = st_producers D, producers2 = st_producers2 D,
        gstate = (case st_global D of None \<Rightarrow> get_default_parameters chain_parameters | Some g \<Rightarrow> g),
        gstate2 = (case st_global2 D of None \<Rightarrow> default_global2 | Some g \<Rightarrow> g),
        gstate3 = (case st_global3 D of None \<Rightarrow> default_global3 | Some g \<Rightarrow> g)\<rparr>,
      rs = st_resources D, rx = st_rex D, ns = st_names D, rammarket = st_rammarket D,
      abihash = st_abihash D, effects = []\<rparr>"

definition destructor :: "system_state \<Rightarrow> stored" where
  "destructor S =
     \<lparr>st_voters = voters (vs S), st_producers = producers (vs S), st_producers2 = producers2 (vs S),
      st_global = Some (gstate (vs S)), st_global2 = Some (gstate2 (vs S)), st_global3 = Some (gstate3 (vs S)),
      st_resources = rs S, st_rex = rx S, st_names = ns S, st_rammarket = rammarket S,
      st_abihash = abihash S\<rparr>"

text \<open>An action on the database: nothing is written unless it succeeds.\<close>

definition perform ::
    "blockchain_parameters \<Rightarrow> env \<Rightarrow> token_state \<Rightarrow> system_action \<Rightarrow> stored \<Rightarrow> (effect list \<times> stored) res" where
  "perform chain_parameters E T a D =
     bindE (system_exec E T a (constructor chain_parameters D)) (\<lambda>S. Inr (effects S, destructor S))"

text \<open>What is written is read back; the defaults are read only as long as nothing is written.\<close>

lemma constructor_destructor [simp]: "constructor p (destructor S) = S\<lparr>effects := []\<rparr>"
  by (simp add: constructor_def destructor_def)

lemma destructor_constructor: "destructor (constructor p (destructor S)) = destructor S"
  unfolding constructor_destructor by (simp add: destructor_def)

lemma constructor_written:
  "st_global D \<noteq> None \<Longrightarrow> st_global2 D \<noteq> None \<Longrightarrow> st_global3 D \<noteq> None \<Longrightarrow> constructor p D = constructor p' D"
  by (auto simp: constructor_def)

lemma constructor_effects [simp]: "effects (constructor p D) = []"
  by (simp add: constructor_def)

section \<open>Before initialisation\<close>

text \<open>The empty database; the accounts that exist have limits \<open>L\<close>.\<close>

definition no_rex :: rex_state where
  "no_rex = \<lparr>rexpool = None, rexfunds = fmempty, rexbalance = fmempty, rexorders = fmempty,
     cpu_loans = fmempty, net_loans = fmempty\<rparr>"

definition no_names :: names_state where
  "no_names = \<lparr>namebids = fmempty, bidrefunds = fmempty\<rparr>"

definition genesis :: "(name, int \<times> int \<times> int) table \<Rightarrow> stored" where
  "genesis L =
     \<lparr>st_voters = fmempty, st_producers = fmempty, st_producers2 = fmempty,
      st_global = None, st_global2 = None, st_global3 = None,
      st_resources = \<lparr>userres = fmempty, delband = fmempty, refunds = fmempty, limits = L\<rparr>,
      st_rex = no_rex, st_names = no_names, st_rammarket = None, st_abihash = fmempty\<rparr>"

definition unopened :: "system_state \<Rightarrow> bool" where
  "unopened S \<longleftrightarrow> rammarket S = None \<and> rx S = no_rex \<and> ns S = no_names \<and>
     userres (rs S) = fmempty \<and> delband (rs S) = fmempty \<and> refunds (rs S) = fmempty \<and>
     memory_of (vs S) = (64 * 1024 * 1024 * 1024, 0, 0) \<and>
     pervote_bucket (gstate (vs S)) = 0 \<and> perblock_bucket (gstate (vs S)) = 0 \<and> pay_inv S"

lemma pay_inv_vs: "vs S' = vs S \<Longrightarrow> pay_inv S' = pay_inv S"
  by (simp add: pay_inv_def)

lemma unopened_genesis: "unopened (constructor p (genesis L))"
  by (simp add: unopened_def constructor_def genesis_def get_default_parameters_def memory_of_def pay_inv_def unpaid_sum_def)

lemma unopened_effects [simp]: "unopened (S\<lparr>effects := es\<rparr>) = unopened S"
  by (simp add: unopened_def pay_inv_def)

text \<open>Steps that change only voting, limits of accounts, and recorded interfaces.\<close>

lemma unopened_step:
  assumes "unopened S" and "books_kept (vs S) (vs S')" and "rammarket S' = rammarket S" "rx S' = rx S" "ns S' = ns S"
    and "userres (rs S') = userres (rs S)" "delband (rs S') = delband (rs S)" "refunds (rs S') = refunds (rs S)"
  shows "unopened S'"
  using assms by (auto simp: unopened_def books_parts pay_kept_def pay_inv_alt)

text \<open>Without a market there is no core symbol, and almost every action asks for it.\<close>

lemma no_core: "unopened S \<Longrightarrow> core_symbol S = Inl (Check ''system contract must first be initialized'')"
  by (simp add: unopened_def core_symbol_def)

lemma no_rexD: "rexpool no_rex = None" "rexfunds no_rex = fmempty" "rexbalance no_rex = fmempty" "rexorders no_rex = fmempty"
    "cpu_loans no_rex = fmempty" "net_loans no_rex = fmempty"
  by (simp_all add: no_rex_def)

lemma runrex_closed: "rx S = no_rex \<Longrightarrow> runrex E n S \<noteq> Inr S'"
  by (simp add: runrex_def rex_system_initialized_def no_rexD)

lemma rex_exec_closed:
  assumes "unopened S" and run: "rex_exec E a S = Inr S'"
  shows False
proof -
  have c: "\<And>cs. core_symbol S \<noteq> Inr cs" and x: "rx S = no_rex" using assms(1) no_core by (auto simp: unopened_def)
  note unf = c x runrex_closed [OF x] no_rexD on_rx_def rex_system_initialized_def zero_core_def
  show False
    using run by (cases a) (auto simp: unf deposit_def withdraw_def buyrex_def unstaketorex_def sellrex_def cnclrexorder_def
        rentcpu_def rentnet_def rent_loan_def rent_rex_def fundcpuloan_def fundnetloan_def fund_loan_def fund_rex_loan_def
        defcpuloan_def defnetloan_def defund_loan_def defund_rex_loan_def updaterex_def setrex_def rexexec_def
        consolidate_def mvtosavings_def mvfrsavings_def closerex_def Let_def)
qed

lemma ram_exec_unopened:
  assumes "unopened S" and run: "ram_exec E a S = Inr S'"
  shows "unopened S'"
proof -
  have c: "\<And>cs. core_symbol S \<noteq> Inr cs" and m: "rammarket S = None" "userres (rs S) = fmempty"
    using assms(1) no_core by (auto simp: unopened_def)
  have u: "update_ram_supply E S = Inr S1 \<longleftrightarrow> S1 = S \<and> block_slot E \<le> last_ram_increase (gstate2 (vs S))" for S1
    using m(1) by (auto simp: update_ram_supply_def the_market_def set_gstate_def Let_def)
  obtain n where S': "S' = S\<lparr>vs := (vs S)\<lparr>gstate2 := (gstate2 (vs S))\<lparr>new_ram_per_block := n\<rparr>\<rparr>\<rparr>"
    using run c m by (cases a) (auto simp: buyram_def buyrambytes_def sellram_def setram_def setramrate_def the_market_def u Let_def)
  show ?thesis by (rule unopened_step [OF assms(1)]) (simp_all add: S' books_kept_same)
qed

lemma unopened_books:
  assumes "unopened S"
  shows "rex_inv (rx S)" "names_inv S" "stake_inv S" "pay_inv S" "escrow_owed a S = 0"
proof -
  have I: "rx S = no_rex" "ns S = no_names" "delband (rs S) = fmempty" "refunds (rs S) = fmempty" "total_ram_stake (gstate (vs S)) = 0"
    "pervote_bucket (gstate (vs S)) = 0" "perblock_bucket (gstate (vs S)) = 0"
    using assms by (auto simp: unopened_def memory_of_def)
  show "rex_inv (rx S)"
    unfolding I by (simp add: no_rex_def rex_inv_def rex_ok_def funds_ok_def loans_ok_def orders_ok_def holdings_ok_def
        orders_backed_def promise_ok_def rex_sum_def priced_def sum_defs pool_field_def)
  show "names_inv S" unfolding names_inv_def I by (simp add: no_names_def no_rex_def pool_field_def)
  show "stake_inv S" unfolding stake_inv_def I by (simp add: db_ok_def rr_ok_def)
  show "pay_inv S" using assms by (simp add: unopened_def)
  have "rex_owed (rx S) = 0" "names_owed S = 0" "stake_owed S = 0" "ram_stake S = 0"
    unfolding I by (simp_all add: no_rex_def rex_owed_def sum_defs I names_owed_def open_bids_def refunds_due_def no_names_def
        stake_owed_def delegated_def refunding_def ram_stake_def pool_field_def)
  then show "escrow_owed a S = 0" using I by (simp add: escrow_owed_def)
qed

lemma onblock_unopened:
  assumes X: "unopened S" and b: "total_unpaid_blocks (gstate (vs S)) < 2 ^ 32 - 1" and run: "onblock E t p S = Inr S'"
  shows "unopened S'"
proof -
  have I: "pay_inv S" "ns S = no_names" using X by (simp_all add: unopened_def)
  have q: "close_auction E t T = T" if "ns T = no_names" for T
  proof -
    have "index_by by_high_bid (namebids (ns T)) = []" using that set_index_by [of by_high_bid "namebids (ns T)"]
      by (simp add: no_names_def del: set_index_by)
    then show ?thesis by (simp add: close_auction_def highest_open_bid_def)
  qed
  obtain W es where S': "S' = emit es (S\<lparr>vs := W\<rparr>)"
  proof -
    let ?S = "S\<lparr>vs := (vs S)\<lparr>gstate2 := (gstate2 (vs S))\<lparr>last_block_num := t\<rparr>\<rparr>\<rparr>"
    obtain V where V: "count_block E p ?S = S\<lparr>vs := V\<rparr>" using count_block_vs [of E p ?S] by auto
    obtain V' fs where u: "update_elected_producers E t V = (V', fs)" by fastforce
    have "S' = emit [] ?S \<or> S' = emit [] (S\<lparr>vs := V\<rparr>) \<or> S' = emit fs (S\<lparr>vs := V'\<rparr>)"
      using run V u q [of "emit fs (S\<lparr>vs := V'\<rparr>)"] I(2) by (auto simp: onblock_def Let_def emit_def split: if_splits)
    then show ?thesis using that by blast
  qed
  note P = onblock_pay [OF I(1) b run] and M = onblock_cross(1) [OF unopened_books(1,2) [OF X] _ run]
  have "names_owed S \<le> core_cap" using unopened_books(5) [OF X, of names_account] by (simp add: core_cap_def)
  then have "memory_of (vs S') = memory_of (vs S)" using M by (simp add: off_market_def)
  then show ?thesis using X P unfolding unopened_def by (simp add: S')
qed

lemma name_exec_unopened:
  assumes X: "unopened S" and f: "sys_fits E T (Names a) S" and run: "name_exec E a S = Inr S'"
  shows "unopened S'"
proof -
  have c: "\<And>cs. core_symbol S \<noteq> Inr cs" and n: "bidrefunds (ns S) = fmempty"
    using X no_core by (auto simp: unopened_def no_names_def)
  show ?thesis
    using run f onblock_unopened [OF X] by (cases a) (auto simp: bidname_def bidrefund_def newaccount_def c n)
qed

lemma stake_exec_closed:
  assumes "unopened S" and run: "stake_exec E a S = Inr S'"
  shows False
proof -
  have c: "\<And>cs. core_symbol S \<noteq> Inr cs" and r: "refunds (rs S) = fmempty" using assms(1) no_core by (auto simp: unopened_def)
  show False using run by (cases a) (auto simp: delegatebw_def undelegatebw_def refund_def unstaketorex_def c r)
qed

lemma vote_exec_unopened:
  assumes X: "unopened S" and run: "vote_exec E a S = Inr S'"
  shows "unopened S'"
proof -
  have "update_rex_stake E w S = Inr S1 \<longleftrightarrow> S1 = S" for w S1
    using X by (auto simp: update_rex_stake_def refresh_rex_stake_def unopened_def no_rexD Let_def)
  then obtain V where "S' = S\<lparr>vs := V\<rparr>" "books_kept (vs S) V"
    using run X by (cases a) (auto simp: on_vs_def voteproducer_def unopened_def no_rexD split: option.splits if_splits
        dest: regproducer_books unregprod_books rmvproducer_books regproxy_books updtrevision_books update_votes_books)
  then show ?thesis by (intro unopened_step [OF X]) simp_all
qed

lemma escrow_owed_cong:
  "vs S' = vs S \<Longrightarrow> rs S' = rs S \<Longrightarrow> rx S' = rx S \<Longrightarrow> ns S' = ns S \<Longrightarrow> escrow_owed a S' = escrow_owed a S"
  by (simp add: escrow_owed_def names_owed_def stake_owed_def delegated_def refunding_def ram_stake_def)

text \<open>Initialisation opens the market with nothing owed.\<close>

lemma init_opens:
  assumes X: "unopened S" and T: "token_inv T" "single_token c T" "c \<noteq> sym_code ram_symbol" and run: "init E T v core S = Inr S'"
  shows "sys_inv S'" "escrow_owed a S' = 0"
proof -
  obtain q where q: "get_supply T (sym_code core) = Inr q" "symbol q = core" "0 < amount q" and
    S': "S' = emit [Token_open [active_of (get_self E)] rex_account core (get_self E)]
       (S\<lparr>rammarket := Some
          \<lparr>es_supply = \<lparr>amount = 100000000000000, symbol = ramcore_symbol\<rparr>,
           base = \<lparr>c_balance = \<lparr>amount = i64 (free_ram (gstate (vs S))), symbol = ram_symbol\<rparr>, weight = 1 / 2\<rparr>,
           quote = \<lparr>c_balance = \<lparr>amount = tdiv (amount q) 1000, symbol = core\<rparr>, weight = 1 / 2\<rparr>\<rparr>\<rparr>)"
    using run by (auto simp: init_def)
  note B = unopened_books [OF X]
  have m: "max_ram_size (gstate (vs S)) = 2 ^ 36" "total_ram_bytes_reserved (gstate (vs S)) = 0" "total_ram_stake (gstate (vs S)) = 0"
    and u: "userres (rs S) = fmempty"
    using X by (auto simp: unopened_def memory_of_def)
  have "core \<noteq> ram_symbol" using q(1) T(2,3) by (auto simp: get_supply_def single_token_def)
  then have "ram_inv S'"
    using q(3) m u unfolding S' by (simp add: ram_inv_def market_ok_def free_ram_def u64_def i64_def tdiv_def bytes_ok_def bytes_held_def)
  moreover have "rex_inv (rx S')" "names_inv S'" "stake_inv S'" "pay_inv S'"
    using B(1-4) unfolding S' by (simp_all add: names_inv_def stake_inv_def pay_inv_def)
  ultimately show "sys_inv S'" by (simp add: sys_inv_def)
  show "escrow_owed a S' = 0" using B(5) [of a] escrow_owed_cong [of S' S a] unfolding S' by simp
qed

lemma admin_exec_unopened:
  assumes X: "unopened S" and T: "token_inv T" "single_token c T" "c \<noteq> sym_code ram_symbol" and run: "admin_exec E T a S = Inr S'"
  shows "unopened S' \<or> sys_inv S' \<and> (\<forall>b. escrow_owed b S' = 0)"
proof (cases "\<exists>v core. a = Init v core")
  case True
  then show ?thesis using init_opens [OF X T] run by auto
next
  case False
  have b: "books_kept (vs S) (vs (set_gstate (\<lambda>g. g\<lparr>parameters := ps\<rparr>) S))" for ps
    by (simp add: set_gstate_def books_kept_gstate ledgers_def Let_def)
  have "unopened S'"
    using run False b
    by (cases a) (auto simp: setparams_def setpriv_def activate_def setalimits_def setacctram_def setacctnet_def
        setacctcpu_def setabi_def onerror_def set_gstate_def Let_def intro!: unopened_step [OF X])
  then show ?thesis by simp
qed

lemma system_exec_unopened:
  assumes X: "unopened S" and T: "token_inv T" "single_token c T" "c \<noteq> sym_code ram_symbol"
    and f: "sys_fits E T a S" and run: "system_exec E T a S = Inr S'"
  shows "unopened S' \<or> sys_inv S' \<and> (\<forall>b. escrow_owed b S' = 0)"
proof -
  have "\<And>cs. core_symbol S \<noteq> Inr cs" using X no_core by auto
  then have "fill_buckets E T S \<noteq> Inr S1" for S1 by (auto simp: fill_buckets_def)
  then have "claimrewards E T w S \<noteq> Inr S'" for w by (auto simp: claimrewards_def Let_def)
  then show ?thesis
    using run f rex_exec_closed [OF X] ram_exec_unopened [OF X] name_exec_unopened [OF X] stake_exec_closed [OF X]
      vote_exec_unopened [OF X] admin_exec_unopened [OF X T]
    by (cases a) (simp_all del: sys_fits.simps, blast+)
qed

section \<open>From the empty database on\<close>

inductive lived ::
    "blockchain_parameters \<Rightarrow> symbol_code \<Rightarrow> stored \<times> token_state \<Rightarrow> stored \<times> token_state \<Rightarrow> bool" for p c s where
  lived_start: "lived p c s s"
| lived_system: "lived p c s (D, T) \<Longrightarrow> lib_ok E \<Longrightarrow> sys_fits E T a (constructor p D) \<Longrightarrow>
    perform p E T a D = Inr (es, D') \<Longrightarrow> deliver_all (token_deliver E) es T = Inr T' \<Longrightarrow> lived p c s (D', T')"
| lived_token: "lived p c s (D, T) \<Longrightarrow> lib_ok E \<Longrightarrow> \<forall>a\<in>escrows. \<not> has_auth E a \<Longrightarrow> \<not> creates_other c x \<Longrightarrow>
    token_exec E x T = Inr T' \<Longrightarrow> lived p c s (D, T')"

definition life_ok :: "blockchain_parameters \<Rightarrow> symbol_code \<Rightarrow> stored \<times> token_state \<Rightarrow> bool" where
  "life_ok p c s \<longleftrightarrow> (case s of (D, T) \<Rightarrow> token_inv T \<and> single_token c T \<and>
     (unopened (constructor p D) \<or> chain_ok c (constructor p D, T)))"

lemma chain_ok_effects [simp]: "chain_ok c (S\<lparr>effects := es\<rparr>, T) = chain_ok c (S, T)"
  by (simp add: chain_ok_def sys_inv_def ram_inv_def names_inv_def stake_inv_def pay_inv_def
      escrow_owed_cong [of "S\<lparr>effects := es\<rparr>" S])

lemma opened_ok:
  assumes "sys_inv S" "\<forall>b. escrow_owed b S = 0" and "token_inv T" "single_token c T"
  shows "chain_ok c (S, T)"
  using assms bal_nonneg [OF token_invD(2)] by (simp add: chain_ok_def)

lemma deliver_keeps:
  assumes "lib_ok E" "token_inv T" "single_token c T" "deliver_all (token_deliver E) es T = Inr T'"
  shows "token_inv T'" "single_token c T'"
  using deliver_all_single [OF assms(1,3,4)] token_ledger.deliver_all_moves [of E T es c T'] assms by auto

lemma lived_ok:
  assumes "lived p c s s'" "life_ok p c s" "c \<noteq> sym_code ram_symbol"
  shows "life_ok p c s'"
  using assms
proof (induction rule: lived.induct)
  case (lived_system D T E a es D' T')
  then obtain S' where r: "system_exec E T a (constructor p D) = Inr S'" "es = effects S'" "D' = destructor S'"
    by (auto simp: perform_def)
  have T: "token_inv T" "single_token c T" using lived_system by (simp_all add: life_ok_def)
  note T' = deliver_keeps [OF lived_system(2) T lived_system(5)]
  consider "unopened (constructor p D)" | "chain_ok c (constructor p D, T)" using lived_system by (auto simp: life_ok_def)
  then have "unopened S' \<or> chain_ok c (S', T')"
  proof cases
    case 1
    then show ?thesis using system_exec_unopened [OF 1 T lived_system(8,3) r(1)] opened_ok T' by blast
  next
    case 2
    then show ?thesis using chain_ok_system [OF 2 lived_system(2,3) r(1)] r(2) lived_system(5) by simp
  qed
  then show ?case using T' r(3) by (simp add: life_ok_def)
next
  case (lived_token D T E x T')
  then show ?case using chain_ok_token [of c "constructor p D" T E x T'] token_exec_inv single_token_exec
    by (auto simp: life_ok_def)
qed

text \<open>
  C3: From the empty database on, with every action reading its rows and writing them back, the
  system contract never owes more than it holds: whatever comes before \<open>init\<close>, \<open>init\<close> itself,
  and everything after it, with all inline transfers and with actions of others on the token
  contract in between.
\<close>

theorem solvent_from_genesis:
  assumes "token_inv T" and "single_token c T" and "c \<noteq> sym_code ram_symbol"
    and "lived p c (genesis L, T) (D', T')"
  shows "\<forall>a\<in>escrows. escrow_owed a (constructor p D') \<le> bal T' c a"
proof -
  have "life_ok p c (genesis L, T)" using assms(1,2) by (simp add: life_ok_def unopened_genesis)
  from lived_ok [OF assms(4) this assms(3)] show ?thesis
    using bal_nonneg [OF token_invD(2)] by (auto simp: life_ok_def chain_ok_def unopened_books(5))
qed

definition first_parameters :: blockchain_parameters where
  "first_parameters = \<lparr>max_authority_depth = 6, other_parameters = []\<rparr>"

definition first_bank :: token_state where
  "first_bank =
     \<lparr>accounts = fmupd (bob, sym_code eos) \<lparr>balance = coins 900000\<rparr> fmempty,
      stats = fmupd (sym_code eos) \<lparr>supply = coins 900000, max_supply = coins 5000000, issuer = eosio_account\<rparr> fmempty,
      notified = []\<rparr>"

lemma first_bank_ok: "token_inv first_bank" "single_token (sym_code eos) first_bank"
  by (auto simp: token_inv_def first_bank_def stats_ok_def accounts_ok_def supply_ok_def circulating_def
      held_in_def code_of_def in_range_def asset_max_def single_token_def split: if_splits)

text \<open>The contract is initialised; \<open>bob\<close> deposits to the fund he has with the REX.\<close>

theorem solvent_from_genesis_witness:
  "\<exists>D' T'. lived first_parameters (sym_code eos) (genesis fmempty, first_bank) (D', T') \<and>
     escrow_owed rex_account (constructor first_parameters D') = 100 \<and> 100 \<le> bal T' (sym_code eos) rex_account"
proof -
  let ?p = first_parameters and ?a = "Privileged (Init 0 eos)" and ?b = "Rex (Deposit bob (coins 100))"
  have "bindE (perform ?p ref_env first_bank ?a (genesis fmempty)) (\<lambda>(es, D1).
      bindE (deliver_all (token_deliver ref_env) es first_bank) (\<lambda>T1.
      bindE (perform ?p ref_env T1 ?b D1) (\<lambda>(fs, D').
      bindE (deliver_all (token_deliver ref_env) fs T1) (\<lambda>T'.
      Inr (rex_small (st_rex D1) \<and> stake_owed (constructor ?p D1) \<le> core_cap \<and> rex_owed (st_rex D') = 100))))) = Inr True"
    by code_simp
  then obtain es D1 T1 fs D' T' where r: "perform ?p ref_env first_bank ?a (genesis fmempty) = Inr (es, D1)"
    "deliver_all (token_deliver ref_env) es first_bank = Inr T1" "perform ?p ref_env T1 ?b D1 = Inr (fs, D')"
    "deliver_all (token_deliver ref_env) fs T1 = Inr T'" and
    s: "rex_small (st_rex D1)" "stake_owed (constructor ?p D1) \<le> core_cap" "rex_owed (st_rex D') = 100"
    by (auto simp del: system_exec.simps)
  have "bob \<notin> escrows" "bob \<noteq> rex_account" by (simp_all add: escrows_def bob_def account_defs)
  then have f: "sys_fits ref_env T1 ?b (constructor ?p D1)"
    using s by (simp add: rex_ready_def constructor_def core_cap_def)
  have "lived ?p (sym_code eos) (genesis fmempty, first_bank) (D1, T1)"
    by (rule lived_system [OF lived_start ref_env_ok _ r(1,2)]) simp
  then have l: "lived ?p (sym_code eos) (genesis fmempty, first_bank) (D', T')"
    by (rule lived_system [OF _ ref_env_ok f r(3,4)])
  have c: "sym_code eos \<noteq> sym_code ram_symbol" by code_simp
  have "escrow_owed rex_account (constructor ?p D') = 100" using s(3) by (simp add: constructor_def)
  then show ?thesis using l solvent_from_genesis [OF first_bank_ok c l] by (fastforce simp: escrows_def)
qed

end
