(* ===== verification/Rex_Rows.thy ===== *)
theory Rex_Rows
  imports Authority
begin

text \<open>
  Whose rows an action of the REX writes: its user's, and in the maintenance that it starts those of
  the owners of expired loans and of queued orders, who are paid for it.
\<close>

section \<open>Rows of one account\<close>

definition fund_of :: "name \<Rightarrow> rex_state \<Rightarrow> int" where
  "fund_of w X = tval (\<lambda>f. amount (rf_balance f)) (rexfunds X) w"

definition rex_of :: "name \<Rightarrow> rex_state \<Rightarrow> int" where
  "rex_of w X = tval (\<lambda>rb. amount (rb_rex_balance rb)) (rexbalance X) w"

text \<open>The rows of all but one account stay as they are.\<close>

definition own :: "name \<Rightarrow> rex_state \<Rightarrow> rex_state \<Rightarrow> bool" where
  "own a X X' \<longleftrightarrow> (\<forall>w. w \<noteq> a \<longrightarrow> fmlookup (rexfunds X') w = fmlookup (rexfunds X) w \<and>
     fmlookup (rexbalance X') w = fmlookup (rexbalance X) w \<and> fmlookup (rexorders X') w = fmlookup (rexorders X) w) \<and>
     (\<forall>k n l. fmlookup (loans k X) n = Some l \<and> l_from l \<noteq> a \<longrightarrow> fmlookup (loans k X') n = Some l)"

text \<open>An account keeps its REX, but for an open order that is filled and closed.\<close>

definition sold :: "name \<Rightarrow> rex_state \<Rightarrow> rex_state \<Rightarrow> bool" where
  "sold w X X' \<longleftrightarrow> fmlookup (rexorders X') w = fmlookup (rexorders X) w \<and> rex_of w X' = rex_of w X \<or>
     (\<exists>r r'. fmlookup (rexorders X) w = Some r \<and> is_open r \<and> fmlookup (rexorders X') w = Some r' \<and> \<not> is_open r' \<and>
        0 \<le> amount (proceeds r') \<and> rex_of w X' = rex_of w X - amount (rex_requested r))"

text \<open>Loans of an account that have not expired stay as they are.\<close>

definition loans_left :: "env \<Rightarrow> name \<Rightarrow> rex_state \<Rightarrow> rex_state \<Rightarrow> bool" where
  "loans_left E w X X' \<longleftrightarrow> (\<forall>k n l. fmlookup (loans k X) n = Some l \<and> l_from l = w \<and> now E < expiration l \<longrightarrow>
     fmlookup (loans k X') n = Some l)"

definition safe :: "env \<Rightarrow> name \<Rightarrow> rex_state \<Rightarrow> rex_state \<Rightarrow> bool" where
  "safe E w X X' \<longleftrightarrow> fund_of w X \<le> fund_of w X' \<and> sold w X X' \<and> loans_left E w X X'"

lemma own_refl [simp]: "own a X X"
  by (simp add: own_def)

lemma own_trans [trans]: "own a X Y \<Longrightarrow> own a Y Z \<Longrightarrow> own a X Z"
  by (simp add: own_def)

lemma safe_refl [simp]: "safe E w X X"
  by (simp add: safe_def sold_def loans_left_def)

lemma safe_trans [trans]:
  assumes "safe E w X Y" "safe E w Y Z"
  shows "safe E w X Z"
proof -
  have s: "sold w X Y" "sold w Y Z" using assms by (simp_all add: safe_def)
  have "sold w X Z"
  proof (cases "fmlookup (rexorders Y) w = fmlookup (rexorders X) w \<and> rex_of w Y = rex_of w X")
    case True
    then show ?thesis using s(2) by (simp add: sold_def)
  next
    case False
    then obtain r r' where r: "fmlookup (rexorders X) w = Some r" "is_open r" "fmlookup (rexorders Y) w = Some r'" "\<not> is_open r'"
      "0 \<le> amount (proceeds r')" "rex_of w Y = rex_of w X - amount (rex_requested r)"
      using s(1) unfolding sold_def by blast
    then have "fmlookup (rexorders Z) w = Some r'" "rex_of w Z = rex_of w Y" using s(2) by (auto simp: sold_def)
    then show ?thesis using r by (simp add: sold_def)
  qed
  then show ?thesis using assms by (auto simp: safe_def loans_left_def)
qed

lemma own_safe: "own a X X' \<Longrightarrow> w \<noteq> a \<Longrightarrow> safe E w X X'"
  by (auto simp: own_def safe_def sold_def fund_of_def rex_of_def tval_def loans_left_def)

lemma loans_upd [simp]:
  "loans k (X\<lparr>rexbalance := b\<rparr>) = loans k X"
  "loans k (X\<lparr>rexorders := os\<rparr>) = loans k X" "loans k (set_rexbal a rb X) = loans k X"
  "loans k (set_loans k' t X) = (if k = k' then t else loans k X)"
  by (cases k; cases k'; simp add: loans_def set_loans_def set_rexbal_def)+

lemma own_simps [simp]:
  "own a X (Y\<lparr>rexpool := p\<rparr>) = own a X Y" "own a X (set_rexbal a rb Y) = own a X Y"
  "own a X (Y\<lparr>rexorders := fmupd a r (rexorders Y)\<rparr>) = own a X Y" "own a X (Y\<lparr>rexorders := fmdrop a (rexorders Y)\<rparr>) = own a X Y"
  "own a X (Y\<lparr>rexfunds := fmupd a f (rexfunds Y)\<rparr>) = own a X Y" "own a X (Y\<lparr>rexfunds := fmdrop a (rexfunds Y)\<rparr>) = own a X Y"
  "own a X (Y\<lparr>rexbalance := fmdrop a (rexbalance Y)\<rparr>) = own a X Y"
  "own a (X\<lparr>rexorders := fmdrop a (rexorders X)\<rparr>) Y = own a X Y" "own a (set_rexbal a rb X) Y = own a X Y"
  "own a (X\<lparr>rexpool := p\<rparr>) Y = own a X Y"
  unfolding own_def by (auto simp: set_rexbal_def)

text \<open>Writing a loan that is new or one's own.\<close>

lemma own_loan:
  assumes "case fmlookup (loans k X) n of None \<Rightarrow> True | Some l \<Rightarrow> l_from l = a"
  shows "own a X (set_loans k (fmupd n l' (loans k X)) X)"
  using assms by (auto simp: own_def split: option.splits)

lemma safe_simps [simp]:
  "safe E w X (Y\<lparr>rexpool := p\<rparr>) = safe E w X Y" "safe E w (X\<lparr>rexpool := p\<rparr>) Y = safe E w X Y"
  by (simp_all add: safe_def sold_def fund_of_def rex_of_def loans_left_def)

section \<open>Maintenance\<close>

lemma transfer_to_fund_row:
  assumes "funds_ok X" "funds_sum X < 2 ^ 62" "amount amt < 2 ^ 62" "transfer_to_fund core a amt X = Inr X'"
  shows "safe E w X X'"
proof -
  have pos: "0 < amount amt" using assms(4) by (auto simp: transfer_to_fund_def)
  have i: "i64 (amount (rf_balance f) + amount amt) = amount (rf_balance f) + amount amt" if "fmlookup (rexfunds X) a = Some f" for f
    using funds_okD [OF assms(1) that] rows_le_sums(1) [OF assms(1) that] assms(2,3) pos by (intro i64_small) auto
  have "fund_of w X \<le> fund_of w X'"
    using assms(4) pos i by (cases "w = a") (auto simp: transfer_to_fund_def fund_of_def tval_def split: option.splits)
  moreover have "rexbalance X' = rexbalance X" "rexorders X' = rexorders X" "loans k X' = loans k X" for k
    using assms(4) by (auto simp: transfer_to_fund_def split: option.splits)
  ultimately show ?thesis by (simp add: safe_def sold_def rex_of_def loans_left_def)
qed

lemma expired_safe:
  assumes E: "lib_ok E" and X: "rex_inv X" "rex_small X" and l: "fmlookup (loans k X) n = Some l"
    and x: "\<not> now E < expiration l" and run: "process_expired_loan E core l X = Inr (renewed, d, X1)"
  shows "safe E w X (store_loan k n renewed X1)"
proof -
  note I = inv_parts [OF X(1)]
  note D = rex_okD [OF I(1)] and B = owed_bounds [OF I(1)] and lb = loan_bounds [OF I(1) l]
  have small: "rex_owed X < market_max"
    using rex_smallD [OF I(1) X(2)] by (auto simp: core_cap_def market_max_def)
  obtain p p1 rented funded where p: "rexpool X = Some p" "remove_loan_from_rex_pool l p = Inr p1"
    and r: "get_bancor_output (amount (total_rent p1)) (amount (total_unlent p1)) (amount (l_payment l)) = Inr rented"
    and f: "le_asset E (l_payment l) (l_balance l) = Inr funded"
    using run by (auto simp: process_expired_loan_def the_pool_def Let_def)
  let ?X = "X\<lparr>rexpool := Some p1\<rparr>"
  have s: "safe E w X X1"
  proof (cases "funded \<and> amount (l_payment l) < rented \<and> rex_loans_available ?X")
    case True
    then have "X1 = X\<lparr>rexpool := rexpool X1\<rparr>"
      using run p r f by (auto simp: process_expired_loan_def the_pool_def Let_def split: prod.splits)
    then show ?thesis using safe_refl safe_simps(1) by metis
  next
    case False
    then have x: "(if 0 < amount (l_balance l) then transfer_to_fund core (l_from l) (l_balance l) ?X else Inr ?X) = Inr X1"
      using run p r f by (auto simp: process_expired_loan_def the_pool_def Let_def split: if_splits)
    have fo: "funds_ok ?X" "funds_sum ?X < 2 ^ 62" "amount (l_balance l) < 2 ^ 62"
      using D(1) B(2) lb small by (simp_all add: funds_ok_def sum_defs market_max_def)
    then show ?thesis using x transfer_to_fund_row [OF fo] by (auto split: if_splits)
  qed
  have ls: "loans k' X1 = loans k' X" for k'
    using run by (auto simp: process_expired_loan_def Let_def transfer_to_fund_def case_prod_beta split: if_splits option.splits)
  have "loans_left E w X (store_loan k n renewed X1)"
    using l x ls by (auto simp: loans_left_def store_loan_def split: option.split if_splits)
  moreover have "fund_of w (store_loan k n renewed X1) = fund_of w X1" "sold w X (store_loan k n renewed X1) = sold w X X1"
    by (simp_all add: store_loan_def fund_of_def sold_def rex_of_def set_loans_def split: loan_kind.split)
  ultimately show ?thesis using s by (simp add: safe_def)
qed

lemma run_loans_safe:
  assumes E: "lib_ok E"
  shows "rex_inv (rx S) \<Longrightarrow> rex_small (rx S) \<Longrightarrow> run_loans E k n S = Inr S' \<Longrightarrow> safe E w (rx S) (rx S')"
proof (induction n arbitrary: S)
  case (Suc n)
  show ?case
  proof (cases "first_of (index_by by_expr (loans k (rx S)))")
    case (Some l)
    obtain i where i: "fmlookup (loans k (rx S)) i = Some l" using first_of_index_by [OF Some] by blast
    have li: "l_loan_num l = i"
      using loans_okD(1) [OF rex_ok_loans i] Suc.prems(1) by (simp add: rex_inv_def)
    show ?thesis
    proof (cases "now E < expiration l")
      case False
      obtain renewed d X1 S1 where
        p: "process_expired_loan E (core_symbol S) l (rx S) = Inr (renewed, d, X1)" and
        s1: "limits_for E k (l_receiver l) d (S\<lparr>rx := store_loan k i renewed X1\<rparr>) = Inr S1" and
        r: "run_loans E k n S1 = Inr S'"
        using Suc.prems(3) Some False li by (auto simp: Let_def store_loan_def)
      note K = expired_kept [OF E Suc.prems(1,2) i p]
      obtain R where S1: "S1 = S\<lparr>rx := store_loan k i renewed X1, rs := R\<rparr>" using limits_for_frame [OF s1] by auto
      have "safe E w (rx S) (rx S1)" using expired_safe [OF E Suc.prems(1,2) i False p] by (simp add: S1)
      also have "safe E w (rx S1) (rx S')"
        by (rule Suc.IH [OF _ _ r]) (use K S1 kept_small [OF K Suc.prems(2)] in \<open>auto simp: kept_def\<close>)
      finally show ?thesis .
    qed (use Some Suc.prems in simp)
  qed (use Suc.prems in simp)
qed simp

lemma fill_order_row:
  assumes "fill_rex_order E core a q X = Inr (res, X1)"
  shows "rexfunds X1 = rexfunds X" "rexorders X1 = rexorders X" "\<not> success res \<Longrightarrow> X1 = X" "loans k X1 = loans k X"
    "success res \<Longrightarrow> \<exists>rb rb'. fmlookup (rexbalance X) a = Some rb \<and> rexbalance X1 = fmupd a rb' (rexbalance X) \<and>
       amount (rb_rex_balance rb') = i64 (amount (rb_rex_balance rb) - amount q)"
  using assms by (auto simp: fill_rex_order_def set_rexbal_def Let_def split: if_splits)

lemma fill_order_own: "fill_rex_order E core a q X = Inr (res, X1) \<Longrightarrow> own a X X1"
  by (auto simp: fill_rex_order_def Let_def split: if_splits)

lemma close_order_safe:
  assumes E: "lib_ok E" and X: "rex_inv X" "rex_small X" and r: "fmlookup (rexorders X) a = Some r" "is_open r"
    and run: "fill_rex_order E core a (rex_requested r) X = Inr (res, X1)" "success res"
  shows "safe E w X (X1\<lparr>rexorders := fmupd a
    (close_order (r\<lparr>proceeds := set_amt (amount (oo_proceeds res)) (proceeds r), stake_change := c\<rparr>)) (rexorders X1)\<rparr>)"
    (is "safe E w X ?X'")
proof (cases "w = a")
  case False
  then show ?thesis using fill_order_own [OF run(1)] by (intro own_safe [where a = a]) simp_all
next
  case True
  note I = inv_parts [OF X(1)]
  from I(3) r obtain rb where rb: "fmlookup (rexbalance X) a = Some rb" "0 < amount (rex_requested r)"
    "amount (rex_requested r) \<le> matured_rex rb"
    unfolding orders_backed_def by blast
  note b = bal_ok_bounds [OF holdings_okD(1) [OF I(2) rb(1)]]
  have p: "0 \<le> amount (oo_proceeds res)" using fill_order_law(2) [OF E I(1,2) X(2) rb run] by simp
  note R = fill_order_row [OF run(1)]
  obtain rb' where rb': "rexbalance X1 = fmupd a rb' (rexbalance X)"
    "amount (rb_rex_balance rb') = i64 (amount (rb_rex_balance rb) - amount (rex_requested r))"
    using R(5) [OF run(2)] rb(1) by auto
  have "i64 (amount (rb_rex_balance rb) - amount (rex_requested r)) = amount (rb_rex_balance rb) - amount (rex_requested r)"
    using b rb by (intro i64_small) auto
  then have "rex_of a ?X' = rex_of a X - amount (rex_requested r)" using rb' rb(1) by (simp add: rex_of_def tval_def)
  moreover have "fund_of a ?X' = fund_of a X" using R(1) by (simp add: fund_of_def)
  moreover have "loans_left E a X ?X'" using fill_order_row(4) [OF run(1)] by (simp add: loans_left_def)
  ultimately show ?thesis using r p True by (simp add: safe_def sold_def close_order_def)
qed

lemma run_orders_safe:
  "lib_ok E \<Longrightarrow> rex_inv X \<Longrightarrow> rex_small X \<Longrightarrow> pool_field namebid_proceeds X = 0 \<Longrightarrow> distinct (map o_owner os) \<Longrightarrow>
    (\<And>r. r \<in> set os \<Longrightarrow> fmlookup (rexorders X) (o_owner r) = Some r) \<Longrightarrow>
    run_orders E core n os X = Inr (es, X') \<Longrightarrow> safe E w X X'"
proof (induction E core n os X arbitrary: es rule: run_orders.induct)
  case (3 E core n r rest X)
  note prems = "3.prems"
  have lr: "fmlookup (rexorders X) (o_owner r) = Some r" using prems(6) by simp
  consider (closed) "\<not> is_open r" | (absent) "is_open r" "fmlookup (rexbalance X) (o_owner r) = None"
    | (fill) "is_open r" "fmlookup (rexbalance X) (o_owner r) \<noteq> None" by blast
  then show ?case
  proof cases
    case closed
    then show ?thesis using prems by auto
  next
    case absent
    then show ?thesis using "3.IH"(1) [OF _ _ prems(1-4)] prems by auto
  next
    case fill
    obtain res X1 where f: "fill_rex_order E core (o_owner r) (rex_requested r) X = Inr (res, X1)"
      using prems(7) fill by auto
    show ?thesis
    proof (cases "success res")
      case False
      have "X1 = X" using fill_order_row(3) [OF f False] .
      then have "run_orders E core n rest X = Inr (es, X')" using prems(7) fill f False by auto
      with \<open>X1 = X\<close> show ?thesis using "3.IH"(3) [OF _ _ f refl False prems(1)] prems fill by auto
    next
      case True
      let ?c = "set_amt (amount (oo_stake_change res)) (stake_change r)"
      let ?X2 = "X1\<lparr>rexorders := fmupd (o_owner r)
        (close_order (r\<lparr>proceeds := set_amt (amount (oo_proceeds res)) (proceeds r), stake_change := ?c\<rparr>)) (rexorders X1)\<rparr>"
      note K = close_order_kept [OF prems(1-4) lr fill(1) f True, of ?c]
      have o: "rexorders X1 = rexorders X" by (rule fill_order_row(2) [OF f])
      obtain es' where es': "run_orders E core n rest ?X2 = Inr (es', X')"
        using prems(7) fill f True by (auto simp: Let_def)
      have "safe E w X ?X2" by (rule close_order_safe [OF prems(1-3) lr fill(1) f True])
      also have "safe E w ?X2 X'"
        by (rule "3.IH"(2) [OF _ _ f refl True refl refl prems(1) kept_inv [OF K] kept_small [OF K prems(3)] kept_promise [OF K prems(4)]])
          (use fill f prems es' o in \<open>auto\<close>)
      finally show ?thesis .
    qed
  qed
qed simp_all

lemma runrex_safe:
  assumes E: "lib_ok E" and X: "rex_inv (rx S)" "rex_small (rx S)" and run: "runrex E n S = Inr S'"
  shows "safe E w (rx S) (rx S')"
proof -
  obtain p where p: "rexpool (rx S) = Some p" using run by (auto simp: runrex_def the_pool_def)
  obtain S1 S2 S3 es X4 where
    1: "(if 0 < amount (namebid_proceeds p) then
          bindE (channel_to_rex E names_account (namebid_proceeds p) S) (\<lambda>S.
          bindE (the_pool (rx S)) (\<lambda>rt.
          Inr (S\<lparr>rx := (rx S)\<lparr>rexpool :=
            Some (rt\<lparr>namebid_proceeds := set_amt 0 (namebid_proceeds rt)\<rparr>)\<rparr>\<rparr>)))
        else Inr S) = Inr S1" and
    2: "run_loans E Cpu_loan n S1 = Inr S2" and 3: "run_loans E Net_loan n S2 = Inr S3" and
    4: "run_orders E (core_symbol S3) n (index_by by_time (rexorders (rx S3))) (rx S3) = Inr (es, X4)" and
    S': "S' = emit es (S3\<lparr>rx := X4\<rparr>)"
    using run p by (auto simp: runrex_def the_pool_def)
  note m1 = proceeds_maintained [OF X p 1]
  note s1 = maintainedD(1) [OF m1(1)] maintainedD(10) [OF m1(1) X(2)]
  note m2 = run_loans_maintained [OF E s1 2]
  note s2 = maintainedD(1) [OF m2] maintainedD(10) [OF m2 s1(2)]
  note m3 = run_loans_maintained [OF E s2 3]
  note s3 = maintainedD(1) [OF m3] maintainedD(10) [OF m3 s2(2)]
  have z3: "pool_field namebid_proceeds (rx S3) = 0"
    using run_loans_law [OF E s1 2] run_loans_law [OF E s2 3] m1(2) by (simp add: kept_def)
  have own: "o_owner r = w" if "fmlookup (rexorders (rx S3)) w = Some r" for w r
    using orders_okD(1) [OF rex_okD(4) [OF rex_inv_ok [OF s3(1)]] that] .
  have "\<exists>q. rx S1 = (rx S)\<lparr>rexpool := q\<rparr>"
    using 1 by (auto simp: channel_to_rex_def the_pool_def split: if_splits option.splits intro: exI [of _ "rexpool (rx S)"])
  then have "safe E w (rx S) (rx S1)" using safe_refl safe_simps(1) by metis
  also have "safe E w (rx S1) (rx S2)" by (rule run_loans_safe [OF E s1 2])
  also have "safe E w (rx S2) (rx S3)" by (rule run_loans_safe [OF E s2 3])
  also have "distinct (map o_owner (index_by by_time (rexorders (rx S3))))" by (rule distinct_index_by) (rule own)
  then have "safe E w (rx S3) X4" by (rule run_orders_safe [OF E s3 z3 _ _ 4]) (use own in auto)
  finally show ?thesis by (simp add: S')
qed

section \<open>Own rows\<close>

lemma transfer_own:
  "transfer_to_fund core a q X = Inr X' \<Longrightarrow> own a X X'" "transfer_from_fund E core a q X = Inr X' \<Longrightarrow> own a X X'"
  by (auto simp: transfer_to_fund_def transfer_from_fund_def split: option.splits)

lemma on_vs_rx: "on_vs f S = Inr S' \<Longrightarrow> rx S' = rx S"
  by (auto simp: on_vs_def)

lemma update_rex_account_own:
  assumes run: "update_rex_account E a z d force S = Inr (q, S')"
  shows "own a (rx S) (rx S')"
proof (cases "\<exists>r. fmlookup (rexorders (rx S)) a = Some r \<and> \<not> is_open r")
  case True
  then obtain r where r: "fmlookup (rexorders (rx S)) a = Some r" "\<not> is_open r" by blast
  show ?thesis using run r by (auto simp: update_rex_account_def Let_def split: if_splits dest!: on_vs_rx transfer_own)
next
  case False
  then show ?thesis using run
    by (auto simp: update_rex_account_def Let_def split: option.splits if_splits dest!: on_vs_rx transfer_own)
qed

lemma add_to_rex_pool_own: "add_to_rex_pool E core q X = Inr (r, X') \<Longrightarrow> own a X X'"
  by (auto simp: add_to_rex_pool_def Let_def split: option.splits if_splits)

lemma add_to_rex_balance_own: "add_to_rex_balance E core a q r X = Inr (d, X') \<Longrightarrow> own a X X'"
  by (auto simp: add_to_rex_balance_def Let_def case_prod_beta)

lemma enqueue_order_own: "enqueue_order E core a q X = Inr (n, X') \<Longrightarrow> own a X X'"
  by (auto simp: enqueue_order_def Let_def split: option.splits)

lemma drop_own: "own a X (drop_fund a X)" "drop_balance a X = Inr X' \<Longrightarrow> own a X X'"
  by (auto simp: drop_fund_def drop_balance_def split: option.splits)

lemma put_rexbal_own [simp]: "own a X (rx (put_rexbal a rb S)) = own a X (rx S)"
  by (simp add: put_rexbal_def)

section \<open>Actions\<close>

lemma settled_safe:
  assumes E: "lib_ok E" and X: "rex_inv (rx S)" "rex_small (rx S)" and a: "w \<noteq> a"
    and r: "runrex E n S = Inr S1" and u: "update_rex_account E a z d force S1 = Inr (q, S2)"
  shows "safe E w (rx S) (rx S2)"
  using runrex_safe [OF E X r] own_safe [OF update_rex_account_own [OF u] a] by (rule safe_trans)

lemma bought:
  assumes E: "lib_ok E" and X: "rex_inv X" "rex_small X" "rex_owed X + amount pay + pool_field namebid_proceeds X \<le> core_cap"
      "rent_pot X + initial_rent < market_max" "0 < amount pay"
    and pool: "add_to_rex_pool E core pay X = Inr (recv, X1)"
    and bal: "add_to_rex_balance E core a pay recv X1 = Inr (delta, X2)"
  shows "rex_inv X2" "rex_small X2" "own a X X2"
proof -
  have c: "rex_owed X + amount pay \<le> core_cap"
    using X(3) rex_smallD(3) [OF inv_parts(1) [OF X(1)] X(2)] by linarith
  note B = buy_law [OF E X(1,2,5) c pool bal]
  then show "rex_inv X2" "rex_small X2" using X(3,4) by (simp_all add: rex_small_def rex_claims_def)
  show "own a X X2" using add_to_rex_pool_own [OF pool] add_to_rex_balance_own [OF bal] by (rule own_trans)
qed

lemma buyrex_safe:
  assumes E: "lib_ok E" and X: "rex_inv (rx S)" "rex_small (rx S)" "rent_pot (rx S) + initial_rent < market_max"
    and a: "w \<noteq> a" and run: "buyrex E a amt S = Inr S'"
  shows "safe E w (rx S) (rx S')"
proof -
  obtain X0 recv X1 delta X2 S1 z q S2 where
    x0: "transfer_from_fund E (core_symbol S) a amt (rx S) = Inr X0" and
    x1: "add_to_rex_pool E (core_symbol S) amt X0 = Inr (recv, X1)" and
    x2: "add_to_rex_balance E (core_symbol S) a amt recv X1 = Inr (delta, X2)" and
    r: "runrex E 2 (S\<lparr>rx := X2\<rparr>) = Inr S1" and
    u: "update_rex_account E a z delta False S1 = Inr (q, S2)" and S': "S' = emit [Rex_buyresult recv] S2"
    using run by (auto simp: buyrex_def)
  note f = fund_taken [OF E X(1,2) x0]
  have "rex_owed X0 + amount amt + pool_field namebid_proceeds X0 \<le> core_cap" "rent_pot X0 + initial_rent < market_max"
    using f X(2,3) by (simp_all add: rex_small_def rex_claims_def)
  note B = bought [OF E f(1,7) this f(4) x1 x2]
  have "safe E w (rx S) X0" by (rule own_safe [OF transfer_own(2) [OF x0] a])
  also have "safe E w X0 X2" by (rule own_safe [OF B(3) a])
  also have "safe E w X2 (rx S2)" using settled_safe [OF E _ _ a r u] B by simp
  finally show ?thesis by (simp add: S')
qed

lemma unstaketorex_safe:
  assumes E: "lib_ok E" and X: "rex_inv (rx S)" "rex_small (rx S)" "rent_pot (rx S) + initial_rent < market_max"
    and c: "rex_claims (rx S) + amount net + amount cpu \<le> core_cap"
    and a: "w \<noteq> a" and run: "unstaketorex E a receiver net cpu S = Inr S'"
  shows "safe E w (rx S) (rx S')"
proof -
  obtain R S0 pay recv X1 delta X2 S1 z q S2 where
    g: "0 \<le> amount net" "0 \<le> amount cpu" "0 < amount net \<or> 0 < amount cpu" and
    s0: "update_resource_limits E receiver (i64 (- amount net)) (i64 (- amount cpu)) (S\<lparr>rs := R\<rparr>) = Inr S0" and
    p: "add_asset E net cpu = Inr pay" and
    x1: "add_to_rex_pool E (core_symbol S0) pay (rx S0) = Inr (recv, X1)" and
    x2: "add_to_rex_balance E (core_symbol S0) a pay recv X1 = Inr (delta, X2)" and
    r: "runrex E 2 ((emit [Token_transfer [active_of stake_account] stake_account rex_account pay
           ''buy REX with staked tokens''] S0)\<lparr>rx := X2\<rparr>) = Inr S1" and
    u: "update_rex_account E a z z True S1 = Inr (q, S2)" and S': "S' = emit [Rex_buyresult recv] S2"
    using run by (auto simp: unstaketorex_def Let_def core_symbol_def)
  have rx0: "rx S0 = rx S" using update_resource_limits_frame [OF s0] by auto
  have nb: "0 \<le> rex_claims (rx S)"
    using owed_bounds(3) [OF inv_parts(1) [OF X(1)]] rex_smallD(3) [OF inv_parts(1) [OF X(1)] X(2)]
    by (simp add: rex_claims_def)
  have pay: "amount pay = amount net + amount cpu" "0 < amount pay"
    using p g c nb by (subst (asm) add_asset_lib [OF E]; auto simp: is_i64_def core_cap_def)+
  have cc: "rex_owed (rx S) + amount pay + pool_field namebid_proceeds (rx S) \<le> core_cap"
    using c pay by (simp add: rex_claims_def)
  note B = bought [OF E X(1,2) cc X(3) pay(2) x1 [unfolded rx0] x2]
  have "safe E w (rx S) X2" by (rule own_safe [OF B(3) a])
  also have "safe E w X2 (rx S2)" using settled_safe [OF E _ _ a r u] B by simp
  finally show ?thesis by (simp add: S')
qed

lemma sellrex_safe:
  assumes E: "lib_ok E" and X: "rex_inv (rx S)" "rex_small (rx S)" and a: "w \<noteq> a" and run: "sellrex E a q S = Inr S'"
  shows "safe E w (rx S) (rx S')"
proof -
  obtain S1 rb core order X r S3 n X' where
    r: "runrex E 2 S = Inr S1" and
    f: "fill_rex_order E core a q (set_rexbal a rb (rx S1)) = Inr (order, X)" and
    u: "update_rex_account E a (oo_proceeds order) (oo_stake_change order) False (S1\<lparr>rx := X\<rparr>) = Inr (r, S3)" and
    n: "(if \<not> success order then
          bindE (check (a \<noteq> b1_account) ''b1 sellrex orders should not be queued'') (\<lambda>_.
          enqueue_order E (core_symbol S3) a q (rx S3))
        else Inr (amount r, rx S3)) = Inr (n, X')" and
    S': "S' = emit (if success order then [Rex_sellresult (oo_proceeds order)] else []) (S3\<lparr>rx := X'\<rparr>)"
    using run unfolding sellrex_def Let_def put_rexbal_def bindE_eq_Inr by clarsimp
  have "own a (rx S1) X" using fill_order_own [OF f] by simp
  also have "own a X (rx S3)" using update_rex_account_own [OF u] by simp
  also have "own a (rx S3) X'" using n by (auto split: if_splits dest: enqueue_order_own)
  finally have "safe E w (rx S1) X'" using a by (rule own_safe)
  then show ?thesis using runrex_safe [OF E X r] S' safe_trans by simp blast
qed

lemma rent_loan_safe:
  assumes E: "lib_ok E" and X: "rex_inv (rx S)" "rex_small (rx S)" and a: "w \<noteq> a"
    and run: "rent_loan E k a receiver pay fund S = Inr S'"
  shows "safe E w (rx S) (rx S')"
  using E run
proof (rule rent_loan_parts)
  fix S1 both X2 p rented cs tab
  assume r: "runrex E 2 S = Inr S1" and f: "transfer_from_fund E (core_symbol S1) a both (rx S1) = Inr X2"
    and em: "emplace (rp_loan_num (add_loan_to_rex_pool pay rented True p))
       \<lparr>l_from = a, l_receiver = receiver, l_payment = pay, l_balance = fund,
        total_staked = \<lparr>amount = rented, symbol = cs\<rparr>,
        l_loan_num = rp_loan_num (add_loan_to_rex_pool pay rented True p),
        expiration = i64 (now E + 30 * useconds_per_day)\<rparr> (loans k X2) = Inr tab"
    and l: "limits_for E k receiver rented (emit [Rex_rentresult \<lparr>amount = rented, symbol = cs\<rparr>]
      (S1\<lparr>rx := set_loans k tab (X2\<lparr>rexpool := Some (add_loan_to_rex_pool pay rented True p)\<rparr>)\<rparr>)) = Inr S'"
  have "safe E w (rx S) (rx S1)" by (rule runrex_safe [OF E X r])
  also let ?X = "X2\<lparr>rexpool := Some (add_loan_to_rex_pool pay rented True p)\<rparr>"
  have "own a ?X (set_loans k tab ?X)" using em own_loan [where k = k and X = ?X] by auto
  then have "own a (rx S1) (rx S')" using own_trans [OF transfer_own(2) [OF f]] limits_for_frame [OF l] by auto
  then have "safe E w (rx S1) (rx S')" using a by (rule own_safe)
  finally show ?thesis .
qed

lemma loan_fund_own:
  "fund_rex_loan E core k a n q X = Inr X' \<Longrightarrow> own a X X'" "defund_rex_loan E core k a n q X = Inr X' \<Longrightarrow> own a X X'"
proof -
  assume "fund_rex_loan E core k a n q X = Inr X'"
  then obtain X1 l l' where f: "transfer_from_fund E core a q X = Inr X1" and l: "fmlookup (loans k X1) n = Some l" "l_from l = a"
    and X': "X' = set_loans k (fmupd n l' (loans k X1)) X1"
    by (auto simp: fund_rex_loan_def)
  then show "own a X X'" using own_trans [OF transfer_own(2) [OF f] own_loan [where k = k and X = X1 and n = n and l' = l']] by simp
next
  assume "defund_rex_loan E core k a n q X = Inr X'"
  then obtain l l' where l: "fmlookup (loans k X) n = Some l" "l_from l = a"
    and f: "transfer_to_fund core a q (set_loans k (fmupd n l' (loans k X)) X) = Inr X'"
    by (auto simp: defund_rex_loan_def)
  then show "own a X X'" using own_trans [OF own_loan [where k = k and X = X and n = n and l' = l'] transfer_own(1) [OF f]] by simp
qed

lemma updaterex_safe:
  assumes E: "lib_ok E" and X: "rex_inv (rx S)" "rex_small (rx S)" and a: "w \<noteq> a" and run: "updaterex E a S = Inr S'"
  shows "safe E w (rx S) (rx S')"
proof -
  obtain S1 rb z d r S2 rb' where r: "runrex E 2 S = Inr S1"
    and u: "update_rex_account E a z d True (put_rexbal a rb S1) = Inr (r, S2)" and S': "S' = put_rexbal a rb' S2"
    using run by (auto simp: updaterex_def Let_def)
  have "own a (rx S1) (rx S')" using update_rex_account_own [OF u] by (simp add: S' put_rexbal_def)
  then show ?thesis using runrex_safe [OF E X r] own_safe a safe_trans by blast
qed

lemma mvfrsavings_safe:
  assumes E: "lib_ok E" and X: "rex_inv (rx S)" "rex_small (rx S)" and a: "w \<noteq> a" and run: "mvfrsavings E a q S = Inr S'"
  shows "safe E w (rx S) (rx S')"
proof -
  obtain S1 rb z d r where r: "runrex E 2 S = Inr S1"
    and u: "update_rex_account E a z d False (put_rexbal a rb S1) = Inr (r, S')"
    using run by (auto simp: mvfrsavings_def Let_def case_prod_beta)
  have "own a (rx S1) (rx S')" using update_rex_account_own [OF u] by (simp add: put_rexbal_def)
  then show ?thesis using runrex_safe [OF E X r] own_safe a safe_trans by blast
qed

lemma closerex_safe:
  assumes E: "lib_ok E" and X: "rex_inv (rx S)" "rex_small (rx S)" and a: "w \<noteq> a" and run: "closerex E a S = Inr S'"
  shows "safe E w (rx S) (rx S')"
proof -
  obtain S1 z r S2 where r: "(if rex_system_initialized (rx S) then runrex E 2 S else Inr S) = Inr S1"
    and u: "update_rex_account E a z z False S1 = Inr (r, S2)"
    and d: "on_rx (drop_balance a) (S2\<lparr>rx := drop_fund a (rx S2)\<rparr>) = Inr S'"
    using run unfolding closerex_def bindE_eq_Inr by (clarsimp cong: if_cong)
  obtain X' where d: "drop_balance a (drop_fund a (rx S2)) = Inr X'" "S' = S2\<lparr>rx := X'\<rparr>"
    using d by (auto simp: on_rx_frame)
  have "own a (rx S1) (rx S2)" by (rule update_rex_account_own [OF u])
  also have "own a (rx S2) (drop_fund a (rx S2))" by (rule drop_own)
  also have "own a (drop_fund a (rx S2)) (rx S')" using drop_own(2) [OF d(1)] d(2) by simp
  finally have o: "safe E w (rx S1) (rx S')" using a by (rule own_safe)
  have "safe E w (rx S) (rx S1)"
    using r runrex_safe [OF E X, of 2 S1] by (cases "rex_system_initialized (rx S)") simp_all
  with o show ?thesis using safe_trans by blast
qed

lemma fund_loan_safe: "w \<noteq> a \<Longrightarrow> fund_loan E k a n q S = Inr S' \<Longrightarrow> safe E w (rx S) (rx S')"
  by (auto simp: fund_loan_def on_rx_frame intro: own_safe [OF loan_fund_own(1)])

lemma defund_loan_safe: "w \<noteq> a \<Longrightarrow> defund_loan E k a n q S = Inr S' \<Longrightarrow> safe E w (rx S) (rx S')"
  by (auto simp: defund_loan_def on_rx_frame intro: own_safe [OF loan_fund_own(2)])

lemma settled_row_safe:
  assumes "lib_ok E" "rex_inv (rx S)" "rex_small (rx S)" "w \<noteq> a" "runrex E n S = Inr S1" "update_rex_account E a z d force S1 = Inr (q, S2)"
  shows "safe E w (rx S) (rx (put_rexbal a rb S2))"
proof -
  have "own a (rx S2) (rx (put_rexbal a rb S2))" by simp
  then have "safe E w (rx S2) (rx (put_rexbal a rb S2))" using assms(4) by (rule own_safe)
  with settled_safe [OF assms] show ?thesis by (rule safe_trans)
qed

text \<open>Only its signer can lose from an action of the REX.\<close>

lemma rex_exec_safe:
  assumes E: "lib_ok E" and X: "rex_inv (rx S)" and f: "rex_ready x S" and w: "w \<noteq> rex_signer x" and run: "rex_exec E x S = Inr S'"
  shows "safe E w (rx S) (rx S')"
proof -
  have s: "rex_small (rx S)" and f: "rex_fits x S" using f by (simp_all add: rex_ready_def)
  have o: "own (rex_signer x) (rx S) (rx S') \<Longrightarrow> ?thesis" using w by (rule own_safe [rotated])
  show ?thesis
  proof (cases x)
    case (Deposit a q)
    then show ?thesis using run by (intro o) (auto simp: deposit_def on_rx_frame dest: transfer_own)
  next
    case (Withdraw a q)
    then show ?thesis using run
      by (intro o) (auto simp: withdraw_def on_rx_frame dest!: transfer_own update_rex_account_own intro: own_trans)
  next
    case (Cnclrexorder a)
    then show ?thesis using run by (intro o) (auto simp: on_rx_frame cnclrexorder_def)
  next
    case (Setrex q)
    then show ?thesis using run by (intro o) (auto simp: setrex_def)
  next
    case (Buyrex a q)
    then show ?thesis using run w f buyrex_safe [OF E X s] by simp
  next
    case (Unstaketorex a r net cpu)
    then show ?thesis using run w f by (intro unstaketorex_safe [OF E X s]) auto
  next
    case (Sellrex a q)
    then show ?thesis using run w sellrex_safe [OF E X s] by simp
  next
    case (Rentcpu a r pay fund)
    then show ?thesis using run w rent_loan_safe [OF E X s] by (simp add: rentcpu_def)
  next
    case (Rentnet a r pay fund)
    then show ?thesis using run w rent_loan_safe [OF E X s] by (simp add: rentnet_def)
  next
    case (Updaterex a)
    then show ?thesis using run w updaterex_safe [OF E X s] by simp
  next
    case (Rexexec a n)
    then show ?thesis using run runrex_safe [OF E X s] by (auto simp: rexexec_def)
  next
    case (Consolidate a)
    then have w: "w \<noteq> a" using w by simp
    show ?thesis using run Consolidate settled_row_safe [OF E X s w] by (auto simp: consolidate_def)
  next
    case (Mvtosavings a q)
    then have w: "w \<noteq> a" using w by simp
    show ?thesis using run Mvtosavings settled_row_safe [OF E X s w] by (auto simp: mvtosavings_def Let_def case_prod_beta)
  next
    case (Mvfrsavings a q)
    then show ?thesis using run w mvfrsavings_safe [OF E X s] by simp
  next
    case (Closerex a)
    then show ?thesis using run w closerex_safe [OF E X s] by simp
  qed (use run w fund_loan_safe defund_loan_safe in
      \<open>simp_all add: fundcpuloan_def fundnetloan_def defcpuloan_def defnetloan_def\<close>)
qed

end
