(* ===== verification/Owners.thy ===== *)
theory Owners
  imports Rex_Rows System_Votes
begin

text \<open>
  Nobody loses from the actions of others: what an account has in the REX, in stakes, in refunds, in
  memory and in votes is reduced or changed by no action that the account itself has not signed.
\<close>

section \<open>What an account has\<close>

definition memory_bought :: "name \<Rightarrow> system_state \<Rightarrow> int" where
  "memory_bought w S = tval ram_bytes (userres (rs S)) w"

definition delegated_by :: "name \<Rightarrow> name \<Rightarrow> system_state \<Rightarrow> int" where
  "delegated_by w r S = tval db_stake (delband (rs S)) (w, r)"

definition outbid :: "name \<Rightarrow> name \<Rightarrow> system_state \<Rightarrow> int" where
  "outbid n w S = tval (\<lambda>r. amount (br_amount r)) (bidrefunds (ns S)) (n, w)"

text \<open>Stakes, memory and votes of \<open>w\<close> are left to it.\<close>

definition stakes_left :: "name \<Rightarrow> system_state \<Rightarrow> system_state \<Rightarrow> bool" where
  "stakes_left w S S' \<longleftrightarrow> (\<forall>r. delegated_by w r S \<le> delegated_by w r S') \<and>
     fmlookup (refunds (rs S')) w = fmlookup (refunds (rs S)) w"

definition votes_left :: "name \<Rightarrow> system_state \<Rightarrow> system_state \<Rightarrow> bool" where
  "votes_left w S S' \<longleftrightarrow> proxy_of (vs S') w = proxy_of (vs S) w \<and> chosen (vs S') w = chosen (vs S) w"

lemma quiet_left: "stake_quiet S S' \<Longrightarrow> stakes_left w S S'"
  by (simp add: stake_quiet_def stakes_left_def delegated_by_def)

lemma linked_left: "linked S S' \<Longrightarrow> votes_left w S S'"
  by (simp add: linked_def links_kept_def votes_left_def)

lemma bytes_left: "bytes_kept (rs S) (rs S') \<Longrightarrow> memory_bought w S \<le> memory_bought w S'"
  by (simp add: bytes_kept_def memory_bought_def)

lemma rows_safe:
  "rexfunds X' = rexfunds X \<Longrightarrow> rexbalance X' = rexbalance X \<Longrightarrow> rexorders X' = rexorders X \<Longrightarrow>
    cpu_loans X' = cpu_loans X \<Longrightarrow> net_loans X' = net_loans X \<Longrightarrow> safe E w X X'"
  by (simp add: safe_def sold_def fund_of_def rex_of_def loans_left_def loans_def split: loan_kind.split)

section \<open>Stakes\<close>

lemma unstaketorex_left:
  assumes run: "unstaketorex E a r net cpu S = Inr S'" and w: "w \<noteq> a"
  shows "stakes_left w S S'"
proof -
  obtain R S0 pay recv X2 S1 z q S2 where db: "take_delband a r net cpu (rs S) = Inr R" and
    s0: "update_resource_limits E r (i64 (- amount net)) (i64 (- amount cpu)) (S\<lparr>rs := R\<rparr>) = Inr S0" and
    r: "runrex E 2 ((emit [Token_transfer [active_of stake_account] stake_account rex_account pay
           ''buy REX with staked tokens''] S0)\<lparr>rx := X2\<rparr>) = Inr S1" and
    u: "update_rex_account E a z z True S1 = Inr (q, S2)" and S': "S' = emit [Rex_buyresult recv] S2"
    using run by (auto simp: unstaketorex_def Let_def)
  have "delband (rs S') = delband R" "refunds (rs S') = refunds R"
    using update_resource_limits_quiet [OF s0] runrex_quiet [OF r] update_rex_account_quiet [OF u]
    by (simp_all add: stake_quiet_def S')
  moreover have "fmlookup (delband R) (w, x) = fmlookup (delband (rs S)) (w, x)" "refunds R = refunds (rs S)" for x
    using db w by (auto simp: take_delband_def Let_def)
  ultimately show ?thesis by (simp add: stakes_left_def delegated_by_def tval_def)
qed

lemma change_delband_row:
  assumes "change_delband E a r dnet dcpu R = Inr R'" "w \<noteq> a"
  shows "fmlookup (delband R') (w, x) = fmlookup (delband R) (w, x)"
  using assms by (auto simp: change_delband_def)

lemma change_delband_grows:
  assumes E: "lib_ok E" and X: "db_ok (delband R)" "tsum db_stake (delband R) + amount dnet + amount dcpu \<le> core_cap"
    and d: "0 \<le> amount dnet" "0 \<le> amount dcpu" and run: "change_delband E a r dnet dcpu R = Inr R'"
  shows "tval db_stake (delband R) k \<le> tval db_stake (delband R') k"
proof (cases "k = (a, r)")
  case False
  then show ?thesis using run by (auto simp: change_delband_def tval_def)
next
  case True
  show ?thesis
  proof (cases "fmlookup (delband R) (a, r)")
    case None
    then show ?thesis using run d True by (auto simp: change_delband_def tval_def db_stake_def)
  next
    case (Some dbo)
    note n = db_okD [OF X(1) Some]
    have "tval db_stake (delband R) (a, r) \<le> tsum db_stake (delband R)"
      by (rule tval_le_tsum) (use db_okD [OF X(1)] in \<open>simp add: db_stake_def\<close>)
    then have s: "db_stake dbo + amount dnet + amount dcpu \<le> core_cap" using Some X(2) by simp
    have i: "is_i64 (amount (db_net_weight dbo) + amount dnet)" "is_i64 (amount (db_cpu_weight dbo) + amount dcpu)"
      using n s d by (auto simp: db_stake_def is_i64_def core_cap_def)
    show ?thesis using run d n Some True
      by (auto simp: change_delband_def tval_def db_stake_def db_is_empty_def add_asset_lib [OF E i(1)] add_asset_lib [OF E i(2)])
  qed
qed

lemma update_rex_stake_own:
  assumes "update_rex_stake E a S = Inr S'"
  shows "safe E w (rx S) (rx S')"
proof -
  obtain d X where r: "refresh_rex_stake E (core_symbol S) a (rx S) = Inr (d, X)"
    using assms by (auto simp: update_rex_stake_def Let_def)
  have "rx S' = X" using assms r by (auto simp: update_rex_stake_def Let_def split: option.splits if_splits)
  moreover have "rexfunds X = rexfunds (rx S)" "rexorders X = rexorders (rx S)" "rex_of w X = rex_of w (rx S)"
    "cpu_loans X = cpu_loans (rx S)" "net_loans X = net_loans (rx S)"
    using r by (auto simp: refresh_rex_stake_def set_rexbal_def rex_of_def tval_def split: option.splits if_splits)
  ultimately show ?thesis by (simp add: safe_def sold_def fund_of_def loans_left_def loans_def split: loan_kind.split)
qed

lemma changebw_rex:
  assumes "changebw E a r dnet dcpu transfer S = Inr S'"
  shows "safe E w (rx S) (rx S')" "ns S' = ns S"
proof -
  let ?a = "if transfer then r else a"
  obtain both R2 S1 S2 where
    1: "(if stake_account \<noteq> a then
          bindE (change_refund E (core_symbol S) ?a (\<not> transfer \<and> ?a = r) dnet dcpu (refunds R2))
            (\<lambda>(net, cpu, need_deferred_trx, T).
          bindE (settle_stake E a ?a net cpu need_deferred_trx) (\<lambda>es.
          Inr (emit es (S\<lparr>rs := R2\<lparr>refunds := T\<rparr>\<rparr>))))
        else Inr (S\<lparr>rs := R2\<rparr>)) = Inr S1" and
    3: "update_rex_stake E ?a S1 = Inr S2" "on_vs (update_voting_power E ?a both) S2 = Inr S'"
    using assms unfolding changebw_steps by blast
  have 2: "rx S1 = rx S" "ns S1 = ns S" using 1 by (auto split: if_splits)
  show "safe E w (rx S) (rx S')" using update_rex_stake_own [OF 3(1)] on_vs_rx [OF 3(2)] 2(1) by simp
  have "ns S2 = ns S1" using 3(1) by (auto simp: update_rex_stake_def Let_def split: option.splits if_splits)
  then show "ns S' = ns S" using 3(2) 2(2) by (auto simp: on_vs_def)
qed

lemma delegatebw_left:
  assumes E: "lib_ok E" and X: "stake_inv S" and f: "a \<noteq> stake_account" "stake_owed S + amount net + amount cpu \<le> core_cap"
    and w: "w \<noteq> a" and run: "delegatebw E a r net cpu transfer S = Inr S'"
  shows "stakes_left w S S'"
proof -
  note C = delegatebw_change [OF E X f run]
  have lo: "0 \<le> amount net" "0 \<le> amount cpu" "amount net + amount cpu \<le> core_cap"
    using C(1,2) stake_parts(1,2) [OF X] f(2) by (auto simp: change_fits_def stake_owed_def)
  then have i: "is_i64 (amount net + amount cpu)" by (simp add: is_i64_def core_cap_def)
  have I: "db_ok (delband (rs S))" using X by (simp add: stake_inv_def)
  have cap: "tsum db_stake (delband (rs S)) + amount net + amount cpu \<le> core_cap"
    using f(2) stake_parts(1,2) [OF X] by (simp add: stake_owed_def delegated_def)
  show ?thesis
  proof (rule changebw_parts [OF C(3) f(1)])
    fix R1 R2 nt cp need T es S1
    let ?a = "if transfer then r else a"
    assume db: "change_delband E ?a r net cpu (rs S) = Inr R1" and ct: "change_totals E r net cpu (vs S) R1 = Inr R2"
      and rf: "change_refund E (core_symbol S) ?a (\<not> transfer \<and> ?a = r) net cpu (refunds R2) = Inr (nt, cp, need, T)"
      and S1: "S1 = emit es (S\<lparr>rs := R2\<lparr>refunds := T\<rparr>\<rparr>)" and q: "stake_quiet S1 S'"
    note t = change_totals_frame [OF ct]
    have d: "delband (rs S') = delband R1" "refunds (rs S') = T" using q S1 t(1) by (simp_all add: stake_quiet_def)
    have "refunds R2 = refunds (rs S)" using t(2) db by (auto simp: change_delband_def)
    moreover have "fmlookup T w = fmlookup (refunds R2) w"
    proof (cases "?a = w")
      case True
      then have "\<not> ((\<not> transfer \<and> ?a = r) \<or> i64 (amount net + amount cpu) < 0)"
        using w lo by (auto simp: i64_id [OF i])
      then show ?thesis using change_refund_untouched(3) [OF _ rf] by simp
    next
      case False
      then show ?thesis using rf by (auto simp: change_refund_def Let_def split: if_splits option.splits)
    qed
    ultimately show ?thesis
      using d change_delband_grows [OF E I cap lo(1,2) db] by (simp add: stakes_left_def delegated_by_def)
  qed
qed

lemma undelegatebw_left:
  assumes E: "lib_ok E" and X: "stake_inv S" and f: "a \<noteq> stake_account" "stake_owed S \<le> core_cap"
      "amount net < 2 ^ 63" "amount cpu < 2 ^ 63"
    and w: "w \<noteq> a" and run: "undelegatebw E a r net cpu S = Inr S'"
  shows "stakes_left w S S'"
proof (rule changebw_parts [OF undelegatebw_change(7) [OF E X f run] f(1)])
  fix R1 R2 nt cp need T es S1
  let ?n = "asset_neg E net" and ?c = "asset_neg E cpu" and ?a = "if False then r else a"
  assume db: "change_delband E ?a r ?n ?c (rs S) = Inr R1" and ct: "change_totals E r ?n ?c (vs S) R1 = Inr R2"
    and rf: "change_refund E (core_symbol S) ?a (\<not> False \<and> ?a = r) ?n ?c (refunds R2) = Inr (nt, cp, need, T)"
    and S1: "S1 = emit es (S\<lparr>rs := R2\<lparr>refunds := T\<rparr>\<rparr>)" and q: "stake_quiet S1 S'"
  note t = change_totals_frame [OF ct]
  have d: "delband (rs S') = delband R1" "refunds (rs S') = T" using q S1 t(1) by (simp_all add: stake_quiet_def)
  have "refunds R2 = refunds (rs S)" using t(2) db by (auto simp: change_delband_def)
  moreover have "fmlookup T w = fmlookup (refunds R2) w"
    using rf w by (auto simp: change_refund_def Let_def split: if_splits option.splits)
  moreover have "fmlookup (delband R1) (w, x) = fmlookup (delband (rs S)) (w, x)" for x
    using change_delband_row [OF db] w by simp
  ultimately show ?thesis using d by (simp add: stakes_left_def delegated_by_def tval_def)
qed

lemma stake_exec_left:
  assumes E: "lib_ok E" and X: "stake_inv S" and f: "stake_fits x S" and w: "w \<noteq> stake_signer x" and run: "stake_exec E x S = Inr S'"
  shows "stakes_left w S S'"
proof (cases x)
  case (Refund a)
  then have "delband (rs S') = delband (rs S)" "refunds (rs S') = fmdrop a (refunds (rs S))" "w \<noteq> a"
    using run w by (auto simp: refund_def)
  then show ?thesis by (simp add: stakes_left_def delegated_by_def)
qed (use assms delegatebw_left undelegatebw_left unstaketorex_left in auto)

section \<open>The memory market\<close>

lemma ram_exec_memory:
  assumes E: "lib_ok E" and X: "ram_inv S" and f: "ram_fits x S" and w: "w \<noteq> ram_signer E x" and run: "ram_exec E x S = Inr S'"
  shows "memory_bought w S \<le> memory_bought w S'"
proof (cases x)
  case (Buyram payer receiver q)
  then have "ram_small S" "buyram_fits payer q S" "buyram E payer receiver q S = Inr S'" using f run by simp_all
  from buyram_effect [OF E X this] show ?thesis by (simp add: memory_bought_def)
next
  case (Buyrambytes payer receiver n)
  then have "buyrambytes E payer receiver n S = Inr S'" using run by simp
  with E show ?thesis
  proof (rule buyrambytes_parts)
    fix m cost c2 cs
    assume "rammarket S = Some m" "get_bancor_input (base_of m) (quote_of m) n = Inr cost"
      "dbl_to_i64 (ddiv (dbl cost) (rnd (995 / 1000))) = Inr c2"
      and b: "buyram E payer receiver \<lparr>amount = c2, symbol = cs\<rparr> S = Inr S'"
    then have "buyram_fits payer \<lparr>amount = c2, symbol = cs\<rparr> S" "ram_small S"
      using f Buyrambytes by (auto simp: buyram_fits_def)
    from buyram_effect [OF E X this(2,1) b] show ?thesis by (simp add: memory_bought_def)
  qed
next
  case (Sellram a n)
  then have s: "ram_small S" and a: "w \<noteq> a" and run: "sellram E a n S = Inr S'" using f w run by simp_all
  from E run show ?thesis
  proof (rule sellram_parts)
    fix S1 r R V k
    assume s1: "update_ram_supply E S = Inr S1" and R: "set_ram_limit (ur_owner r) (i64 (ram_bytes r - n)) V
        ((rs S1)\<lparr>userres := fmupd a (r\<lparr>ram_bytes := i64 (ram_bytes r - n)\<rparr>) (userres (rs S1))\<rparr>) = Inr R"
      and S': "rs S' = R"
    have "rs S1 = rs S" using update_ram_supply_law [OF X s s1] by simp
    then show ?thesis using set_ram_limit_frame(1) [OF R] a by (simp add: S' memory_bought_def tval_def)
  qed
next
  case (Setram n)
  then show ?thesis using run by (auto simp: setram_def Let_def set_gstate_def memory_bought_def)
next
  case (Setramrate n)
  then obtain S1 where "update_ram_supply E S = Inr S1" "rs S' = rs S1" "ram_small S"
    using run f by (auto simp: setramrate_def)
  then show ?thesis using update_ram_supply_law [OF X] by (simp add: memory_bought_def)
qed

lemma channel_rows: "channel_to_rex E a q S = Inr S' \<Longrightarrow> \<exists>p. rx S' = (rx S)\<lparr>rexpool := p\<rparr>"
  by (auto simp: channel_to_rex_def split: option.splits if_splits intro: exI [of _ "rexpool (rx S)"])

lemma update_ram_supply_rx: "update_ram_supply E S = Inr S' \<Longrightarrow> rx S' = rx S"
  by (cases "block_slot E \<le> last_ram_increase (gstate2 (vs S))") (auto simp: update_ram_supply_def Let_def set_gstate_def)

lemma pool_safe: "\<exists>p. X' = X\<lparr>rexpool := p\<rparr> \<Longrightarrow> safe E w X X'"
  by (auto simp: rows_safe)

lemma buyram_safe:
  assumes "buyram E payer receiver q S = Inr S'"
  shows "safe E w (rx S) (rx S')"
proof -
  obtain S1 S2 es f fs b M g R where 1: "update_ram_supply E S = Inr S1"
    and 2: "(if b then channel_to_rex E ramfee_account f (emit fs (emit es S1)) else Inr (emit es S1)) = Inr S2"
    and S': "S' = S2\<lparr>rammarket := M, vs := (vs S2)\<lparr>gstate := g\<rparr>, rs := R\<rparr>"
    using assms by (auto simp: buyram_def Let_def set_gstate_def the_market_def)
  have "safe E w (rx S1) (rx S2)" using 2 by (auto split: if_splits dest: channel_rows intro: pool_safe)
  then show ?thesis using update_ram_supply_rx [OF 1] by (simp add: S')
qed

lemma sellram_safe:
  assumes "sellram E a n S = Inr S'"
  shows "safe E w (rx S) (rx S')"
proof -
  obtain S1 es f fs b M g R where 1: "update_ram_supply E S = Inr S1"
    and 2: "(if b then bindE (new_asset E (fst f) (snd f)) (\<lambda>q. channel_to_rex E ramfee_account q
        (emit (fs q) (emit es (S1\<lparr>rammarket := M, vs := (vs S1)\<lparr>gstate := g\<rparr>, rs := R\<rparr>))))
      else Inr (emit es (S1\<lparr>rammarket := M, vs := (vs S1)\<lparr>gstate := g\<rparr>, rs := R\<rparr>))) = Inr S'"
    using assms by (auto simp: sellram_def Let_def set_gstate_def the_market_def cong: if_cong)
  have "safe E w (rx S1) (rx S')" using 2 by (auto split: if_splits dest: channel_rows intro: pool_safe)
  then show ?thesis using update_ram_supply_rx [OF 1] by simp
qed

lemma ram_exec_safe: "ram_exec E x S = Inr S' \<Longrightarrow> safe E w (rx S) (rx S')"
  by (cases x)
    (auto simp: buyrambytes_def setram_def setramrate_def set_gstate_def Let_def
      dest: buyram_safe [of _ _ _ _ _ _ w] sellram_safe [of _ _ _ _ _ w] update_ram_supply_rx)

section \<open>Auctions and blocks\<close>

lemma close_auction_rows:
  "safe E w (rx S) (rx (close_auction E t S))" "bidrefunds (ns (close_auction E t S)) = bidrefunds (ns S)"
proof -
  have c: "safe E w X (channel_namebid_to_rex n X)" for n X
    by (auto simp: channel_namebid_to_rex_def rows_safe split: option.split)
  have "safe E w (rx S) (rx (close_auction E t S)) \<and> bidrefunds (ns (close_auction E t S)) = bidrefunds (ns S)"
  proof (cases "highest_open_bid (ns S)")
    case (Some b)
    from closed_state [OF this, of E t] show ?thesis using c by auto
  qed (simp add: close_auction_def)
  then show "safe E w (rx S) (rx (close_auction E t S))" "bidrefunds (ns (close_auction E t S)) = bidrefunds (ns S)" by simp_all
qed

lemma onblock_left:
  assumes "onblock E t p S = Inr S'"
  shows "safe E w (rx S) (rx S')" "bidrefunds (ns S') = bidrefunds (ns S)"
proof -
  let ?S = "S\<lparr>vs := (vs S)\<lparr>gstate2 := (gstate2 (vs S))\<lparr>last_block_num := t\<rparr>\<rparr>\<rparr>"
  obtain V where V: "count_block E p ?S = S\<lparr>vs := V\<rparr>" using count_block_vs [of E p ?S] by auto
  obtain V' es where u: "update_elected_producers E t V = (V', es)" by fastforce
  have "S' = ?S \<or> S' = S\<lparr>vs := V\<rparr> \<or> S' = emit es (S\<lparr>vs := V'\<rparr>) \<or> S' = close_auction E t (emit es (S\<lparr>vs := V'\<rparr>))"
    using assms V u by (auto simp: onblock_def Let_def split: if_splits)
  then show "safe E w (rx S) (rx S')" "bidrefunds (ns S') = bidrefunds (ns S)"
    using close_auction_rows [where S = "emit es (S\<lparr>vs := V'\<rparr>)"] by auto
qed

lemma bidname_outbid:
  assumes E: "lib_ok E" and X: "names_inv S" "names_owed S + amount bid \<le> core_cap" and run: "bidname E bidder m bid S = Inr S'"
  shows "outbid n w S \<le> outbid n w S'"
proof (cases "fmlookup (namebids (ns S)) m")
  case None
  then show ?thesis using run by (auto simp: bidname_def Let_def outbid_def)
next
  case (Some cur)
  then obtain cs owed r where h: "0 < high_bid cur" "new_asset E (high_bid cur) cs = Inr owed" "0 < amount bid"
    and r: "(case fmlookup (bidrefunds (ns S)) (m, high_bidder cur) of
             Some r \<Rightarrow> bindE (add_asset E (br_amount r) owed) (\<lambda>a. Inr (r\<lparr>br_amount := a\<rparr>))
           | None \<Rightarrow> Inr \<lparr>br_bidder = high_bidder cur, br_amount = owed\<rparr>) = Inr r"
    and S': "bidrefunds (ns S') = fmupd (m, high_bidder cur) r (bidrefunds (ns S))"
    using run by (auto simp: bidname_def Let_def)
  have owed: "amount owed = high_bid cur" using h by (simp add: new_asset_lib [OF E])
  note I = names_invD [OF X(1)] and P = names_parts [OF X(1)]
  have "tval (\<lambda>r. amount (br_amount r)) (bidrefunds (ns S)) (m, high_bidder cur) \<le> amount (br_amount r)"
  proof (cases "fmlookup (bidrefunds (ns S)) (m, high_bidder cur)")
    case None
    then show ?thesis using r owed h by auto
  next
    case old: (Some r0)
    have "0 \<le> amount (br_amount r0)" "amount (br_amount r0) \<le> core_cap" "high_bid cur \<le> core_cap"
      using I(1) [OF Some] I(2) [OF old] I(3) P(1) P(4) [OF old] X(2) h(3) by (auto simp: names_owed_def)
    then have i: "is_i64 (amount (br_amount r0) + amount owed)"
      using h(1) owed by (simp add: is_i64_def core_cap_def)
    show ?thesis using r old owed h(1) by (auto simp: add_asset_lib [OF E i])
  qed
  then show ?thesis by (auto simp: outbid_def S' tval_def)
qed

text \<open>What an outbid bidder is to get back is only taken by paying it out to him.\<close>

lemma name_exec_outbid:
  assumes E: "lib_ok E" and X: "names_inv S" and f: "name_fits x S" and run: "name_exec E x S = Inr S'"
  shows "x = Bidrefund w n \<or> outbid n w S \<le> outbid n w S'"
proof (cases x)
  case (Bidname bidder m bid)
  then have "names_owed S + amount bid \<le> core_cap" "bidname E bidder m bid S = Inr S'" using f run by simp_all
  from bidname_outbid [OF E X this] show ?thesis ..
next
  case (Bidrefund bidder m)
  then have "bidrefunds (ns S') = fmdrop (m, bidder) (bidrefunds (ns S))" using run by (auto simp: bidrefund_def)
  then show ?thesis using Bidrefund by (auto simp: outbid_def tval_def)
next
  case (Newaccount creator m)
  then have "bidrefunds (ns S') = bidrefunds (ns S)"
    using run by (auto simp: newaccount_def claim_name_def Let_def split: if_splits)
  then show ?thesis by (simp add: outbid_def)
next
  case (Onblock t p)
  then show ?thesis using onblock_left(2) run by (simp add: outbid_def)
qed

lemma name_exec_left:
  assumes X: "rex_inv (rx S)" "names_inv S" and f: "name_fits x S" "name_user x \<notin> escrows" and E: "lib_ok E"
    and run: "name_exec E x S = Inr S'"
  shows "safe E w (rx S) (rx S')" "stake_quiet S S'" "bytes_kept (rs S) (rs S')"
proof -
  have "safe E w (rx S) (rx S') \<and> stake_quiet S S' \<and> bytes_kept (rs S) (rs S')"
  proof (cases x)
    case (Onblock t p)
    then have ob: "onblock E t p S = Inr S'" "names_owed S \<le> core_cap" using run f by simp_all
    show ?thesis using onblock_cross [OF X ob(2,1)] onblock_left(1) [OF ob(1)] by (simp add: off_market_def)
  next
    case (Bidname bidder m bid)
    then have r: "bidname E bidder m bid S = Inr S'" "bidder \<notin> escrows" using run f by simp_all
    have "rx S' = rx S" using r(1) by (auto simp: bidname_def Let_def split: option.splits)
    then show ?thesis using bidname_cross [OF E X(1) r(2,1)] by (simp add: off_names_def off_market_def)
  next
    case (Bidrefund bidder m)
    then have r: "bidrefund E bidder m S = Inr S'" "bidder \<notin> escrows" using run f by simp_all
    have "rx S' = rx S" using r(1) by (auto simp: bidrefund_def)
    then show ?thesis using bidrefund_cross [OF X(1) r(2,1)] by (simp add: off_names_def off_market_def)
  next
    case (Newaccount creator m)
    then have r: "newaccount E creator m S = Inr S'" using run by simp
    have "rx S' = rx S" using r by (auto simp: newaccount_def)
    then show ?thesis using newaccount_cross [OF X(1) r] by (simp add: off_names_def off_market_def)
  qed
  then show "safe E w (rx S) (rx S')" "stake_quiet S S'" "bytes_kept (rs S) (rs S')" by simp_all
qed

section \<open>Votes\<close>

lemma vote_exec_left:
  assumes w: "w \<noteq> vote_signer E x" and run: "vote_exec E x S = Inr S'"
  shows "votes_left w S S'" "safe E w (rx S) (rx S')"
proof -
  have "votes_left w S S' \<and> safe E w (rx S) (rx S')"
  proof (cases x)
    case (Voteproducer a prox prods)
    then have r: "voteproducer E a prox prods S = Inr S'" and a: "w \<noteq> a" using run w by simp_all
    obtain S1 where 1: "update_rex_stake E a S = Inr S1" and 2: "update_votes E a prox prods True (vs S1) = Inr (vs S')"
      and 3: "rx S' = rx S1"
      using r by (auto simp: voteproducer_def on_vs_def split: option.splits if_splits)
    have "votes_left w S S1" by (rule linked_left [OF update_rex_stake_linked [OF 1]])
    then show ?thesis
      using update_votes_links(1,10) [OF 2] a update_rex_stake_own [OF 1] 3 by (simp add: votes_left_def)
  next
    case (Regproxy a flag)
    then obtain V where V: "regproxy E a flag (vs S) = Inr V" "S' = S\<lparr>vs := V\<rparr>" using run by (auto simp: on_vs_def)
    then show ?thesis using regproxy_links(1,5) [OF V(1)] by (simp add: votes_left_def)
  qed (use run links_kept_same in \<open>auto simp: votes_left_def linked_def on_vs_def regproducer_def unregprod_def rmvproducer_def
      updtrevision_def Let_def proxy_of_def chosen_def split: option.splits if_splits\<close>)
  then show "votes_left w S S'" "safe E w (rx S) (rx S')" by simp_all
qed

lemma admin_exec_rx: "admin_exec E T x S = Inr S' \<Longrightarrow> rx S' = rx S \<and> ns S' = ns S"
  by (cases x)
    (auto simp: init_def setparams_def setpriv_def activate_def setalimits_def setacctram_def setacctnet_def setacctcpu_def
      setabi_def onerror_def set_gstate_def Let_def)

section \<open>All actions\<close>

lemma calm_left: "calm S S' \<Longrightarrow> memory_bought w S \<le> memory_bought w S' \<and> outbid n w S' = outbid n w S"
  by (simp add: calm_def bytes_left outbid_def)

lemma stake_exec_safe:
  assumes "stake_user x \<notin> escrows" "stake_exec E x S = Inr S'"
  shows "safe E w (rx S) (rx S')"
proof (cases x)
  case (Delegatebw a r net cpu transfer)
  then have "changebw E a r net cpu transfer S = Inr S'" using assms by (auto simp: delegatebw_def)
  then show ?thesis by (rule changebw_rex)
next
  case (Undelegatebw a r net cpu)
  then have "changebw E a r (asset_neg E net) (asset_neg E cpu) False S = Inr S'" using assms by (auto simp: undelegatebw_def)
  then show ?thesis by (rule changebw_rex)
qed (use assms in \<open>auto simp: refund_def escrows_def\<close>)

definition untouched :: "env \<Rightarrow> name \<Rightarrow> system_action \<Rightarrow> system_state \<Rightarrow> system_state \<Rightarrow> bool" where
  "untouched E w a S S' \<longleftrightarrow> safe E w (rx S) (rx S') \<and> stakes_left w S S' \<and> memory_bought w S \<le> memory_bought w S' \<and>
     votes_left w S S' \<and> (\<forall>n. a = Names (Bidrefund w n) \<or> outbid n w S \<le> outbid n w S')"

lemma calm_untouched:
  assumes "calm S S'" "linked S S'" "safe E w (rx S) (rx S')" "stakes_left w S S'"
  shows "untouched E w a S S'"
  using assms calm_left linked_left by (auto simp: untouched_def)

lemma still_untouched:
  assumes "still S S'" "linked S S'" "safe E w (rx S) (rx S')"
  shows "untouched E w a S S'"
  using assms by (intro calm_untouched) (auto simp: still_def quiet_left)

lemma ram_untouched:
  assumes E: "lib_ok E" and X: "sys_inv S" and f: "ram_fits x S" "fees_fit x S" and w: "w \<noteq> ram_signer E x"
    and run: "ram_exec E x S = Inr S'"
  shows "untouched E w a S S'"
proof -
  note I = sys_invD [OF X]
  have A: "beside S S'" "stake_quiet S S'" using ram_exec_apart [OF E I(1,2) f run] by (simp_all add: apart_def)
  then show ?thesis
    using ram_exec_safe [OF run] ram_exec_memory [OF E I(2) f(1) w run] linked_left [OF ram_exec_linked [OF run]] quiet_left
    by (auto simp: untouched_def beside_def outbid_def)
qed

lemma name_untouched:
  assumes E: "lib_ok E" and X: "sys_inv S" and f: "name_fits x S" "name_user x \<notin> escrows" and run: "name_exec E x S = Inr S'"
  shows "untouched E w (Names x) S S'"
proof -
  note I = sys_invD [OF X]
  note L = name_exec_left [OF I(1,3) f E run]
  have "x = Bidrefund w n \<or> outbid n w S \<le> outbid n w S'" for n by (rule name_exec_outbid [OF E I(3) f(1) run])
  then show ?thesis
    using L linked_left [OF name_exec_linked [OF run]] quiet_left bytes_left by (auto simp: untouched_def)
qed

lemma system_exec_untouched:
  assumes E: "lib_ok E" and X: "sys_inv S" and f: "sys_fits E T a S" and run: "system_exec E T a S = Inr S'"
    and w: "\<not> has_auth E w"
  shows "untouched E w a S S'"
proof -
  note I = sys_invD [OF X]
  have s: "signer E a \<noteq> Some w" using system_signed [OF run] w by auto
  show ?thesis
  proof (cases a)
    case (Rex x)
    then have r: "rex_exec E x S = Inr S'" and f: "rex_ready x S" "rex_user x \<notin> escrows" and w: "w \<noteq> rex_signer x"
      using run f s by auto
    have "stakes_left w S S'"
    proof (cases "takes_stake x")
      case True
      then show ?thesis using r w unstaketorex_left by (cases x) auto
    next
      case False
      then show ?thesis using rex_exec_still [OF E f(2) _ r] by (simp add: still_def quiet_left)
    qed
    then show ?thesis
      by (rule calm_untouched [OF rex_exec_calm [OF E f(2) r] rex_exec_linked [OF r] rex_exec_safe [OF E I(1) f(1) w r]])
  next
    case (Ram x)
    then show ?thesis using ram_untouched [OF E X, of x w] f run s by simp
  next
    case (Names x)
    then show ?thesis using name_untouched [OF E X, of x S' w] f run by simp
  next
    case (Stakes x)
    then have r: "stake_exec E x S = Inr S'" and f: "stake_fits x S" "stake_user x \<notin> escrows" and w: "w \<noteq> stake_signer x"
      using run f s by auto
    show ?thesis
      by (rule calm_untouched [OF stake_exec_cross(1) [OF E I(1,4) f(2) r] stake_exec_linked [OF r]
          stake_exec_safe [OF f(2) r] stake_exec_left [OF E I(4) f(1) w r]])
  next
    case (Votes x)
    then have r: "vote_exec E x S = Inr S'" and w: "w \<noteq> vote_signer E x" using run s by auto
    have st: "still S S'" by (rule vote_exec_cross [OF I(1) r])
    then show ?thesis
      using vote_exec_left [OF w r] calm_left [OF still_calm [OF st]] by (simp add: untouched_def still_def quiet_left)
  next
    case (Privileged x)
    then have r: "admin_exec E T x S = Inr S'" using run by simp
    show ?thesis
      by (rule still_untouched [OF admin_exec_cross(1) [OF I(1,2) r] admin_exec_linked [OF r]]) (use admin_exec_rx [OF r] in simp)
  next
    case (Claimrewards u)
    then have r: "claimrewards E T u S = Inr S'" using run by simp
    obtain V es where "S' = emit es (S\<lparr>vs := V\<rparr>)" using claimrewards_frame [OF r] by blast
    then show ?thesis using linked_left [OF claimrewards_linked [OF r]]
      by (simp add: untouched_def stakes_left_def delegated_by_def memory_bought_def outbid_def)
  qed
qed

text \<open>
  C2: Only its owner takes. No action of the system contract that an account has not signed reduces its
  fund in the REX, the tokens it has delegated to anybody, or its memory, changes its refund under way or
  whom it votes for, touches its loans before they expire, or takes from what it is owed for lost
  bids but to pay it; and its REX is reduced only by filling the order it has itself left open.
\<close>

theorem only_the_owner_takes:
  assumes "lib_ok E" and "sys_inv S" and "sys_fits E T a S" and "system_exec E T a S = Inr S'" and "\<not> has_auth E w"
  shows "fund_of w (rx S) \<le> fund_of w (rx S') \<and> sold w (rx S) (rx S') \<and> loans_left E w (rx S) (rx S') \<and>
    (\<forall>r. delegated_by w r S \<le> delegated_by w r S') \<and> fmlookup (refunds (rs S')) w = fmlookup (refunds (rs S)) w \<and>
    memory_bought w S \<le> memory_bought w S' \<and>
    proxy_of (vs S') w = proxy_of (vs S) w \<and> chosen (vs S') w = chosen (vs S) w \<and>
    (\<forall>n. a = Names (Bidrefund w n) \<or> outbid n w S \<le> outbid n w S')"
  using system_exec_untouched [OF assms] by (simp add: untouched_def safe_def stakes_left_def votes_left_def)

theorem only_the_owner_takes_witness:
  "\<exists>S'. system_exec (inline_env [active_of alice] ref_env) demo_bank (Rex (Rexexec alice 2)) demo_state = Inr S' \<and>
     500 \<le> fund_of bob (rx S')"
proof -
  let ?E = "inline_env [active_of alice] ref_env"
  have "case system_exec ?E demo_bank (Rex (Rexexec alice 2)) demo_state of Inr _ \<Rightarrow> True | Inl _ \<Rightarrow> False"
    by code_simp
  then obtain S' where r: "system_exec ?E demo_bank (Rex (Rexexec alice 2)) demo_state = Inr S'" by (auto split: sum.splits)
  have f: "sys_fits ?E demo_bank (Rex (Rexexec alice 2)) demo_state"
    using demo_rex_inv(2) by (simp add: rex_ready_def escrows_def account_defs demo_state_books core_cap_def)
  have b: "\<not> has_auth ?E bob" by (simp add: inline_env_def active_of_def)
  have "fund_of bob (rx demo_state) = 500" by (simp add: fund_of_def demo_state_def demo_rex_def)
  then show ?thesis using only_the_owner_takes [OF _ demo_state_books(1) f r b] r by auto
qed

end
