(* ===== verification/Tally.thy ===== *)
theory Tally
  imports System_Votes
begin

text \<open>
  Tallies: differences of amounts that several tables of the contract keep and that no action is to
  change. Amounts are compared as machine words, so that nothing need be known about their size. And the
  columns of the voters that votes leave alone, the stake and the flags.
\<close>

section \<open>Amounts as machine words\<close>

definition word_of :: "int \<Rightarrow> 64 word" where
  "word_of n = of_int n"

lemma word_of_simps [simp]:
  "word_of 0 = 0" "word_of (m + n) = word_of m + word_of n" "word_of (m - n) = word_of m - word_of n"
  "word_of (- n) = - word_of n"
  by (simp_all add: word_of_def)

lemma word_of_i64 [simp]: "word_of (i64 n) = word_of n"
proof -
  have "i64 n = n - (n + 2 ^ 63) div 2 ^ 64 * 2 ^ 64"
    by (simp add: i64_def minus_div_mult_eq_mod [symmetric])
  then have "word_of (i64 n) = of_int n - of_int ((n + 2 ^ 63) div 2 ^ 64) * (2 ^ 64 :: 64 word)"
    unfolding word_of_def by (metis of_int_diff of_int_mult of_int_numeral of_int_power)
  also have "(2 ^ 64 :: 64 word) = 0" by simp
  finally show ?thesis by (simp add: word_of_def)
qed

lemma word_of_eq: "word_of m = word_of n \<longleftrightarrow> i64 m = i64 n"
proof
  assume "word_of m = word_of n"
  then have "m mod 2 ^ 64 = n mod 2 ^ 64"
    by (simp add: word_of_def word_of_int_eq_iff take_bit_eq_mod)
  then show "i64 m = i64 n" by (simp only: i64_def) (metis mod_add_left_eq)
next
  assume "i64 m = i64 n"
  then show "word_of m = word_of n" using word_of_i64 by metis
qed

text \<open>The asset operators add and subtract \<open>int64_t\<close> amounts, which wrap around.\<close>

definition asset_wraps :: "env \<Rightarrow> bool" where
  "asset_wraps E \<longleftrightarrow>
     (\<forall>a b c. asset_add E a b = Some c \<longrightarrow> word_of (amount c) = word_of (amount a) + word_of (amount b)) \<and>
     (\<forall>a b c. asset_sub E a b = Some c \<longrightarrow> word_of (amount c) = word_of (amount a) - word_of (amount b)) \<and>
     (\<forall>n s a. asset_new E n s = Some a \<longrightarrow> amount a = n)"

lemma asset_wrapsD:
  assumes "asset_wraps E"
  shows "add_asset E a b = Inr c \<Longrightarrow> word_of (amount c) = word_of (amount a) + word_of (amount b)"
    "sub_asset E a b = Inr c \<Longrightarrow> word_of (amount c) = word_of (amount a) - word_of (amount b)"
    "new_asset E n s = Inr c \<Longrightarrow> amount c = n"
  using assms by (simp_all add: asset_wraps_def add_asset_def sub_asset_def new_asset_def)

lemma ref_env_wraps: "asset_wraps ref_env"
  by (simp add: asset_wraps_def ref_env_def split: if_splits)

section \<open>Sums over part of a table\<close>

lemma filter_upd [simp]: "fmfilter P (fmupd k v t) = (if P k then fmupd k v (fmfilter P t) else fmfilter P t)"
  by (rule fmap_ext) auto

lemma filter_drop [simp]: "fmfilter P (fmdrop k t) = fmdrop k (fmfilter P t)"
  by (rule fmap_ext) auto

lemma tval_filter [simp]: "tval f (fmfilter P t) k = (if P k then tval f t k else 0)"
  by (simp add: tval_def)

section \<open>Columns of the voters\<close>

text \<open>Votes move weights; the stake of a voter and its flags are left as they are.\<close>

definition staked_of :: "name \<Rightarrow> voting_state \<Rightarrow> int" where
  "staked_of a V = tval staked (voters V) a"

definition flags_of :: "name \<Rightarrow> voting_state \<Rightarrow> 32 word" where
  "flags_of a V = (case fmlookup (voters V) a of None \<Rightarrow> 0 | Some v \<Rightarrow> flags1 v)"

lemma managed_flag_of: "managed_flag V a f = has_field (flags_of a V) f"
  by (cases f) (auto simp: managed_flag_def flags_of_def has_field_def split: option.split)

definition columns_same :: "voting_state \<Rightarrow> voting_state \<Rightarrow> bool" where
  "columns_same V V' \<longleftrightarrow> (\<forall>a. staked_of a V' = staked_of a V) \<and> (\<forall>a. flags_of a V' = flags_of a V) \<and>
     (\<forall>a. fmlookup (voters V) a \<noteq> None \<longrightarrow> fmlookup (voters V') a \<noteq> None)"

lemma columns_same_refl [simp]: "columns_same V V"
  by (simp add: columns_same_def)

lemma columns_trans [trans]: "columns_same V V1 \<Longrightarrow> columns_same V1 V2 \<Longrightarrow> columns_same V V2"
  by (simp add: columns_same_def)

lemma columns_same_voters: "voters V' = voters V \<Longrightarrow> columns_same V V'"
  by (simp add: columns_same_def staked_of_def flags_of_def)

lemma columns_same_row:
  assumes "staked v = tval staked (voters V) a" "flags1 v = flags_of a V"
  shows "columns_same V (V\<lparr>voters := fmupd a v (voters V)\<rparr>)"
  using assms by (simp add: columns_same_def staked_of_def flags_of_def)

lemma modify_voter_columns:
  assumes "modify_voter a f V = Inr V'" "\<And>v. staked (f v) = staked v" "\<And>v. flags1 (f v) = flags1 v"
  shows "columns_same V V'"
proof -
  obtain v where "fmlookup (voters V) a = Some v" "V' = V\<lparr>voters := fmupd a (f v) (voters V)\<rparr>"
    using assms(1) by (auto simp: modify_voter_def)
  then show ?thesis using assms(2,3) by (auto simp: flags_of_def intro!: columns_same_row)
qed

lemma put_voter_columns:
  assumes "columns_same (V\<lparr>voters := fmupd b q (voters V)\<rparr>) V'" "fmlookup (voters V) b = Some p" "staked q = staked p" "flags1 q = flags1 p"
  shows "columns_same V V'"
proof -
  have "columns_same V (V\<lparr>voters := fmupd b q (voters V)\<rparr>)" using assms(2-4) by (intro columns_same_row) (simp_all add: flags_of_def)
  then show ?thesis using assms(1) by (rule columns_trans)
qed

lemma propagate_columns: "propagate_weight_change E d a V = Inr V' \<Longrightarrow> columns_same V V'"
proof (induction d arbitrary: a V V')
  case (Suc d)
  from Suc.prems show ?case
  proof (rule propagate_step)
    fix v :: voter_info and w V1
    assume m: "modify_voter a (\<lambda>v. v\<lparr>last_vote_weight := w\<rparr>) V1 = Inr V'"
      and c: "voters V1 = voters V \<or> (\<exists>p delta. proxy v \<noteq> 0 \<and> fmlookup (voters V) (proxy v) = Some p \<and>
       propagate_weight_change E d (proxy v)
         (V\<lparr>voters := fmupd (proxy v) (p\<lparr>proxied_vote_weight := dadd (proxied_vote_weight p) delta\<rparr>) (voters V)\<rparr>) = Inr V1)"
    have "columns_same V V1" using c by (auto intro: columns_same_voters put_voter_columns [OF Suc.IH])
    also have "columns_same V1 V'" by (rule modify_voter_columns [OF m]) simp_all
    finally show ?thesis .
  qed
qed simp

lemma update_votes_columns:
  assumes "update_votes E a p ps vt V = Inr V'"
  shows "columns_same V V'"
  using assms
proof (rule update_votes_parts)
  fix v V1 D1 V2 D2 V3 and dcr inactive w :: double
  assume W: "withdraw_old_votes E v (activate_stake E v V) = Inr (V1, D1)" and C: "cast_new_votes E p ps vt w (V1, D1) = Inr (V2, D2)"
    and A: "apply_deltas E vt (sorted_list_of_fmap D2) (V2, 0, 0) = Inr (V3, dcr, inactive)"
    and M: "modify_voter a (\<lambda>av. av\<lparr>last_vote_weight := w, v_producers := ps, proxy := p\<rparr>)
       (fst (update_total_votepay_share (now E) (- inactive) dcr V3)) = Inr V'"
  have "columns_same V (activate_stake E v V)" by (rule columns_same_voters) simp
  also have "columns_same (activate_stake E v V) V1" using W
    by (auto simp: withdraw_old_votes_def propagate_def Let_def split: if_splits intro: put_voter_columns [OF propagate_columns])
  also have "columns_same V1 V2" using C
    by (auto simp: cast_new_votes_def propagate_def Let_def split: if_splits intro: put_voter_columns [OF propagate_columns])
  also have "columns_same V2 V3" using apply_deltas_voters [OF A] by (intro columns_same_voters) simp
  also have "columns_same V3 (fst (update_total_votepay_share (now E) (- inactive) dcr V3))" by (rule columns_same_voters) simp
  also have "columns_same (fst (update_total_votepay_share (now E) (- inactive) dcr V3)) V'"
    by (rule modify_voter_columns [OF M]) simp_all
  finally show ?thesis .
qed

lemma regproxy_columns: "regproxy E p flag V = Inr V' \<Longrightarrow> columns_same V V'"
  by (auto simp: regproxy_def propagate_def split: option.splits intro: put_voter_columns [OF propagate_columns])
    (simp add: columns_same_def staked_of_def flags_of_def new_voter_def)

section \<open>Histories of actions\<close>

text \<open>Actions of all components by anybody, in any order, among those that are allowed.\<close>

inductive action_run :: "(system_action \<Rightarrow> bool) \<Rightarrow> system_state \<Rightarrow> system_state \<Rightarrow> bool" for allowed S where
  action_start: "action_run allowed S S"
| action_step: "action_run allowed S S1 \<Longrightarrow> asset_wraps E \<Longrightarrow> allowed x \<Longrightarrow> system_exec E T x S1 = Inr S2 \<Longrightarrow>
    action_run allowed S S2"

text \<open>
  A tally is kept by every action that spares it, in states in which the rows are stored as they
  are to be.
\<close>

locale tally =
  fixes ok :: "system_state \<Rightarrow> bool" and tally_of :: "'i \<Rightarrow> system_state \<Rightarrow> int" and spares :: "system_action \<Rightarrow> 'i \<Rightarrow> bool"
  assumes exec_ok: "ok S \<Longrightarrow> asset_wraps E \<Longrightarrow> system_exec E T x S = Inr S' \<Longrightarrow> ok S'"
    and exec_same: "ok S \<Longrightarrow> asset_wraps E \<Longrightarrow> system_exec E T x S = Inr S' \<Longrightarrow> spares x i \<Longrightarrow>
      word_of (tally_of i S') = word_of (tally_of i S)"
begin

lemma run_keeps:
  "action_run (\<lambda>x. spares x i) S S' \<Longrightarrow> ok S \<Longrightarrow> ok S' \<and> word_of (tally_of i S') = word_of (tally_of i S)"
  by (induction rule: action_run.induct) (auto simp: exec_same intro: exec_ok)

lemma run_same:
  assumes "ok S" "action_run (\<lambda>x. spares x i) S S'"
  shows "i64 (tally_of i S') = i64 (tally_of i S)"
  using run_keeps [OF assms(2,1)] by (simp add: word_of_eq)

end

end
