(* ===== verification/Vote_Stake.thy ===== *)
theory Vote_Stake
  imports Tally
begin

text \<open>
  What the stake of a voter counts: the tokens the account has delegated and the value its REX had
  when it was last computed.
\<close>

section \<open>What backs a stake\<close>

definition delegated_from :: "name \<Rightarrow> resource_state \<Rightarrow> int" where
  "delegated_from a R = tsum db_stake (fmfilter (\<lambda>k. fst k = a) (delband R))"

definition rex_stake_of :: "name \<Rightarrow> rex_state \<Rightarrow> int" where
  "rex_stake_of a X = tval (\<lambda>rb. amount (vote_stake rb)) (rexbalance X) a"

lemma delegated_from_cong: "delband R' = delband R \<Longrightarrow> delegated_from a R' = delegated_from a R"
  by (simp only: delegated_from_def)

text \<open>The change that a closed order holds until its owner next uses the REX.\<close>

definition unsettled :: "name \<Rightarrow> rex_state \<Rightarrow> int" where
  "unsettled a X = tval (\<lambda>r. if is_open r then 0 else amount (stake_change r)) (rexorders X) a"

definition uncounted :: "name \<Rightarrow> system_state \<Rightarrow> int" where
  "uncounted a S = delegated_from a (rs S) + rex_stake_of a (rx S) - unsettled a (rx S) - staked_of a (vs S)"

text \<open>Who holds REX is a voter; an order is stored under its owner.\<close>

definition holders_vote :: "system_state \<Rightarrow> bool" where
  "holders_vote S \<longleftrightarrow>
     (\<forall>a. fmlookup (rexbalance (rx S)) a \<noteq> None \<longrightarrow> fmlookup (voters (vs S)) a \<noteq> None) \<and>
     (\<forall>a r. fmlookup (rexorders (rx S)) a = Some r \<longrightarrow> o_owner r = a)"

definition shifts :: "name \<Rightarrow> 64 word \<Rightarrow> system_state \<Rightarrow> system_state \<Rightarrow> bool" where
  "shifts a d S S' \<longleftrightarrow> (holders_vote S \<longrightarrow> holders_vote S' \<and>
     (\<forall>b. word_of (uncounted b S') = word_of (uncounted b S) + (if b = a then d else 0)))"

abbreviation counts :: "system_state \<Rightarrow> system_state \<Rightarrow> bool" where
  "counts \<equiv> shifts 0 0"

lemma holders_voteD:
  assumes "holders_vote S"
  shows "fmlookup (rexbalance (rx S)) a \<noteq> None \<Longrightarrow> fmlookup (voters (vs S)) a \<noteq> None"
    "fmlookup (rexorders (rx S)) a = Some r \<Longrightarrow> o_owner r = a"
  using assms unfolding holders_vote_def by iprover+

lemma shiftsI:
  assumes "\<And>b. holders_vote S \<Longrightarrow> word_of (uncounted b S') = word_of (uncounted b S) + (if b = a then d else 0)"
    and "\<And>b. holders_vote S \<Longrightarrow> fmlookup (rexbalance (rx S')) b \<noteq> None \<Longrightarrow> fmlookup (voters (vs S')) b \<noteq> None"
    and "\<And>b r. holders_vote S \<Longrightarrow> fmlookup (rexorders (rx S')) b = Some r \<Longrightarrow> o_owner r = b"
  shows "shifts a d S S'"
  unfolding shifts_def holders_vote_def [of S'] using assms by iprover

lemma shifts_zero: "shifts a 0 S S' = counts S S'"
  by (simp add: shifts_def)

lemma shifts_trans [trans]: "shifts a d S S1 \<Longrightarrow> shifts a e S1 S2 \<Longrightarrow> shifts a (d + e) S S2"
  by (auto simp: shifts_def)

lemma counts_trans [trans]:
  "counts S S1 \<Longrightarrow> shifts a d S1 S2 \<Longrightarrow> shifts a d S S2"
  "shifts a d S S1 \<Longrightarrow> counts S1 S2 \<Longrightarrow> shifts a d S S2"
  by (auto simp: shifts_def)

lemma counts_refl [simp]: "shifts a 0 S S"
  by (simp add: shifts_def)

text \<open>Steps that write nothing of all this.\<close>

lemma shifts_emit [simp]: "shifts a d S (emit es S') = shifts a d S S'" "shifts a d (emit es S) S' = shifts a d S S'"
  by (simp_all add: shifts_def holders_vote_def uncounted_def)

definition stakes_same :: "voting_state \<Rightarrow> voting_state \<Rightarrow> bool" where
  "stakes_same V V' \<longleftrightarrow> (\<forall>a. staked_of a V' = staked_of a V) \<and>
     (\<forall>a. fmlookup (voters V) a \<noteq> None \<longrightarrow> fmlookup (voters V') a \<noteq> None)"

definition rex_same :: "rex_state \<Rightarrow> rex_state \<Rightarrow> bool" where
  "rex_same X X' \<longleftrightarrow>
     (\<forall>a. word_of (rex_stake_of a X' - unsettled a X') = word_of (rex_stake_of a X - unsettled a X)) \<and>
     (\<forall>a. fmlookup (rexbalance X') a \<noteq> None \<longrightarrow> fmlookup (rexbalance X) a \<noteq> None) \<and>
     (\<forall>a r. fmlookup (rexorders X') a = Some r \<longrightarrow> map_option o_owner (fmlookup (rexorders X) a) = Some (o_owner r) \<or> o_owner r = a)"

lemma same_refl [simp]: "stakes_same V V" "rex_same X X"
  by (simp_all add: stakes_same_def rex_same_def)

lemma same_trans [trans]:
  "stakes_same V V1 \<Longrightarrow> stakes_same V1 V2 \<Longrightarrow> stakes_same V V2" "rex_same X X1 \<Longrightarrow> rex_same X1 X2 \<Longrightarrow> rex_same X X2"
  by (simp add: stakes_same_def) (auto simp: rex_same_def; metis)

lemma counts_same:
  assumes "stakes_same (vs S) (vs S')" "delband (rs S') = delband (rs S)" "rex_same (rx S) (rx S')"
  shows "counts S S'"
proof (rule shiftsI)
  fix b r
  assume h: "holders_vote S"
  have "word_of (rex_stake_of b (rx S') - unsettled b (rx S')) = word_of (rex_stake_of b (rx S) - unsettled b (rx S))"
    using assms(3) unfolding rex_same_def by iprover
  then show "word_of (uncounted b S') = word_of (uncounted b S) + (if b = 0 then 0 else 0)"
    using assms(1) unfolding uncounted_def delegated_from_def assms(2) by (simp add: stakes_same_def add_diff_eq [symmetric])
  show "fmlookup (voters (vs S')) b \<noteq> None" if "fmlookup (rexbalance (rx S')) b \<noteq> None"
  proof -
    have "fmlookup (rexbalance (rx S)) b \<noteq> None" using that assms(3) unfolding rex_same_def by iprover
    from holders_voteD(1) [OF h this] show ?thesis using assms(1) unfolding stakes_same_def by iprover
  qed
  show "o_owner r = b" if "fmlookup (rexorders (rx S')) b = Some r"
  proof -
    have "map_option o_owner (fmlookup (rexorders (rx S)) b) = Some (o_owner r) \<or> o_owner r = b"
      using that assms(3) unfolding rex_same_def by iprover
    then show ?thesis using holders_voteD(2) [OF h, of b] by auto
  qed
qed

lemma stakes_same_voters: "voters V' = voters V \<Longrightarrow> stakes_same V V'"
  by (simp add: stakes_same_def staked_of_def)

lemma stakes_same_row:
  assumes "staked v = tval staked (voters V) a"
  shows "stakes_same V (V\<lparr>voters := fmupd a v (voters V)\<rparr>)"
  using assms by (simp add: stakes_same_def staked_of_def)

lemma rex_same_tables: "rexbalance X' = rexbalance X \<Longrightarrow> rexorders X' = rexorders X \<Longrightarrow> rex_same X X'"
  by (simp add: rex_same_def rex_stake_of_def unsettled_def)

lemma rex_same_bal:
  "fmlookup (rexbalance X) a = Some rb \<Longrightarrow> amount (vote_stake rb') = amount (vote_stake rb) \<Longrightarrow> rex_same X (set_rexbal a rb' X)"
  by (auto simp: rex_same_def rex_stake_of_def unsettled_def set_rexbal_def fmdomI)

section \<open>Voting\<close>

lemma columns_stakes: "columns_same V V' \<Longrightarrow> stakes_same V V'"
  by (simp add: columns_same_def stakes_same_def)

lemmas update_votes_stakes = columns_stakes [OF update_votes_columns]
  and regproxy_stakes = columns_stakes [OF regproxy_columns]

lemma update_voting_power_stake:
  assumes "update_voting_power E a q V = Inr V'"
  shows "staked_of b V' = (if b = a then i64 (staked_of a V + amount q) else staked_of b V) \<or>
      fmlookup (voters V) a = None \<and> staked_of b V' = (if b = a then amount q else staked_of b V)"
    "fmlookup (voters V) b \<noteq> None \<or> b = a \<Longrightarrow> fmlookup (voters V') b \<noteq> None"
proof -
  define v where "v = (case fmlookup (voters V) a of None \<Rightarrow> (new_voter a)\<lparr>staked := amount q\<rparr>
    | Some v \<Rightarrow> v\<lparr>staked := i64 (staked v + amount q)\<rparr>)"
  let ?V = "V\<lparr>voters := fmupd a v (voters V)\<rparr>"
  have r: "(if v_producers v \<noteq> [] \<or> proxy v \<noteq> 0 then update_votes E a (proxy v) (v_producers v) False ?V else Inr ?V) = Inr V'"
    using assms unfolding update_voting_power_def v_def [symmetric] Let_def bindE_eq_Inr by blast
  then have k: "stakes_same ?V V'" by (auto split: if_splits dest: update_votes_stakes)
  have "staked_of b V' = staked_of b ?V" using k by (simp add: stakes_same_def)
  then show "staked_of b V' = (if b = a then i64 (staked_of a V + amount q) else staked_of b V) \<or>
      fmlookup (voters V) a = None \<and> staked_of b V' = (if b = a then amount q else staked_of b V)"
    by (simp add: staked_of_def v_def tval_def split: option.split)
  show "fmlookup (voters V') b \<noteq> None" if "fmlookup (voters V) b \<noteq> None \<or> b = a"
    using k that by (auto simp: stakes_same_def)
qed

lemma word_staked_power:
  assumes "update_voting_power E a q V = Inr V'"
  shows "word_of (staked_of b V') = word_of (staked_of b V) + (if b = a then word_of (amount q) else 0)"
  using update_voting_power_stake(1) [OF assms, of b] by (auto simp: staked_of_def split: if_splits)

lemma shifts_power:
  assumes "on_vs (update_voting_power E a q) S = Inr S'"
  shows "shifts a (- word_of (amount q)) S S'"
proof -
  obtain V' where u: "update_voting_power E a q (vs S) = Inr V'" and S': "S' = S\<lparr>vs := V'\<rparr>"
    using assms by (auto simp: on_vs_def)
  have "word_of (uncounted b S') = word_of (uncounted b S) + (if b = a then - word_of (amount q) else 0)" for b
    using word_staked_power [OF u, of b] by (simp add: uncounted_def S')
  moreover have "holders_vote S'" if "holders_vote S"
    using that update_voting_power_stake(2) [OF u] by (auto simp: holders_vote_def S')
  ultimately show ?thesis by (simp add: shifts_def)
qed

section \<open>Maintenance\<close>

lemma fill_order_stake:
  assumes "asset_wraps E" "fill_rex_order E core w q X = Inr (res, X')"
  shows "rexorders X' = rexorders X" "fmlookup (rexbalance X') b \<noteq> None \<longleftrightarrow> fmlookup (rexbalance X) b \<noteq> None"
    "word_of (rex_stake_of b X') = word_of (rex_stake_of b X) + (if b = w then word_of (amount (oo_stake_change res)) else 0)"
    "\<not> success res \<Longrightarrow> X' = X"
  using assms(2) asset_wrapsD(3) [OF assms(1)]
  by (auto simp: fill_rex_order_def set_rexbal_def rex_stake_of_def Let_def split: if_splits)

lemma close_order_stake:
  assumes "asset_wraps E" "fill_rex_order E core (o_owner r) q X = Inr (res, X1)"
    and r: "fmlookup (rexorders X) (o_owner r) = Some r" "is_open r"
  shows "rex_same X (X1\<lparr>rexorders := fmupd (o_owner r) (close_order (r\<lparr>proceeds := p,
    stake_change := set_amt (amount (oo_stake_change res)) (stake_change r)\<rparr>)) (rexorders X1)\<rparr>)"
proof -
  note f = fill_order_stake [OF assms(1,2)]
  show ?thesis
    using f(2) f(3) r unfolding rex_same_def by (simp add: f(1) rex_stake_of_def unsettled_def close_order_def)
qed

lemma run_orders_stake:
  "asset_wraps E \<Longrightarrow> distinct (map o_owner os) \<Longrightarrow> (\<And>r. r \<in> set os \<Longrightarrow> fmlookup (rexorders X) (o_owner r) = Some r) \<Longrightarrow>
    run_orders E core n os X = Inr (es, X') \<Longrightarrow> rex_same X X'"
proof (induction E core n os X arbitrary: es rule: run_orders.induct)
  case (3 E core n r rest X)
  note prems = "3.prems"
  have lr: "fmlookup (rexorders X) (o_owner r) = Some r" using prems(3) by simp
  consider (closed) "\<not> is_open r" | (absent) "is_open r" "fmlookup (rexbalance X) (o_owner r) = None"
    | (fill) "is_open r" "fmlookup (rexbalance X) (o_owner r) \<noteq> None" by blast
  then show ?case
  proof cases
    case absent
    then show ?thesis using "3.IH"(1) [OF _ _ prems(1)] prems by auto
  next
    case fill
    obtain res X1 where f: "fill_rex_order E core (o_owner r) (rex_requested r) X = Inr (res, X1)"
      using prems(4) fill by auto
    note F = fill_order_stake [OF prems(1) f]
    show ?thesis
    proof (cases "success res")
      case False
      then show ?thesis using "3.IH"(3) [OF _ _ f refl False prems(1)] prems fill f F(4) by auto
    next
      case True
      let ?X2 = "X1\<lparr>rexorders := fmupd (o_owner r)
        (close_order (r\<lparr>proceeds := set_amt (amount (oo_proceeds res)) (proceeds r),
           stake_change := set_amt (amount (oo_stake_change res)) (stake_change r)\<rparr>)) (rexorders X1)\<rparr>"
      obtain es' where es': "run_orders E core n rest ?X2 = Inr (es', X')"
        using prems(4) fill f True by (auto simp: Let_def)
      have "rex_same X ?X2" by (rule close_order_stake [OF prems(1) f lr fill(1)])
      also have "rex_same ?X2 X'"
        by (rule "3.IH"(2) [OF _ _ f refl True refl refl prems(1)]) (use fill prems es' F(1) in \<open>auto\<close>)
      finally show ?thesis .
    qed
  qed (use prems in auto)
qed simp_all

lemma expired_loan_tables:
  assumes "process_expired_loan E core l X = Inr (renewed, d, X')"
  shows "rexbalance X' = rexbalance X" "rexorders X' = rexorders X"
  using assms by (auto simp: process_expired_loan_def transfer_to_fund_def Let_def case_prod_beta split: if_splits option.splits)

lemma run_loans_tables:
  "run_loans E k n S = Inr S' \<Longrightarrow> rexbalance (rx S') = rexbalance (rx S) \<and> rexorders (rx S') = rexorders (rx S)"
proof (induction n arbitrary: S)
  case (Suc n)
  show ?case
  proof (cases "first_of (index_by by_expr (loans k (rx S)))")
    case (Some l)
    show ?thesis
    proof (cases "now E < expiration l")
      case False
      obtain renewed d X1 t S1 where
        p: "process_expired_loan E (core_symbol S) l (rx S) = Inr (renewed, d, X1)" and
        s1: "limits_for E k (l_receiver l) d (S\<lparr>rx := set_loans k t X1\<rparr>) = Inr S1" and
        r: "run_loans E k n S1 = Inr S'"
        using Suc.prems Some False by (auto simp: Let_def)
      show ?thesis using Suc.IH [OF r] limits_for_frame [OF s1] expired_loan_tables [OF p] by auto
    qed (use Some Suc.prems in simp)
  qed (use Suc.prems in simp)
qed simp

lemma channel_tables:
  assumes "channel_to_rex E w q S = Inr S'"
  shows "rexbalance (rx S') = rexbalance (rx S)" "rexorders (rx S') = rexorders (rx S)"
  using assms by (auto simp: channel_to_rex_def split: option.splits if_splits)

lemma runrex_counts:
  assumes E: "asset_wraps E" and run: "runrex E n S = Inr S'"
  shows "counts S S'"
proof -
  obtain S1 S2 S3 es X and p :: rex_pool where 1: "(if 0 < amount (namebid_proceeds p) then
          bindE (channel_to_rex E names_account (namebid_proceeds p) S) (\<lambda>S.
          bindE (the_pool (rx S)) (\<lambda>rt.
          Inr (S\<lparr>rx := (rx S)\<lparr>rexpool :=
            Some (rt\<lparr>namebid_proceeds := set_amt 0 (namebid_proceeds rt)\<rparr>)\<rparr>\<rparr>)))
        else Inr S) = Inr S1"
    and 2: "run_loans E Cpu_loan n S1 = Inr S2" "run_loans E Net_loan n S2 = Inr S3"
    and 3: "run_orders E (core_symbol S3) n (index_by by_time (rexorders (rx S3))) (rx S3) = Inr (es, X)"
    and S': "S' = emit es (S3\<lparr>rx := X\<rparr>)"
    using run unfolding runrex_def bindE_eq_Inr the_pool_def by (clarsimp cong: if_cong)
  have t: "rexbalance (rx S3) = rexbalance (rx S)" "rexorders (rx S3) = rexorders (rx S)"
    using 1 run_loans_tables [OF 2(1)] run_loans_tables [OF 2(2)] by (auto split: if_splits dest: channel_tables)
  have "rex_same (rx S3) X" if h: "holders_vote S"
  proof (rule run_orders_stake [OF E _ _ 3])
    have o: "o_owner r = k" if "fmlookup (rexorders (rx S3)) k = Some r" for k r
      using h that t by (simp add: holders_vote_def)
    show "distinct (map o_owner (index_by by_time (rexorders (rx S3))))" using o by (rule distinct_index_by)
    show "fmlookup (rexorders (rx S3)) (o_owner r) = Some r" if "r \<in> set (index_by by_time (rexorders (rx S3)))" for r
      using that o by auto
  qed
  then have "rex_same (rx S) (rx S')" if "holders_vote S"
    using that same_trans(2) [OF rex_same_tables [OF t]] by (simp add: S')
  then show ?thesis
    using counts_same [of S S'] runrex_vs [OF run] runrex_quiet [OF run] by (auto simp: shifts_def stake_quiet_def)
qed

section \<open>The account of a REX holder\<close>

lemma to_fund_tables:
  assumes "transfer_to_fund core a q X = Inr X'"
  shows "rexbalance X' = rexbalance X" "rexorders X' = rexorders X"
  using assms by (auto simp: transfer_to_fund_def split: option.splits)

lemma from_fund_tables:
  assumes "transfer_from_fund E core a q X = Inr X'"
  shows "rexbalance X' = rexbalance X" "rexorders X' = rexorders X"
  using assms by (auto simp: transfer_from_fund_def)

lemma add_to_pool_tables:
  assumes "add_to_rex_pool E core q X = Inr (r, X')"
  shows "rexbalance X' = rexbalance X" "rexorders X' = rexorders X"
  using assms by (auto simp: add_to_rex_pool_def Let_def split: if_splits option.splits)

lemma shifts_from: "counts S S0 \<Longrightarrow> S1 = S0 \<Longrightarrow> counts S S1"
  by simp

text \<open>Settling an order: its change leaves the order and enters the stake.\<close>

lemma update_rex_account_parts_stake:
  assumes "update_rex_account E a p d force S = Inr (r, S')"
  obtains X q where "word_of (amount q) = word_of (unsettled a (rx S)) + word_of (amount d)"
    "rexbalance X = rexbalance (rx S)" "\<And>b. unsettled b X = (if b = a then 0 else unsettled b (rx S))"
    "\<And>b r. fmlookup (rexorders X) b = Some r \<Longrightarrow> fmlookup (rexorders (rx S)) b = Some r"
    "(if force \<or> amount q \<noteq> 0 then on_vs (update_voting_power E a q) (S\<lparr>rx := X\<rparr>) else Inr (S\<lparr>rx := X\<rparr>)) = Inr S'"
proof (cases "\<exists>o'. fmlookup (rexorders (rx S)) a = Some o' \<and> \<not> is_open o'")
  case True
  then obtain r where r: "fmlookup (rexorders (rx S)) a = Some r" "\<not> is_open r" by blast
  let ?f = "inc_amt (amount (proceeds r)) p"
  obtain X where x: "(if 0 < amount ?f then transfer_to_fund (core_symbol S) a ?f ((rx S)\<lparr>rexorders := fmdrop a (rexorders (rx S))\<rparr>)
      else Inr ((rx S)\<lparr>rexorders := fmdrop a (rexorders (rx S))\<rparr>)) = Inr X"
    "(if force \<or> amount (inc_amt (amount (stake_change r)) d) \<noteq> 0
      then on_vs (update_voting_power E a (inc_amt (amount (stake_change r)) d)) (S\<lparr>rx := X\<rparr>) else Inr (S\<lparr>rx := X\<rparr>)) = Inr S'"
    using assms r that unfolding update_rex_account_def bindE_eq_Inr Let_def
    by (auto simp del: inc_amt_simps cong: if_cong)
  have t: "rexbalance X = rexbalance (rx S)" "rexorders X = fmdrop a (rexorders (rx S))"
    using x(1) by (auto split: if_splits dest: to_fund_tables)
  show ?thesis
    by (rule that [OF _ t(1) _ _ x(2)]) (use r t(2) in \<open>auto simp: unsettled_def split: if_splits\<close>)
next
  case False
  then have u: "unsettled a (rx S) = 0" by (auto simp: unsettled_def tval_def split: option.split)
  obtain X where x: "(if 0 < amount p then transfer_to_fund (core_symbol S) a p (rx S) else Inr (rx S)) = Inr X"
    "(if force \<or> amount d \<noteq> 0 then on_vs (update_voting_power E a d) (S\<lparr>rx := X\<rparr>) else Inr (S\<lparr>rx := X\<rparr>)) = Inr S'"
    using assms False unfolding update_rex_account_def bindE_eq_Inr Let_def
    by (cases "fmlookup (rexorders (rx S)) a") (clarsimp cong: if_cong)+
  have t: "rexbalance X = rexbalance (rx S)" "rexorders X = rexorders (rx S)"
    using x(1) by (auto split: if_splits dest: to_fund_tables)
  show ?thesis
    by (rule that [OF _ t(1) _ _ x(2)]) (use u t(2) in \<open>auto simp: unsettled_def\<close>)
qed

lemma shifts_account:
  assumes "update_rex_account E a p d force S = Inr (r, S')"
  shows "shifts a (- word_of (amount d)) S S'"
  using assms
proof (rule update_rex_account_parts_stake)
  fix X q
  assume q: "word_of (amount q) = word_of (unsettled a (rx S)) + word_of (amount d)"
    and X: "rexbalance X = rexbalance (rx S)" "\<And>b. unsettled b X = (if b = a then 0 else unsettled b (rx S))"
      "\<And>b r. fmlookup (rexorders X) b = Some r \<Longrightarrow> fmlookup (rexorders (rx S)) b = Some r"
    and u: "(if force \<or> amount q \<noteq> 0 then on_vs (update_voting_power E a q) (S\<lparr>rx := X\<rparr>) else Inr (S\<lparr>rx := X\<rparr>)) = Inr S'"
  have 1: "shifts a (word_of (unsettled a (rx S))) S (S\<lparr>rx := X\<rparr>)"
  proof (rule shiftsI)
    fix b r
    assume h: "holders_vote S"
    show "word_of (uncounted b (S\<lparr>rx := X\<rparr>)) = word_of (uncounted b S) + (if b = a then word_of (unsettled a (rx S)) else 0)"
      by (simp add: uncounted_def X(2) rex_stake_of_def X(1))
    show "fmlookup (voters (vs (S\<lparr>rx := X\<rparr>))) b \<noteq> None" if "fmlookup (rexbalance (rx (S\<lparr>rx := X\<rparr>))) b \<noteq> None"
      using holders_voteD(1) [OF h, of b] that by (simp add: X(1))
    show "o_owner r = b" if "fmlookup (rexorders (rx (S\<lparr>rx := X\<rparr>))) b = Some r"
    proof -
      have "fmlookup (rexorders X) b = Some r" using that by simp
      from X(3) [OF this] show ?thesis by (rule holders_voteD(2) [OF h])
    qed
  qed
  have 2: "shifts a (- word_of (amount q)) (S\<lparr>rx := X\<rparr>) S'"
  proof (cases "force \<or> amount q \<noteq> 0")
    case True
    then have "on_vs (update_voting_power E a q) (S\<lparr>rx := X\<rparr>) = Inr S'" using u by (simp only: if_True)
    then show ?thesis by (rule shifts_power)
  next
    case False
    then have "S' = S\<lparr>rx := X\<rparr>" "amount q = 0" using u by simp_all
    then show ?thesis by simp
  qed
  have e: "word_of (unsettled a (rx S)) + - word_of (amount q) = - word_of (amount d)" unfolding q by simp
  show "shifts a (- word_of (amount d)) S S'" using shifts_trans [OF 1 2] unfolding e .
qed

lemma update_rex_stake_counts:
  assumes "update_rex_stake E a S = Inr S'"
  shows "counts S S'"
proof (cases "fmlookup (rexbalance (rx S)) a")
  case None
  then show ?thesis using assms by (auto simp: update_rex_stake_def refresh_rex_stake_def)
next
  case (Some rb)
  show ?thesis
  proof (cases "rex_available (rx S)")
    case True
    obtain v where r: "refresh_rex_stake E (core_symbol S) a (rx S) =
        Inr (i64 (v - amount (vote_stake rb)), set_rexbal a (rb\<lparr>vote_stake := set_amt v (vote_stake rb)\<rparr>) (rx S))"
      using assms Some True by (auto simp: update_rex_stake_def refresh_rex_stake_def)
    let ?d = "i64 (v - amount (vote_stake rb))" and
      ?S = "S\<lparr>rx := set_rexbal a (rb\<lparr>vote_stake := set_amt v (vote_stake rb)\<rparr>) (rx S)\<rparr>"
    have d: "word_of v = word_of (amount (vote_stake rb))" if "?d = 0"
      using word_of_i64 [of "v - amount (vote_stake rb)"] that by simp
    have S': "S' = (if ?d \<noteq> 0 then (case fmlookup (voters (vs S)) a of None \<Rightarrow> ?S
        | Some w \<Rightarrow> ?S\<lparr>vs := (vs S)\<lparr>voters := fmupd a (w\<lparr>staked := i64 (staked w + ?d)\<rparr>) (voters (vs S))\<rparr>\<rparr>) else ?S)"
      using assms by (auto simp: update_rex_stake_def r Let_def split: option.split)
    have "word_of (uncounted b S') = word_of (uncounted b S)" if h: "holders_vote S" for b
    proof -
      obtain w where w: "fmlookup (voters (vs S)) a = Some w" using h Some by (fastforce simp: holders_vote_def)
      show ?thesis
        using w Some d unfolding S'
        by (auto simp: uncounted_def staked_of_def rex_stake_of_def unsettled_def set_rexbal_def)
    qed
    moreover have "holders_vote S'" if "holders_vote S"
      using that Some unfolding S' by (auto simp: holders_vote_def set_rexbal_def split: option.split)
    ultimately show ?thesis by (simp add: shifts_def)
  next
    case False
    then show ?thesis using assms Some by (auto simp: update_rex_stake_def refresh_rex_stake_def)
  qed
qed

text \<open>Buying REX: the stake it adds is computed anew with the balance.\<close>

lemma row_updates_stake [simp]:
  "vote_stake (process_rex_maturities E rb) = vote_stake rb" "vote_stake (put_rex_savings n rb) = vote_stake rb"
  "vote_stake (fst (read_rex_savings rb)) = vote_stake rb" "vote_stake (stow E n rb) = vote_stake rb"
  "vote_stake (consolidate_rex_balance E q rb) = vote_stake rb"
  by (simp_all add: process_rex_maturities_def put_rex_savings_def read_rex_savings_def stow_def consolidate_rex_balance_def
      Let_def case_prod_beta)

lemma read_savings_stake: "read_rex_savings rb = (rb', n) \<Longrightarrow> vote_stake rb' = vote_stake rb"
  using row_updates_stake(3) [of rb] by simp

lemma bought_stake:
  assumes E: "asset_wraps E" and run: "add_to_rex_balance E core w pay recv X = Inr (delta, X')"
  shows "word_of (rex_stake_of b X') = word_of (rex_stake_of b X) + (if b = w then word_of (amount delta) else 0)"
    "rexorders X' = rexorders X" "fmlookup (rexbalance X') b \<noteq> None \<Longrightarrow> fmlookup (rexbalance X) b \<noteq> None \<or> b = w"
proof -
  obtain rb cur init where rb: "X' = set_rexbal w rb X" "amount (vote_stake rb) = amount cur" "amount init = rex_stake_of w X"
    "sub_asset E cur init = Inr delta"
  proof (cases "fmlookup (rexbalance X) w")
    case None
    let ?rb = "\<lparr>rb_owner = w, vote_stake = pay, rb_rex_balance = recv, matured_rex = 0, rex_maturities = []\<rparr>"
    obtain cs z where z: "new_asset E 0 cs = Inr z" and d: "sub_asset E (set_amt (amount pay) z) z = Inr delta"
      and X': "X' = set_rexbal w (stow E (amount recv) ?rb) X"
      using None run by (auto simp: add_to_rex_balance_def stow_def Let_def case_prod_beta)
    show thesis using None asset_wrapsD(3) [OF E z] by (intro that [OF X' _ _ d]) (simp_all add: rex_stake_of_def)
  next
    case (Some rb)
    obtain z v where d: "sub_asset E (set_amt v z) (set_amt (amount (vote_stake rb)) z) = Inr delta"
      and X': "X' = set_rexbal w (stow E (amount recv) (rb\<lparr>rb_rex_balance := inc_amt (amount recv) (rb_rex_balance rb),
        vote_stake := set_amt v (vote_stake rb)\<rparr>)) X"
      using Some run by (auto simp: add_to_rex_balance_def stow_def Let_def case_prod_beta)
    show thesis using Some by (intro that [OF X' _ _ d]) (simp_all add: rex_stake_of_def)
  qed
  have "word_of (amount (vote_stake rb)) = word_of (rex_stake_of w X) + word_of (amount delta)"
    using asset_wrapsD(2) [OF E rb(4)] rb by simp
  then show "word_of (rex_stake_of b X') = word_of (rex_stake_of b X) + (if b = w then word_of (amount delta) else 0)"
    by (simp add: rb(1) rex_stake_of_def set_rexbal_def)
  show "rexorders X' = rexorders X" "fmlookup (rexbalance X') b \<noteq> None \<Longrightarrow> fmlookup (rexbalance X) b \<noteq> None \<or> b = w"
    by (auto simp: rb(1) set_rexbal_def split: if_splits)
qed

lemma shifts_bought:
  assumes E: "asset_wraps E" and run: "add_to_rex_balance E core w pay recv X = Inr (delta, X')"
    and X: "rexbalance X = rexbalance (rx S)" "rexorders X = rexorders (rx S)" and v: "fmlookup (voters (vs S)) w \<noteq> None"
  shows "shifts w (word_of (amount delta)) S (S\<lparr>rx := X'\<rparr>)"
proof (rule shiftsI)
  note B = bought_stake [OF E run]
  fix b r
  assume h: "holders_vote S"
  have "rex_stake_of b X = rex_stake_of b (rx S)" "unsettled b X' = unsettled b (rx S)"
    by (simp_all add: rex_stake_of_def unsettled_def X B(2))
  then show "word_of (uncounted b (S\<lparr>rx := X'\<rparr>)) = word_of (uncounted b S) + (if b = w then word_of (amount delta) else 0)"
    using B(1) [of b] by (simp add: uncounted_def)
  show "fmlookup (voters (vs (S\<lparr>rx := X'\<rparr>))) b \<noteq> None" if "fmlookup (rexbalance (rx (S\<lparr>rx := X'\<rparr>))) b \<noteq> None"
    using B(3) [of b] that holders_voteD(1) [OF h, of b] v by (auto simp: X(1))
  show "o_owner r = b" if "fmlookup (rexorders (rx (S\<lparr>rx := X'\<rparr>))) b = Some r"
    by (rule holders_voteD(2) [OF h]) (use that in \<open>simp add: B(2) X(2)\<close>)
qed

section \<open>The actions of the REX\<close>

lemma counts_tables:
  assumes "voters (vs S') = voters (vs S)" "delband (rs S') = delband (rs S)" "rexbalance (rx S') = rexbalance (rx S)" "rexorders (rx S') = rexorders (rx S)"
  shows "counts S S'"
  using assms by (intro counts_same stakes_same_voters rex_same_tables) simp_all

lemma limits_for_counts:
  assumes "limits_for E k r d S = Inr S'"
  shows "counts S S'"
proof -
  obtain R where "S' = S\<lparr>rs := R\<rparr>" using limits_for_frame [OF assms] ..
  then show ?thesis using limits_for_quiet [OF assms] by (intro counts_tables) (simp_all add: stake_quiet_def)
qed

lemma resource_limits_counts:
  assumes "update_resource_limits E r n c S = Inr S'"
  shows "counts S S'"
proof -
  obtain R where "S' = S\<lparr>rs := R\<rparr>" using update_resource_limits_frame [OF assms] ..
  then show ?thesis using update_resource_limits_quiet [OF assms] by (intro counts_tables) (simp_all add: stake_quiet_def)
qed

text \<open>What one step adds and another takes is settled.\<close>

lemma counts_cancel: "shifts a (d + - d) S S' \<Longrightarrow> counts S S'"
  by (simp add: shifts_def)

lemma shifts_put_rexbal:
  assumes "fmlookup (rexbalance (rx S)) a = Some rb" "d = word_of (amount (vote_stake rb')) - word_of (amount (vote_stake rb))"
  shows "shifts a d S (put_rexbal a rb' S)"
proof (rule shiftsI)
  fix b r
  assume h: "holders_vote S"
  show "word_of (uncounted b (put_rexbal a rb' S)) = word_of (uncounted b S) + (if b = a then d else 0)"
    using assms by (simp add: uncounted_def rex_stake_of_def unsettled_def put_rexbal_def set_rexbal_def)
  show "fmlookup (voters (vs (put_rexbal a rb' S))) b \<noteq> None" if "fmlookup (rexbalance (rx (put_rexbal a rb' S))) b \<noteq> None"
    using holders_voteD(1) [OF h, of b] that assms(1) by (auto simp: put_rexbal_def set_rexbal_def split: if_splits)
  show "o_owner r = b" if "fmlookup (rexorders (rx (put_rexbal a rb' S))) b = Some r"
    by (rule holders_voteD(2) [OF h]) (use that in \<open>simp add: put_rexbal_def set_rexbal_def\<close>)
qed

lemma counts_put_rexbal:
  "fmlookup (rexbalance (rx S)) a = Some rb \<Longrightarrow> vote_stake rb' = vote_stake rb \<Longrightarrow> counts S (put_rexbal a rb' S)"
  using shifts_put_rexbal [of S a rb 0 rb'] by (simp add: shifts_def)

lemma counts_account:
  assumes "update_rex_account E a p d force S = Inr (r, S')" "amount d = 0"
  shows "counts S S'"
  using shifts_account [OF assms(1)] assms(2) by (simp add: shifts_def)

lemma zero_core_wraps: "asset_wraps E \<Longrightarrow> zero_core E S = Inr z \<Longrightarrow> amount z = 0"
  by (auto simp: zero_core_def dest: asset_wrapsD(3))

text \<open>Maintenance, then the account; most actions of a holder begin so.\<close>

lemma counts_settled:
  assumes "asset_wraps E" "runrex E n S = Inr S1" "update_rex_account E a z d force S1 = Inr (r, S2)" "amount d = 0"
  shows "counts S S2"
  using runrex_counts [OF assms(1,2)] counts_account [OF assms(3,4)] by (rule counts_trans)

lemma deposit_counts: "deposit E w q S = Inr S' \<Longrightarrow> counts S S'"
  by (auto simp: deposit_def on_rx_def intro!: counts_tables dest: to_fund_tables)

lemma withdraw_counts:
  assumes E: "asset_wraps E" and run: "withdraw E w q S = Inr S'"
  shows "counts S S'"
proof -
  obtain z r S1 S2 es where a: "zero_core E S = Inr z" "update_rex_account E w z z False S = Inr (r, S1)"
    "on_rx (transfer_from_fund E (core_symbol S1) w q) S1 = Inr S2" "S' = emit es S2"
    using run by (auto simp: withdraw_def)
  have "counts S S1" by (rule counts_account [OF a(2) zero_core_wraps [OF E a(1)]])
  also have "counts S1 S2" using a(3) by (auto simp: on_rx_def intro!: counts_tables dest: from_fund_tables)
  finally show ?thesis by (simp add: a(4))
qed

lemma voting_requirement_row: "check_voting_requirement w msg V = Inr u \<Longrightarrow> fmlookup (voters V) w \<noteq> None"
  by (auto simp: check_voting_requirement_def split: option.splits)

lemma buyrex_counts:
  assumes E: "asset_wraps E" and run: "buyrex E w q S = Inr S'"
  shows "counts S S'"
proof -
  obtain X1 X2 X3 recv delta S1 z r S2 where
    v: "check_voting_requirement w voting_requirement_msg (vs S) = Inr ()" and
    x: "transfer_from_fund E (core_symbol S) w q (rx S) = Inr X1" "add_to_rex_pool E (core_symbol S) q X1 = Inr (recv, X2)"
      "add_to_rex_balance E (core_symbol S) w q recv X2 = Inr (delta, X3)" and
    s: "runrex E 2 (S\<lparr>rx := X3\<rparr>) = Inr S1" "update_rex_account E w z delta False S1 = Inr (r, S2)" and
    S': "S' = emit [Rex_buyresult recv] S2"
    using run unfolding buyrex_def by clarsimp
  have "shifts w (word_of (amount delta)) S (S\<lparr>rx := X3\<rparr>)"
    by (rule shifts_bought [OF E x(3)])
      (simp_all add: from_fund_tables [OF x(1)] add_to_pool_tables [OF x(2)] voting_requirement_row [OF v] del: not_None_eq)
  also have "counts (S\<lparr>rx := X3\<rparr>) S1" by (rule runrex_counts [OF E s(1)])
  also have "shifts w (- word_of (amount delta)) S1 S2" by (rule shifts_account [OF s(2)])
  finally have "counts S S2" by (rule counts_cancel)
  then show ?thesis by (simp add: S')
qed

lemma sellrex_counts:
  assumes E: "asset_wraps E" and run: "sellrex E w q S = Inr S'"
  shows "counts S S'"
proof -
  obtain S1 rb order X1 r S3 pending X2 es c1 c3 where
    r: "runrex E 2 S = Inr S1" and rb: "fmlookup (rexbalance (rx S1)) w = Some rb" and
    f: "fill_rex_order E c1 w q (rx (put_rexbal w (process_rex_maturities E rb) S1)) = Inr (order, X1)" and
    u: "update_rex_account E w (oo_proceeds order) (oo_stake_change order) False
      (put_rexbal w (process_rex_maturities E rb) S1\<lparr>rx := X1\<rparr>) = Inr (r, S3)" and
    q: "(if \<not> success order then
          bindE (check (w \<noteq> b1_account) ''b1 sellrex orders should not be queued'') (\<lambda>_.
          enqueue_order E c3 w q (rx S3))
        else Inr (amount r, rx S3)) = Inr (pending, X2)" and
    S': "S' = emit es (S3\<lparr>rx := X2\<rparr>)"
    using run unfolding sellrex_def Let_def rexbal_of_def bindE_eq_Inr
    by (clarsimp simp: put_rexbal_def cong: if_cong)
  let ?S = "put_rexbal w (process_rex_maturities E rb) S1"
  have "counts S S1" by (rule runrex_counts [OF E r])
  also have "counts S1 ?S" by (rule counts_put_rexbal [OF rb]) simp
  also have "shifts w (word_of (amount (oo_stake_change order))) ?S (?S\<lparr>rx := X1\<rparr>)"
  proof (rule shiftsI)
    note F = fill_order_stake [OF E f]
    fix b r
    assume h: "holders_vote ?S"
    show "word_of (uncounted b (?S\<lparr>rx := X1\<rparr>)) = word_of (uncounted b ?S) + (if b = w then word_of (amount (oo_stake_change order)) else 0)"
      using F(3) [of b] by (simp add: uncounted_def unsettled_def F(1))
    show "fmlookup (voters (vs (?S\<lparr>rx := X1\<rparr>))) b \<noteq> None" if "fmlookup (rexbalance (rx (?S\<lparr>rx := X1\<rparr>))) b \<noteq> None"
      using that F(2) [of b] holders_voteD(1) [OF h, of b] by simp
    show "o_owner r = b" if "fmlookup (rexorders (rx (?S\<lparr>rx := X1\<rparr>))) b = Some r"
      by (rule holders_voteD(2) [OF h]) (use that F(1) in simp)
  qed
  also have "shifts w (- word_of (amount (oo_stake_change order))) (?S\<lparr>rx := X1\<rparr>) S3" by (rule shifts_account [OF u])
  finally have "counts S S3" by (rule counts_cancel)
  also have "counts S3 (S3\<lparr>rx := X2\<rparr>)"
  proof (rule counts_same)
    show "rex_same (rx S3) (rx (S3\<lparr>rx := X2\<rparr>))"
      using q asset_wrapsD(3) [OF E]
      by (auto simp: enqueue_order_def rex_same_def rex_stake_of_def unsettled_def split: if_splits option.splits)
  qed simp_all
  finally show ?thesis by (simp add: S')
qed

lemma cnclrexorder_counts: "on_rx (cnclrexorder E w) S = Inr S' \<Longrightarrow> counts S S'"
  by (auto simp: on_rx_def cnclrexorder_def rex_same_def rex_stake_of_def unsettled_def split: if_splits intro!: counts_same)

lemma rent_loan_counts:
  assumes E: "asset_wraps E" and run: "rent_loan E k w r pay fund S = Inr S'"
  shows "counts S S'"
proof -
  obtain S1 both X p tab n es where a: "runrex E 2 S = Inr S1" "transfer_from_fund E (core_symbol S1) w both (rx S1) = Inr X"
    "limits_for E k r n (emit es (S1\<lparr>rx := set_loans k tab (X\<lparr>rexpool := p\<rparr>)\<rparr>)) = Inr S'"
    using run unfolding rent_loan_def rent_rex_def Let_def by clarsimp
  have "counts S S1" by (rule runrex_counts [OF E a(1)])
  also have "counts S1 (emit es (S1\<lparr>rx := set_loans k tab (X\<lparr>rexpool := p\<rparr>)\<rparr>))"
    using from_fund_tables [OF a(2)] by (intro counts_tables) simp_all
  also have "counts (emit es (S1\<lparr>rx := set_loans k tab (X\<lparr>rexpool := p\<rparr>)\<rparr>)) S'" by (rule limits_for_counts [OF a(3)])
  finally show ?thesis .
qed

lemma loan_fund_counts:
  "fund_loan E k w n q S = Inr S' \<Longrightarrow> counts S S'" "defund_loan E k w n q S = Inr S' \<Longrightarrow> counts S S'"
  by (auto simp: fund_loan_def defund_loan_def on_rx_def fund_rex_loan_def defund_rex_loan_def intro!: counts_tables
      dest: to_fund_tables from_fund_tables)

lemma updaterex_counts:
  assumes E: "asset_wraps E" and run: "updaterex E w S = Inr S'"
  shows "counts S S'"
proof -
  obtain S1 rb v z d r S2 rb' where a: "runrex E 2 S = Inr S1" "fmlookup (rexbalance (rx S1)) w = Some rb"
    "sub_asset E (set_amt v z) (vote_stake rb) = Inr d"
    "update_rex_account E w z d True (put_rexbal w (rb\<lparr>vote_stake := set_amt v z\<rparr>) S1) = Inr (r, S2)"
    "fmlookup (rexbalance (rx S2)) w = Some rb'" and S': "S' = put_rexbal w (process_rex_maturities E rb') S2"
    using run by (auto simp: updaterex_def rexbal_of_def Let_def)
  have "counts S S1" by (rule runrex_counts [OF E a(1)])
  also have "shifts w (word_of (amount d)) S1 (put_rexbal w (rb\<lparr>vote_stake := set_amt v z\<rparr>) S1)"
    by (rule shifts_put_rexbal [OF a(2)]) (simp add: asset_wrapsD(2) [OF E a(3)])
  also have "shifts w (- word_of (amount d)) (put_rexbal w (rb\<lparr>vote_stake := set_amt v z\<rparr>) S1) S2" by (rule shifts_account [OF a(4)])
  finally have "counts S S2" by (rule counts_cancel)
  also have "counts S2 S'" unfolding S' by (rule counts_put_rexbal [OF a(5)]) simp
  finally show ?thesis .
qed

lemma setrex_counts: "setrex E q S = Inr S' \<Longrightarrow> counts S S'"
  by (auto simp: setrex_def intro!: counts_tables)

lemma consolidate_counts:
  assumes E: "asset_wraps E" and run: "consolidate E w S = Inr S'"
  shows "counts S S'"
proof -
  obtain S1 z r S2 rb where a: "runrex E 2 S = Inr S1" "zero_core E S1 = Inr z" "update_rex_account E w z z False S1 = Inr (r, S2)"
    "fmlookup (rexbalance (rx S2)) w = Some rb" and S': "S' = put_rexbal w (consolidate_rex_balance E r rb) S2"
    using run by (auto simp: consolidate_def rexbal_of_def)
  have "counts S S2" by (rule counts_settled [OF E a(1,3) zero_core_wraps [OF E a(2)]])
  also have "counts S2 S'" unfolding S' by (rule counts_put_rexbal [OF a(4)]) simp
  finally show ?thesis .
qed

lemma move_to_savings_stake: "move_to_savings n r rb = Inr rb' \<Longrightarrow> vote_stake rb' = vote_stake rb"
  by (auto simp: move_to_savings_def Let_def case_prod_beta split: if_splits)

lemma mvtosavings_counts:
  assumes E: "asset_wraps E" and run: "mvtosavings E w q S = Inr S'"
  shows "counts S S'"
proof -
  obtain S1 z r S2 rb n rb' where a: "runrex E 2 S = Inr S1" "zero_core E S1 = Inr z" "update_rex_account E w z z False S1 = Inr (r, S2)"
    "fmlookup (rexbalance (rx S2)) w = Some rb" "move_to_savings (amount q) r (process_rex_maturities E (fst (read_rex_savings rb))) = Inr rb'"
    and S': "S' = put_rexbal w (put_rex_savings n rb') S2"
    using run by (auto simp: mvtosavings_def rexbal_of_def Let_def case_prod_beta)
  have "counts S S2" by (rule counts_settled [OF E a(1,3) zero_core_wraps [OF E a(2)]])
  also have "counts S2 S'" unfolding S'
    by (rule counts_put_rexbal [OF a(4)]) (simp add: move_to_savings_stake [OF a(5)])
  finally show ?thesis .
qed

lemma mvfrsavings_counts:
  assumes E: "asset_wraps E" and run: "mvfrsavings E w q S = Inr S'"
  shows "counts S S'"
proof -
  obtain S1 rb z r where a: "runrex E 2 S = Inr S1" "fmlookup (rexbalance (rx S1)) w = Some rb"
    and z: "\<exists>rb'. vote_stake rb' = vote_stake rb \<and> zero_core E (put_rexbal w rb' S1) = Inr z \<and>
      update_rex_account E w z z False (put_rexbal w rb' S1) = Inr (r, S')"
    using run unfolding mvfrsavings_def rexbal_of_def Let_def by (force simp: case_prod_beta)
  then obtain rb' where b: "vote_stake rb' = vote_stake rb" "zero_core E (put_rexbal w rb' S1) = Inr z"
    "update_rex_account E w z z False (put_rexbal w rb' S1) = Inr (r, S')" by blast
  have "counts S S1" by (rule runrex_counts [OF E a(1)])
  also have "counts S1 (put_rexbal w rb' S1)" by (rule counts_put_rexbal [OF a(2) b(1)])
  also have "counts (put_rexbal w rb' S1) S'" by (rule counts_account [OF b(3) zero_core_wraps [OF E b(2)]])
  finally show ?thesis .
qed

text \<open>Closing a balance gives up what it still counts as stake, which only its owner can do.\<close>

lemma closerex_shifts:
  assumes E: "asset_wraps E" and run: "closerex E w S = Inr S'"
  shows "\<exists>d. shifts w d S S'"
proof -
  obtain S1 z r S2 X where a: "(if rex_system_initialized (rx S) then runrex E 2 S else Inr S) = Inr S1" "zero_core E S1 = Inr z"
    "update_rex_account E w z z False S1 = Inr (r, S2)" "drop_balance w (drop_fund w (rx S2)) = Inr X" and S': "S' = S2\<lparr>rx := X\<rparr>"
    using run unfolding closerex_def on_rx_def by (clarsimp cong: if_cong)
  have X: "rexorders X = rexorders (rx S2)" "rexbalance X = rexbalance (rx S2) \<or> rexbalance X = fmdrop w (rexbalance (rx S2))"
    using a(4) by (auto simp: drop_balance_def drop_fund_def split: option.splits if_splits)
  have "counts S S1" using a(1) by (auto split: if_splits intro: runrex_counts [OF E])
  also have "counts S1 S2" by (rule counts_account [OF a(3) zero_core_wraps [OF E a(2)]])
  also have "shifts w (word_of (rex_stake_of w X) - word_of (rex_stake_of w (rx S2))) S2 S'"
  proof (rule shiftsI)
    fix b r
    assume h: "holders_vote S2"
    have "rex_stake_of b X = rex_stake_of b (rx S2)" if "b \<noteq> w" using X(2) that by (auto simp: rex_stake_of_def)
    then show "word_of (uncounted b S') = word_of (uncounted b S2) + (if b = w then word_of (rex_stake_of w X) - word_of (rex_stake_of w (rx S2)) else 0)"
      by (simp add: S' uncounted_def unsettled_def X(1))
    show "fmlookup (voters (vs S')) b \<noteq> None" if "fmlookup (rexbalance (rx S')) b \<noteq> None"
      using that X(2) holders_voteD(1) [OF h, of b] by (auto simp: S' split: if_splits)
    show "o_owner r = b" if "fmlookup (rexorders (rx S')) b = Some r"
      by (rule holders_voteD(2) [OF h]) (use that in \<open>simp add: S' X(1)\<close>)
  qed
  finally show ?thesis ..
qed

section \<open>Stakes\<close>

lemma delegated_row:
  assumes "delband R' = (if db_is_empty d then fmdrop (a, w) (delband R) else fmupd (a, w) d (delband R))"
  shows "delegated_from b R' = delegated_from b R + (if b = a then db_stake d - tval db_stake (delband R) (a, w) else 0)"
proof -
  have "db_is_empty d \<Longrightarrow> db_stake d = 0" by (simp add: db_is_empty_def db_stake_def)
  then show ?thesis unfolding delegated_from_def assms by auto
qed

lemma take_delband_stake:
  assumes "take_delband a w net cpu R = Inr R'"
  shows "word_of (delegated_from b R') = word_of (delegated_from b R) - (if b = a then word_of (amount net) + word_of (amount cpu) else 0)"
proof -
  obtain d d' where d: "fmlookup (delband R) (a, w) = Some d" and
    d': "d' = d\<lparr>db_net_weight := inc_amt (- amount net) (db_net_weight d), db_cpu_weight := inc_amt (- amount cpu) (db_cpu_weight d)\<rparr>" and
    R': "delband R' = (if db_is_empty d' then fmdrop (a, w) (delband R) else fmupd (a, w) d' (delband R))"
    using assms by (auto simp: take_delband_def Let_def)
  have "word_of (db_stake d') = word_of (db_stake d) - word_of (amount net) - word_of (amount cpu)"
    by (simp add: db_stake_def d')
  then show ?thesis using d by (simp add: delegated_row [OF R'])
qed

lemma change_delband_stake:
  assumes E: "asset_wraps E" and run: "change_delband E a w net cpu R = Inr R'"
  shows "word_of (delegated_from b R') = word_of (delegated_from b R) + (if b = a then word_of (amount net) + word_of (amount cpu) else 0)"
proof -
  obtain d where d: "(case fmlookup (delband R) (a, w) of
          None \<Rightarrow> Inr \<lparr>db_from = a, db_to = w, db_net_weight = net, db_cpu_weight = cpu\<rparr>
        | Some dbo \<Rightarrow>
            bindE (add_asset E (db_net_weight dbo) net) (\<lambda>n.
            bindE (add_asset E (db_cpu_weight dbo) cpu) (\<lambda>c.
            Inr (dbo\<lparr>db_net_weight := n, db_cpu_weight := c\<rparr>)))) = Inr d" and
    R': "delband R' = (if db_is_empty d then fmdrop (a, w) (delband R) else fmupd (a, w) d (delband R))"
    using run by (auto simp: change_delband_def)
  have "word_of (db_stake d) = word_of (tval db_stake (delband R) (a, w)) + word_of (amount net) + word_of (amount cpu)"
    using d by (auto simp: db_stake_def split: option.splits dest!: asset_wrapsD(1) [OF E])
  then show ?thesis by (simp add: delegated_row [OF R'])
qed

lemma shifts_delband:
  assumes "vs S' = vs S" "rx S' = rx S"
    and "\<And>b. word_of (delegated_from b (rs S')) = word_of (delegated_from b (rs S)) + (if b = a then d else 0)"
  shows "shifts a d S S'"
proof (rule shiftsI)
  fix b r
  assume h: "holders_vote S"
  show "word_of (uncounted b S') = word_of (uncounted b S) + (if b = a then d else 0)"
    using assms(3) [of b] by (simp add: uncounted_def assms(1,2))
  show "fmlookup (voters (vs S')) b \<noteq> None" if "fmlookup (rexbalance (rx S')) b \<noteq> None"
    using holders_voteD(1) [OF h, of b] that by (simp add: assms(1,2))
  show "o_owner r = b" if "fmlookup (rexorders (rx S')) b = Some r"
    using holders_voteD(2) [OF h, of b r] that by (simp add: assms(2))
qed

lemma changebw_counts:
  assumes E: "asset_wraps E" and run: "changebw E a w dnet dcpu transfer S = Inr S'"
  shows "counts S S'"
proof -
  let ?a = "if transfer then w else a"
  obtain both R1 R2 S1 S2 where
    b: "add_asset E dnet dcpu = Inr both" and
    r: "change_delband E ?a w dnet dcpu (rs S) = Inr R1" "change_totals E w dnet dcpu (vs S) R1 = Inr R2" and
    1: "(if stake_account \<noteq> a then
          bindE (change_refund E (core_symbol S) ?a (\<not> transfer \<and> ?a = w) dnet dcpu (refunds R2))
            (\<lambda>(net, cpu, need_deferred_trx, T).
          bindE (settle_stake E a ?a net cpu need_deferred_trx) (\<lambda>es.
          Inr (emit es (S\<lparr>rs := R2\<lparr>refunds := T\<rparr>\<rparr>))))
        else Inr (S\<lparr>rs := R2\<rparr>)) = Inr S1" and
    3: "update_rex_stake E ?a S1 = Inr S2" "on_vs (update_voting_power E ?a both) S2 = Inr S'"
    using run unfolding changebw_steps by blast
  have S1: "vs S1 = vs S" "rx S1 = rx S" "delband (rs S1) = delband R1"
    using 1 change_totals_frame [OF r(2)] by (auto split: if_splits)
  have "word_of (delegated_from b (rs S1)) = word_of (delegated_from b (rs S)) + (if b = ?a then word_of (amount both) else 0)" for b
    using change_delband_stake [OF E r(1), of b] asset_wrapsD(1) [OF E b] unfolding delegated_from_def S1(3) by simp
  then have "shifts ?a (word_of (amount both)) S S1" by (rule shifts_delband [OF S1(1,2)])
  also have "counts S1 S2" by (rule update_rex_stake_counts [OF 3(1)])
  also have "shifts ?a (- word_of (amount both)) S2 S'" by (rule shifts_power [OF 3(2)])
  finally show ?thesis by (rule counts_cancel)
qed

lemma refund_counts: "refund E a S = Inr S' \<Longrightarrow> counts S S'"
  by (auto simp: refund_def intro!: counts_tables)

section \<open>The other components\<close>

lemma update_ram_supply_counts: "update_ram_supply E S = Inr S' \<Longrightarrow> counts S S'"
  by (cases "block_slot E \<le> last_ram_increase (gstate2 (vs S))")
    (auto simp: update_ram_supply_def Let_def set_gstate_def intro!: counts_tables)

lemma channel_counts: "channel_to_rex E a q S = Inr S' \<Longrightarrow> counts S S'"
  by (auto simp: channel_to_rex_def split: option.splits if_splits intro!: counts_tables)

lemma buyram_counts:
  assumes "buyram E payer receiver q S = Inr S'"
  shows "counts S S'"
proof -
  obtain S1 S2 es f fs b M g R r n u where 1: "update_ram_supply E S = Inr S1"
    and 2: "(if b then channel_to_rex E ramfee_account f (emit fs (emit es S1)) else Inr (emit es S1)) = Inr S2"
    and 3: "set_ram_limit r n (vs S2\<lparr>gstate := g\<rparr>) ((rs S2)\<lparr>userres := u\<rparr>) = Inr R"
    and S': "S' = S2\<lparr>rammarket := M, vs := (vs S2)\<lparr>gstate := g\<rparr>, rs := R\<rparr>"
    using assms by (auto simp: buyram_def Let_def set_gstate_def the_market_def)
  have "counts S S1" by (rule update_ram_supply_counts [OF 1])
  also have "counts S1 S2" using 2 by (auto split: if_splits dest: channel_counts)
  also have "counts S2 S'" using set_ram_limit_frame(2) [OF 3] by (intro counts_tables) (simp_all add: S')
  finally show ?thesis .
qed

lemma sellram_counts:
  assumes "sellram E w n S = Inr S'"
  shows "counts S S'"
proof -
  obtain S1 es f fs b M g R r m u where 1: "update_ram_supply E S = Inr S1"
    and 3: "set_ram_limit r m (vs S1\<lparr>gstate := g\<rparr>) ((rs S1)\<lparr>userres := u\<rparr>) = Inr R"
    and 2: "(if b then bindE (new_asset E (fst f) (snd f)) (\<lambda>q. channel_to_rex E ramfee_account q
        (emit (fs q) (emit es (S1\<lparr>rammarket := M, vs := (vs S1)\<lparr>gstate := g\<rparr>, rs := R\<rparr>))))
      else Inr (emit es (S1\<lparr>rammarket := M, vs := (vs S1)\<lparr>gstate := g\<rparr>, rs := R\<rparr>))) = Inr S'"
    using assms by (auto simp: sellram_def Let_def set_gstate_def the_market_def cong: if_cong)
  let ?S = "S1\<lparr>rammarket := M, vs := (vs S1)\<lparr>gstate := g\<rparr>, rs := R\<rparr>"
  have "counts S S1" by (rule update_ram_supply_counts [OF 1])
  also have "counts S1 ?S" using set_ram_limit_frame(2) [OF 3] by (intro counts_tables) simp_all
  also have "counts ?S S'" using 2 by (auto split: if_splits dest: channel_counts)
  finally show ?thesis .
qed

lemma ram_exec_counts: "ram_exec E x S = Inr S' \<Longrightarrow> counts S S'"
  by (cases x)
    (auto simp: buyrambytes_def setram_def setramrate_def set_gstate_def Let_def
      dest: buyram_counts sellram_counts intro: counts_tables counts_trans(1) [OF update_ram_supply_counts counts_tables])

lemma close_auction_counts: "counts S (close_auction E t S)"
proof (cases "highest_open_bid (ns S)")
  case (Some b)
  have "rexbalance (channel_namebid_to_rex n X) = rexbalance X" "rexorders (channel_namebid_to_rex n X) = rexorders X" for n X
    by (simp_all add: channel_namebid_to_rex_def split: option.split)
  then show ?thesis using closed_state [OF Some, of E t] by (auto intro!: counts_tables simp: close_auction_voters)
qed (simp add: close_auction_def)

lemma onblock_counts:
  assumes "onblock E t p S = Inr S'"
  shows "counts S S'"
proof -
  let ?S = "S\<lparr>vs := (vs S)\<lparr>gstate2 := (gstate2 (vs S))\<lparr>last_block_num := t\<rparr>\<rparr>\<rparr>"
  obtain V where V: "count_block E p ?S = S\<lparr>vs := V\<rparr>" using count_block_vs [of E p ?S] by auto
  obtain V' es where u: "update_elected_producers E t V = (V', es)" by fastforce
  have "S' = ?S \<or> S' = S\<lparr>vs := V\<rparr> \<or> S' = emit es (S\<lparr>vs := V'\<rparr>) \<or> S' = close_auction E t (emit es (S\<lparr>vs := V'\<rparr>))"
    using assms V u by (auto simp: onblock_def Let_def split: if_splits)
  moreover have v: "voters V = voters (vs S)" using arg_cong [OF V, of vs] count_block_voters [of E p ?S] by simp
  moreover have "voters V' = voters (vs S)" using update_elected_producers_voters [OF u] v by simp
  ultimately have "counts S ?S" "counts S (S\<lparr>vs := V\<rparr>)" "counts S (emit es (S\<lparr>vs := V'\<rparr>))" by (auto intro!: counts_tables)
  then show ?thesis using \<open>S' = ?S \<or> _\<close> counts_trans(1) [OF _ close_auction_counts] by metis
qed

lemma name_exec_counts:
  assumes "name_exec E x S = Inr S'"
  shows "counts S S'"
proof (cases x)
  case (Onblock t p)
  then show ?thesis using assms onblock_counts by simp
qed (use assms in \<open>auto simp: bidname_def bidrefund_def newaccount_def Let_def split: option.splits intro!: counts_tables\<close>)

lemma set_flag_stakes: "stakes_same V (set_flag a f b V)"
  by (auto simp: set_flag_def Let_def new_voter_def split: option.split intro!: stakes_same_row)

lemma set_flag_counts: "counts S (S\<lparr>vs := set_flag a f b (vs S), rs := set_resource_limits a ram net cpu (rs S)\<rparr>)"
  by (intro counts_same) (simp_all add: set_flag_stakes)

lemma admin_exec_counts: "admin_exec E T x S = Inr S' \<Longrightarrow> counts S S'"
  by (cases x)
    (auto simp: init_def setparams_def setpriv_def activate_def setalimits_def setacctram_def setacctnet_def setacctcpu_def
      setabi_def onerror_def set_gstate_def Let_def set_flag_counts intro: counts_tables)

lemma claimrewards_counts:
  assumes "claimrewards E T w S = Inr S'"
  shows "counts S S'"
proof -
  obtain V es where "S' = emit es (S\<lparr>vs := V\<rparr>)" using claimrewards_frame [OF assms] by blast
  then show ?thesis using claimrewards_voters [OF assms] by (intro counts_tables) simp_all
qed

lemma vote_exec_counts:
  assumes "vote_exec E x S = Inr S'"
  shows "counts S S'"
proof (cases x)
  case (Voteproducer w prox prods)
  then obtain S1 where 1: "update_rex_stake E w S = Inr S1" and 2: "on_vs (update_votes E w prox prods True) S1 = Inr S'"
    using assms by (auto simp: voteproducer_def split: option.splits if_splits)
  have "counts S S1" by (rule update_rex_stake_counts [OF 1])
  also have "counts S1 S'" using 2 by (auto simp: on_vs_def intro!: counts_same update_votes_stakes)
  finally show ?thesis .
next
  case (Regproxy p flag)
  then show ?thesis using assms by (auto simp: on_vs_def intro!: counts_same regproxy_stakes)
qed (use assms in \<open>auto simp: on_vs_def regproducer_def unregprod_def rmvproducer_def updtrevision_def Let_def
      split: option.splits if_splits intro!: counts_tables\<close>)

section \<open>Unstaking to REX\<close>

text \<open>
  The stake that the purchase adds is not taken to the account: \<open>unstaketorex\<close> drops the result of
  \<open>add_to_rex_balance\<close>.
\<close>

lemma unstaketorex_parts:
  assumes E: "asset_wraps E" and run: "unstaketorex E a w net cpu S = Inr S'"
  obtains S0 X1 X2 S1 z r S2 es core pay recv delta where
    "vs S0 = vs S" "rx S0 = rx S" "voters (vs S0) = voters (vs S)"
    "shifts a (- (word_of (amount net) + word_of (amount cpu))) S S0"
    "\<And>b. word_of (delegated_from b (rs S0)) = word_of (delegated_from b (rs S)) -
       (if b = a then word_of (amount net) + word_of (amount cpu) else 0)"
    "add_to_rex_pool E core pay (rx S) = Inr (recv, X1)"
    "add_to_rex_balance E core a pay recv X1 = Inr (delta, X2)"
    "shifts a (word_of (amount delta)) S0 (S0\<lparr>rx := X2\<rparr>)" "runrex E 2 (S0\<lparr>rx := X2\<rparr>) = Inr S1" "amount z = 0"
    "update_rex_account E a z z True S1 = Inr (r, S2)" "S' = emit es S2"
proof -
  obtain R S0 pay recv X1 X2 S1 z r S2 delta es es' where
    v: "check_voting_requirement a voting_requirement_msg (vs S) = Inr ()" and
    db: "take_delband a w net cpu (rs S) = Inr R" and
    s0: "update_resource_limits E w (i64 (- amount net)) (i64 (- amount cpu)) (S\<lparr>rs := R\<rparr>) = Inr S0" and
    p: "add_to_rex_pool E (core_symbol (emit es' S0)) pay (rx (emit es' S0)) = Inr (recv, X1)"
      "add_to_rex_balance E (core_symbol (emit es' S0)) a pay recv X1 = Inr (delta, X2)" and
    r: "runrex E 2 ((emit es' S0)\<lparr>rx := X2\<rparr>) = Inr S1" "zero_core E S1 = Inr z" and
    u: "update_rex_account E a z z True S1 = Inr (r, S2)" and S': "S' = emit es S2"
    using run unfolding unstaketorex_def Let_def bindE_eq_Inr by clarsimp
  let ?S = "emit es' S0"
  obtain Q where Q: "S0 = S\<lparr>rs := Q\<rparr>" using update_resource_limits_frame [OF s0] by auto
  have d: "delband (rs S0) = delband R" using update_resource_limits_quiet [OF s0] by (simp add: stake_quiet_def)
  have db': "word_of (delegated_from b (rs ?S)) = word_of (delegated_from b (rs S)) -
       (if b = a then word_of (amount net) + word_of (amount cpu) else 0)" for b
    using take_delband_stake [OF db, of b] delegated_from_cong [OF d, of b] by simp
  have 1: "vs ?S = vs S" "rx ?S = rx S" "voters (vs ?S) = voters (vs S)" by (simp_all add: Q)
  have 2: "shifts a (- (word_of (amount net) + word_of (amount cpu))) S ?S"
    by (rule shifts_delband [OF 1(1,2)]) (simp add: db' [simplified])
  have 3: "shifts a (word_of (amount delta)) ?S (?S\<lparr>rx := X2\<rparr>)"
    by (rule shifts_bought [OF E p(2)])
      (simp_all add: add_to_pool_tables [OF p(1)] Q voting_requirement_row [OF v] del: not_None_eq)
  show thesis by (rule that [OF 1 2 db' _ p(2) 3 r(1) zero_core_wraps [OF E r(2)] u S']) (use p(1) 1 in simp)
qed

lemma unstaketorex_shifts:
  assumes E: "asset_wraps E" and run: "unstaketorex E a w net cpu S = Inr S'"
  shows "\<exists>d. shifts a d S S'"
  using assms
proof (rule unstaketorex_parts)
  fix S0 X2 S1 z r S2 es and delta :: asset
  assume "shifts a (- (word_of (amount net) + word_of (amount cpu))) S S0"
    and "shifts a (word_of (amount delta)) S0 (S0\<lparr>rx := X2\<rparr>)"
    and r: "runrex E 2 (S0\<lparr>rx := X2\<rparr>) = Inr S1" and u: "update_rex_account E a z z True S1 = Inr (r, S2)" "amount z = 0"
    and S': "S' = emit es S2"
  then have "shifts a (- (word_of (amount net) + word_of (amount cpu)) + word_of (amount delta)) S (S0\<lparr>rx := X2\<rparr>)"
    by (intro shifts_trans)
  also have "counts (S0\<lparr>rx := X2\<rparr>) S1" by (rule runrex_counts [OF E r])
  also have "counts S1 S2" by (rule counts_account [OF u])
  finally show ?thesis by (auto simp: S')
qed

section \<open>All actions\<close>

text \<open>The accounts whose stake an action may leave uncounted.\<close>

fun rex_miscounts :: "rex_action \<Rightarrow> name option" where
  "rex_miscounts (Unstaketorex a w net cpu) = Some a"
| "rex_miscounts (Closerex a) = Some a"
| "rex_miscounts x = None"

fun miscounts :: "system_action \<Rightarrow> name option" where
  "miscounts (Rex x) = rex_miscounts x"
| "miscounts (Stakes (Unstake_to_rex a w net cpu)) = Some a"
| "miscounts x = None"

definition counts_but :: "name option \<Rightarrow> system_state \<Rightarrow> system_state \<Rightarrow> bool" where
  "counts_but m S S' \<longleftrightarrow> (\<exists>d. shifts (case m of None \<Rightarrow> 0 | Some a \<Rightarrow> a) d S S' \<and> (m = None \<longrightarrow> d = 0))"

lemma counts_but_None [simp]: "counts_but None S S' = counts S S'"
  by (simp add: counts_but_def)

lemma rex_exec_counts:
  assumes E: "asset_wraps E" and run: "rex_exec E x S = Inr S'"
  shows "counts_but (rex_miscounts x) S S'"
proof (cases x)
  case (Unstaketorex a w net cpu)
  then show ?thesis using unstaketorex_shifts [OF E] run by (simp add: counts_but_def)
next
  case (Closerex a)
  then show ?thesis using closerex_shifts [OF E] run by (simp add: counts_but_def)
qed (use run in \<open>auto simp: rentcpu_def rentnet_def fundcpuloan_def fundnetloan_def defcpuloan_def defnetloan_def rexexec_def
    dest: deposit_counts withdraw_counts [OF E] buyrex_counts [OF E] sellrex_counts [OF E] cnclrexorder_counts
      rent_loan_counts [OF E] loan_fund_counts updaterex_counts [OF E] setrex_counts runrex_counts [OF E]
      consolidate_counts [OF E] mvtosavings_counts [OF E] mvfrsavings_counts [OF E]\<close>)

lemma stake_exec_counts:
  assumes E: "asset_wraps E" and run: "stake_exec E x S = Inr S'"
  shows "counts_but (miscounts (Stakes x)) S S'"
proof (cases x)
  case (Unstake_to_rex a w net cpu)
  then show ?thesis using unstaketorex_shifts [OF E] run by (simp add: counts_but_def)
qed (use run in \<open>auto simp: delegatebw_def undelegatebw_def dest: changebw_counts [OF E] refund_counts\<close>)

lemma system_exec_counts:
  assumes "asset_wraps E" "system_exec E T x S = Inr S'"
  shows "counts_but (miscounts x) S S'"
  using assms
  by (cases x) (auto dest: rex_exec_counts stake_exec_counts ram_exec_counts name_exec_counts vote_exec_counts admin_exec_counts
      claimrewards_counts)

lemma counts_butD:
  assumes "counts_but m S S'" "holders_vote S"
  shows "holders_vote S'" "m \<noteq> Some a \<Longrightarrow> word_of (uncounted a S') = word_of (uncounted a S)"
proof -
  obtain d where d: "shifts (case m of None \<Rightarrow> 0 | Some a \<Rightarrow> a) d S S'" "m = None \<longrightarrow> d = 0"
    using assms(1) unfolding counts_but_def by blast
  have u: "holders_vote S' \<and> (\<forall>b. word_of (uncounted b S') = word_of (uncounted b S) +
      (if b = (case m of None \<Rightarrow> 0 | Some a \<Rightarrow> a) then d else 0))"
    using d(1) assms(2) unfolding shifts_def by blast
  then show "holders_vote S'" ..
  show "word_of (uncounted a S') = word_of (uncounted a S)" if "m \<noteq> Some a"
    using u that d(2) by (cases m) auto
qed

interpretation stake_tally: tally holders_vote uncounted "\<lambda>x a. miscounts x \<noteq> Some a"
  by unfold_locales (blast dest: system_exec_counts counts_butD)+

text \<open>
  C6: The stake that an account votes with, together with the change that a filled order holds until the
  account is next settled, keeps its difference to what backs it: the tokens the account has delegated
  and the value its REX had when it was last computed (as \<open>int64_t\<close> values). So it is whatever actions of
  all accounts come in between, as long as the account neither buys REX with staked tokens nor closes
  its REX balance.
\<close>

theorem stake_counts_what_backs_it:
  assumes "holders_vote S" and "action_run (\<lambda>x. miscounts x \<noteq> Some a) S S'"
  shows "i64 (delegated_from a (rs S') + rex_stake_of a (rx S') - (staked_of a (vs S') + unsettled a (rx S'))) =
    i64 (delegated_from a (rs S) + rex_stake_of a (rx S) - (staked_of a (vs S) + unsettled a (rx S)))"
  using stake_tally.run_same [OF assms] by (simp add: uncounted_def algebra_simps)

text \<open>The maintenance leaves an account without an order as it is.\<close>

lemma run_orders_other:
  "\<forall>r\<in>set os. o_owner r \<noteq> a \<Longrightarrow> run_orders E core n os X = Inr (es, X') \<Longrightarrow>
    fmlookup (rexbalance X') a = fmlookup (rexbalance X) a \<and> fmlookup (rexorders X') a = fmlookup (rexorders X) a"
proof (induction E core n os X arbitrary: es rule: run_orders.induct)
  case (3 E core n r rest X)
  have fill: "fmlookup (rexbalance X1) a = fmlookup (rexbalance X) a \<and> rexorders X1 = rexorders X"
    if "fill_rex_order E core (o_owner r) q X = Inr (res, X1)" for q res X1
    using that 3(4) by (auto simp: fill_rex_order_def set_rexbal_def Let_def split: if_splits)
  show ?case
  proof (cases "is_open r \<and> fmlookup (rexbalance X) (o_owner r) \<noteq> None")
    case True
    then obtain res X1 where f: "fill_rex_order E core (o_owner r) (rex_requested r) X = Inr (res, X1)" using 3(5) by auto
    show ?thesis
    proof (cases "success res")
      case False
      then show ?thesis using "3.IH"(3) [OF _ _ f refl False] 3(4,5) True f fill [OF f] by auto
    next
      case s: True
      obtain X2 es' where X2: "X2 = X1\<lparr>rexorders := fmupd (o_owner r)
        (close_order (r\<lparr>proceeds := set_amt (amount (oo_proceeds res)) (proceeds r),
           stake_change := set_amt (amount (oo_stake_change res)) (stake_change r)\<rparr>)) (rexorders X1)\<rparr>"
        and es': "run_orders E core n rest X2 = Inr (es', X')"
        using 3(5) True f s by (auto simp: Let_def)
      have "fmlookup (rexbalance X') a = fmlookup (rexbalance X2) a \<and> fmlookup (rexorders X') a = fmlookup (rexorders X2) a"
        by (rule "3.IH"(2) [OF _ _ f refl s refl X2]) (use True 3(4) es' in auto)
      then show ?thesis using fill [OF f] 3(4) by (simp add: X2)
    qed
  next
    case False
    then show ?thesis using 3(4,5) "3.IH"(1) by (auto split: if_splits)
  qed
qed simp_all

lemma runrex_other:
  assumes run: "runrex E n S = Inr S'" and a: "\<forall>b r. fmlookup (rexorders (rx S)) b = Some r \<longrightarrow> o_owner r \<noteq> a"
  shows "fmlookup (rexbalance (rx S')) a = fmlookup (rexbalance (rx S)) a" "fmlookup (rexorders (rx S')) a = fmlookup (rexorders (rx S)) a"
    "delband (rs S') = delband (rs S)" "vs S' = vs S"
proof -
  obtain S1 S2 S3 es X and p :: rex_pool where 1: "(if 0 < amount (namebid_proceeds p) then
          bindE (channel_to_rex E names_account (namebid_proceeds p) S) (\<lambda>S.
          bindE (the_pool (rx S)) (\<lambda>rt.
          Inr (S\<lparr>rx := (rx S)\<lparr>rexpool :=
            Some (rt\<lparr>namebid_proceeds := set_amt 0 (namebid_proceeds rt)\<rparr>)\<rparr>\<rparr>)))
        else Inr S) = Inr S1"
    and 2: "run_loans E Cpu_loan n S1 = Inr S2" "run_loans E Net_loan n S2 = Inr S3"
    and 3: "run_orders E (core_symbol S3) n (index_by by_time (rexorders (rx S3))) (rx S3) = Inr (es, X)"
    and S': "S' = emit es (S3\<lparr>rx := X\<rparr>)"
    using run unfolding runrex_def bindE_eq_Inr the_pool_def by (clarsimp cong: if_cong)
  have t: "rexbalance (rx S3) = rexbalance (rx S)" "rexorders (rx S3) = rexorders (rx S)"
    using 1 run_loans_tables [OF 2(1)] run_loans_tables [OF 2(2)] by (auto split: if_splits dest: channel_tables)
  have "\<forall>r\<in>set (index_by by_time (rexorders (rx S3))). o_owner r \<noteq> a" using a by (auto simp: t(2))
  from run_orders_other [OF this 3]
  show "fmlookup (rexbalance (rx S')) a = fmlookup (rexbalance (rx S)) a" "fmlookup (rexorders (rx S')) a = fmlookup (rexorders (rx S)) a"
    by (simp_all add: S' t)
  show "delband (rs S') = delband (rs S)" "vs S' = vs S"
    using runrex_quiet [OF run] runrex_vs [OF run] by (simp_all add: stake_quiet_def)
qed

text \<open>
  C8: Buying REX with staked tokens leaves the stake as it was, although the value of the REX is computed
  anew: the growth of that value since it was last computed is not counted, neither now nor later.
\<close>

theorem unstaking_to_rex_loses_growth:
  assumes E: "asset_wraps E" and h: "holders_vote S" and run: "unstaketorex E a w net cpu S = Inr S'"
    and o: "fmlookup (rexorders (rx S)) a = None"
  shows "i64 (staked_of a (vs S')) = i64 (staked_of a (vs S)) \<and>
    i64 (delegated_from a (rs S')) = i64 (delegated_from a (rs S) - amount net - amount cpu) \<and>
    i64 (uncounted a S') = i64 (uncounted a S + (rex_stake_of a (rx S') - rex_stake_of a (rx S) - amount net - amount cpu))"
  using E run
proof (rule unstaketorex_parts)
  fix S0 X1 X2 S1 r S2 es core and pay recv delta z :: asset
  assume v: "vs S0 = vs S" "rx S0 = rx S"
    and d: "\<And>b. word_of (delegated_from b (rs S0)) = word_of (delegated_from b (rs S)) -
       (if b = a then word_of (amount net) + word_of (amount cpu) else 0)"
    and p: "add_to_rex_pool E core pay (rx S) = Inr (recv, X1)" "add_to_rex_balance E core a pay recv X1 = Inr (delta, X2)"
    and r: "runrex E 2 (S0\<lparr>rx := X2\<rparr>) = Inr S1"
    and u: "amount z = 0" "update_rex_account E a z z True S1 = Inr (r, S2)" and S': "S' = emit es S2"
  note B = bought_stake [OF E p(2)] and P = add_to_pool_tables [OF p(1)]
  have o2: "rexorders X2 = rexorders (rx S)" using B(2) P(2) by simp
  have a: "\<forall>b r. fmlookup (rexorders (rx (S0\<lparr>rx := X2\<rparr>))) b = Some r \<longrightarrow> o_owner r \<noteq> a"
    using o holders_voteD(2) [OF h] by (auto simp: o2)
  note R = runrex_other [OF r a]
  obtain V where a1: "update_voting_power E a z (vs S1) = Inr V" and S2: "S2 = S1\<lparr>vs := V\<rparr>"
    using u R(2) o o2 by (auto simp: update_rex_account_def on_vs_def)
  have st: "word_of (staked_of a (vs S')) = word_of (staked_of a (vs S))"
    using word_staked_power [OF a1, of a] u(1) R(4) v by (simp add: S' S2)
  have dl: "word_of (delegated_from a (rs S')) = word_of (delegated_from a (rs S)) - (word_of (amount net) + word_of (amount cpu))"
    using d [of a] delegated_from_cong [OF R(3), of a] by (simp add: S' S2)
  have un: "unsettled a (rx S') = 0" "unsettled a (rx S) = 0"
    using R(2) o o2 by (simp_all add: unsettled_def S' S2)
  have "word_of (uncounted a S') = word_of (uncounted a S + (rex_stake_of a (rx S') - rex_stake_of a (rx S) - amount net - amount cpu))"
    using st dl by (simp add: uncounted_def un)
  then show ?thesis using st dl by (simp add: word_of_eq [symmetric] algebra_simps)
qed

text \<open>
  \<open>alice\<close> has REX worth a million, of which 900000 are counted since its value was last computed, and
  500 delegated. She could sell all her REX; once she has unstaked the 500 to REX she cannot.
\<close>

definition grown_state :: system_state where
  "grown_state = demo_state\<lparr>
     vs := demo_voting\<lparr>voters := fmupd alice ((new_voter alice)\<lparr>proxy := carol, staked := 900500\<rparr>)
       (voters demo_voting)\<rparr>,
     rs := \<lparr>userres = fmupd alice \<lparr>ur_owner = alice, ur_net_weight = coins 500, ur_cpu_weight = coins 0, ram_bytes = 0\<rparr> fmempty,
       delband = fmupd (alice, alice) \<lparr>db_from = alice, db_to = alice, db_net_weight = coins 500, db_cpu_weight = coins 0\<rparr> fmempty,
       refunds = fmempty, limits = limits (rs demo_state)\<rparr>,
     rx := demo_rex\<lparr>rexbalance := fmupd alice (alice_rex\<lparr>vote_stake := coins 900000, matured_rex := 10000000000,
       rex_maturities := []\<rparr>) fmempty\<rparr>\<rparr>"

lemma grown_holders: "holders_vote grown_state"
  by (auto simp: holders_vote_def grown_state_def demo_rex_def demo_voting_def split: if_splits)

lemma grown_run:
  "case unstaketorex ref_env alice alice (coins 500) (coins 0) grown_state of
     Inr S' \<Rightarrow> rex_stake_of alice (rx S') = 1000500 \<and>
       sellrex ref_env alice (rexes 10000000000) S' = Inl (Check ''stake for voting cannot be negative'')
   | Inl _ \<Rightarrow> False"
  by code_simp

lemma grown_values: "uncounted alice grown_state = 0" "rex_stake_of alice (rx grown_state) = 900000"
    "staked_of alice (vs grown_state) = 900500" "fmlookup (rexorders (rx grown_state)) alice = None"
  by (simp_all add: uncounted_def grown_state_def demo_rex_def demo_voting_def staked_of_def delegated_from_def rex_stake_of_def
      unsettled_def db_stake_def cong del: fmfilter_cong)

theorem unstaking_to_rex_loses_growth_witness:
  "\<exists>S'. unstaketorex ref_env alice alice (coins 500) (coins 0) grown_state = Inr S' \<and>
     i64 (staked_of alice (vs S')) = 900500 \<and> i64 (uncounted alice S') = 100000 \<and>
     sellrex ref_env alice (rexes 10000000000) S' = Inl (Check ''stake for voting cannot be negative'')"
proof -
  obtain S' where r: "unstaketorex ref_env alice alice (coins 500) (coins 0) grown_state = Inr S'"
    "rex_stake_of alice (rx S') = 1000500"
    "sellrex ref_env alice (rexes 10000000000) S' = Inl (Check ''stake for voting cannot be negative'')"
    using grown_run by (auto split: sum.splits)
  show ?thesis
    using r unstaking_to_rex_loses_growth [OF ref_env_wraps grown_holders r(1) grown_values(4)]
    by (simp add: grown_values r(2) i64_id is_i64_def)
qed

text \<open>
  She has queued an order for all of it, which \<open>bob\<close> starts: the value of her REX is gone, her stake stays
  for now, and the order holds the difference.
\<close>

definition queued_state :: system_state where
  "queued_state = grown_state\<lparr>rx := (rx grown_state)\<lparr>rexorders := fmupd alice \<lparr>o_owner = alice, rex_requested = rexes 10000000000,
     proceeds = coins 0, stake_change = coins 0, order_time = 0, is_open = True\<rparr> fmempty\<rparr>\<rparr>"

lemma queued_holders: "holders_vote queued_state"
  by (auto simp: holders_vote_def queued_state_def grown_state_def demo_rex_def demo_voting_def split: if_splits)

lemma queued_run:
  "case system_exec ref_env full_bank (Rex (Rexexec bob 2)) queued_state of
     Inr S' \<Rightarrow> staked_of alice (vs S') = 900500 \<and> unsettled alice (rx S') = - 900000 | Inl _ \<Rightarrow> False"
  by code_simp

lemma queued_values: "delegated_from alice (rs queued_state) = 500" "rex_stake_of alice (rx queued_state) = 900000"
    "staked_of alice (vs queued_state) = 900500" "unsettled alice (rx queued_state) = 0"
  by (simp_all add: queued_state_def grown_state_def demo_rex_def demo_voting_def staked_of_def delegated_from_def rex_stake_of_def
      unsettled_def db_stake_def cong del: fmfilter_cong)

theorem stake_counts_what_backs_it_witness:
  "\<exists>S'. action_run (\<lambda>x. miscounts x \<noteq> Some alice) queued_state S' \<and> staked_of alice (vs S') = 900500 \<and>
     unsettled alice (rx S') = - 900000 \<and> i64 (delegated_from alice (rs S') + rex_stake_of alice (rx S') - 500) = 0"
proof -
  obtain S' where r: "system_exec ref_env full_bank (Rex (Rexexec bob 2)) queued_state = Inr S'"
    "staked_of alice (vs S') = 900500" "unsettled alice (rx S') = - 900000"
    using queued_run by (auto split: sum.splits)
  have run: "action_run (\<lambda>x. miscounts x \<noteq> Some alice) queued_state S'"
    by (rule action_step [OF action_start ref_env_wraps _ r(1)]) simp
  show ?thesis
    using run r(2,3) stake_counts_what_backs_it [OF queued_holders run] by (auto simp: queued_values i64_id is_i64_def)
qed

end
