(* ===== verification/Bandwidth.thy ===== *)
theory Bandwidth
  imports Tally
begin

text \<open>
  What an account may use: the weight of its row in \<open>userres\<close>, for each of network and processor
  time, is what others and itself have delegated to it and what has been rented for it, and the limit
  that the chain applies to the account is that weight, unless it is managed by hand. Staking, the
  REX and its maintenance change all these tables, each in its own way.
\<close>

section \<open>Limits and what backs them\<close>

definition weight_of_kind :: "loan_kind \<Rightarrow> user_resources \<Rightarrow> int" where
  "weight_of_kind k u = (case k of Cpu_loan \<Rightarrow> amount (ur_cpu_weight u) | Net_loan \<Rightarrow> amount (ur_net_weight u))"

definition share_of_kind :: "loan_kind \<Rightarrow> delegated_bandwidth \<Rightarrow> int" where
  "share_of_kind k d = (case k of Cpu_loan \<Rightarrow> amount (db_cpu_weight d) | Net_loan \<Rightarrow> amount (db_net_weight d))"

definition row_weight :: "loan_kind \<Rightarrow> name \<Rightarrow> resource_state \<Rightarrow> int" where
  "row_weight k a R = tval (weight_of_kind k) (userres R) a"

definition staked_for :: "loan_kind \<Rightarrow> name \<Rightarrow> resource_state \<Rightarrow> int" where
  "staked_for k a R = tsum (share_of_kind k) (fmfilter (\<lambda>p. snd p = a) (delband R))"

definition rented_for :: "loan_kind \<Rightarrow> name \<Rightarrow> rex_state \<Rightarrow> int" where
  "rented_for k a X = tsum (\<lambda>l. if l_receiver l = a then amount (total_staked l) else 0) (loans k X)"

fun unbacked :: "loan_kind \<times> name \<Rightarrow> system_state \<Rightarrow> int" where
  "unbacked (k, a) S = row_weight k a (rs S) - staked_for k a (rs S) - rented_for k a (rx S)"

definition loans_named :: "system_state \<Rightarrow> bool" where
  "loans_named S \<longleftrightarrow> (\<forall>k n l. fmlookup (loans k (rx S)) n = Some l \<longrightarrow> l_loan_num l = n)"

text \<open>
  The limit that the chain applies to an account (\<open>set_resource_limits\<close>); a flag of the voter row tells
  whether it is managed.
\<close>

definition chain_limit :: "loan_kind \<Rightarrow> name \<Rightarrow> resource_state \<Rightarrow> int" where
  "chain_limit k a R = tval (\<lambda>(ram, net, cpu). case k of Cpu_loan \<Rightarrow> cpu | Net_loan \<Rightarrow> net) (limits R) a"

fun managed_kind :: "loan_kind \<Rightarrow> flags1_fields" where
  "managed_kind Cpu_loan = cpu_managed"
| "managed_kind Net_loan = net_managed"

definition mirrored :: "name \<Rightarrow> voting_state \<Rightarrow> resource_state \<Rightarrow> bool" where
  "mirrored c V R \<longleftrightarrow> (\<forall>k. \<not> managed_flag V c (managed_kind k) \<longrightarrow> chain_limit k c R = row_weight k c R)"

text \<open>
  A step that leaves the rows of the loans in order, adds to what \<open>a\<close> may use without backing, and keeps
  the limits of the account \<open>c\<close> at its weights.
\<close>

definition frees :: "name \<Rightarrow> name \<Rightarrow> (loan_kind \<Rightarrow> 64 word) \<Rightarrow> system_state \<Rightarrow> system_state \<Rightarrow> bool" where
  "frees c a f S S' \<longleftrightarrow> (loans_named S \<longrightarrow> loans_named S' \<and>
     (\<forall>k b. word_of (unbacked (k, b) S') = word_of (unbacked (k, b) S) + (if b = a then f k else 0))) \<and>
     (mirrored c (vs S) (rs S) \<longrightarrow> mirrored c (vs S') (rs S'))"

definition evens :: "name \<Rightarrow> system_state \<Rightarrow> system_state \<Rightarrow> bool" where
  "evens c S S' \<longleftrightarrow> frees c 0 (\<lambda>_. 0) S S'"

lemma freesI:
  assumes "\<And>k b. loans_named S \<Longrightarrow> word_of (unbacked (k, b) S') = word_of (unbacked (k, b) S) + (if b = a then f k else 0)"
    and "\<And>k n l. loans_named S \<Longrightarrow> fmlookup (loans k (rx S')) n = Some l \<Longrightarrow> l_loan_num l = n"
    and "mirrored c (vs S) (rs S) \<Longrightarrow> mirrored c (vs S') (rs S')"
  shows "frees c a f S S'"
  unfolding frees_def loans_named_def [of S'] using assms by iprover

lemma loans_namedD: "loans_named S \<Longrightarrow> fmlookup (loans k (rx S)) n = Some l \<Longrightarrow> l_loan_num l = n"
  unfolding loans_named_def by iprover

lemma evens_refl [simp]: "evens c S S"
  by (simp add: evens_def frees_def)

lemma evens_trans [trans]: "evens c S S1 \<Longrightarrow> evens c S1 S2 \<Longrightarrow> evens c S S2"
  by (simp add: evens_def frees_def)

text \<open>What one step frees another takes.\<close>

lemma frees_cancel:
  assumes "frees c a f S S1" "frees c a g S1 S2" "\<And>k. f k + g k = 0"
  shows "evens c S S2"
  using assms unfolding evens_def frees_def
  by (auto simp: add.assoc simp del: unbacked.simps)

text \<open>Steps that write none of the three tables, or not these columns.\<close>

lemma mirrored_same:
  assumes "flags_of c V' = flags_of c V" "fmlookup (limits R') c = fmlookup (limits R) c" "fmlookup (userres R') c = fmlookup (userres R) c"
  shows "mirrored c V' R' = mirrored c V R"
  using assms by (simp add: mirrored_def managed_flag_of chain_limit_def row_weight_def tval_def)

lemma flags_voters: "voters V' = voters V \<Longrightarrow> flags_of a V' = flags_of a V"
  by (simp add: flags_of_def)

lemma mirrored_frame [simp]:
  "mirrored c (V\<lparr>gstate := g\<rparr>) R = mirrored c V R" "mirrored c (V\<lparr>gstate2 := g2\<rparr>) R = mirrored c V R"
  "mirrored c (V\<lparr>gstate3 := g3\<rparr>) R = mirrored c V R" "mirrored c (V\<lparr>producers := p\<rparr>) R = mirrored c V R"
  "mirrored c (V\<lparr>producers2 := p2\<rparr>) R = mirrored c V R"
  "mirrored c V (R\<lparr>refunds := r\<rparr>) = mirrored c V R" "mirrored c V (R\<lparr>delband := d\<rparr>) = mirrored c V R"
  by (simp_all add: mirrored_def managed_flag_def chain_limit_def row_weight_def)

lemma evens_tables:
  assumes "\<And>k a. row_weight k a (rs S') = row_weight k a (rs S)" "delband (rs S') = delband (rs S)" "\<And>k. loans k (rx S') = loans k (rx S)"
    and "mirrored c (vs S) (rs S) \<Longrightarrow> mirrored c (vs S') (rs S')"
  shows "evens c S S'"
  unfolding evens_def
proof (rule freesI)
  fix k b n l
  assume h: "loans_named S"
  have "staked_for k b (rs S') = staked_for k b (rs S)" by (simp only: staked_for_def assms(2))
  then show "word_of (unbacked (k, b) S') = word_of (unbacked (k, b) S) + (if b = 0 then 0 else 0)"
    by (simp add: assms(1) rented_for_def assms(3))
  show "l_loan_num l = n" if "fmlookup (loans k (rx S')) n = Some l"
    using loans_namedD [OF h] that unfolding assms(3) by iprover
qed (rule assms(4))

lemma row_weight_cong: "userres R' = userres R \<Longrightarrow> row_weight k a R' = row_weight k a R"
  by (simp add: row_weight_def)

lemma evens_simps [simp]:
  "evens c S (emit es S') = evens c S S'" "evens c (emit es S) S' = evens c S S'"
  "evens c S (S'\<lparr>rammarket := M\<rparr>) = evens c S S'" "evens c S (S'\<lparr>ns := N\<rparr>) = evens c S S'" "evens c S (S'\<lparr>abihash := H\<rparr>) = evens c S S'"
  by (simp_all add: evens_def frees_def loans_named_def)

lemma evens_vs:
  assumes "flags_of c V = flags_of c (vs S)"
  shows "evens c S (S\<lparr>vs := V\<rparr>)"
  by (rule evens_tables) (simp_all add: mirrored_same [OF assms, of "rs S" "rs S"])

lemma frees_emit [simp]: "frees c a f S (emit es S') = frees c a f S S'"
  by (simp add: frees_def loans_named_def)

lemma evens_rx: "(\<And>k. loans k X = loans k (rx S)) \<Longrightarrow> evens c S (S\<lparr>rx := X\<rparr>)"
  by (rule evens_tables) simp_all

section \<open>Account limits\<close>

definition kind_amount :: "int \<Rightarrow> int \<Rightarrow> loan_kind \<Rightarrow> 64 word" where
  "kind_amount net cpu k = (case k of Cpu_loan \<Rightarrow> word_of cpu | Net_loan \<Rightarrow> word_of net)"

lemma limit_row:
  assumes "userres R' = (if ur_is_empty u then fmdrop a (userres R) else fmupd a u (userres R))"
  shows "row_weight k b R' = (if b = a then weight_of_kind k u else row_weight k b R)"
proof -
  have "ur_is_empty u \<Longrightarrow> weight_of_kind k u = 0" by (simp add: ur_is_empty_def weight_of_kind_def split: loan_kind.split)
  then show ?thesis unfolding row_weight_def assms by auto
qed

lemma frees_limits:
  assumes "rx S' = rx S" "delband (rs S') = delband (rs S)"
    and "\<And>k b. word_of (row_weight k b (rs S')) = word_of (row_weight k b (rs S)) + (if b = a then f k else 0)"
    and "mirrored c (vs S) (rs S) \<Longrightarrow> mirrored c (vs S') (rs S')"
  shows "frees c a f S S'"
proof (rule freesI)
  fix k b n l
  assume h: "loans_named S"
  have "staked_for k b (rs S') = staked_for k b (rs S)" by (simp only: staked_for_def assms(2))
  then show "word_of (unbacked (k, b) S') = word_of (unbacked (k, b) S) + (if b = a then f k else 0)"
    using assms(3) [of k b] by (simp add: assms(1))
  show "l_loan_num l = n" if "fmlookup (loans k (rx S')) n = Some l"
    using loans_namedD [OF h] that unfolding assms(1) .
qed (rule assms(4))

text \<open>Writing the limits of \<open>a\<close> together with its weights.\<close>

lemma limits_mirrored:
  assumes S': "vs S' = vs S" "\<And>b. b \<noteq> a \<Longrightarrow> fmlookup (limits (rs S')) b = fmlookup (limits (rs S)) b"
      "\<And>b. b \<noteq> a \<Longrightarrow> fmlookup (userres (rs S')) b = fmlookup (userres (rs S)) b"
    and "\<And>k. \<not> managed_flag (vs S) a (managed_kind k) \<Longrightarrow> chain_limit k a (rs S') = row_weight k a (rs S')"
  shows "mirrored c (vs S) (rs S) \<Longrightarrow> mirrored c (vs S') (rs S')"
proof (cases "c = a")
  case False
  then show "mirrored c (vs S) (rs S) \<Longrightarrow> mirrored c (vs S') (rs S')" using mirrored_same [of c "vs S'" "vs S" "rs S'" "rs S"] S' by simp
qed (simp add: mirrored_def assms(1,4))

lemma update_limits_frees:
  assumes E: "asset_wraps E" and run: "update_resource_limits E a net cpu S = Inr S'"
  shows "frees c a (kind_amount net cpu) S S'"
proof (cases "cpu = 0 \<and> net = 0")
  case True
  then show ?thesis using run by (auto simp: update_resource_limits_def frees_def kind_amount_def split: loan_kind.split)
next
  case False
  obtain u R where
    u: "(case fmlookup (userres (rs S)) a of
             None \<Rightarrow>
               bindE (check (0 \<le> net \<and> 0 \<le> cpu) ''logic error, should not occur'') (\<lambda>_.
               bindE (core_symbol S) (\<lambda>cs.
               bindE (new_asset E net cs) (\<lambda>n.
               bindE (new_asset E cpu cs) (\<lambda>c.
               Inr \<lparr>ur_owner = a, ur_net_weight = n, ur_cpu_weight = c, ram_bytes = 0\<rparr>))))
           | Some tot \<Rightarrow>
               Inr (tot\<lparr>ur_net_weight := inc_amt net (ur_net_weight tot),
                        ur_cpu_weight := inc_amt cpu (ur_cpu_weight tot)\<rparr>)) = Inr u"
    and l: "(if \<not> (managed_flag (vs S) a net_managed \<and> managed_flag (vs S) a cpu_managed) then
             bindE (get_resource_limits a (rs S)) (\<lambda>(ram, n, c).
             Inr (set_resource_limits a ram
               (if managed_flag (vs S) a net_managed then n else amount (ur_net_weight u))
               (if managed_flag (vs S) a cpu_managed then c else amount (ur_cpu_weight u)) (rs S)))
           else Inr (rs S)) = Inr R"
    and S': "S' = S\<lparr>rs := R\<lparr>userres := (if ur_is_empty u then fmdrop a (userres R) else fmupd a u (userres R))\<rparr>\<rparr>"
    using run unfolding update_resource_limits_def Let_def if_not_P [OF False] bindE_eq_Inr sum.inject by blast
  have R: "userres R = userres (rs S)" "delband R = delband (rs S)" using l by (auto split: if_splits)
  have w: "word_of (weight_of_kind k u) = word_of (row_weight k a (rs S)) + kind_amount net cpu k" for k
    using u asset_wrapsD(3) [OF E]
    by (cases k) (auto simp: weight_of_kind_def row_weight_def kind_amount_def split: option.splits)
  have "userres (rs S') = (if ur_is_empty u then fmdrop a (userres (rs S)) else fmupd a u (userres (rs S)))"
    by (simp add: S' R)
  note L = limit_row [OF this]
  have "chain_limit k a (rs S') = row_weight k a (rs S')" if "\<not> managed_flag (vs S) a (managed_kind k)" for k
    using l that by (cases k) (auto simp: S' L [unfolded S', simplified] chain_limit_def weight_of_kind_def set_resource_limits_def)
  moreover have "fmlookup (limits R) b = fmlookup (limits (rs S)) b" if "b \<noteq> a" for b
    using l that by (auto simp: set_resource_limits_def split: if_splits)
  ultimately have "mirrored c (vs S) (rs S) \<Longrightarrow> mirrored c (vs S') (rs S')"
    by (intro limits_mirrored [of S' S a]) (simp_all add: S' R)
  then show ?thesis by (intro frees_limits) (simp_all add: S' R L [unfolded S', simplified] w)
qed

section \<open>Stakes\<close>

lemma staked_row:
  assumes "delband R' = (if db_is_empty d then fmdrop (a, w) (delband R) else fmupd (a, w) d (delband R))"
  shows "staked_for k b R' = staked_for k b R + (if b = w then share_of_kind k d - tval (share_of_kind k) (delband R) (a, w) else 0)"
proof -
  have "db_is_empty d \<Longrightarrow> share_of_kind k d = 0" by (simp add: db_is_empty_def share_of_kind_def split: loan_kind.split)
  then show ?thesis unfolding staked_for_def assms by auto
qed

lemma take_delband_shares:
  assumes "take_delband a w net cpu R = Inr R'"
  shows "word_of (staked_for k b R') = word_of (staked_for k b R) - (if b = w then kind_amount (amount net) (amount cpu) k else 0)"
    "userres R' = userres R" "limits R' = limits R"
proof -
  obtain d d' where d: "fmlookup (delband R) (a, w) = Some d" and
    d': "d' = d\<lparr>db_net_weight := inc_amt (- amount net) (db_net_weight d), db_cpu_weight := inc_amt (- amount cpu) (db_cpu_weight d)\<rparr>" and
    R': "delband R' = (if db_is_empty d' then fmdrop (a, w) (delband R) else fmupd (a, w) d' (delband R))" "userres R' = userres R" "limits R' = limits R"
    using assms by (auto simp: take_delband_def Let_def)
  have "word_of (share_of_kind k d') = word_of (share_of_kind k d) - kind_amount (amount net) (amount cpu) k"
    by (cases k) (simp_all add: share_of_kind_def d' kind_amount_def)
  then show "word_of (staked_for k b R') = word_of (staked_for k b R) - (if b = w then kind_amount (amount net) (amount cpu) k else 0)"
    using d by (simp add: staked_row [OF R'(1)])
  show "userres R' = userres R" "limits R' = limits R" by (rule R'(2,3))+
qed

lemma change_delband_shares:
  assumes E: "asset_wraps E" and run: "change_delband E a w net cpu R = Inr R'"
  shows "word_of (staked_for k b R') = word_of (staked_for k b R) + (if b = w then kind_amount (amount net) (amount cpu) k else 0)"
    "userres R' = userres R"
proof -
  obtain d where d: "(case fmlookup (delband R) (a, w) of
          None \<Rightarrow> Inr \<lparr>db_from = a, db_to = w, db_net_weight = net, db_cpu_weight = cpu\<rparr>
        | Some dbo \<Rightarrow>
            bindE (add_asset E (db_net_weight dbo) net) (\<lambda>n.
            bindE (add_asset E (db_cpu_weight dbo) cpu) (\<lambda>c.
            Inr (dbo\<lparr>db_net_weight := n, db_cpu_weight := c\<rparr>)))) = Inr d" and
    R': "delband R' = (if db_is_empty d then fmdrop (a, w) (delband R) else fmupd (a, w) d (delband R))" "userres R' = userres R"
    using run by (auto simp: change_delband_def)
  have "word_of (share_of_kind k d) = word_of (tval (share_of_kind k) (delband R) (a, w)) + kind_amount (amount net) (amount cpu) k"
    using d by (cases k) (auto simp: share_of_kind_def kind_amount_def split: option.splits dest!: asset_wrapsD(1) [OF E])
  then show "word_of (staked_for k b R') = word_of (staked_for k b R) + (if b = w then kind_amount (amount net) (amount cpu) k else 0)"
    by (simp add: staked_row [OF R'(1)])
  show "userres R' = userres R" by (rule R'(2))
qed

lemma change_totals_limits:
  assumes E: "asset_wraps E" and run: "change_totals E w net cpu V R = Inr R'"
  shows "word_of (row_weight k b R') = word_of (row_weight k b R) + (if b = w then kind_amount (amount net) (amount cpu) k else 0)"
proof -
  obtain u R1 where
    u: "(case fmlookup (userres R) w of
             None \<Rightarrow> Inr \<lparr>ur_owner = w, ur_net_weight = net, ur_cpu_weight = cpu, ram_bytes = 0\<rparr>
           | Some tot \<Rightarrow>
               bindE (add_asset E (ur_net_weight tot) net) (\<lambda>n.
               bindE (add_asset E (ur_cpu_weight tot) cpu) (\<lambda>c.
               Inr (tot\<lparr>ur_net_weight := n, ur_cpu_weight := c\<rparr>)))) = Inr u"
    and l: "(if \<not> (managed_flag V w net_managed \<and> managed_flag V w cpu_managed) then
             bindE (get_resource_limits w R) (\<lambda>(ram, n, c).
             Inr (set_resource_limits w
               (if managed_flag V w ram_managed then ram else max (i64 (ram_bytes u + ram_gift_bytes)) ram)
               (if managed_flag V w net_managed then n else amount (ur_net_weight u))
               (if managed_flag V w cpu_managed then c else amount (ur_cpu_weight u)) R))
           else Inr R) = Inr R1"
    and R': "R' = R1\<lparr>userres := (if ur_is_empty u then fmdrop w (userres R1) else fmupd w u (userres R1))\<rparr>"
    using run unfolding change_totals_def Let_def bindE_eq_Inr sum.inject by blast
  have R: "userres R1 = userres R" using l by (cases "\<not> (managed_flag V w net_managed \<and> managed_flag V w cpu_managed)") auto
  have "userres R' = (if ur_is_empty u then fmdrop w (userres R) else fmupd w u (userres R))" by (simp add: R' R)
  note L = limit_row [OF this]
  have "word_of (weight_of_kind k u) = word_of (row_weight k w R) + kind_amount (amount net) (amount cpu) k"
    using u by (cases k) (auto simp: weight_of_kind_def row_weight_def kind_amount_def split: option.splits
        dest!: asset_wrapsD(1) [OF E])
  then show ?thesis by (simp add: L)
qed

lemma change_totals_mirrored:
  assumes run: "change_totals E w net cpu V R = Inr R'"
  shows "mirrored c V R \<Longrightarrow> mirrored c V R'"
proof -
  obtain u R1 where
    l: "(if \<not> (managed_flag V w net_managed \<and> managed_flag V w cpu_managed) then
             bindE (get_resource_limits w R) (\<lambda>(ram, n, c).
             Inr (set_resource_limits w
               (if managed_flag V w ram_managed then ram else max (i64 (ram_bytes u + ram_gift_bytes)) ram)
               (if managed_flag V w net_managed then n else amount (ur_net_weight u))
               (if managed_flag V w cpu_managed then c else amount (ur_cpu_weight u)) R))
           else Inr R) = Inr R1"
    and R': "R' = R1\<lparr>userres := (if ur_is_empty u then fmdrop w (userres R1) else fmupd w u (userres R1))\<rparr>"
    using run unfolding change_totals_def Let_def bindE_eq_Inr sum.inject by blast
  have R: "userres R1 = userres R" "b \<noteq> w \<Longrightarrow> fmlookup (limits R1) b = fmlookup (limits R) b" for b
    using l by (cases "\<not> (managed_flag V w net_managed \<and> managed_flag V w cpu_managed)"; auto simp: set_resource_limits_def)+
  have "chain_limit k w R' = row_weight k w R'" if "\<not> managed_flag V w (managed_kind k)" for k
    using l that limit_row [of R' u w R1 k w]
    by (cases k) (auto simp: R' chain_limit_def weight_of_kind_def set_resource_limits_def)
  then show "mirrored c V R \<Longrightarrow> mirrored c V R'"
    using mirrored_same [of c V V R' R] R by (cases "c = w") (simp_all add: mirrored_def R')
qed

lemma update_rex_stake_evens:
  assumes "update_rex_stake E a S = Inr S'"
  shows "evens c S S'"
proof -
  obtain d X where r: "refresh_rex_stake E (core_symbol S) a (rx S) = Inr (d, X)"
    using assms by (auto simp: update_rex_stake_def)
  then have S': "S' = (if d \<noteq> 0 then (case fmlookup (voters (vs S)) a of None \<Rightarrow> S\<lparr>rx := X\<rparr>
      | Some v \<Rightarrow> S\<lparr>rx := X\<rparr>\<lparr>vs := (vs S)\<lparr>voters := fmupd a (v\<lparr>staked := i64 (staked v + d)\<rparr>) (voters (vs S))\<rparr>\<rparr>) else S\<lparr>rx := X\<rparr>)"
    using assms by (auto simp: update_rex_stake_def Let_def split: option.split)
  have "loans k X = loans k (rx S)" for k
    using r by (auto simp: refresh_rex_stake_def set_rexbal_def loans_def split: option.splits if_splits loan_kind.split)
  then have "evens c S (S\<lparr>rx := X\<rparr>)" by (rule evens_rx)
  have "evens c (S\<lparr>rx := X\<rparr>) (S\<lparr>rx := X\<rparr>\<lparr>vs := (vs S)\<lparr>voters := fmupd a (v\<lparr>staked := i64 (staked v + d)\<rparr>) (voters (vs S))\<rparr>\<rparr>)"
    if "fmlookup (voters (vs S)) a = Some v" for v
    by (rule evens_vs) (use that in \<open>auto simp: flags_of_def\<close>)
  then have "evens c (S\<lparr>rx := X\<rparr>) S'" by (simp add: S' split: option.split)
  with \<open>evens c S (S\<lparr>rx := X\<rparr>)\<close> show ?thesis by (rule evens_trans)
qed

lemma on_vs_evens:
  assumes "on_vs f S = Inr S'" "\<And>V. f (vs S) = Inr V \<Longrightarrow> columns_same (vs S) V \<or> flags_of c V = flags_of c (vs S)"
  shows "evens c S S'"
  using assms by (fastforce simp: on_vs_def columns_same_def intro: evens_vs)

lemma power_flags: "update_voting_power E a q V = Inr V' \<Longrightarrow> flags_of c V' = flags_of c V"
proof -
  assume run: "update_voting_power E a q V = Inr V'"
  define v where "v = (case fmlookup (voters V) a of None \<Rightarrow> (new_voter a)\<lparr>staked := amount q\<rparr>
    | Some v \<Rightarrow> v\<lparr>staked := i64 (staked v + amount q)\<rparr>)"
  let ?V = "V\<lparr>voters := fmupd a v (voters V)\<rparr>"
  have "(if v_producers v \<noteq> [] \<or> proxy v \<noteq> 0 then update_votes E a (proxy v) (v_producers v) False ?V else Inr ?V) = Inr V'"
    using run unfolding update_voting_power_def v_def [symmetric] Let_def bindE_eq_Inr by blast
  then have "columns_same ?V V'" by (auto split: if_splits dest: update_votes_columns)
  then have "flags_of c V' = flags_of c ?V" by (simp add: columns_same_def)
  then show ?thesis by (simp add: flags_of_def v_def new_voter_def split: option.split)
qed

lemma power_evens: "on_vs (update_voting_power E a q) S = Inr S' \<Longrightarrow> evens c S S'"
  by (erule on_vs_evens) (simp add: power_flags)

lemma changebw_evens:
  assumes E: "asset_wraps E" and run: "changebw E a w dnet dcpu transfer S = Inr S'"
  shows "evens c S S'"
proof -
  let ?a = "if transfer then w else a"
  obtain both R1 R2 S1 S2 where
    r: "change_delband E ?a w dnet dcpu (rs S) = Inr R1" "change_totals E w dnet dcpu (vs S) R1 = Inr R2" and
    1: "(if stake_account \<noteq> a then
          bindE (change_refund E (core_symbol S) ?a (\<not> transfer \<and> ?a = w) dnet dcpu (refunds R2))
            (\<lambda>(net, cpu, need_deferred_trx, T).
          bindE (settle_stake E a ?a net cpu need_deferred_trx) (\<lambda>es.
          Inr (emit es (S\<lparr>rs := R2\<lparr>refunds := T\<rparr>\<rparr>))))
        else Inr (S\<lparr>rs := R2\<rparr>)) = Inr S1" and
    3: "update_rex_stake E ?a S1 = Inr S2" "on_vs (update_voting_power E ?a both) S2 = Inr S'"
    using run unfolding changebw_steps by blast
  have S1: "rx S1 = rx S" "vs S1 = vs S" "delband (rs S1) = delband R1" "userres (rs S1) = userres R2" "limits (rs S1) = limits R2"
    using 1 change_totals_frame [OF r(2)] by (auto split: if_splits)
  have "word_of (row_weight k b (rs S1)) - word_of (staked_for k b (rs S1)) = word_of (row_weight k b (rs S)) - word_of (staked_for k b (rs S))" for k b
  proof -
    have "staked_for k b (rs S1) = staked_for k b R1" "row_weight k b (rs S1) = row_weight k b R2" "row_weight k b R1 = row_weight k b (rs S)"
      using change_delband_shares(2) [OF E r(1)] by (simp_all only: staked_for_def row_weight_def S1)
    then show ?thesis
      using change_totals_limits [OF E r(2), of k b] change_delband_shares(1) [OF E r(1), of k b] by simp
  qed
  moreover have "mirrored c (vs S) (rs S1)" if "mirrored c (vs S) (rs S)"
  proof -
    have "fmlookup (limits R1) c = fmlookup (limits (rs S)) c" using r(1) by (auto simp: change_delband_def)
    then have "mirrored c (vs S) R1" using that mirrored_same [of c "vs S" "vs S" R1 "rs S"] change_delband_shares(2) [OF E r(1)] by simp
    then show ?thesis using change_totals_mirrored [OF r(2)] mirrored_same [of c "vs S" "vs S" "rs S1" R2] S1 by simp
  qed
  ultimately have "evens c S S1" unfolding evens_def by (intro freesI) (simp_all add: S1 loans_namedD)
  also have "evens c S1 S2" by (rule update_rex_stake_evens [OF 3(1)])
  also have "evens c S2 S'" by (rule power_evens [OF 3(2)])
  finally show ?thesis .
qed

section \<open>Loans and maintenance\<close>

lemma loans_same [simp]:
  "loans k (X\<lparr>rexbalance := b\<rparr>) = loans k X"
  "loans k (X\<lparr>rexorders := os\<rparr>) = loans k X" "loans k (set_rexbal a rb X) = loans k X"
  "loans k (set_loans k' t X) = (if k' = k then t else loans k X)"
  by (cases k; cases k'; simp add: loans_def set_loans_def set_rexbal_def)+

lemma fund_loans:
  "transfer_to_fund core a q X = Inr X' \<Longrightarrow> loans k X' = loans k X" "transfer_from_fund E core a q X = Inr X' \<Longrightarrow> loans k X' = loans k X"
  by (auto simp: transfer_to_fund_def transfer_from_fund_def split: option.splits)

lemma pool_loans: "add_to_rex_pool E core q X = Inr (r, X') \<Longrightarrow> loans k X' = loans k X"
  by (auto simp: add_to_rex_pool_def Let_def split: if_splits option.splits)

lemma balance_loans: "add_to_rex_balance E core w pay recv X = Inr (delta, X') \<Longrightarrow> loans k X' = loans k X"
  by (drule add_to_balance_stow) auto

lemma fill_order_loans: "fill_rex_order E core a q X = Inr (res, X') \<Longrightarrow> loans k X' = loans k X"
  by (auto simp: fill_rex_order_def Let_def split: if_splits)

lemma run_orders_loans: "run_orders E core n os X = Inr (es, X') \<Longrightarrow> loans k X' = loans k X"
proof (induction E core n os X arbitrary: es rule: run_orders.induct)
  case (3 E core n r rest X)
  show ?case
  proof (cases "is_open r \<and> fmlookup (rexbalance X) (o_owner r) \<noteq> None")
    case True
    then obtain res X1 where f: "fill_rex_order E core (o_owner r) (rex_requested r) X = Inr (res, X1)" using "3.prems" by auto
    show ?thesis
    proof (cases "success res")
      case False
      then show ?thesis using "3.IH"(3) [OF _ _ f refl False] "3.prems" True f fill_order_loans [OF f] by auto
    next
      case s: True
      then show ?thesis using "3.IH"(2) [OF _ _ f refl s refl refl] "3.prems" True f fill_order_loans [OF f]
        by (fastforce simp: Let_def)
    qed
  qed (use "3.prems" "3.IH"(1) in \<open>auto split: if_splits\<close>)
qed simp_all

lemma rented_upd:
  "loans k X' = fmupd n l (loans k X) \<Longrightarrow> rented_for k b X' = rented_for k b X
     - tval (\<lambda>l. if l_receiver l = b then amount (total_staked l) else 0) (loans k X) n
     + (if l_receiver l = b then amount (total_staked l) else 0)"
  "loans k X' = fmdrop n (loans k X) \<Longrightarrow> rented_for k b X' = rented_for k b X
     - tval (\<lambda>l. if l_receiver l = b then amount (total_staked l) else 0) (loans k X) n"
  "loans k X' = loans k X \<Longrightarrow> rented_for k b X' = rented_for k b X"
  by (simp_all add: rented_for_def)

text \<open>A change of the loans of one kind that changes what is rented for one receiver.\<close>

lemma frees_loans:
  assumes "\<And>k'. loans k' X = (if k = k' then t else loans k' (rx S))"
    and "\<And>b. word_of (rented_for k b X) = word_of (rented_for k b (rx S)) + (if b = a then d else 0)"
    and "\<And>n l. loans_named S \<Longrightarrow> fmlookup t n = Some l \<Longrightarrow> l_loan_num l = n"
  shows "frees c a (\<lambda>k'. if k' = k then - d else 0) S (S\<lparr>rx := X\<rparr>)"
proof (rule freesI)
  fix k' b n l
  assume h: "loans_named S"
  have "rented_for k' b X = rented_for k' b (rx S)" if "k' \<noteq> k" using that assms(1) [of k'] by (simp add: rented_for_def)
  then show "word_of (unbacked (k', b) (S\<lparr>rx := X\<rparr>)) = word_of (unbacked (k', b) S) + (if b = a then if k' = k then - d else 0 else 0)"
    using assms(2) [of b] by (cases "k' = k") auto
  show "l_loan_num l = n" if "fmlookup (loans k' (rx (S\<lparr>rx := X\<rparr>))) n = Some l"
    using that assms(1) [of k'] assms(3) [OF h] loans_namedD [OF h] by (auto split: if_splits)
qed simp

lemma limits_for_frees:
  assumes E: "asset_wraps E" and run: "limits_for E k a d S = Inr S'"
  shows "frees c a (\<lambda>k'. if k' = k then word_of d else 0) S S'"
proof (cases k)
  case Cpu_loan
  have "kind_amount 0 d = (\<lambda>k'. if k' = k then word_of d else 0)"
    by (rule ext) (simp add: kind_amount_def Cpu_loan split: loan_kind.split)
  then show ?thesis using update_limits_frees [OF E, of a 0 d S S'] run by (simp add: limits_for_def Cpu_loan)
next
  case Net_loan
  have "kind_amount d 0 = (\<lambda>k'. if k' = k then word_of d else 0)"
    by (rule ext) (simp add: kind_amount_def Net_loan split: loan_kind.split)
  then show ?thesis using update_limits_frees [OF E, of a d 0 S S'] run by (simp add: limits_for_def Net_loan)
qed

lemma expired_loan_parts:
  assumes "process_expired_loan E core l X = Inr (renewed, d, X')"
  shows "loans k X' = loans k X"
    "word_of d = (case renewed of None \<Rightarrow> 0 | Some l' \<Rightarrow> word_of (amount (total_staked l'))) - word_of (amount (total_staked l))"
    "renewed = Some l' \<Longrightarrow> l_receiver l' = l_receiver l \<and> l_loan_num l' = l_loan_num l"
  using assms by (auto simp: process_expired_loan_def update_renewed_loan_def Let_def split: if_splits dest: fund_loans(1))

lemma run_loans_evens:
  assumes E: "asset_wraps E"
  shows "run_loans E k n S = Inr S' \<Longrightarrow> evens c S S'"
proof (induction n arbitrary: S)
  case (Suc n)
  show ?case
  proof (cases "first_of (index_by by_expr (loans k (rx S)))")
    case (Some l)
    show ?thesis
    proof (cases "now E < expiration l")
      case False
      obtain renewed d X1 S1 where
        p: "process_expired_loan E (core_symbol S) l (rx S) = Inr (renewed, d, X1)" and
        s1: "limits_for E k (l_receiver l) d (S\<lparr>rx := set_loans k (case renewed of None \<Rightarrow> fmdrop (l_loan_num l) (loans k X1)
          | Some l' \<Rightarrow> fmupd (l_loan_num l) l' (loans k X1)) X1\<rparr>) = Inr S1" and
        r: "run_loans E k n S1 = Inr S'"
        using Suc.prems Some False by (auto simp: Let_def)
      note P = expired_loan_parts [OF p]
      let ?t = "case renewed of None \<Rightarrow> fmdrop (l_loan_num l) (loans k (rx S)) | Some l' \<Rightarrow> fmupd (l_loan_num l) l' (loans k (rx S))"
      let ?X = "set_loans k ?t X1"
      have s1: "limits_for E k (l_receiver l) d (S\<lparr>rx := ?X\<rparr>) = Inr S1" using s1 unfolding P(1) .
      have "evens c S S1"
      proof (cases "loans_named S")
        case named: True
        obtain i where "fmlookup (loans k (rx S)) i = Some l" using first_of_index_by [OF Some] by blast
        then have i: "fmlookup (loans k (rx S)) (l_loan_num l) = Some l" using loans_namedD [OF named] by blast
        have "frees c (l_receiver l) (\<lambda>k'. if k' = k then - word_of d else 0) S (S\<lparr>rx := ?X\<rparr>)"
        proof (rule frees_loans)
          show "loans k' ?X = (if k = k' then ?t else loans k' (rx S))" for k' by (simp add: P(1))
          show "word_of (rented_for k b ?X) = word_of (rented_for k b (rx S)) + (if b = l_receiver l then word_of d else 0)" for b
          proof (cases renewed)
            case None
            then show ?thesis using P(2) i by (simp add: rented_upd(2) [where X = "rx S" and n = "l_loan_num l"])
          next
            case (Some l')
            then show ?thesis using P(2) P(3) [OF Some] i
              by (simp add: rented_upd(1) [where X = "rx S" and n = "l_loan_num l" and l = l'])
          qed
          show "l_loan_num m = n" if "fmlookup ?t n = Some m" for n m
            using that P(3) loans_namedD [OF named] by (auto split: option.splits if_splits)
        qed
        then show ?thesis by (rule frees_cancel [OF _ limits_for_frees [OF E s1]]) simp
      qed (use limits_for_frees [OF E s1] in \<open>simp add: evens_def frees_def\<close>)
      also have "evens c S1 S'" by (rule Suc.IH [OF r])
      finally show ?thesis .
    qed (use Some Suc.prems in simp)
  qed (use Suc.prems in simp)
qed simp

lemma channel_evens: "channel_to_rex E a q S = Inr S' \<Longrightarrow> evens c S S'"
  by (auto simp: channel_to_rex_def split: option.splits if_splits intro!: evens_tables)

lemma runrex_evens:
  assumes E: "asset_wraps E" and run: "runrex E n S = Inr S'"
  shows "evens c S S'"
proof -
  obtain S1 S2 S3 es X and p :: rex_pool where 1: "(if 0 < amount (namebid_proceeds p) then
          bindE (channel_to_rex E names_account (namebid_proceeds p) S) (\<lambda>S.
          bindE (the_pool (rx S)) (\<lambda>rt.
          Inr (S\<lparr>rx := (rx S)\<lparr>rexpool :=
            Some (rt\<lparr>namebid_proceeds := set_amt 0 (namebid_proceeds rt)\<rparr>)\<rparr>\<rparr>)))
        else Inr S) = Inr S1"
    and 2: "run_loans E Cpu_loan n S1 = Inr S2" "run_loans E Net_loan n S2 = Inr S3"
    and 3: "run_orders E (core_symbol S3) n (index_by by_time (rexorders (rx S3))) (rx S3) = Inr (es, X)"
    and S': "S' = emit es (S3\<lparr>rx := X\<rparr>)"
    using run unfolding runrex_def bindE_eq_Inr the_pool_def by (clarsimp cong: if_cong)
  have "evens c S S1"
  proof (cases "0 < amount (namebid_proceeds p)")
    case True
    then obtain S0 q where c: "channel_to_rex E names_account (namebid_proceeds p) S = Inr S0"
      and S1: "S1 = S0\<lparr>rx := (rx S0)\<lparr>rexpool := q\<rparr>\<rparr>"
      using 1 by auto
    show ?thesis unfolding S1 by (rule evens_trans [OF channel_evens [OF c] evens_rx]) simp
  qed (use 1 in simp)
  also have "evens c S1 S2" by (rule run_loans_evens [OF E 2(1)])
  also have "evens c S2 S3" by (rule run_loans_evens [OF E 2(2)])
  also have "evens c S3 S'" using evens_rx [OF run_orders_loans [OF 3]] by (simp add: S')
  finally show ?thesis .
qed

lemma update_rex_account_evens:
  assumes run: "update_rex_account E a p d force S = Inr (r, S')"
  shows "evens c S S'"
proof (rule evens_tables)
  have f: "S' = S\<lparr>vs := vs S', rx := rx S'\<rparr>" by (rule update_rex_account_frame [OF run])
  show "row_weight k b (rs S') = row_weight k b (rs S)" "delband (rs S') = delband (rs S)" for k b by (subst f, simp)+
  show "loans k (rx S') = loans k (rx S)" for k
  proof (cases "\<exists>r. fmlookup (rexorders (rx S)) a = Some r \<and> \<not> is_open r")
    case True
    then obtain r where r: "fmlookup (rexorders (rx S)) a = Some r" "\<not> is_open r" by blast
    show ?thesis using run r by (auto simp: update_rex_account_def Let_def split: if_splits dest!: on_vs_power fund_loans(1))
  next
    case False
    then show ?thesis using run
      by (auto simp: update_rex_account_def Let_def split: option.splits if_splits dest!: on_vs_power fund_loans(1))
  qed
  have v: "flags_of c (vs S') = flags_of c (vs S)"
  proof (cases "\<exists>r. fmlookup (rexorders (rx S)) a = Some r \<and> \<not> is_open r")
    case True
    then obtain r where r: "fmlookup (rexorders (rx S)) a = Some r" "\<not> is_open r" by blast
    show ?thesis using run r by (auto simp: update_rex_account_def on_vs_def Let_def power_flags split: if_splits)
  next
    case False
    then show ?thesis using run
      by (auto simp: update_rex_account_def on_vs_def Let_def power_flags split: option.splits if_splits)
  qed
  have "rs S' = rs S" by (subst f) simp
  then show "mirrored c (vs S) (rs S) \<Longrightarrow> mirrored c (vs S') (rs S')" using mirrored_same [OF v, of "rs S'" "rs S"] by simp
qed

lemma settled_evens:
  assumes "asset_wraps E" "runrex E n S = Inr S1" "update_rex_account E a z d force S1 = Inr (r, S2)"
  shows "evens c S S2"
  using runrex_evens [OF assms(1,2)] update_rex_account_evens [OF assms(3)] by (rule evens_trans)

lemma put_rexbal_evens [simp]: "evens c S (put_rexbal a rb S)"
  unfolding put_rexbal_def by (rule evens_rx) simp

section \<open>The actions of the REX\<close>

lemma deposit_evens: "deposit E w q S = Inr S' \<Longrightarrow> evens c S S'"
  by (auto simp: deposit_def on_rx_def intro!: evens_tables dest: fund_loans)

lemma withdraw_evens:
  assumes "withdraw E w q S = Inr S'"
  shows "evens c S S'"
proof -
  obtain z r S1 X es where a: "update_rex_account E w z z False S = Inr (r, S1)"
    "transfer_from_fund E (core_symbol S1) w q (rx S1) = Inr X" "S' = emit es (S1\<lparr>rx := X\<rparr>)"
    using assms by (auto simp: withdraw_def on_rx_def)
  have "evens c S S1" by (rule update_rex_account_evens [OF a(1)])
  also have "evens c S1 S'" using evens_rx [OF fund_loans(2) [OF a(2)]] by (simp add: a(3))
  finally show ?thesis .
qed

lemma buyrex_evens:
  assumes E: "asset_wraps E" and run: "buyrex E w q S = Inr S'"
  shows "evens c S S'"
proof -
  obtain X1 X2 X3 recv delta S1 z r S2 where
    x: "transfer_from_fund E (core_symbol S) w q (rx S) = Inr X1" "add_to_rex_pool E (core_symbol S) q X1 = Inr (recv, X2)"
      "add_to_rex_balance E (core_symbol S) w q recv X2 = Inr (delta, X3)" and
    s: "runrex E 2 (S\<lparr>rx := X3\<rparr>) = Inr S1" "update_rex_account E w z delta False S1 = Inr (r, S2)" and
    S': "S' = emit [Rex_buyresult recv] S2"
    using run unfolding buyrex_def by clarsimp
  have "evens c S (S\<lparr>rx := X3\<rparr>)" by (rule evens_rx) (simp add: balance_loans [OF x(3)] pool_loans [OF x(2)] fund_loans(2) [OF x(1)])
  also have "evens c (S\<lparr>rx := X3\<rparr>) S2" by (rule settled_evens [OF E s])
  finally show ?thesis by (simp add: S')
qed

lemma unstaketorex_evens:
  assumes E: "asset_wraps E" and run: "unstaketorex E a w net cpu S = Inr S'"
  shows "evens c S S'"
proof -
  obtain R S0 pay recv X1 X2 S1 z r S2 delta es es' core where
    db: "take_delband a w net cpu (rs S) = Inr R" and
    s0: "update_resource_limits E w (i64 (- amount net)) (i64 (- amount cpu)) (S\<lparr>rs := R\<rparr>) = Inr S0" and
    p: "add_to_rex_pool E core pay (rx (emit es' S0)) = Inr (recv, X1)"
      "add_to_rex_balance E core a pay recv X1 = Inr (delta, X2)" and
    r: "runrex E 2 ((emit es' S0)\<lparr>rx := X2\<rparr>) = Inr S1" and
    u: "update_rex_account E a z z True S1 = Inr (r, S2)" and S': "S' = emit es S2"
    using run unfolding unstaketorex_def Let_def bindE_eq_Inr by clarsimp
  note T = take_delband_shares [OF db]
  have "frees c w (kind_amount (amount net) (amount cpu)) S (S\<lparr>rs := R\<rparr>)"
    by (rule freesI) (simp_all add: T(1) row_weight_cong [OF T(2)] loans_namedD mirrored_same [of c "vs S" "vs S" R "rs S"] T(2,3))
  then have "evens c S S0"
    by (rule frees_cancel [OF _ update_limits_frees [OF E s0]]) (simp add: kind_amount_def split: loan_kind.split)
  also have "evens c S0 ((emit es' S0)\<lparr>rx := X2\<rparr>)"
    by (rule evens_tables) (simp_all add: balance_loans [OF p(2)] pool_loans [OF p(1)])
  also have "evens c ((emit es' S0)\<lparr>rx := X2\<rparr>) S2" by (rule settled_evens [OF E r u])
  finally show ?thesis by (simp add: S')
qed

lemma enqueue_order_loans: "enqueue_order E core w q X = Inr (n, X') \<Longrightarrow> loans k X' = loans k X"
  by (auto simp: enqueue_order_def Let_def split: option.splits)

lemma sellrex_evens:
  assumes E: "asset_wraps E" and run: "sellrex E w q S = Inr S'"
  shows "evens c S S'"
proof -
  obtain S1 rb order X1 r S3 pending X2 es c1 c3 where
    r: "runrex E 2 S = Inr S1" and
    f: "fill_rex_order E c1 w q (rx (put_rexbal w rb S1)) = Inr (order, X1)" and
    u: "update_rex_account E w (oo_proceeds order) (oo_stake_change order) False
      (put_rexbal w rb S1\<lparr>rx := X1\<rparr>) = Inr (r, S3)" and
    q: "(if \<not> success order then
          bindE (check (w \<noteq> b1_account) ''b1 sellrex orders should not be queued'') (\<lambda>_.
          enqueue_order E c3 w q (rx S3))
        else Inr (amount r, rx S3)) = Inr (pending, X2)" and
    S': "S' = emit es (S3\<lparr>rx := X2\<rparr>)"
    using run unfolding sellrex_def Let_def rexbal_of_def bindE_eq_Inr
    by (clarsimp simp: put_rexbal_def cong: if_cong)
  let ?S = "put_rexbal w rb S1"
  have "evens c S S1" by (rule runrex_evens [OF E r])
  also have "evens c S1 ?S" by simp
  also have "evens c ?S (?S\<lparr>rx := X1\<rparr>)" by (rule evens_rx [OF fill_order_loans [OF f]])
  also have "evens c (?S\<lparr>rx := X1\<rparr>) S3" by (rule update_rex_account_evens [OF u])
  also have "evens c S3 (S3\<lparr>rx := X2\<rparr>)" using q by (intro evens_rx) (auto split: if_splits dest: enqueue_order_loans)
  finally show ?thesis by (simp add: S')
qed

lemma cnclrexorder_evens: "on_rx (cnclrexorder E w) S = Inr S' \<Longrightarrow> evens c S S'"
  by (auto simp: on_rx_def cnclrexorder_def intro!: evens_rx split: if_splits)

lemma rent_loan_evens:
  assumes E: "asset_wraps E" and run: "rent_loan E k w r pay fund S = Inr S'"
  shows "evens c S S'"
proof -
  obtain n S0 where rent: "rent_rex E k w r pay fund S = Inr (n, S0)" and lim0: "limits_for E k r n S0 = Inr S'"
    using run by (auto simp: rent_loan_def)
  obtain S1 both X p l i es where a: "runrex E 2 S = Inr S1" "transfer_from_fund E (core_symbol S1) w both (rx S1) = Inr X"
    "fmlookup (loans k (X\<lparr>rexpool := p\<rparr>)) i = None"
    and S0: "S0 = emit es (S1\<lparr>rx := set_loans k (fmupd i l (loans k (X\<lparr>rexpool := p\<rparr>))) (X\<lparr>rexpool := p\<rparr>)\<rparr>)"
    and l: "l_receiver l = r" "amount (total_staked l) = n" "l_loan_num l = i"
    using rent asset_wrapsD(3) [OF E] unfolding rent_rex_def Let_def bindE_eq_Inr emplace_eq_Inr
    by clarsimp
  note a = a lim0 [unfolded S0]
  let ?X = "set_loans k (fmupd i l (loans k (rx S1))) (X\<lparr>rexpool := p\<rparr>)"
  note X = fund_loans(2) [OF a(2)]
  have i: "fmlookup (loans k (rx S1)) i = None" using a(3) by (simp add: X)
  have lim: "limits_for E k r n (emit es (S1\<lparr>rx := ?X\<rparr>)) = Inr S'" using a(4) by (simp add: X)
  have "frees c r (\<lambda>k'. if k' = k then - word_of n else 0) S1 (S1\<lparr>rx := ?X\<rparr>)"
  proof (rule frees_loans)
    show "loans k' ?X = (if k = k' then fmupd i l (loans k (rx S1)) else loans k' (rx S1))" for k' by (simp add: X)
    show "word_of (rented_for k b ?X) = word_of (rented_for k b (rx S1)) + (if b = r then word_of n else 0)" for b
      using i l by (simp add: rented_upd(1) [where X = "rx S1" and n = i and l = l])
    show "l_loan_num m = j" if "loans_named S1" "fmlookup (fmupd i l (loans k (rx S1))) j = Some m" for j m
      using that l(3) loans_namedD [OF that(1)] by (auto split: if_splits)
  qed
  then have "frees c r (\<lambda>k'. if k' = k then - word_of n else 0) S1 (emit es (S1\<lparr>rx := ?X\<rparr>))"
    by (simp only: frees_emit)
  then have "evens c S1 S'" by (rule frees_cancel [OF _ limits_for_frees [OF E lim]]) simp
  with runrex_evens [OF E a(1)] show ?thesis by (rule evens_trans)
qed

text \<open>A change of one loan that leaves its number, its receiver and its stake.\<close>

lemma evens_loan_row:
  assumes "\<And>k'. loans k' X = (if k = k' then fmupd n (l\<lparr>l_balance := q\<rparr>) (loans k (rx S)) else loans k' (rx S))"
    and "fmlookup (loans k (rx S)) n = Some l"
  shows "evens c S (S\<lparr>rx := X\<rparr>)"
proof -
  have "frees c 0 (\<lambda>k'. if k' = k then - 0 else 0) S (S\<lparr>rx := X\<rparr>)"
  proof (rule frees_loans [OF assms(1)])
    show "word_of (rented_for k b X) = word_of (rented_for k b (rx S)) + (if b = 0 then 0 else 0)" for b
      using assms(2) by (simp add: rented_upd(1) [OF assms(1) [of k, simplified]])
    show "l_loan_num m = i" if "loans_named S" "fmlookup (fmupd n (l\<lparr>l_balance := q\<rparr>) (loans k (rx S))) i = Some m" for i m
      using that(2) loans_namedD [OF that(1)] assms(2) by (auto split: if_splits)
  qed
  then show ?thesis by (simp add: evens_def cong: if_cong)
qed

lemma loan_fund_evens:
  "fund_loan E k w n q S = Inr S' \<Longrightarrow> evens c S S'" "defund_loan E k w n q S = Inr S' \<Longrightarrow> evens c S S'"
proof -
  assume "fund_loan E k w n q S = Inr S'"
  then obtain X l where "transfer_from_fund E (core_symbol S) w q (rx S) = Inr X" "fmlookup (loans k X) n = Some l"
    "S' = S\<lparr>rx := set_loans k (fmupd n (l\<lparr>l_balance := inc_amt (amount q) (l_balance l)\<rparr>) (loans k X)) X\<rparr>"
    by (auto simp: fund_loan_def on_rx_def fund_rex_loan_def)
  then show "evens c S S'" by (auto simp: fund_loans(2) intro!: evens_loan_row)
next
  assume "defund_loan E k w n q S = Inr S'"
  then obtain X l where "fmlookup (loans k (rx S)) n = Some l" "S' = S\<lparr>rx := X\<rparr>"
    "transfer_to_fund (core_symbol S) w q
       (set_loans k (fmupd n (l\<lparr>l_balance := inc_amt (- amount q) (l_balance l)\<rparr>) (loans k (rx S))) (rx S)) = Inr X"
    by (auto simp: defund_loan_def on_rx_def defund_rex_loan_def)
  then show "evens c S S'" by (auto dest: fund_loans(1) intro!: evens_loan_row)
qed

lemma updaterex_evens:
  assumes E: "asset_wraps E" and run: "updaterex E w S = Inr S'"
  shows "evens c S S'"
proof -
  obtain S1 rb z d r S2 rb' where a: "runrex E 2 S = Inr S1"
    "update_rex_account E w z d True (put_rexbal w rb S1) = Inr (r, S2)" and S': "S' = put_rexbal w rb' S2"
    using run by (auto simp: updaterex_def rexbal_of_def Let_def)
  have "evens c S S1" by (rule runrex_evens [OF E a(1)])
  also have "evens c S1 (put_rexbal w rb S1)" by simp
  also have "evens c (put_rexbal w rb S1) S2" by (rule update_rex_account_evens [OF a(2)])
  also have "evens c S2 S'" by (simp add: S')
  finally show ?thesis .
qed

lemma setrex_evens: "setrex E q S = Inr S' \<Longrightarrow> evens c S S'"
  by (auto simp: setrex_def intro!: evens_rx)

lemma consolidate_evens:
  assumes E: "asset_wraps E" and run: "consolidate E w S = Inr S'"
  shows "evens c S S'"
proof -
  obtain S1 z r S2 rb where a: "runrex E 2 S = Inr S1" "update_rex_account E w z z False S1 = Inr (r, S2)"
    and S': "S' = put_rexbal w rb S2"
    using run by (auto simp: consolidate_def rexbal_of_def)
  show ?thesis unfolding S' by (rule evens_trans [OF settled_evens [OF E a] put_rexbal_evens])
qed

lemma mvtosavings_evens:
  assumes E: "asset_wraps E" and run: "mvtosavings E w q S = Inr S'"
  shows "evens c S S'"
proof -
  obtain S1 z r S2 rb where a: "runrex E 2 S = Inr S1" "update_rex_account E w z z False S1 = Inr (r, S2)"
    and S': "S' = put_rexbal w rb S2"
    using run by (auto simp: mvtosavings_def rexbal_of_def Let_def case_prod_beta)
  show ?thesis unfolding S' by (rule evens_trans [OF settled_evens [OF E a] put_rexbal_evens])
qed

lemma mvfrsavings_evens:
  assumes E: "asset_wraps E" and run: "mvfrsavings E w q S = Inr S'"
  shows "evens c S S'"
proof -
  obtain S1 rb z r where a: "runrex E 2 S = Inr S1" "update_rex_account E w z z False (put_rexbal w rb S1) = Inr (r, S')"
    using run by (auto simp: mvfrsavings_def rexbal_of_def Let_def case_prod_beta)
  have "evens c S S1" by (rule runrex_evens [OF E a(1)])
  also have "evens c S1 (put_rexbal w rb S1)" by simp
  also have "evens c (put_rexbal w rb S1) S'" by (rule update_rex_account_evens [OF a(2)])
  finally show ?thesis .
qed

lemma closerex_evens:
  assumes E: "asset_wraps E" and run: "closerex E w S = Inr S'"
  shows "evens c S S'"
proof -
  obtain S1 z r S2 X where a: "(if rex_system_initialized (rx S) then runrex E 2 S else Inr S) = Inr S1"
    "update_rex_account E w z z False S1 = Inr (r, S2)" "drop_balance w (drop_fund w (rx S2)) = Inr X" and S': "S' = S2\<lparr>rx := X\<rparr>"
    using run unfolding closerex_def on_rx_def by (clarsimp cong: if_cong)
  have X: "loans k X = loans k (rx S2)" for k
    using a(3) by (cases k) (auto simp: loans_def drop_balance_def drop_fund_def split: option.splits if_splits)
  have "evens c S S1" using a(1) by (auto split: if_splits intro: runrex_evens [OF E])
  also have "evens c S1 S2" by (rule update_rex_account_evens [OF a(2)])
  also have "evens c S2 S'" unfolding S' by (rule evens_rx [OF X])
  finally show ?thesis .
qed

lemma rex_exec_evens:
  assumes E: "asset_wraps E" and run: "rex_exec E x S = Inr S'"
  shows "evens c S S'"
  using run
  by (cases x)
    (auto simp: rentcpu_def rentnet_def fundcpuloan_def fundnetloan_def defcpuloan_def defnetloan_def rexexec_def
      dest: deposit_evens withdraw_evens buyrex_evens [OF E] unstaketorex_evens [OF E] sellrex_evens [OF E] cnclrexorder_evens
        rent_loan_evens [OF E] loan_fund_evens updaterex_evens [OF E] setrex_evens runrex_evens [OF E]
        consolidate_evens [OF E] mvtosavings_evens [OF E] mvfrsavings_evens [OF E] closerex_evens [OF E])

section \<open>The other actions\<close>

lemma evens_rs:
  assumes "delband R = delband (rs S)" "\<And>k a. row_weight k a R = row_weight k a (rs S)" "mirrored c (vs S) (rs S) \<Longrightarrow> mirrored c (vs S) R"
  shows "evens c S (S\<lparr>rs := R\<rparr>)"
  by (rule evens_tables) (simp_all add: assms)

lemma stake_exec_evens:
  assumes E: "asset_wraps E" and run: "stake_exec E x S = Inr S'"
  shows "evens c S S'"
proof (cases x)
  case (Refund a)
  then obtain es T where "S' = emit es (S\<lparr>rs := (rs S)\<lparr>refunds := T\<rparr>\<rparr>)" using run by (auto simp: refund_def)
  moreover have "evens c S (S\<lparr>rs := (rs S)\<lparr>refunds := T\<rparr>\<rparr>)" by (rule evens_rs) (simp_all add: row_weight_def)
  ultimately show ?thesis by simp
qed (use run in \<open>auto simp: delegatebw_def undelegatebw_def dest: changebw_evens [OF E] unstaketorex_evens [OF E]\<close>)

text \<open>Memory is another column of the same rows.\<close>

lemma limit_bytes_row:
  assumes "userres R' = fmupd a u (userres R)"
    and "case fmlookup (userres R) a of None \<Rightarrow> amount (ur_net_weight u) = 0 \<and> amount (ur_cpu_weight u) = 0
      | Some r \<Rightarrow> ur_net_weight u = ur_net_weight r \<and> ur_cpu_weight u = ur_cpu_weight r"
  shows "row_weight k b R' = row_weight k b R"
  using assms(2) unfolding row_weight_def assms(1)
  by (auto simp: tval_def weight_of_kind_def split: option.splits loan_kind.splits)

lemma update_ram_supply_evens: "update_ram_supply E S = Inr S' \<Longrightarrow> evens c S S'"
  by (cases "block_slot E \<le> last_ram_increase (gstate2 (vs S))")
    (auto simp: update_ram_supply_def Let_def set_gstate_def intro!: evens_tables)

lemma set_ram_limit_evens:
  assumes "set_ram_limit a n V ((rs S)\<lparr>userres := fmupd w u (userres (rs S))\<rparr>) = Inr R"
    and "case fmlookup (userres (rs S)) w of None \<Rightarrow> amount (ur_net_weight u) = 0 \<and> amount (ur_cpu_weight u) = 0
      | Some r \<Rightarrow> ur_net_weight u = ur_net_weight r \<and> ur_cpu_weight u = ur_cpu_weight r"
  shows "evens c S (S\<lparr>rs := R\<rparr>)"
proof (rule evens_rs)
  note F = set_ram_limit_frame [OF assms(1)]
  show "delband R = delband (rs S)" using F(2) by simp
  show "row_weight k b R = row_weight k b (rs S)" for k b by (rule limit_bytes_row [OF _ assms(2)]) (use F(1) in simp)
  moreover have "chain_limit k c R = chain_limit k c (rs S)" for k
    using assms(1) by (cases k) (auto simp: set_ram_limit_def chain_limit_def tval_def get_resource_limits_def set_resource_limits_def split: if_splits)
  ultimately show "mirrored c (vs S) (rs S) \<Longrightarrow> mirrored c (vs S) R" by (simp add: mirrored_def)
qed

lemma buyram_evens:
  assumes E: "asset_wraps E" and run: "buyram E payer receiver q S = Inr S'"
  shows "evens c S S'"
proof -
  obtain S1 S2 es f fs b M g R r n core where 1: "update_ram_supply E S = Inr S1"
    and 2: "(if b then channel_to_rex E ramfee_account f (emit fs (emit es S1)) else Inr (emit es S1)) = Inr S2"
    and r: "(case fmlookup (userres (rs S2)) receiver of
          None \<Rightarrow>
            bindE core (\<lambda>cs.
            bindE (new_asset E 0 cs) (\<lambda>zero.
            Inr \<lparr>ur_owner = receiver, ur_net_weight = zero, ur_cpu_weight = zero, ram_bytes = n\<rparr>))
        | Some r \<Rightarrow> Inr (r\<lparr>ram_bytes := i64 (ram_bytes r + n)\<rparr>)) = Inr r"
    and 3: "set_ram_limit (ur_owner r) (ram_bytes r) (vs S2\<lparr>gstate := g\<rparr>) ((rs S2)\<lparr>userres := fmupd receiver r (userres (rs S2))\<rparr>) = Inr R"
    and S': "S' = S2\<lparr>rammarket := M, vs := (vs S2)\<lparr>gstate := g\<rparr>, rs := R\<rparr>"
    using run by (auto simp: buyram_def Let_def set_gstate_def the_market_def)
  have "evens c S S1" by (rule update_ram_supply_evens [OF 1])
  also have "evens c S1 S2" using 2 by (auto split: if_splits dest: channel_evens)
  also have "evens c S2 (S2\<lparr>rs := R\<rparr>)"
    using 3 by (rule set_ram_limit_evens) (use r asset_wrapsD(3) [OF E] in \<open>auto split: option.splits\<close>)
  also have "evens c (S2\<lparr>rs := R\<rparr>) S'" by (rule evens_tables) (simp_all add: S')
  finally show ?thesis .
qed

lemma sellram_evens:
  assumes "sellram E w n S = Inr S'"
  shows "evens c S S'"
proof -
  obtain S1 es f fs b M g R u where 1: "update_ram_supply E S = Inr S1"
    and u: "fmlookup (userres (rs S1)) w = Some u"
    and 3: "set_ram_limit (ur_owner u) (i64 (ram_bytes u - n)) (vs S1\<lparr>gstate := g\<rparr>)
      ((rs S1)\<lparr>userres := fmupd w (u\<lparr>ram_bytes := i64 (ram_bytes u - n)\<rparr>) (userres (rs S1))\<rparr>) = Inr R"
    and 2: "(if b then bindE (new_asset E (fst f) (snd f)) (\<lambda>q. channel_to_rex E ramfee_account q
        (emit (fs q) (emit es (S1\<lparr>rammarket := M, vs := (vs S1)\<lparr>gstate := g\<rparr>, rs := R\<rparr>))))
      else Inr (emit es (S1\<lparr>rammarket := M, vs := (vs S1)\<lparr>gstate := g\<rparr>, rs := R\<rparr>))) = Inr S'"
    using assms by (auto simp: sellram_def Let_def set_gstate_def the_market_def cong: if_cong)
  let ?S = "S1\<lparr>rammarket := M, vs := (vs S1)\<lparr>gstate := g\<rparr>, rs := R\<rparr>"
  have "evens c S S1" by (rule update_ram_supply_evens [OF 1])
  also have "evens c S1 (S1\<lparr>rs := R\<rparr>)" using 3 by (rule set_ram_limit_evens) (simp add: u)
  also have "evens c (S1\<lparr>rs := R\<rparr>) ?S" by (rule evens_tables) simp_all
  also have "evens c ?S S'" using 2 by (auto split: if_splits dest: channel_evens)
  finally show ?thesis .
qed

lemma ram_exec_evens:
  assumes E: "asset_wraps E" and run: "ram_exec E x S = Inr S'"
  shows "evens c S S'"
  using run
  by (cases x)
    (auto simp: buyrambytes_def setram_def setramrate_def set_gstate_def Let_def
      dest: buyram_evens [OF E] sellram_evens update_ram_supply_evens intro: evens_tables evens_trans [OF update_ram_supply_evens evens_tables])

lemma close_auction_evens: "evens c S (close_auction E t S)"
proof (cases "highest_open_bid (ns S)")
  case (Some b)
  have "loans k (channel_namebid_to_rex n X) = loans k X" for k n X
    by (cases k) (simp_all add: loans_def channel_namebid_to_rex_def split: option.split)
  then show ?thesis using closed_state [OF Some, of E t] by (auto intro!: evens_tables)
qed (simp add: close_auction_def)

lemma onblock_evens:
  assumes "onblock E t p S = Inr S'"
  shows "evens c S S'"
proof -
  let ?S = "S\<lparr>vs := (vs S)\<lparr>gstate2 := (gstate2 (vs S))\<lparr>last_block_num := t\<rparr>\<rparr>\<rparr>"
  obtain V where V: "count_block E p ?S = S\<lparr>vs := V\<rparr>" using count_block_vs [of E p ?S] by auto
  obtain V' es where u: "update_elected_producers E t V = (V', es)" by fastforce
  have "S' = ?S \<or> S' = S\<lparr>vs := V\<rparr> \<or> S' = emit es (S\<lparr>vs := V'\<rparr>) \<or> S' = close_auction E t (emit es (S\<lparr>vs := V'\<rparr>))"
    using assms V u by (auto simp: onblock_def Let_def split: if_splits)
  moreover have v: "voters V = voters (vs S)" using arg_cong [OF V, of vs] count_block_voters [of E p ?S] by simp
  moreover have "voters V' = voters (vs S)" using update_elected_producers_voters [OF u] v by simp
  ultimately have "evens c S ?S" "evens c S (S\<lparr>vs := V\<rparr>)" "evens c S (emit es (S\<lparr>vs := V'\<rparr>))"
    by (auto intro!: evens_vs flags_voters)
  then show ?thesis using \<open>S' = ?S \<or> _\<close> evens_trans [OF _ close_auction_evens] by metis
qed

lemma newaccount_evens:
  assumes E: "asset_wraps E" and run: "newaccount E creator a S = Inr S'"
  shows "evens c S S'"
proof -
  obtain N cs z u where s: "new_asset E 0 cs = Inr z"
      "emplace a \<lparr>ur_owner = a, ur_net_weight = z, ur_cpu_weight = z, ram_bytes = 0\<rparr> (userres (rs S)) = Inr u"
      "S' = S\<lparr>ns := N, rs := set_resource_limits a 0 0 0 ((rs S)\<lparr>userres := u\<rparr>)\<rparr>"
    using run by (auto simp: newaccount_def simp del: emplace_eq_Inr)
  have n: "fmlookup (userres (rs S)) a = None" and z: "amount z = 0"
    and R: "userres (rs S') = fmupd a \<lparr>ur_owner = a, ur_net_weight = z, ur_cpu_weight = z, ram_bytes = 0\<rparr> (userres (rs S))"
      "delband (rs S') = delband (rs S)" "rx S' = rx S"
    using s asset_wrapsD(3) [OF E] by auto
  have "row_weight k b (rs S') = row_weight k b (rs S)" for k b by (rule limit_bytes_row [OF R(1)]) (simp add: n z)
  moreover have "mirrored c (vs S) (rs S) \<Longrightarrow> mirrored c (vs S') (rs S')"
    by (rule limits_mirrored [of S' S a]) (use s z in \<open>auto simp: set_resource_limits_def chain_limit_def row_weight_def weight_of_kind_def split: loan_kind.splits\<close>)
  ultimately show ?thesis by (intro evens_tables) (simp_all add: R)
qed

lemma name_exec_evens:
  assumes E: "asset_wraps E" and run: "name_exec E x S = Inr S'"
  shows "evens c S S'"
proof (cases x)
  case (Onblock t p)
  then show ?thesis using run onblock_evens by simp
next
  case (Newaccount creator a)
  then show ?thesis using run newaccount_evens [OF E] by simp
qed (use run in \<open>auto simp: bidname_def bidrefund_def Let_def split: option.splits intro!: evens_tables\<close>)

text \<open>What an administrator sets by hand is left alone until the account is no longer managed.\<close>

lemma flags_set: "flags_of b (set_flag a f v V) = (if b = a then set_field (flags_of a V) f v else flags_of b V)"
  by (simp add: flags_of_def set_flag_def new_voter_def Let_def split: option.split)

lemma set_limits_evens:
  assumes S': "S' = S\<lparr>vs := set_flag a f m (vs S), rs := set_resource_limits a y w x (rs S)\<rparr>"
    and l: "fmlookup (limits (rs S)) a = Some (r, n, d)"
    and "f \<noteq> net_managed \<Longrightarrow> w = n" "f = net_managed \<Longrightarrow> \<not> m \<Longrightarrow> w = row_weight Net_loan a (rs S)"
    and "f \<noteq> cpu_managed \<Longrightarrow> x = d" "f = cpu_managed \<Longrightarrow> \<not> m \<Longrightarrow> x = row_weight Cpu_loan a (rs S)"
  shows "evens c S S'"
proof (rule evens_tables)
  show w: "row_weight k b (rs S') = row_weight k b (rs S)" for k b by (simp add: S' row_weight_def)
  have "chain_limit k a (rs S') = row_weight k a (rs S)"
    if "mirrored a (vs S) (rs S)" "\<not> managed_flag (vs S') a (managed_kind k)" for k
  proof -
    have "\<not> has_field (flags_of a (vs S)) (managed_kind k) \<Longrightarrow> chain_limit k a (rs S) = row_weight k a (rs S)"
      using that(1) by (simp add: mirrored_def managed_flag_of)
    then show ?thesis
      using that(2) assms(3-6) l
      by (cases k) (auto simp: managed_flag_of flags_set has_set_field S' chain_limit_def set_resource_limits_def split: if_splits)
  qed
  then have "mirrored a (vs S) (rs S) \<Longrightarrow> mirrored a (vs S') (rs S')" by (simp add: mirrored_def [of a "vs S'"] w)
  moreover have "mirrored c (vs S') (rs S') = mirrored c (vs S) (rs S)" if "c \<noteq> a"
    by (rule mirrored_same) (use that in \<open>simp_all add: S' flags_set set_resource_limits_def\<close>)
  ultimately show "mirrored c (vs S) (rs S) \<Longrightarrow> mirrored c (vs S') (rs S')" by (cases "c = a") auto
qed (simp_all add: S')

lemma setacct_evens:
  "setacctram E a n S = Inr S' \<Longrightarrow> evens c S S'" "setacctnet E a n S = Inr S' \<Longrightarrow> evens c S S'" "setacctcpu E a n S = Inr S' \<Longrightarrow> evens c S S'"
proof -
  note D = row_weight_def weight_of_kind_def get_resource_limits_def tval_def
  show "evens c S S'" if h: "setacctram E a n S = Inr S'"
  proof -
    obtain r w x y where "fmlookup (limits (rs S)) a = Some (r, w, x)"
      "S' = S\<lparr>vs := set_flag a ram_managed (n \<noteq> None) (vs S), rs := set_resource_limits a y w x (rs S)\<rparr>"
      using h by (auto simp: setacctram_def get_resource_limits_def)
    then show ?thesis by (intro set_limits_evens [where a = a and f = ram_managed and m = "n \<noteq> None" and y = y and w = w and x = x
        and r = r and n = w and d = x]) simp_all
  qed
  show "evens c S S'" if h: "setacctnet E a n S = Inr S'"
  proof -
    obtain r w x y where "fmlookup (limits (rs S)) a = Some (r, w, x)" "n = None \<longrightarrow> y = row_weight Net_loan a (rs S)"
      "S' = S\<lparr>vs := set_flag a net_managed (n \<noteq> None) (vs S), rs := set_resource_limits a r y x (rs S)\<rparr>"
      using h by (cases n) (auto simp: setacctnet_def D split: option.splits)
    then show ?thesis by (intro set_limits_evens [where a = a and f = net_managed and m = "n \<noteq> None" and y = r and w = y and x = x
        and r = r and n = w and d = x]) simp_all
  qed
  show "evens c S S'" if h: "setacctcpu E a n S = Inr S'"
  proof -
    obtain r w x y where "fmlookup (limits (rs S)) a = Some (r, w, x)" "n = None \<longrightarrow> y = row_weight Cpu_loan a (rs S)"
      "S' = S\<lparr>vs := set_flag a cpu_managed (n \<noteq> None) (vs S), rs := set_resource_limits a r w y (rs S)\<rparr>"
      using h by (cases n) (auto simp: setacctcpu_def D split: option.splits)
    then show ?thesis by (intro set_limits_evens [where a = a and f = cpu_managed and m = "n \<noteq> None" and y = r and w = w and x = y
        and r = r and n = w and d = x]) simp_all
  qed
qed

text \<open>\<open>setalimits\<close> gives an account without a row of its own limits that follow nothing.\<close>

fun sets_limits :: "name \<Rightarrow> system_action \<Rightarrow> bool" where
  "sets_limits a (Privileged (Setalimits b ram net cpu)) \<longleftrightarrow> b = a"
| "sets_limits a x \<longleftrightarrow> False"

lemma evens_quiet:
  assumes "voters (vs S') = voters (vs S)" "rs S' = rs S" "rx S' = rx S"
  shows "evens c S S'"
proof (rule evens_tables)
  show "mirrored c (vs S) (rs S) \<Longrightarrow> mirrored c (vs S') (rs S')"
    using mirrored_same [OF flags_voters [OF assms(1)], where c = c and R' = "rs S'" and R = "rs S"] assms(2) by simp
qed (simp_all only: assms(2,3))

lemma admin_exec_evens: "\<not> sets_limits c (Privileged x) \<Longrightarrow> admin_exec E T x S = Inr S' \<Longrightarrow> evens c S S'"
proof (cases x)
  case (Setalimits a ram net cpu)
  assume "\<not> sets_limits c (Privileged x)" "admin_exec E T x S = Inr S'"
  then have c: "c \<noteq> a" and S': "S' = S\<lparr>rs := set_resource_limits a ram net cpu (rs S)\<rparr>" by (auto simp: Setalimits setalimits_def)
  show ?thesis unfolding S'
    by (rule evens_rs) (use c mirrored_same [where c = c and V = "vs S" and V' = "vs S" and R' = "set_resource_limits a ram net cpu (rs S)" and R = "rs S"] in
      \<open>simp_all add: row_weight_def set_resource_limits_def\<close>)
qed (auto simp: init_def setparams_def setpriv_def activate_def setabi_def onerror_def set_gstate_def Let_def setacct_evens
    intro!: evens_quiet)

lemma claimrewards_evens:
  assumes "claimrewards E T w S = Inr S'"
  shows "evens c S S'"
proof -
  obtain V es where S': "S' = emit es (S\<lparr>vs := V\<rparr>)" using claimrewards_frame [OF assms] by blast
  have "evens c S (S\<lparr>vs := V\<rparr>)"
    by (rule evens_vs [OF flags_voters]) (use claimrewards_voters [OF assms] in \<open>simp add: S'\<close>)
  then show ?thesis by (simp add: S')
qed

lemma vote_exec_evens:
  assumes "vote_exec E x S = Inr S'"
  shows "evens c S S'"
proof (cases x)
  case (Voteproducer w prox prods)
  then obtain S1 where 1: "update_rex_stake E w S = Inr S1" and 2: "on_vs (update_votes E w prox prods True) S1 = Inr S'"
    using assms by (auto simp: voteproducer_def split: option.splits if_splits)
  have "evens c S1 S'" using 2 by (rule on_vs_evens) (simp add: update_votes_columns)
  with update_rex_stake_evens [OF 1] show ?thesis by (rule evens_trans)
next
  case (Regproxy p flag)
  then have "on_vs (regproxy E p flag) S = Inr S'" using assms by simp
  then show ?thesis by (rule on_vs_evens) (simp add: regproxy_columns)
qed (use assms in \<open>auto simp: on_vs_def regproducer_def unregprod_def rmvproducer_def updtrevision_def Let_def
      split: option.splits if_splits intro!: evens_vs flags_voters\<close>)

lemma system_exec_evens:
  assumes "asset_wraps E" "system_exec E T x S = Inr S'" "\<not> sets_limits c x"
  shows "evens c S S'"
  using assms
  by (cases x) (auto dest: rex_exec_evens stake_exec_evens ram_exec_evens name_exec_evens vote_exec_evens
      admin_exec_evens [of c] claimrewards_evens)

lemma evensD:
  assumes "evens c S S'"
  shows "loans_named S \<Longrightarrow> loans_named S'" "loans_named S \<Longrightarrow> word_of (unbacked i S') = word_of (unbacked i S)"
    "mirrored c (vs S) (rs S) \<Longrightarrow> mirrored c (vs S') (rs S')"
  using assms by (cases i; simp add: evens_def frees_def del: unbacked.simps)+

text \<open>The weights are backed whoever's limits are set by hand.\<close>

lemma sets_one: "\<exists>c. \<not> sets_limits c x"
proof -
  have "sets_limits 0 x \<Longrightarrow> \<not> sets_limits 1 x" by (erule sets_limits.elims) auto
  then show ?thesis by blast
qed

interpretation bandwidth_tally: tally loans_named unbacked "\<lambda>_ _. True"
proof unfold_locales
  fix E T x S S' i
  assume a: "loans_named S" "asset_wraps E" "system_exec E T x S = Inr S'"
  obtain c where "\<not> sets_limits c x" using sets_one by blast
  then have "evens c S S'" by (rule system_exec_evens [OF a(2,3)])
  then show "loans_named S'" "word_of (unbacked i S') = word_of (unbacked i S)" using a(1) evensD by blast+
qed

lemma run_mirrors: "action_run (\<lambda>x. \<not> sets_limits a x) S S' \<Longrightarrow> mirrored a (vs S) (rs S) \<Longrightarrow> mirrored a (vs S') (rs S')"
  by (induction rule: action_run.induct) (auto dest: system_exec_evens evensD(3))

lemma run_any: "action_run allowed S S' \<Longrightarrow> action_run (\<lambda>_. True) S S'"
  by (induction rule: action_run.induct) (auto intro: action_run.intros)

text \<open>
  C7: The rows of \<open>userres\<close> and the limits the chain applies are kept in step with what backs them. The
  weight of an account, for network and for processor time, stays what is delegated to it and what is
  rented for it (as \<open>int64_t\<close> values), and the limit that was last set for the account stays that weight
  unless the limit is managed by hand; whatever is staked, unstaked, unstaked to REX, rented, renewed,
  expires, is managed or no longer managed, in any order, as long as \<open>setalimits\<close> is not used on the account.
\<close>

theorem limits_match_stakes_and_rents:
  assumes "loans_named S" and "action_run (\<lambda>x. \<not> sets_limits a x) S S'"
    and "\<forall>k. i64 (row_weight k a (rs S)) = i64 (staked_for k a (rs S) + rented_for k a (rx S)) \<and>
      (\<not> managed_flag (vs S) a (managed_kind k) \<longrightarrow> chain_limit k a (rs S) = row_weight k a (rs S))"
  shows "\<forall>k. i64 (row_weight k a (rs S')) = i64 (staked_for k a (rs S') + rented_for k a (rx S')) \<and>
      (\<not> managed_flag (vs S') a (managed_kind k) \<longrightarrow> chain_limit k a (rs S') = row_weight k a (rs S'))"
proof
  fix k
  have "mirrored a (vs S') (rs S')" using assms(3) run_mirrors [OF assms(2)] by (simp add: mirrored_def)
  then show "i64 (row_weight k a (rs S')) = i64 (staked_for k a (rs S') + rented_for k a (rx S')) \<and>
      (\<not> managed_flag (vs S') a (managed_kind k) \<longrightarrow> chain_limit k a (rs S') = row_weight k a (rs S'))"
    using bandwidth_tally.run_keeps [OF run_any [OF assms(2)] assms(1), of "(k, a)"] assms(3)
    by (simp add: mirrored_def word_of_eq [symmetric] algebra_simps)
qed

text \<open>
  \<open>bob\<close> has delegated 10 and 20 to \<open>alice\<close>; now he rents processor time for her for 100, so that she
  may use 4975 more.
\<close>

definition backed_state :: system_state where
  "backed_state = demo_state\<lparr>rs := \<lparr>
     userres = fmupd alice \<lparr>ur_owner = alice, ur_net_weight = coins 10, ur_cpu_weight = coins 20, ram_bytes = 0\<rparr> fmempty,
     delband = fmupd (bob, alice) \<lparr>db_from = bob, db_to = alice, db_net_weight = coins 10, db_cpu_weight = coins 20\<rparr> fmempty,
     refunds = fmempty, limits = fmupd alice (1000, 10, 20) (fmupd bob (1000, 0, 0) fmempty)\<rparr>\<rparr>"

lemma backed_runrex: "runrex ref_env 2 backed_state = Inr backed_state"
  by (simp add: backed_state_def runrex_def rex_system_initialized_def demo_rex_def demo_pool_def the_pool_def loans_def emit_def eval_nat_numeral)

definition rented_loan :: rex_loan where
  "rented_loan = \<lparr>l_from = bob, l_receiver = alice, l_payment = coins 100, l_balance = coins 0, total_staked = coins 4975,
     l_loan_num = 1, expiration = 1602592000000000\<rparr>"

lemma rents_bancor: "get_bancor_output 20000 1000000 100 = Inr 4975"
  by code_simp

lemma backed_rx [simp]: "rx backed_state = demo_rex" "core_symbol backed_state = Inr eos"
  by (simp_all add: backed_state_def core_symbol_def demo_state_def)

lemma backed_pay: "add_asset ref_env (coins 100) (coins 0) = Inr (coins 100)" "new_asset ref_env 4975 eos = Inr (coins 4975)"
  by (simp_all add: add_asset_def new_asset_def ref_env_def in_range_def asset_max_def coins_def)

definition paid_rex :: rex_state where
  "paid_rex = demo_rex\<lparr>rexfunds := fmupd bob \<lparr>rf_owner = bob, rf_balance = coins 400\<rparr> fmempty\<rparr>"

lemma backed_fund: "transfer_from_fund ref_env (Inr eos) bob (coins 100) demo_rex = Inr paid_rex"
  by (simp add: transfer_from_fund_def paid_rex_def demo_rex_def le_asset_def less_asset_def check_def rex_available_def
      rex_system_initialized_def demo_pool_def ref_env_def coins_def inc_amt_def i64_def del: bindE_eq_Inr)

definition backed_pool :: rex_pool where
  "backed_pool = add_loan_to_rex_pool (coins 100) 4975 True demo_pool"

lemma backed_rent: "rent_rex ref_env Cpu_loan bob alice (coins 100) (coins 0) backed_state =
    Inr (4975, emit [Rex_rentresult (coins 4975)] (backed_state\<lparr>rx := set_loans Cpu_loan (fmupd 1 rented_loan fmempty)
      (paid_rex\<lparr>rexpool := Some backed_pool\<rparr>)\<rparr>))"
proof -
  have p: "rexpool paid_rex = Some demo_pool" "loans Cpu_loan paid_rex = fmempty" "rex_loans_available demo_rex"
    by (simp_all add: paid_rex_def demo_rex_def loans_def rex_loans_available_def rex_available_def rex_system_initialized_def demo_pool_def)
  have n: "rp_loan_num backed_pool = 1" by (simp add: backed_pool_def add_loan_to_rex_pool_def demo_pool_def u64_def)
  have b: "get_bancor_output (amount (total_rent demo_pool)) (amount (total_unlent demo_pool)) 100 = Inr 4975"
    by (simp add: demo_pool_def rents_bancor)
  have e: "i64 (now ref_env + 30 * useconds_per_day) = 1602592000000000"
    by (simp add: ref_env_def useconds_per_day_def seconds_per_day_def i64_def)
  show ?thesis
    unfolding rent_rex_def backed_runrex Let_def backed_rx
    by (simp add: backed_pay backed_fund p the_pool_def check_def b backed_pool_def [symmetric] n e rented_loan_def del: bindE_eq_Inr)
qed

lemma backed_limits:
  "case limits_for ref_env Cpu_loan alice 4975 (emit [Rex_rentresult (coins 4975)] (backed_state\<lparr>rx := set_loans Cpu_loan (fmupd 1 rented_loan fmempty)
      (paid_rex\<lparr>rexpool := Some backed_pool\<rparr>)\<rparr>)) of
     Inr S' \<Rightarrow> row_weight Cpu_loan alice (rs S') = 4995 \<and> staked_for Cpu_loan alice (rs S') = 20 \<and>
       \<not> managed_flag (vs S') alice cpu_managed
   | Inl _ \<Rightarrow> False"
  by code_simp

lemma backed_named: "loans_named backed_state"
  by (simp add: loans_named_def loans_def demo_rex_def split: loan_kind.split)

lemma backed_balance:
  "row_weight k a (rs backed_state) = staked_for k a (rs backed_state) + rented_for k a (rx backed_state)"
  "chain_limit k a (rs backed_state) = row_weight k a (rs backed_state)"
  by (cases k; simp add: row_weight_def staked_for_def rented_for_def loans_def backed_state_def demo_rex_def weight_of_kind_def
      share_of_kind_def chain_limit_def cong del: fmfilter_cong)+

theorem limits_match_stakes_and_rents_witness:
  "\<exists>S'. system_exec ref_env full_bank (Rex (Rentcpu bob alice (coins 100) (coins 0))) backed_state = Inr S' \<and>
     chain_limit Cpu_loan alice (rs S') = 4995 \<and> i64 (20 + rented_for Cpu_loan alice (rx S')) = 4995"
proof -
  have "has_auth ref_env bob" by (simp add: ref_env_def)
  then obtain S' where r: "rent_loan ref_env Cpu_loan bob alice (coins 100) (coins 0) backed_state = Inr S'"
    "row_weight Cpu_loan alice (rs S') = 4995" "staked_for Cpu_loan alice (rs S') = 20" "\<not> managed_flag (vs S') alice cpu_managed"
    using backed_limits by (auto simp: rent_loan_def backed_rent split: sum.splits)
  have x: "system_exec ref_env full_bank (Rex (Rentcpu bob alice (coins 100) (coins 0))) backed_state = Inr S'"
    using r(1) by (simp add: rentcpu_def)
  have run: "action_run (\<lambda>x. \<not> sets_limits alice x) backed_state S'" by (rule action_step [OF action_start ref_env_wraps _ x]) simp
  have "\<forall>k. i64 (row_weight k alice (rs backed_state)) = i64 (staked_for k alice (rs backed_state) + rented_for k alice (rx backed_state)) \<and>
      (\<not> managed_flag (vs backed_state) alice (managed_kind k) \<longrightarrow> chain_limit k alice (rs backed_state) = row_weight k alice (rs backed_state))"
    by (simp only: backed_balance) simp
  from spec [OF limits_match_stakes_and_rents [OF backed_named run this], of Cpu_loan] show ?thesis
    using x r(2-4) by (auto simp: i64_id is_i64_def)
qed

end
