(* ===== verification/Relay.thy ===== *)
theory Relay
  imports Exchange Demo
begin

text \<open>
  The two-step conversion of the Bancor relay over its smart token (\<open>exchange_state::convert\<close>),
  which issues smart tokens for the payment and redeems them from the other reserve. No action
  calls it any more; \<open>direct_convert\<close> has taken its place.
\<close>

section \<open>Powers\<close>

text \<open>
  \<open>None\<close> stands for a result that is not a finite number; it passes through the arithmetic and
  traps when it is converted to an integer. \<open>std::pow\<close> is not finite on a negative base with a
  fractional exponent; weights are positive.
\<close>

definition pow_of :: "env \<Rightarrow> double \<Rightarrow> double \<Rightarrow> double option" where
  "pow_of E x y = (if x < 0 \<and> of_int \<lfloor>y\<rfloor> \<noteq> y then None else Some (std_pow E x y))"

definition quotient :: "double \<Rightarrow> double \<Rightarrow> double option" where
  "quotient a b = (if b = 0 then None else Some (ddiv a b))"

definition opt_to_i64 :: "double option \<Rightarrow> int res" where
  "opt_to_i64 x = bindE (some_or (Trap ''conversion to int64 out of range'') x) dbl_to_i64"

section \<open>The two steps\<close>

definition convert_to_exchange ::
    "env \<Rightarrow> asset \<Rightarrow> connector \<Rightarrow> exchange_state \<Rightarrow> (asset \<times> connector \<times> exchange_state) res" where
  "convert_to_exchange E payment reserve X =
     (let S0 = dbl (amount (es_supply X)); R0 = dbl (amount (c_balance reserve)); dR = dbl (amount payment);
          F = weight reserve;
          dS = Option.bind (quotient dR R0) (\<lambda>q.
            map_option (\<lambda>p. dmul S0 (dsub p 1)) (pow_of E (dadd 1 q) F));
          dS = map_option (\<lambda>d. if d < 0 then 0 else d) dS in
      bindE (add_asset E (c_balance reserve) payment) (\<lambda>b.
      bindE (opt_to_i64 dS) (\<lambda>n.
      bindE (new_asset E n (symbol (es_supply X))) (\<lambda>out.
      Inr (out, reserve\<lparr>c_balance := b\<rparr>, X\<lparr>es_supply := inc_amt n (es_supply X)\<rparr>)))))"

definition convert_from_exchange ::
    "env \<Rightarrow> asset \<Rightarrow> connector \<Rightarrow> exchange_state \<Rightarrow> (asset \<times> connector \<times> exchange_state) res" where
  "convert_from_exchange E tokens reserve X =
     (let R0 = dbl (amount (c_balance reserve)); S0 = dbl (amount (es_supply X)); dS = dbl (i64 (- amount tokens));
          dR = Option.bind (quotient 1 (weight reserve)) (\<lambda>Fi. Option.bind (quotient dS S0) (\<lambda>q.
            map_option (\<lambda>p. dmul R0 (dsub p 1)) (pow_of E (dadd 1 q) Fi)));
          dR = map_option (\<lambda>d. if 0 < d then 0 else d) dR in
      bindE (opt_to_i64 (map_option uminus dR)) (\<lambda>n.
      bindE (sub_asset E (es_supply X) tokens) (\<lambda>s.
      bindE (new_asset E n (symbol (c_balance reserve))) (\<lambda>out.
      Inr (out, reserve\<lparr>c_balance := inc_amt (- n) (c_balance reserve)\<rparr>, X\<lparr>es_supply := s\<rparr>)))))"

definition convert :: "env \<Rightarrow> asset \<Rightarrow> symbol \<Rightarrow> exchange_state \<Rightarrow> (asset \<times> exchange_state) res" where
  "convert E from to X =
     (let sell_symbol = symbol from; base_symbol = symbol (c_balance (base X));
          quote_symbol = symbol (c_balance (quote X)) in
      bindE (check (sell_symbol \<noteq> to) ''cannot convert to the same symbol'') (\<lambda>_.
      bindE (new_asset E 0 to) (\<lambda>_.
      if sell_symbol = base_symbol \<and> to = quote_symbol then
        bindE (convert_to_exchange E from (base X) X) (\<lambda>(tmp, r, X).
        bindE (convert_from_exchange E tmp (quote X) (X\<lparr>base := r\<rparr>)) (\<lambda>(out, r, X).
        Inr (out, X\<lparr>quote := r\<rparr>)))
      else if sell_symbol = quote_symbol \<and> to = base_symbol then
        bindE (convert_to_exchange E from (quote X) X) (\<lambda>(tmp, r, X).
        bindE (convert_from_exchange E tmp (base X) (X\<lparr>quote := r\<rparr>)) (\<lambda>(out, r, X).
        Inr (out, X\<lparr>base := r\<rparr>)))
      else Inl (Check ''invalid conversion''))))"

section \<open>What a conversion keeps\<close>

lemma dbl_to_i64_Inr: "dbl_to_i64 x = Inr n \<Longrightarrow> is_i64 n" "dbl_to_i64 x = Inr n \<Longrightarrow> 0 \<le> x \<Longrightarrow> 0 \<le> n"
  by (auto simp: dbl_to_i64_def truncate_rat_def Let_def split: if_splits)

lemma opt_to_i64_clamped:
  "opt_to_i64 (map_option (\<lambda>d. if d < 0 then 0 else d) x) = Inr n \<Longrightarrow> 0 \<le> n"
  "opt_to_i64 (map_option uminus (map_option (\<lambda>d. if 0 < d then 0 else d) x)) = Inr n \<Longrightarrow> 0 \<le> n"
  by (cases x; auto simp: opt_to_i64_def split: if_splits dest: dbl_to_i64_Inr(2))+

lemma convert_to_law:
  assumes "convert_to_exchange E q r X = Inr (out, r', X')" "lib_ok E"
    and "0 \<le> amount (es_supply X)" "amount (es_supply X) \<le> 2 ^ 62" "is_i64 (amount (c_balance r) + amount q)"
  shows "amount (c_balance r') = amount (c_balance r) + amount q" "0 \<le> amount out"
    "amount (es_supply X') = amount (es_supply X) + amount out" "symbol (es_supply X') = symbol (es_supply X)"
    "symbol out = symbol (es_supply X)" "base X' = base X" "quote X' = quote X" "amount out < 2 ^ 62"
proof -
  obtain n x where n: "opt_to_i64 (map_option (\<lambda>d. if d < 0 then 0 else d) x) = Inr n" "new_asset E n (symbol (es_supply X)) = Inr out"
      "X' = X\<lparr>es_supply := inc_amt n (es_supply X)\<rparr>" and
    b: "add_asset E (c_balance r) q = Inr (c_balance r')"
    using assms(1) by (auto simp: convert_to_exchange_def Let_def)
  note c = opt_to_i64_clamped(1) [OF n(1)]
  have o: "out = \<lparr>amount = n, symbol = symbol (es_supply X)\<rparr>" "n < 2 ^ 62"
    using n(2) in_range_bounds(1) by (auto simp: new_asset_lib [OF assms(2)])
  have "i64 (amount (es_supply X) + n) = amount (es_supply X) + n"
    using c o(2) assms(3,4) by (intro i64_id) (simp add: is_i64_def)
  then show "amount (c_balance r') = amount (c_balance r) + amount q" "0 \<le> amount out"
    "amount (es_supply X') = amount (es_supply X) + amount out" "symbol (es_supply X') = symbol (es_supply X)"
    "symbol out = symbol (es_supply X)" "base X' = base X" "quote X' = quote X" "amount out < 2 ^ 62"
    using c o n(3) b by (auto simp: add_asset_lib [OF assms(2,5)])
qed

lemma convert_from_law:
  assumes "convert_from_exchange E t r X = Inr (out, r', X')" "lib_ok E"
    and "0 \<le> amount t" "amount t < 2 ^ 62" "0 \<le> amount (es_supply X)" "amount (es_supply X) < 2 ^ 63"
    and "0 \<le> amount (c_balance r)" "amount (c_balance r) \<le> 2 ^ 62"
  shows "amount (c_balance r') = amount (c_balance r) - amount out" "0 \<le> amount out"
    "amount (es_supply X') = amount (es_supply X) - amount t" "base X' = base X" "quote X' = quote X"
    "symbol (es_supply X') = symbol (es_supply X)" "symbol out = symbol (c_balance r)"
proof -
  have i: "is_i64 (amount (es_supply X) - amount t)" using assms(3-6) by (simp add: is_i64_def)
  obtain n x s where n: "opt_to_i64 (map_option uminus (map_option (\<lambda>d. if 0 < d then 0 else d) x)) = Inr n"
      "new_asset E n (symbol (c_balance r)) = Inr out" "r' = r\<lparr>c_balance := inc_amt (- n) (c_balance r)\<rparr>" and
    b: "sub_asset E (es_supply X) t = Inr s" "X' = X\<lparr>es_supply := s\<rparr>"
    using assms(1) by (auto simp: convert_from_exchange_def Let_def)
  note c = opt_to_i64_clamped(2) [OF n(1)]
  have o: "out = \<lparr>amount = n, symbol = symbol (c_balance r)\<rparr>" "n < 2 ^ 62"
    using n(2) in_range_bounds(1) by (auto simp: new_asset_lib [OF assms(2)])
  have "i64 (amount (c_balance r) - n) = amount (c_balance r) - n"
    using c o(2) assms(7,8) by (intro i64_id) (simp add: is_i64_def)
  then show "amount (c_balance r') = amount (c_balance r) - amount out" "0 \<le> amount out"
    "amount (es_supply X') = amount (es_supply X) - amount t" "base X' = base X" "quote X' = quote X"
    "symbol (es_supply X') = symbol (es_supply X)" "symbol out = symbol (c_balance r)"
    using c o n(3) b by (auto simp: sub_asset_lib [OF assms(2) i])
qed

text \<open>Both reserves and the supply in the range of assets, the payment not negative.\<close>

definition relay_fits :: "asset \<Rightarrow> exchange_state \<Rightarrow> bool" where
  "relay_fits q X \<longleftrightarrow> 0 \<le> amount q \<and> amount q < 2 ^ 62 \<and> 0 \<le> amount (es_supply X) \<and> amount (es_supply X) \<le> 2 ^ 62 \<and>
     0 \<le> amount (c_balance (base X)) \<and> amount (c_balance (base X)) \<le> 2 ^ 62 \<and>
     0 \<le> amount (c_balance (quote X)) \<and> amount (c_balance (quote X)) \<le> 2 ^ 62"

text \<open>
  C39: The two-step conversion is neutral to the smart token: what it issues for the payment it redeems
  again. One reserve grows by the payment, the other shrinks by the amount paid out, which is in
  the symbol asked for and not negative.
\<close>

theorem conversion_is_neutral:
  assumes "lib_ok E" and "relay_fits q X" and "convert E q to_sym X = Inr (out, X')"
  shows "amount (es_supply X') = amount (es_supply X) \<and> symbol out = to_sym \<and> 0 \<le> amount out \<and>
    (if symbol q = symbol (c_balance (base X))
     then amount (c_balance (base X')) = amount (c_balance (base X)) + amount q \<and>
       amount (c_balance (quote X')) = amount (c_balance (quote X)) - amount out
     else amount (c_balance (quote X')) = amount (c_balance (quote X)) + amount q \<and>
       amount (c_balance (base X')) = amount (c_balance (base X)) - amount out)"
proof -
  note F = assms(2) [unfolded relay_fits_def]
  have i: "is_i64 (amount (c_balance (base X)) + amount q)" "is_i64 (amount (c_balance (quote X)) + amount q)"
    using F by (auto simp: is_i64_def)
  consider (base) tmp r X1 r2 X2 where "symbol q = symbol (c_balance (base X))" "to_sym = symbol (c_balance (quote X))"
      "convert_to_exchange E q (base X) X = Inr (tmp, r, X1)"
      "convert_from_exchange E tmp (quote X1) (X1\<lparr>base := r\<rparr>) = Inr (out, r2, X2)" "X' = X2\<lparr>quote := r2\<rparr>"
    | (quote) tmp r X1 r2 X2 where "symbol q \<noteq> symbol (c_balance (base X))" "to_sym = symbol (c_balance (base X))"
      "convert_to_exchange E q (quote X) X = Inr (tmp, r, X1)"
      "convert_from_exchange E tmp (base X1) (X1\<lparr>quote := r\<rparr>) = Inr (out, r2, X2)" "X' = X2\<lparr>base := r2\<rparr>"
    using assms(3) by (auto simp: convert_def Let_def split: if_splits)
  then show ?thesis
  proof cases
    case base
    note T = convert_to_law [OF base(3) assms(1) _ _ i(1)]
    note R = convert_from_law [OF base(4) assms(1)]
    show ?thesis using T R F base(1,2,5) by simp
  next
    case quote
    note T = convert_to_law [OF quote(3) assms(1) _ _ i(2)]
    note R = convert_from_law [OF quote(4) assms(1)]
    show ?thesis using T R F quote(1,2,5) by simp
  qed
qed

text \<open>Reserves of weight one, for which the power is the identity.\<close>

definition linear_env :: env where
  "linear_env = ref_env\<lparr>std_pow := (\<lambda>x y. if y = 1 then x else 1)\<rparr>"

definition linear_market :: exchange_state where
  "linear_market = \<lparr>es_supply = \<lparr>amount = 1000, symbol = ramcore_symbol\<rparr>,
     base = \<lparr>c_balance = \<lparr>amount = 64, symbol = ram_symbol\<rparr>, weight = 1\<rparr>, quote = \<lparr>c_balance = coins 500, weight = 1\<rparr>\<rparr>"

theorem conversion_is_neutral_witness:
  "\<exists>out X'. convert linear_env \<lparr>amount = 64, symbol = ram_symbol\<rparr> eos linear_market = Inr (out, X') \<and>
     amount out = 250 \<and> amount (es_supply X') = 1000 \<and> amount (c_balance (quote X')) = 250"
proof -
  let ?q = "\<lparr>amount = 64, symbol = ram_symbol\<rparr>"
  have "case convert linear_env ?q eos linear_market of Inr x \<Rightarrow> amount (fst x) = 250 | Inl _ \<Rightarrow> False"
    by code_simp
  then obtain out X' where r: "convert linear_env ?q eos linear_market = Inr (out, X')" "amount out = 250"
    by (auto split: sum.splits)
  have E: "lib_ok linear_env" using ref_env_ok by (simp add: lib_ok_def linear_env_def)
  have f: "relay_fits ?q linear_market" by (simp add: relay_fits_def linear_market_def)
  from conversion_is_neutral [OF E f r(1)] r show ?thesis by (auto simp: linear_market_def)
qed

end
