(* ===== verification/Msig.thy ===== *)
theory Msig
  imports Chain "HOL-Library.Multiset"
begin

text \<open>
  The multisignature wallet (\<open>eosio.msig\<close>). A proposal is a packed transaction; the accounts
  asked for approve it, each approval carrying its time, and executing it hands the
  transaction to the chain when the approvals that have not been invalidated since authorize
  it. Tables of the first version of the contract (\<open>old_approvals\<close>) are still served.

  Unpacking a transaction header and judging whether a set of permissions authorizes a
  transaction are functions of the chain, the record \<open>msig_chain\<close>.
\<close>

record msig_chain =
  expiration_of :: "bytes \<Rightarrow> time_point_sec option"
  check_transaction_authorization :: "bytes \<Rightarrow> permission_level list \<Rightarrow> int"

record proposal =
  proposal_name :: name
  packed_transaction :: bytes

record approval =
  a_level :: permission_level
  a_time :: time_point

record approvals_info =
  ai_name :: name
  requested_approvals :: "approval list"
  provided_approvals :: "approval list"

record old_approvals_info =
  oai_name :: name
  old_requested :: "permission_level list"
  old_provided :: "permission_level list"

record invalidation =
  inv_account :: name
  last_invalidation_time :: time_point

text \<open>Proposals and approvals are scoped by the proposer and keyed by the proposal's name.\<close>

record msig_state =
  proposals :: "(name \<times> name, proposal) table"
  approvals :: "(name \<times> name, approvals_info) table"
  old_approvals :: "(name \<times> name, old_approvals_info) table"
  invals :: "(name, invalidation) table"
  sent :: "effect list"

section \<open>Actions\<close>

definition unpack_expiration :: "msig_chain \<Rightarrow> bytes \<Rightarrow> time_point_sec res" where
  "unpack_expiration C trx = some_or (Trap ''read past the end of the stream'') (expiration_of C trx)"

definition propose ::
    "env \<Rightarrow> msig_chain \<Rightarrow> name \<Rightarrow> name \<Rightarrow> permission_level list \<Rightarrow> bytes \<Rightarrow> msig_state \<Rightarrow> msig_state res" where
  "propose E C proposer pname requested trx M =
     bindE (unpack_expiration C trx) (\<lambda>expires.
     bindE (require_auth E proposer) (\<lambda>_.
     bindE (check (now_sec E \<le> expires) ''transaction expired'') (\<lambda>_.
     bindE (check (fmlookup (proposals M) (proposer, pname) = None) ''proposal with the same name exists'') (\<lambda>_.
     bindE (check (0 < check_transaction_authorization C trx requested) ''transaction authorization failed'') (\<lambda>_.
     bindE (emplace (proposer, pname) \<lparr>proposal_name = pname, packed_transaction = trx\<rparr> (proposals M)) (\<lambda>props.
     bindE (emplace (proposer, pname) \<lparr>ai_name = pname,
         requested_approvals = map (\<lambda>l. \<lparr>a_level = l, a_time = 0\<rparr>) requested, provided_approvals = []\<rparr>
       (approvals M)) (\<lambda>apps.
     Inr (M\<lparr>proposals := props, approvals := apps\<rparr>))))))))"

text \<open>The first element that satisfies \<open>P\<close>, erased (\<open>std::find_if\<close>, \<open>erase\<close>).\<close>

fun erase_first :: "('a \<Rightarrow> bool) \<Rightarrow> 'a list \<Rightarrow> 'a list" where
  "erase_first P [] = []"
| "erase_first P (x # xs) = (if P x then xs else x # erase_first P xs)"

definition check_hash :: "env \<Rightarrow> name \<Rightarrow> name \<Rightarrow> bytes option \<Rightarrow> msig_state \<Rightarrow> unit res" where
  "check_hash E proposer pname proposal_hash M =
     (case proposal_hash of
        None \<Rightarrow> Inr ()
      | Some h \<Rightarrow>
          bindE (some_or (Check ''proposal not found'') (fmlookup (proposals M) (proposer, pname))) (\<lambda>p.
          trap_unless (sha256 E (packed_transaction p) = h) ''hash mismatch''))"

definition approve ::
    "env \<Rightarrow> name \<Rightarrow> name \<Rightarrow> permission_level \<Rightarrow> bytes option \<Rightarrow> msig_state \<Rightarrow> msig_state res" where
  "approve E proposer pname level proposal_hash M =
     bindE (require_auth_level E level) (\<lambda>_.
     bindE (check_hash E proposer pname proposal_hash M) (\<lambda>_.
     (case fmlookup (approvals M) (proposer, pname) of
        Some a \<Rightarrow>
          bindE (check (\<exists>x\<in>set (requested_approvals a). a_level x = level)
            ''approval is not on the list of requested approvals'') (\<lambda>_.
          Inr (M\<lparr>approvals := fmupd (proposer, pname)
            (a\<lparr>provided_approvals := provided_approvals a @ [\<lparr>a_level = level, a_time = now E\<rparr>],
               requested_approvals := erase_first (\<lambda>x. a_level x = level) (requested_approvals a)\<rparr>)
            (approvals M)\<rparr>))
      | None \<Rightarrow>
          bindE (some_or (Check ''proposal not found'') (fmlookup (old_approvals M) (proposer, pname))) (\<lambda>a.
          bindE (check (level \<in> set (old_requested a)) ''approval is not on the list of requested approvals'') (\<lambda>_.
          Inr (M\<lparr>old_approvals := fmupd (proposer, pname)
            (a\<lparr>old_provided := old_provided a @ [level],
               old_requested := erase_first (\<lambda>x. x = level) (old_requested a)\<rparr>) (old_approvals M)\<rparr>))))))"

definition unapprove ::
    "env \<Rightarrow> name \<Rightarrow> name \<Rightarrow> permission_level \<Rightarrow> msig_state \<Rightarrow> msig_state res" where
  "unapprove E proposer pname level M =
     bindE (require_auth_level E level) (\<lambda>_.
     (case fmlookup (approvals M) (proposer, pname) of
        Some a \<Rightarrow>
          bindE (check (\<exists>x\<in>set (provided_approvals a). a_level x = level)
            ''no approval previously granted'') (\<lambda>_.
          Inr (M\<lparr>approvals := fmupd (proposer, pname)
            (a\<lparr>requested_approvals := requested_approvals a @ [\<lparr>a_level = level, a_time = now E\<rparr>],
               provided_approvals := erase_first (\<lambda>x. a_level x = level) (provided_approvals a)\<rparr>)
            (approvals M)\<rparr>))
      | None \<Rightarrow>
          bindE (some_or (Check ''proposal not found'') (fmlookup (old_approvals M) (proposer, pname))) (\<lambda>a.
          bindE (check (level \<in> set (old_provided a)) ''no approval previously granted'') (\<lambda>_.
          Inr (M\<lparr>old_approvals := fmupd (proposer, pname)
            (a\<lparr>old_requested := old_requested a @ [level],
               old_provided := erase_first (\<lambda>x. x = level) (old_provided a)\<rparr>) (old_approvals M)\<rparr>)))))"

definition drop_approvals :: "name \<Rightarrow> name \<Rightarrow> msig_state \<Rightarrow> msig_state res" where
  "drop_approvals proposer pname M =
     (case fmlookup (approvals M) (proposer, pname) of
        Some _ \<Rightarrow> Inr (M\<lparr>approvals := fmdrop (proposer, pname) (approvals M)\<rparr>)
      | None \<Rightarrow>
          bindE (check (fmlookup (old_approvals M) (proposer, pname) \<noteq> None) ''proposal not found'') (\<lambda>_.
          Inr (M\<lparr>old_approvals := fmdrop (proposer, pname) (old_approvals M)\<rparr>)))"

definition cancel :: "env \<Rightarrow> msig_chain \<Rightarrow> name \<Rightarrow> name \<Rightarrow> name \<Rightarrow> msig_state \<Rightarrow> msig_state res" where
  "cancel E C proposer pname canceler M =
     bindE (require_auth E canceler) (\<lambda>_.
     bindE (some_or (Check ''proposal not found'') (fmlookup (proposals M) (proposer, pname))) (\<lambda>p.
     bindE
       (if canceler \<noteq> proposer then
          bindE (unpack_expiration C (packed_transaction p)) (\<lambda>expires.
          check (expires < now_sec E) ''cannot cancel until expiration'')
        else Inr ()) (\<lambda>_.
     drop_approvals proposer pname (M\<lparr>proposals := fmdrop (proposer, pname) (proposals M)\<rparr>))))"

text \<open>The approvals that count: those given after the account's last invalidation.\<close>

definition still_valid :: "msig_state \<Rightarrow> approval \<Rightarrow> bool" where
  "still_valid M p \<longleftrightarrow>
     (case fmlookup (invals M) (actor (a_level p)) of
        None \<Rightarrow> True | Some i \<Rightarrow> last_invalidation_time i < a_time p)"

definition counted_approvals :: "name \<Rightarrow> name \<Rightarrow> msig_state \<Rightarrow> permission_level list res" where
  "counted_approvals proposer pname M =
     (case fmlookup (approvals M) (proposer, pname) of
        Some a \<Rightarrow> Inr (map a_level (filter (still_valid M) (provided_approvals a)))
      | None \<Rightarrow>
          bindE (some_or (Check ''proposal not found'') (fmlookup (old_approvals M) (proposer, pname))) (\<lambda>a.
          Inr (filter (\<lambda>l. fmlookup (invals M) (actor l) = None) (old_provided a))))"

definition exec :: "env \<Rightarrow> msig_chain \<Rightarrow> name \<Rightarrow> name \<Rightarrow> name \<Rightarrow> msig_state \<Rightarrow> msig_state res" where
  "exec E C proposer pname executer M =
     bindE (require_auth E executer) (\<lambda>_.
     bindE (some_or (Check ''proposal not found'') (fmlookup (proposals M) (proposer, pname))) (\<lambda>p.
     bindE (unpack_expiration C (packed_transaction p)) (\<lambda>expires.
     bindE (check (now_sec E \<le> expires) ''transaction expired'') (\<lambda>_.
     bindE (counted_approvals proposer pname M) (\<lambda>levels.
     bindE (drop_approvals proposer pname M) (\<lambda>M.
     bindE (check (0 < check_transaction_authorization C (packed_transaction p) levels)
       ''transaction authorization failed'') (\<lambda>_.
     Inr (M\<lparr>sent := sent M @ [Send_deferred (deferred_id proposer (uint pname)) executer 0
             (Trx_packed (packed_transaction p)) False],
            proposals := fmdrop (proposer, pname) (proposals M)\<rparr>))))))))"

definition invalidate :: "env \<Rightarrow> name \<Rightarrow> msig_state \<Rightarrow> msig_state res" where
  "invalidate E acct M =
     bindE (require_auth E acct) (\<lambda>_.
     Inr (M\<lparr>invals := fmupd acct
       (case fmlookup (invals M) acct of
          None \<Rightarrow> \<lparr>inv_account = acct, last_invalidation_time = now E\<rparr>
        | Some i \<Rightarrow> i\<lparr>last_invalidation_time := now E\<rparr>) (invals M)\<rparr>))"

section \<open>Traces\<close>

datatype msig_action =
    Propose name name "permission_level list" bytes
  | Approve name name permission_level "bytes option"
  | Unapprove name name permission_level
  | Cancel name name name
  | Exec name name name
  | Invalidate name

fun msig_exec :: "env \<Rightarrow> msig_chain \<Rightarrow> msig_action \<Rightarrow> msig_state \<Rightarrow> msig_state res" where
  "msig_exec E C (Propose p n ls trx) M = propose E C p n ls trx M"
| "msig_exec E C (Approve p n l h) M = approve E p n l h M"
| "msig_exec E C (Unapprove p n l) M = unapprove E p n l M"
| "msig_exec E C (Cancel p n c) M = cancel E C p n c M"
| "msig_exec E C (Exec p n x) M = exec E C p n x M"
| "msig_exec E C (Invalidate a) M = invalidate E a M"

definition msig_empty :: msig_state where
  "msig_empty = \<lparr>proposals = fmempty, approvals = fmempty, old_approvals = fmempty, invals = fmempty, sent = []\<rparr>"

end
