(* ===== verification/Msig_Laws.thy ===== *)
theory Msig_Laws
  imports Msig Demo
begin

text \<open>
  The multisignature wallet along histories of its actions: what is executed is what was proposed,
  by approvals that the accounts asked for gave to this very proposal, with the authority of the
  permission, and have neither taken back nor invalidated since.
\<close>

section \<open>Histories\<close>

type_synonym msig_event = "env \<times> msig_action"

text \<open>Successful actions from the empty tables, in the order of the chain's time.\<close>

inductive msig_trace :: "msig_chain \<Rightarrow> msig_event list \<Rightarrow> msig_state \<Rightarrow> bool" for C where
  trace_start: "msig_trace C [] msig_empty"
| trace_act: "msig_trace C evs M \<Longrightarrow> \<forall>ev\<in>set evs. now (fst ev) \<le> now E \<Longrightarrow> msig_exec E C a M = Inr M' \<Longrightarrow>
    msig_trace C (evs @ [(E, a)]) M'"

fun granted :: "name \<Rightarrow> name \<Rightarrow> permission_level \<Rightarrow> msig_event list \<Rightarrow> int" where
  "granted p n l [] = 0"
| "granted p n l ((E, a) # evs) =
     (case a of Approve p' n' l' h \<Rightarrow> if p' = p \<and> n' = n \<and> l' = l then 1 else 0
      | Unapprove p' n' l' \<Rightarrow> if p' = p \<and> n' = n \<and> l' = l then - 1 else 0
      | _ \<Rightarrow> 0) + granted p n l evs"

lemma granted_append [simp]: "granted p n l (evs @ fs) = granted p n l evs + granted p n l fs"
  by (induction p n l evs rule: granted.induct) simp_all

text \<open>
  An approval row since the proposal was made with the transaction \<open>trx\<close> and the requests \<open>ls\<close>:
  requests and approvals are the permissions asked for, an approval was given with its authority at
  its time, and there are as many of a permission as were given and not taken back.
\<close>

definition approvals_since ::
    "name \<Rightarrow> name \<Rightarrow> permission_level list \<Rightarrow> msig_event list \<Rightarrow> approvals_info \<Rightarrow> bool" where
  "approvals_since p n ls evs a \<longleftrightarrow>
     image_mset a_level (mset (requested_approvals a) + mset (provided_approvals a)) = mset ls \<and>
     (\<forall>x\<in>set (provided_approvals a). \<exists>F h. (F, Approve p n (a_level x) h) \<in> set evs \<and>
       has_perm F (a_level x) \<and> now F = a_time x) \<and>
     (\<forall>l. int (count (image_mset a_level (mset (provided_approvals a))) l) = granted p n l evs)"

definition proposal_ok :: "msig_event list \<Rightarrow> msig_state \<Rightarrow> name \<Rightarrow> name \<Rightarrow> bool" where
  "proposal_ok evs M p n \<longleftrightarrow> (case fmlookup (proposals M) (p, n) of
     None \<Rightarrow> fmlookup (approvals M) (p, n) = None
   | Some pr \<Rightarrow> \<exists>evs1 F ls evs2 a. evs = evs1 @ (F, Propose p n ls (packed_transaction pr)) # evs2 \<and> has_auth F p \<and>
       fmlookup (approvals M) (p, n) = Some a \<and> approvals_since p n ls evs2 a)"

definition invals_ok :: "msig_event list \<Rightarrow> msig_state \<Rightarrow> bool" where
  "invals_ok evs M \<longleftrightarrow> (\<forall>G b. (G, Invalidate b) \<in> set evs \<longrightarrow>
     (\<exists>i. fmlookup (invals M) b = Some i \<and> now G \<le> last_invalidation_time i))"

definition msig_inv :: "msig_event list \<Rightarrow> msig_state \<Rightarrow> bool" where
  "msig_inv evs M \<longleftrightarrow> (\<forall>p n. proposal_ok evs M p n) \<and> old_approvals M = fmempty \<and> invals_ok evs M"

lemma approvals_sinceD:
  assumes "approvals_since p n ls evs a"
  shows "image_mset a_level (mset (requested_approvals a) + mset (provided_approvals a)) = mset ls"
    "x \<in> set (provided_approvals a) \<Longrightarrow> \<exists>F h. (F, Approve p n (a_level x) h) \<in> set evs \<and>
       has_perm F (a_level x) \<and> now F = a_time x"
    "int (count (image_mset a_level (mset (provided_approvals a))) l) = granted p n l evs"
  using assms unfolding approvals_since_def by blast+

section \<open>Rows under the actions\<close>

lemma erase_first_found:
  assumes "\<exists>x\<in>set xs. P x"
  obtains y where "y \<in> set xs" "P y" "mset xs = add_mset y (mset (erase_first P xs))"
proof -
  have "\<exists>y\<in>set xs. P y \<and> mset xs = add_mset y (mset (erase_first P xs))"
    using assms by (induction P xs rule: erase_first.induct) auto
  then show thesis using that by blast
qed

lemma set_erase_first: "set (erase_first P xs) \<subseteq> set xs"
  by (induction P xs rule: erase_first.induct) auto

lemma approve_row:
  assumes "approvals_since p n ls evs a" "\<exists>x\<in>set (requested_approvals a). a_level x = l" "has_perm E l"
  shows "approvals_since p n ls (evs @ [(E, Approve p n l h)])
    (a\<lparr>provided_approvals := provided_approvals a @ [\<lparr>a_level = l, a_time = now E\<rparr>],
       requested_approvals := erase_first (\<lambda>x. a_level x = l) (requested_approvals a)\<rparr>)"
proof -
  note D = approvals_sinceD [OF assms(1)]
  obtain y where y: "a_level y = l" "mset (requested_approvals a) = add_mset y (mset (erase_first (\<lambda>x. a_level x = l) (requested_approvals a)))"
    using assms(2) by (rule erase_first_found)
  have "image_mset a_level (mset (erase_first (\<lambda>x. a_level x = l) (requested_approvals a)) +
      mset (provided_approvals a @ [\<lparr>a_level = l, a_time = now E\<rparr>])) = mset ls"
    using D(1) y by simp
  moreover have "\<exists>F g. (F, Approve p n (a_level x) g) \<in> set (evs @ [(E, Approve p n l h)]) \<and> has_perm F (a_level x) \<and> now F = a_time x"
    if "x \<in> set (provided_approvals a @ [\<lparr>a_level = l, a_time = now E\<rparr>])" for x
    using that D(2) assms(3) by fastforce
  ultimately show ?thesis using D(3) by (simp add: approvals_since_def)
qed

lemma unapprove_row:
  assumes "approvals_since p n ls evs a" "\<exists>x\<in>set (provided_approvals a). a_level x = l"
  shows "approvals_since p n ls (evs @ [(E, Unapprove p n l)])
    (a\<lparr>requested_approvals := requested_approvals a @ [\<lparr>a_level = l, a_time = now E\<rparr>],
       provided_approvals := erase_first (\<lambda>x. a_level x = l) (provided_approvals a)\<rparr>)"
proof -
  note D = approvals_sinceD [OF assms(1)]
  obtain y where y: "a_level y = l" "mset (provided_approvals a) = add_mset y (mset (erase_first (\<lambda>x. a_level x = l) (provided_approvals a)))"
    using assms(2) by (rule erase_first_found)
  have "image_mset a_level (mset (requested_approvals a @ [\<lparr>a_level = l, a_time = now E\<rparr>]) +
      mset (erase_first (\<lambda>x. a_level x = l) (provided_approvals a))) = mset ls"
    using D(1) y by simp
  moreover have "\<exists>F g. (F, Approve p n (a_level x) g) \<in> set (evs @ [(E, Unapprove p n l)]) \<and> has_perm F (a_level x) \<and> now F = a_time x"
    if "x \<in> set (erase_first (\<lambda>x. a_level x = l) (provided_approvals a))" for x
    using that D(2) set_erase_first by fastforce
  moreover have "int (count (image_mset a_level (mset (erase_first (\<lambda>x. a_level x = l) (provided_approvals a)))) k) =
      granted p n k (evs @ [(E, Unapprove p n l)])" for k
    using D(3) [of k] y by auto
  ultimately show ?thesis by (simp add: approvals_since_def)
qed

lemma other_row:
  assumes "approvals_since p n ls evs a" "\<And>l. granted p n l [ev] = 0"
  shows "approvals_since p n ls (evs @ [ev]) a"
  using assms unfolding approvals_since_def granted_append by fastforce
section \<open>The invariant along histories\<close>

lemma proposal_ok_other:
  assumes "proposal_ok evs M p n" "fmlookup (proposals M') (p, n) = fmlookup (proposals M) (p, n)"
    "fmlookup (approvals M') (p, n) = fmlookup (approvals M) (p, n)" "\<And>l. granted p n l [ev] = 0"
  shows "proposal_ok (evs @ [ev]) M' p n"
proof (cases "fmlookup (proposals M) (p, n)")
  case (Some pr)
  then obtain evs1 F ls evs2 a where "evs = evs1 @ (F, Propose p n ls (packed_transaction pr)) # evs2" "has_auth F p"
      "fmlookup (approvals M) (p, n) = Some a" "approvals_since p n ls evs2 a"
    using assms(1) by (auto simp: proposal_ok_def)
  then have "evs @ [ev] = evs1 @ (F, Propose p n ls (packed_transaction pr)) # (evs2 @ [ev]) \<and> has_auth F p \<and>
      fmlookup (approvals M') (p, n) = Some a \<and> approvals_since p n ls (evs2 @ [ev]) a"
    using other_row assms(3,4) by auto
  then show ?thesis using Some assms(2) unfolding proposal_ok_def by fastforce
qed (use assms in \<open>simp add: proposal_ok_def\<close>)

lemma proposal_ok_row:
  assumes "proposal_ok evs M p n" "fmlookup (approvals M) (p, n) = Some a"
    "fmlookup (proposals M') (p, n) = fmlookup (proposals M) (p, n)" "fmlookup (approvals M') (p, n) = Some a'"
    "\<And>ls evs2. approvals_since p n ls evs2 a \<Longrightarrow> approvals_since p n ls (evs2 @ [ev]) a'"
  shows "proposal_ok (evs @ [ev]) M' p n"
proof -
  obtain pr where pr: "fmlookup (proposals M) (p, n) = Some pr"
    using assms(1,2) by (auto simp: proposal_ok_def split: option.splits)
  then obtain evs1 F ls evs2 where "evs = evs1 @ (F, Propose p n ls (packed_transaction pr)) # evs2" "has_auth F p"
      "approvals_since p n ls evs2 a"
    using assms(1,2) by (auto simp: proposal_ok_def)
  then have "evs @ [ev] = evs1 @ (F, Propose p n ls (packed_transaction pr)) # (evs2 @ [ev]) \<and> has_auth F p \<and>
      fmlookup (approvals M') (p, n) = Some a' \<and> approvals_since p n ls (evs2 @ [ev]) a'"
    using assms(4,5) by auto
  then show ?thesis using pr assms(3) unfolding proposal_ok_def by fastforce
qed

lemma proposal_ok_gone:
  "fmlookup (proposals M) (p, n) = None \<Longrightarrow> fmlookup (approvals M) (p, n) = None \<Longrightarrow> proposal_ok evs M p n"
  by (simp add: proposal_ok_def)

lemma invals_ok_same: "invals_ok evs M \<Longrightarrow> invals M' = invals M \<Longrightarrow> \<forall>G b. ev \<noteq> (G, Invalidate b) \<Longrightarrow> invals_ok (evs @ [ev]) M'"
  by (auto simp: invals_ok_def)

lemma propose_keeps:
  assumes X: "msig_inv evs M" and run: "propose E C p n ls trx M = Inr M'"
  shows "msig_inv (evs @ [(E, Propose p n ls trx)]) M'"
proof -
  let ?a = "\<lparr>ai_name = n, requested_approvals = map (\<lambda>l. \<lparr>a_level = l, a_time = 0\<rparr>) ls, provided_approvals = []\<rparr>"
  let ?ev = "(E, Propose p n ls trx)"
  have M': "M' = M\<lparr>proposals := fmupd (p, n) \<lparr>proposal_name = n, packed_transaction = trx\<rparr> (proposals M),
      approvals := fmupd (p, n) ?a (approvals M)\<rparr>" and auth: "has_auth E p"
    using run by (auto simp: propose_def)
  have a: "approvals_since p n ls [] ?a"
    by (simp add: approvals_since_def multiset.map_comp o_def)
  have "proposal_ok (evs @ [?ev]) M' q m" for q m
  proof (cases "q = p \<and> m = n")
    case True
    have "evs @ [?ev] = evs @ (E, Propose p n ls trx) # [] \<and> has_auth E p \<and> fmlookup (approvals M') (p, n) = Some ?a \<and>
        approvals_since p n ls [] ?a"
      using a auth by (simp add: M')
    moreover have "fmlookup (proposals M') (p, n) = Some \<lparr>proposal_name = n, packed_transaction = trx\<rparr>" by (simp add: M')
    ultimately have "proposal_ok (evs @ [?ev]) M' p n" unfolding proposal_ok_def by fastforce
    then show ?thesis using True by simp
  next
    case False
    show ?thesis
      by (rule proposal_ok_other [where M = M]) (use X False in \<open>auto simp: M' msig_inv_def\<close>)
  qed
  moreover have "invals_ok (evs @ [?ev]) M'" using X by (intro invals_ok_same [where M = M]) (auto simp: M' msig_inv_def)
  ultimately show ?thesis using X by (simp add: msig_inv_def M')
qed

lemma approve_keeps:
  assumes X: "msig_inv evs M" and run: "approve E p n l h M = Inr M'"
  shows "msig_inv (evs @ [(E, Approve p n l h)]) M'"
proof -
  let ?ev = "(E, Approve p n l h)"
  obtain a where a: "fmlookup (approvals M) (p, n) = Some a" "\<exists>x\<in>set (requested_approvals a). a_level x = l" "has_perm E l" and
    M': "M' = M\<lparr>approvals := fmupd (p, n)
            (a\<lparr>provided_approvals := provided_approvals a @ [\<lparr>a_level = l, a_time = now E\<rparr>],
               requested_approvals := erase_first (\<lambda>x. a_level x = l) (requested_approvals a)\<rparr>) (approvals M)\<rparr>"
    using run X by (auto simp: approve_def msig_inv_def split: option.splits)
  have "proposal_ok (evs @ [?ev]) M' q m" for q m
  proof (cases "q = p \<and> m = n")
    case True
    have "proposal_ok (evs @ [?ev]) M' p n"
      by (rule proposal_ok_row [where M = M, OF _ a(1) _ _ approve_row [OF _ a(2,3)]]) (use X in \<open>auto simp: M' msig_inv_def\<close>)
    then show ?thesis using True by simp
  next
    case False
    show ?thesis
      by (rule proposal_ok_other [where M = M]) (use X False in \<open>auto simp: M' msig_inv_def\<close>)
  qed
  moreover have "invals_ok (evs @ [?ev]) M'" using X by (intro invals_ok_same [where M = M]) (auto simp: M' msig_inv_def)
  ultimately show ?thesis using X by (simp add: msig_inv_def M')
qed

lemma unapprove_keeps:
  assumes X: "msig_inv evs M" and run: "unapprove E p n l M = Inr M'"
  shows "msig_inv (evs @ [(E, Unapprove p n l)]) M'"
proof -
  let ?ev = "(E, Unapprove p n l)"
  obtain a where a: "fmlookup (approvals M) (p, n) = Some a" "\<exists>x\<in>set (provided_approvals a). a_level x = l" and
    M': "M' = M\<lparr>approvals := fmupd (p, n)
            (a\<lparr>requested_approvals := requested_approvals a @ [\<lparr>a_level = l, a_time = now E\<rparr>],
               provided_approvals := erase_first (\<lambda>x. a_level x = l) (provided_approvals a)\<rparr>) (approvals M)\<rparr>"
    using run X by (auto simp: unapprove_def msig_inv_def split: option.splits)
  have "proposal_ok (evs @ [?ev]) M' q m" for q m
  proof (cases "q = p \<and> m = n")
    case True
    have "proposal_ok (evs @ [?ev]) M' p n"
      by (rule proposal_ok_row [where M = M, OF _ a(1) _ _ unapprove_row [OF _ a(2)]]) (use X in \<open>auto simp: M' msig_inv_def\<close>)
    then show ?thesis using True by simp
  next
    case False
    show ?thesis
      by (rule proposal_ok_other [where M = M]) (use X False in \<open>auto simp: M' msig_inv_def\<close>)
  qed
  moreover have "invals_ok (evs @ [?ev]) M'" using X by (intro invals_ok_same [where M = M]) (auto simp: M' msig_inv_def)
  ultimately show ?thesis using X by (simp add: msig_inv_def M')
qed

lemma gone_keeps:
  assumes X: "msig_inv evs M" and M': "proposals M' = fmdrop (p, n) (proposals M)" "approvals M' = fmdrop (p, n) (approvals M)"
      "old_approvals M' = old_approvals M" "invals M' = invals M"
    and ev: "\<And>q m l. granted q m l [ev] = 0" "\<forall>G b. ev \<noteq> (G, Invalidate b)"
  shows "msig_inv (evs @ [ev]) M'"
proof -
  have "proposal_ok (evs @ [ev]) M' q m" for q m
  proof (cases "q = p \<and> m = n")
    case True
    then show ?thesis using M' by (intro proposal_ok_gone) auto
  next
    case False
    show ?thesis
      by (rule proposal_ok_other [where M = M]) (use X False M' ev in \<open>auto simp: msig_inv_def\<close>)
  qed
  moreover have "invals_ok (evs @ [ev]) M'" using X M'(4) ev(2) by (intro invals_ok_same [where M = M]) (auto simp: msig_inv_def)
  ultimately show ?thesis using X M'(3) by (simp add: msig_inv_def)
qed

lemma drop_approvals_Inr:
  "old_approvals M = fmempty \<Longrightarrow> drop_approvals p n M = Inr M' \<Longrightarrow> M' = M\<lparr>approvals := fmdrop (p, n) (approvals M)\<rparr>"
  by (auto simp: drop_approvals_def split: option.splits)

lemma msig_exec_keeps:
  assumes X: "msig_inv evs M" and t: "\<forall>ev\<in>set evs. now (fst ev) \<le> now E" and run: "msig_exec E C a M = Inr M'"
  shows "msig_inv (evs @ [(E, a)]) M'"
proof (cases a)
  case (Propose p n ls trx)
  then show ?thesis using propose_keeps [OF X] run by simp
next
  case (Approve p n l h)
  then show ?thesis using approve_keeps [OF X] run by simp
next
  case (Unapprove p n l)
  then show ?thesis using unapprove_keeps [OF X] run by simp
next
  case (Cancel p n c)
  have o: "old_approvals (M\<lparr>proposals := t\<rparr>) = fmempty" for t using X by (simp add: msig_inv_def)
  have "M' = M\<lparr>proposals := fmdrop (p, n) (proposals M), approvals := fmdrop (p, n) (approvals M)\<rparr>"
    using run Cancel by (auto simp: cancel_def dest!: drop_approvals_Inr [OF o])
  then show ?thesis unfolding Cancel by (intro gone_keeps [OF X]) simp_all
next
  case (Exec p n x)
  have o: "old_approvals M = fmempty" using X by (simp add: msig_inv_def)
  obtain es where "M' = M\<lparr>approvals := fmdrop (p, n) (approvals M), sent := es, proposals := fmdrop (p, n) (proposals M)\<rparr>"
    using run Exec by (auto simp: exec_def dest!: drop_approvals_Inr [OF o])
  then show ?thesis unfolding Exec by (intro gone_keeps [OF X]) simp_all
next
  case (Invalidate b)
  then obtain i where M': "M' = M\<lparr>invals := fmupd b i (invals M)\<rparr>" "last_invalidation_time i = now E"
    using run by (auto simp: invalidate_def split: option.split)
  have "proposal_ok (evs @ [(E, a)]) M' q m" for q m
    by (rule proposal_ok_other [where M = M]) (use X M' Invalidate in \<open>auto simp: msig_inv_def\<close>)
  moreover have "invals_ok (evs @ [(E, a)]) M'"
    using X t M' Invalidate by (fastforce simp: msig_inv_def invals_ok_def)
  ultimately show ?thesis using X M' by (simp add: msig_inv_def)
qed

lemma msig_trace_inv: "msig_trace C evs M \<Longrightarrow> msig_inv evs M"
proof (induction rule: msig_trace.induct)
  case trace_start
  show ?case by (simp add: msig_inv_def proposal_ok_def invals_ok_def msig_empty_def)
next
  case (trace_act evs M E a M')
  show ?case by (rule msig_exec_keeps [OF trace_act.IH trace_act.hyps(2,3)])
qed

section \<open>Properties\<close>

text \<open>
  C38: Nothing is executed without consent. Along any history of the wallet, a transaction is handed to
  the chain only as its proposer has proposed it, and only when the permissions that authorize it
  were asked for, have approved this very proposal with their authority at least once more than
  they have taken it back, and have invalidated no approval of theirs at or after that approval.
\<close>

theorem execution_needs_consent:
  assumes "msig_trace C evs M" and "exec E C p n x M = Inr M'"
  shows "\<exists>evs1 F ls trx evs2 levels. evs = evs1 @ (F, Propose p n ls trx) # evs2 \<and> has_auth F p \<and>
    sent M' = sent M @ [Send_deferred (deferred_id p (uint n)) x 0 (Trx_packed trx) False] \<and>
    0 < check_transaction_authorization C trx levels \<and>
    (\<forall>l\<in>set levels. l \<in> set ls \<and> 0 < granted p n l evs2 \<and>
      (\<exists>G h. (G, Approve p n l h) \<in> set evs2 \<and> has_perm G l \<and>
        (\<forall>I. (I, Invalidate (actor l)) \<in> set evs \<longrightarrow> now I < now G)))"
proof -
  have X: "msig_inv evs M" by (rule msig_trace_inv [OF assms(1)])
  then have o: "old_approvals M = fmempty" and I: "invals_ok evs M" by (simp_all add: msig_inv_def)
  obtain pr levels M1 where pr: "fmlookup (proposals M) (p, n) = Some pr" and lv: "counted_approvals p n M = Inr levels"
    and d: "drop_approvals p n M = Inr M1" and ok: "0 < check_transaction_authorization C (packed_transaction pr) levels"
    and M': "M' = M1\<lparr>sent := sent M1 @ [Send_deferred (deferred_id p (uint n)) x 0 (Trx_packed (packed_transaction pr)) False],
            proposals := fmdrop (p, n) (proposals M1)\<rparr>"
    using assms(2) by (auto simp: exec_def)
  have "proposal_ok evs M p n" using X by (simp add: msig_inv_def)
  then obtain evs1 F ls evs2 a where e: "evs = evs1 @ (F, Propose p n ls (packed_transaction pr)) # evs2" "has_auth F p"
      and a: "fmlookup (approvals M) (p, n) = Some a" "approvals_since p n ls evs2 a"
    using pr by (auto simp: proposal_ok_def)
  note D = approvals_sinceD [OF a(2)]
  have "l \<in> set ls \<and> 0 < granted p n l evs2 \<and> (\<exists>G h. (G, Approve p n l h) \<in> set evs2 \<and> has_perm G l \<and>
      (\<forall>I. (I, Invalidate (actor l)) \<in> set evs \<longrightarrow> now I < now G))" if "l \<in> set levels" for l
  proof -
    obtain y where y: "y \<in> set (provided_approvals a)" "still_valid M y" "a_level y = l"
      using \<open>l \<in> set levels\<close> lv a(1) by (auto simp: counted_approvals_def)
    have m: "l \<in># image_mset a_level (mset (provided_approvals a))" using y by auto
    then have "l \<in># mset ls" using D(1) by (metis image_mset_union union_iff)
    moreover have "0 < granted p n l evs2" using m D(3) [of l] by (metis count_greater_zero_iff of_nat_0_less_iff)
    moreover have "now I < a_time y" if "(I, Invalidate (actor l)) \<in> set evs" for I
      using that I y(2,3) unfolding invals_ok_def still_valid_def by fastforce
    ultimately show ?thesis using D(2) [OF y(1)] y(3) by force
  qed
  moreover have "sent M1 = sent M" using drop_approvals_Inr [OF o d] by simp
  ultimately show ?thesis using e ok M' by (intro exI conjI) auto
qed

definition demo_chain :: msig_chain where
  "demo_chain = \<lparr>expiration_of = (\<lambda>_. Some 1700000000), check_transaction_authorization = (\<lambda>trx ls. int (length ls))\<rparr>"

theorem execution_needs_consent_witness:
  "\<exists>M1 M2 M3. propose ref_env demo_chain bob 7 [active_of alice] [1, 2] msig_empty = Inr M1 \<and>
     approve ref_env bob 7 (active_of alice) None M1 = Inr M2 \<and> exec ref_env demo_chain bob 7 carol M2 = Inr M3 \<and>
     sent M3 = [Send_deferred (deferred_id bob 7) carol 0 (Trx_packed [1, 2]) False]"
proof -
  let ?p = "Propose bob 7 [active_of alice] [1, 2]" and ?a = "Approve bob 7 (active_of alice) None"
  have "case propose ref_env demo_chain bob 7 [active_of alice] [1, 2] msig_empty of Inl _ \<Rightarrow> False | Inr M1 \<Rightarrow>
      (case approve ref_env bob 7 (active_of alice) None M1 of Inl _ \<Rightarrow> False | Inr M2 \<Rightarrow>
        sent M2 = [] \<and> (case exec ref_env demo_chain bob 7 carol M2 of Inl _ \<Rightarrow> False | Inr M3 \<Rightarrow> True))"
    by code_simp
  then obtain M1 M2 M3 where r: "propose ref_env demo_chain bob 7 [active_of alice] [1, 2] msig_empty = Inr M1"
    "approve ref_env bob 7 (active_of alice) None M1 = Inr M2" "exec ref_env demo_chain bob 7 carol M2 = Inr M3" "sent M2 = []"
    by (auto split: sum.splits)
  have "msig_trace demo_chain ([] @ [(ref_env, ?p)]) M1" by (rule trace_act [OF trace_start]) (simp_all add: r)
  then have "msig_trace demo_chain (([] @ [(ref_env, ?p)]) @ [(ref_env, ?a)]) M2" by (rule trace_act) (simp_all add: r)
  from execution_needs_consent [OF this r(3)]
  have "sent M3 = [Send_deferred (deferred_id bob 7) carol 0 (Trx_packed [1, 2]) False]"
    using r(4) by (auto simp: append_eq_Cons_conv Cons_eq_append_conv)
  then show ?thesis using r by blast
qed

end
