(* ===== verification/Wrap_Bios.thy ===== *)
theory Wrap_Bios
  imports System_State
begin

text \<open>
  The two small contracts: \<open>eosio.wrap\<close>, which sends a transaction past the checks of its
  authorization when its own account and the executer agree, and \<open>eosio.bios\<close>, the system
  contract of a chain before the real one is set.
\<close>

definition wrap_exec :: "env \<Rightarrow> name \<Rightarrow> bytes \<Rightarrow> effect list res" where
  "wrap_exec E executer trx =
     bindE (require_auth E (get_self E)) (\<lambda>_.
     bindE (require_auth E executer) (\<lambda>_.
     Inr [Send_deferred (deferred_id executer (now E)) executer 0 (Trx_packed trx) False]))"

record bios_state =
  bios_abihash :: "(name, abi_hash) table"
  bios_limits :: "(name, int \<times> int \<times> int) table"
  bios_effects :: "effect list"

definition bios_emit :: "effect \<Rightarrow> bios_state \<Rightarrow> bios_state" where
  "bios_emit e B = B\<lparr>bios_effects := bios_effects B @ [e]\<rparr>"

definition bios_setabi :: "env \<Rightarrow> name \<Rightarrow> bytes \<Rightarrow> bios_state \<Rightarrow> bios_state res" where
  "bios_setabi E acct abi B =
     Inr (B\<lparr>bios_abihash := fmupd acct
       (case fmlookup (bios_abihash B) acct of
          None \<Rightarrow> \<lparr>ah_owner = acct, ah_hash = sha256 E abi\<rparr>
        | Some row \<Rightarrow> row\<lparr>ah_hash := sha256 E abi\<rparr>) (bios_abihash B)\<rparr>)"

definition bios_onerror :: "bios_state \<Rightarrow> bios_state res" where
  "bios_onerror B = bindE (check False ''the onerror action cannot be called directly'') (\<lambda>_. Inr B)"

definition bios_setpriv :: "env \<Rightarrow> name \<Rightarrow> int \<Rightarrow> bios_state \<Rightarrow> bios_state res" where
  "bios_setpriv E acct is_priv B =
     bindE (require_auth E (get_self E)) (\<lambda>_. Inr (bios_emit (Set_privileged acct is_priv) B))"

definition bios_setalimits :: "env \<Rightarrow> name \<Rightarrow> int \<Rightarrow> int \<Rightarrow> int \<Rightarrow> bios_state \<Rightarrow> bios_state res" where
  "bios_setalimits E acct ram net cpu B =
     bindE (require_auth E (get_self E)) (\<lambda>_.
     Inr (B\<lparr>bios_limits := fmupd acct (ram, net, cpu) (bios_limits B)\<rparr>))"

definition bios_setprods :: "env \<Rightarrow> (name \<times> bytes) list \<Rightarrow> bios_state \<Rightarrow> bios_state res" where
  "bios_setprods E schedule B =
     bindE (require_auth E (get_self E)) (\<lambda>_. Inr (bios_emit (Set_proposed_producers schedule) B))"

definition bios_setparams :: "env \<Rightarrow> blockchain_parameters \<Rightarrow> bios_state \<Rightarrow> bios_state res" where
  "bios_setparams E params B =
     bindE (require_auth E (get_self E)) (\<lambda>_.
     Inr (bios_emit (Set_blockchain_parameters (max_authority_depth params # other_parameters params)) B))"

definition bios_reqauth :: "env \<Rightarrow> name \<Rightarrow> bios_state \<Rightarrow> bios_state res" where
  "bios_reqauth E from B = bindE (require_auth E from) (\<lambda>_. Inr B)"

definition bios_activate :: "env \<Rightarrow> bytes \<Rightarrow> bios_state \<Rightarrow> bios_state res" where
  "bios_activate E digest B =
     bindE (require_auth E (get_self E)) (\<lambda>_. Inr (bios_emit (Preactivate_feature digest) B))"

definition bios_reqactivated :: "(bytes \<Rightarrow> bool) \<Rightarrow> bytes \<Rightarrow> bios_state \<Rightarrow> bios_state res" where
  "bios_reqactivated activated digest B =
     bindE (check (activated digest) ''protocol feature is not activated'') (\<lambda>_. Inr B)"

text \<open>
  The actions of \<open>eosio.bios\<close> as values. All but \<open>setabi\<close>, \<open>reqauth\<close> and \<open>reqactivated\<close> are
  reserved to the contract's own account.
\<close>

datatype bios_action =
    B_setabi name bytes
  | B_onerror
  | B_setpriv name int
  | B_setalimits name int int int
  | B_setprods "(name \<times> bytes) list"
  | B_setparams blockchain_parameters
  | B_reqauth name
  | B_activate bytes
  | B_reqactivated bytes

fun bios_exec :: "env \<Rightarrow> (bytes \<Rightarrow> bool) \<Rightarrow> bios_action \<Rightarrow> bios_state \<Rightarrow> bios_state res" where
  "bios_exec E act (B_setabi a abi) B = bios_setabi E a abi B"
| "bios_exec E act B_onerror B = bios_onerror B"
| "bios_exec E act (B_setpriv a p) B = bios_setpriv E a p B"
| "bios_exec E act (B_setalimits a r n c) B = bios_setalimits E a r n c B"
| "bios_exec E act (B_setprods s) B = bios_setprods E s B"
| "bios_exec E act (B_setparams p) B = bios_setparams E p B"
| "bios_exec E act (B_reqauth a) B = bios_reqauth E a B"
| "bios_exec E act (B_activate d) B = bios_activate E d B"
| "bios_exec E act (B_reqactivated d) B = bios_reqactivated act d B"

section \<open>Histories of the bios contract\<close>

text \<open>Actions one after the other; one that fails leaves the state as it was.\<close>

fun bios_history :: "(env \<times> (bytes \<Rightarrow> bool) \<times> bios_action) list \<Rightarrow> bios_state \<Rightarrow> bios_state" where
  "bios_history [] B = B"
| "bios_history ((E, act, a) # h) B =
     bios_history h (case bios_exec E act a B of Inl _ \<Rightarrow> B | Inr B' \<Rightarrow> B')"

text \<open>The hash that the last \<open>setabi\<close> for an account has left.\<close>

fun last_hash :: "(env \<times> (bytes \<Rightarrow> bool) \<times> bios_action) list \<Rightarrow> name \<Rightarrow> bytes option \<Rightarrow> bytes option" where
  "last_hash [] n x = x"
| "last_hash ((E, act, a) # h) n x =
     last_hash h n (case a of B_setabi m abi \<Rightarrow> if m = n then Some (sha256 E abi) else x | _ \<Rightarrow> x)"

lemma bios_privileged:
  assumes "bios_exec E act a B = Inr B'" "\<not> has_auth E (get_self E)"
  shows "bios_limits B' = bios_limits B \<and> bios_effects B' = bios_effects B"
  using assms
  by (cases a) (auto simp: bios_setabi_def bios_onerror_def bios_setpriv_def bios_setalimits_def bios_setprods_def bios_setparams_def
      bios_reqauth_def bios_activate_def bios_reqactivated_def)

lemma bios_hashes:
  assumes "bios_exec E act a B = Inr B'"
  shows "map_option ah_hash (fmlookup (bios_abihash B') n) = last_hash [(E, act, a)] n (map_option ah_hash (fmlookup (bios_abihash B) n))"
  using assms
  by (cases a) (auto simp: bios_setabi_def bios_onerror_def bios_setpriv_def bios_setalimits_def bios_setprods_def bios_setparams_def
      bios_reqauth_def bios_activate_def bios_reqactivated_def bios_emit_def split: option.split)

lemma bios_failure: "bios_exec E act a B = Inl e \<Longrightarrow> last_hash [(E, act, a)] n x = x"
  by (cases a) (simp_all add: bios_setabi_def)

text \<open>
  C40: Without the authority of the contract's own account no history of actions on \<open>eosio.bios\<close>
  changes the resource limits of an account or reaches the chain's privileged functions; and the
  recorded hash of an interface is always that of the last one set for the account.
\<close>

theorem bios_is_reserved:
  assumes "\<forall>(E, act, a) \<in> set h. \<not> has_auth E (get_self E)"
  shows "bios_limits (bios_history h B) = bios_limits B \<and> bios_effects (bios_history h B) = bios_effects B \<and>
    map_option ah_hash (fmlookup (bios_abihash (bios_history h B)) n) = last_hash h n (map_option ah_hash (fmlookup (bios_abihash B) n))"
  using assms
proof (induction h B rule: bios_history.induct)
  case (2 E act a h B)
  then show ?case
  proof (cases "bios_exec E act a B")
    case (Inl e)
    then show ?thesis using 2 bios_failure [OF Inl] by simp
  next
    case (Inr B')
    then show ?thesis using 2 bios_privileged [OF Inr] bios_hashes [OF Inr, of n] by simp
  qed
qed simp

theorem bios_is_reserved_witness:
  "let E = ref_env\<lparr>has_auth := \<lambda>w. w = 7\<rparr>;
     B = \<lparr>bios_abihash = fmempty, bios_limits = fmempty, bios_effects = []\<rparr>
   in bios_effects (bios_history [(E, \<lambda>_. True, B_setpriv 7 1), (E, \<lambda>_. True, B_setabi 7 [1])] B) = []"
  unfolding Let_def
  by (rule bios_is_reserved [THEN conjunct2, THEN conjunct1, THEN trans]) (simp_all add: ref_env_def eosio_account_def)

end
