(* ===== verification/Builtin.thy ===== *)
theory Builtin
  imports Escrow
begin

text \<open>
  Actions without code in the contracts. The chain carries out \<open>updateauth\<close>, \<open>setcode\<close> and the like
  itself and then runs the handler of the system contract, which is empty (\<open>native.hpp\<close>, and for the
  first system contract \<open>eosio.bios.hpp\<close>). The contract \<open>rex.results\<close> receives the inline actions by
  which the REX shows its results; its dispatcher does nothing whatever action it is given.
\<close>

section \<open>Authorities\<close>

record permission_level_weight =
  pw_permission :: permission_level
  pw_weight :: int

record key_weight =
  kw_key :: bytes
  kw_weight :: int

record wait_weight =
  wait_sec :: int
  ww_weight :: int

record authority =
  threshold :: int
  keys :: "key_weight list"
  accounts_of :: "permission_level_weight list"
  waits :: "wait_weight list"

section \<open>Native actions\<close>

definition updateauth :: "name \<Rightarrow> name \<Rightarrow> name \<Rightarrow> authority \<Rightarrow> 's \<Rightarrow> 's res" where
  "updateauth account perm parent auth S = Inr S"

definition deleteauth :: "name \<Rightarrow> name \<Rightarrow> 's \<Rightarrow> 's res" where
  "deleteauth account perm S = Inr S"

definition linkauth :: "name \<Rightarrow> name \<Rightarrow> name \<Rightarrow> name \<Rightarrow> 's \<Rightarrow> 's res" where
  "linkauth account code type requirement S = Inr S"

definition unlinkauth :: "name \<Rightarrow> name \<Rightarrow> name \<Rightarrow> 's \<Rightarrow> 's res" where
  "unlinkauth account code type S = Inr S"

definition canceldelay :: "permission_level \<Rightarrow> bytes \<Rightarrow> 's \<Rightarrow> 's res" where
  "canceldelay canceling_auth trx_id S = Inr S"

definition setcode :: "name \<Rightarrow> int \<Rightarrow> int \<Rightarrow> bytes \<Rightarrow> 's \<Rightarrow> 's res" where
  "setcode account vmtype vmversion code S = Inr S"

text \<open>In \<open>eosio.bios\<close> anybody may also name a new account as he likes.\<close>

definition bios_newaccount :: "name \<Rightarrow> name \<Rightarrow> authority \<Rightarrow> authority \<Rightarrow> 's \<Rightarrow> 's res" where
  "bios_newaccount creator newact owner active S = Inr S"

section \<open>Results of the REX\<close>

definition buyresult :: "asset \<Rightarrow> 's \<Rightarrow> 's res" where
  "buyresult rex_received S = Inr S"

definition sellresult :: "asset \<Rightarrow> 's \<Rightarrow> 's res" where
  "sellresult result_proceeds S = Inr S"

definition orderresult :: "name \<Rightarrow> asset \<Rightarrow> 's \<Rightarrow> 's res" where
  "orderresult owner result_proceeds S = Inr S"

definition rentresult :: "asset \<Rightarrow> 's \<Rightarrow> 's res" where
  "rentresult rented_tokens S = Inr S"

definition rex_results_apply :: "name \<Rightarrow> name \<Rightarrow> name \<Rightarrow> 's \<Rightarrow> 's res" where
  "rex_results_apply receiver code act S = Inr S"

text \<open>An inline action to \<open>rex.results\<close> is carried out on the tokens as its code does.\<close>

lemma results_delivered:
  "token_deliver E (Rex_buyresult q) = buyresult q" "token_deliver E (Rex_sellresult q) = sellresult q"
  "token_deliver E (Rex_orderresult w q) = orderresult w q" "token_deliver E (Rex_rentresult q) = rentresult q"
  by (simp_all add: fun_eq_iff buyresult_def sellresult_def orderresult_def rentresult_def)

end
