(* ===== verification/Spec2Isabelle.thy ===== *)
theory Spec2Isabelle
  imports Lifecycle Owners Vote_Stake Bandwidth Relay Msig_Laws Wrap_Bios Builtin
begin

text \<open>
  The system contracts of the chain: tokens, staking, memory market, name auctions, REX, voting,
  producer pay, multisignature wallet.

  \<^bold>\<open>The program.\<close> The chain pushes an action to a contract. The action reads and writes rows of
  the contract's tables, may abort, and may hand the chain inline actions (mostly token transfers),
  deferred transactions and privileged calls, which run after it. Almost all logic is in two
  contracts. \<open>eosio.token\<close> keeps balances and supplies. \<open>eosio.system\<close> keeps voters and producers,
  staked bandwidth, the memory market, name auctions and the REX (a pool of tokens that is lent out
  as bandwidth), and holds the tokens of its users on escrow accounts of the token contract:
  \<open>eosio.stake\<close>, \<open>eosio.ram\<close>, \<open>eosio.names\<close>, \<open>eosio.rex\<close>, \<open>eosio.bpay\<close>, \<open>eosio.vpay\<close>. Its
  parts call each other: fees of the memory market and the proceeds of auctions flow into the REX,
  staking and REX change vote weights, which change votes of producers and their pay, and most
  actions first run the maintenance of the REX (\<open>runrex\<close>).

  \<^bold>\<open>The model.\<close> An action is a function from an environment, its arguments and the state of its
  contract to a result: \<open>Inr\<close> the new state, or \<open>Inl\<close> the failed check, missing authorization or
  machine trap that aborts it. Effects are appended to the state in the order the code sends them.
  Integers are brought back to their C++ width where an operation can leave it, doubles are
  rationals rounded to 53 bits, tables are finite maps, a secondary index is a sorted list of rows.
  The environment \<open>env\<close> (theory \<open>Chain\<close>) holds what is not code of these contracts: time,
  authorizations, account existence, and the functions of the development toolkit. What is relied
  on of the toolkit's assets is the hypothesis \<open>lib_ok\<close>; \<open>ref_env\<close> is an environment for which
  it holds.

  \<^bold>\<open>Definitions and the files they model\<close> (under \<open>src/contracts\<close>):

  \<^item> \<open>Prelude\<close>, \<open>Double\<close>, \<open>Chain\<close>: results, integers, tables, doubles, names, assets, effects.
  \<^item> \<open>Token\<close>: \<open>eosio.token\<close>, all six actions.
  \<^item> \<open>System_State\<close>: the tables of \<open>eosio.system.hpp\<close> and \<open>native.hpp\<close>, one record for each part
    (\<open>vs\<close> voting, \<open>rs\<close> resources, \<open>rx\<close> REX, \<open>ns\<close> names, \<open>rammarket\<close>) and the sent \<open>effects\<close>.
  \<^item> \<open>Exchange\<close>, \<open>Relay\<close>: \<open>exchange_state.cpp\<close>. \<open>Ram\<close>: the memory actions of
    \<open>delegate_bandwidth.cpp\<close> and \<open>eosio.system.cpp\<close>.
  \<^item> \<open>Voting\<close>: \<open>voting.cpp\<close>. \<open>Delegate\<close>: the staking actions of \<open>delegate_bandwidth.cpp\<close>.
  \<^item> \<open>Rex_Core\<close>, \<open>Rex_Run\<close>, \<open>Rex_Actions\<close>: \<open>rex.cpp\<close>, from the pool and balances through the
    maintenance to the actions.
  \<^item> \<open>Names\<close>: \<open>name_bidding.cpp\<close> and \<open>newaccount\<close>. \<open>Pay\<close>: \<open>producer_pay.cpp\<close>. \<open>Admin\<close>: the
    privileged actions of \<open>eosio.system.cpp\<close>. \<open>Lifecycle\<close>: the constructor and destructor of
    \<open>system_contract\<close>, which read and write the rows around every action.
  \<^item> \<open>Msig\<close>: \<open>eosio.msig\<close>. \<open>Wrap_Bios\<close>: \<open>eosio.wrap\<close> and \<open>eosio.bios\<close>. \<open>Builtin\<close>: the actions with
    empty bodies of \<open>native.hpp\<close> and \<open>eosio.bios.hpp\<close>, and \<open>rex.results.cpp\<close>.

  A function of the code that is long is a function here that is composed of the steps of its
  body, each with a name (\<open>claimrewards\<close> of \<open>new_tokens_since\<close>, \<open>inflation_split\<close>, \<open>fill_buckets\<close>,
  \<open>block_pay\<close>, \<open>vote_pay\<close>, \<open>pay_effects\<close>; \<open>changebw\<close> of \<open>change_delband\<close>, \<open>change_totals\<close>,
  \<open>change_refund\<close>, \<open>settle_stake\<close>).

  \<^bold>\<open>What is shown.\<close>

  \<^item> \<open>Token\<close>, \<open>Token_Spec\<close>: in every reachable state supplies are sums of balances; rows are well
    typed; the contract refines a ledger of unbounded amounts, errors included.
  \<^item> \<open>Ledger\<close>, \<open>Escrow\<close>: the interfaces. A ledger (locale \<open>ledger\<close>, interpreted by the token
    contract) carries effects out; an escrow (locale \<open>escrow\<close>) is a group of actions under which
    what is owed out of an account grows by no more than the effects move in; a funded escrow stays
    solvent. It is interpreted for the REX, the memory market, name auctions and staking.
  \<^item> \<open>Rex_Laws\<close>, \<open>Rex_Buckets\<close>, \<open>Rex_Holders\<close>, \<open>Rex_Flow\<close>, \<open>Rex_Conservation\<close>, \<open>Rex_Spec\<close>: the
    invariant \<open>rex_inv\<close> of the REX and its conservation through every action; prices, maturity of
    balances, consolidation.
  \<^item> \<open>Ram_Laws\<close>: the books of the memory market, fees, round trips, and how its supply grows.
    \<open>Exchange\<close> has the error bound of the rounded Bancor formula, \<open>Relay\<close> the two-step conversion.
  \<^item> \<open>Names_Laws\<close>: rules of bidding, closing and account creation. \<open>Stake_Laws\<close>: delegation,
    refunds and their escrow.
  \<^item> \<open>Voting_Laws\<close>: proxies form a forest, so weights propagate in bounded depth; a vote equals a
    reference that looks at one producer at a time; the schedule. \<open>Pay_Laws\<close>: inflation and claims.
  \<^item> \<open>Frames\<close>, \<open>Rex_Frames\<close>, \<open>Cross\<close>, \<open>Cross_Groups\<close>: what each component leaves alone of the books of
    the others. \<open>System_Actions\<close>: all actions as one function, the invariant \<open>sys_inv\<close> of all books,
    kept by every action. \<open>System\<close>: both contracts as one machine in which an action runs with all
    its inline transfers; no escrow account ever holds less than is owed out of it. \<open>Authority\<close>: whose
    signature each action needs. \<open>Rex_Rows\<close>, \<open>Owners\<close>: what is reduced by nobody but its owner.
    \<open>System_Votes\<close>: proxies stay a forest whatever the other components
    do. \<open>System_Live\<close>: refunds, outbid bids and, unless a filled order waits to be settled,
    funds of the REX can be collected when they are due.
    \<open>Tally\<close>: differences of amounts in several tables that no action changes, as a locale interpreted twice.
    \<open>Vote_Stake\<close>: the stake of a voter and the change a filled order holds for it count what it has
    delegated and the value of its REX, whatever actions come in between; all but
    \<open>unstaketorex\<close>, which loses the growth of that value, and \<open>closerex\<close>.
    \<open>Bandwidth\<close>: the weights of an account are what is delegated to it and rented for it, and its limits on
    the chain follow the weights unless they are managed by hand, through every action.
    \<open>Lifecycle\<close>: an action on the stored rows; the contract is solvent from the empty database on,
    before and after \<open>init\<close>.
  \<^item> \<open>Msig_Laws\<close>: what is executed was proposed and consented to. \<open>Wrap_Bios\<close>: who may use
    \<open>eosio.bios\<close>.

  \<^bold>\<open>Bounds.\<close> \<open>core_cap\<close> is 4*10^14, the most units of the core token (with four decimals,
  forty billion tokens) for which the REX is written: \<open>rex_ratio\<close> times it is below 2^62;
  \<open>market_max\<close> is 2^50, the reserves for which a rounded Bancor result is within one unit of the
  exact one. The predicates \<open>*_fits\<close> state, for each action, that its arguments stay within them.
  The propagation of vote weights recurses along proxies; it is given the depth \<open>proxy_depth\<close>, one
  more than the number of voters, which is enough by \<open>propagation_ends\<close>. All other loops are
  structural or bounded by the code.

  \<^bold>\<open>Not modelled.\<close> Who pays for the memory of a row; fields that no code reads (row
  versions, reserved bytes, the rest of a block header); the dispatchers; the tests and build files.
  The chain's transaction scheduler, its authority checks and the serialization of transactions are parameters.
\<close>

end
